(* ===== verification/Prelude.thy ===== *)
theory Prelude
  imports Main "HOL-Library.Word" "HOL-Library.Multiset" "HOL-Library.Char_ord" "HOL-Library.List_Lexorder"
begin

text \<open>
  Shared vocabulary of the development: the machine integers of the C++ sources, the outcome of
  code that may hit an \<open>assert\<close>, the error numbers the query engine stores in
  \<open>status_details\<close>, the parts of \<open>std::string\<close>, \<open>strtoul\<close>, \<open>atoi\<close> and stream extraction
  the sources use, and the collections of rewrite rules the component theories extend.
  \<open>std::string\<close> is a \<^typ>\<open>string\<close>; its \<open>operator<\<close> compares bytes
  lexicographically, which is the order the library theories \<open>Char_ord\<close> and
  \<open>List_Lexorder\<close> put on \<^typ>\<open>string\<close>.
\<close>

named_theorems qe_simps \<open>defining equations of small query-engine helpers\<close>
named_theorems swo_intros \<open>closure facts for comparators\<close>

section \<open>Machine integers\<close>

type_synonym u8 = "8 word"
type_synonym u16 = "16 word"
type_synonym u32 = "32 word"
type_synonym u64 = "64 word"

section \<open>Outcomes\<close>

text \<open>
  \<open>Abort\<close> is a failed \<open>assert\<close> / \<open>QE_ASSERT\<close>, an uncaught exception or an access the
  language leaves undefined: the process does not continue.
\<close>

datatype 'a outcome = Ret (the_ret: 'a) | Abort

fun bind_outcome :: "'a outcome \<Rightarrow> ('a \<Rightarrow> 'b outcome) \<Rightarrow> 'b outcome" where
  "bind_outcome (Ret x) f = f x"
| "bind_outcome Abort f = Abort"

lemma bind_outcome_Ret_iff:
  "bind_outcome m f = Ret y \<longleftrightarrow> (\<exists>x. m = Ret x \<and> f x = Ret y)"
  by (cases m) auto

lemma bind_outcome_assoc:
  "bind_outcome (bind_outcome m f) g = bind_outcome m (\<lambda>x. bind_outcome (f x) g)"
  by (cases m) auto

fun foldl_outcome :: "('s \<Rightarrow> 'a \<Rightarrow> 's outcome) \<Rightarrow> 's \<Rightarrow> 'a list \<Rightarrow> 's outcome" where
  "foldl_outcome f s [] = Ret s"
| "foldl_outcome f s (x # xs) = bind_outcome (f s x) (\<lambda>s'. foldl_outcome f s' xs)"

lemma foldl_outcome_append:
  "foldl_outcome f s (xs @ ys) = bind_outcome (foldl_outcome f s xs) (\<lambda>s'. foldl_outcome f s' ys)"
proof (induction xs arbitrary: s)
  case (Cons x xs)
  then show ?case by (cases "f s x") auto
qed simp

lemma foldl_outcome_runs:
  assumes "P s" and "\<And>s x. P s \<Longrightarrow> x \<in> set xs \<Longrightarrow> \<exists>t. f s x = Ret t \<and> P t"
  shows "\<exists>t. foldl_outcome f s xs = Ret t \<and> P t"
  using assms
proof (induction xs arbitrary: s)
  case (Cons x xs)
  from Cons.prems(2)[OF Cons.prems(1)] obtain t where t: "f s x = Ret t" "P t" by auto
  have "\<exists>u. foldl_outcome f t xs = Ret u \<and> P u" by (rule Cons.IH[OF t(2)]) (use Cons.prems(2) in auto)
  with t(1) show ?case by simp
qed simp

text \<open>The values of \<open>status_details\<close> the sources assign (errno names; 0 is no error).\<close>

datatype qe_errno = EBADMSG | EINVAL | EIO | ENOENT | EMINUS1

section \<open>Strings\<close>

definition starts_with :: "string \<Rightarrow> string \<Rightarrow> bool" where
  "starts_with s p \<longleftrightarrow> take (length p) s = p"

definition ends_with :: "string \<Rightarrow> string \<Rightarrow> bool" where
  "ends_with s p \<longleftrightarrow> length p \<le> length s \<and> drop (length s - length p) s = p"

text \<open>\<open>s.substr(pos, n)\<close>: throws \<open>out_of_range\<close> when \<open>pos\<close> is past the end.\<close>

definition substr :: "string \<Rightarrow> nat \<Rightarrow> nat \<Rightarrow> string outcome" where
  "substr s pos n = (if pos \<le> length s then Ret (take n (drop pos s)) else Abort)"

definition substr_from :: "string \<Rightarrow> nat \<Rightarrow> string outcome" where
  "substr_from s pos = (if pos \<le> length s then Ret (drop pos s) else Abort)"

text \<open>\<open>s.find(c)\<close>: the first position of \<open>c\<close>, \<open>None\<close> for \<open>npos\<close>.\<close>

fun find_char :: "char \<Rightarrow> string \<Rightarrow> nat option" where
  "find_char c [] = None"
| "find_char c (x # xs) = (if x = c then Some 0 else map_option Suc (find_char c xs))"

definition find_char_from :: "char \<Rightarrow> string \<Rightarrow> nat \<Rightarrow> nat option" where
  "find_char_from c s pos = map_option (\<lambda>i. i + pos) (find_char c (drop pos s))"

definition find_last_char :: "char \<Rightarrow> string \<Rightarrow> nat option" where
  "find_last_char c s = map_option (\<lambda>i. length s - Suc i) (find_char c (rev s))"

lemma find_char_Some:
  "find_char c s = Some i \<Longrightarrow> i < length s \<and> s ! i = c \<and> c \<notin> set (take i s)"
proof (induction s arbitrary: i)
  case (Cons x xs)
  show ?case
  proof (cases "x = c")
    case False
    with Cons.prems obtain j where "find_char c xs = Some j" "i = Suc j" by auto
    with Cons.IH[of j] False show ?thesis by auto
  qed (use Cons.prems in simp)
qed simp

lemma find_char_None [simp]: "find_char c s = None \<longleftrightarrow> c \<notin> set s"
  by (induction s) auto

lemma find_char_append:
  "c \<notin> set xs \<Longrightarrow> find_char c (xs @ c # ys) = Some (length xs)"
  by (induction xs) auto

text \<open>\<open>s.c_str()\<close> handed to rapidjson: the string up to its first NUL.\<close>

definition c_str :: "string \<Rightarrow> string" where
  "c_str s = takeWhile (\<lambda>c. c \<noteq> CHR 0x00) s"

section \<open>Numbers in strings\<close>

definition is_space :: "char \<Rightarrow> bool" where
  "is_space c \<longleftrightarrow> of_char c \<in> {9, 10, 11, 12, 13, 32 :: nat}"

definition is_digit :: "char \<Rightarrow> bool" where
  "is_digit c \<longleftrightarrow> 48 \<le> (of_char c :: nat) \<and> (of_char c :: nat) \<le> 57"

definition digit_val :: "char \<Rightarrow> nat" where
  "digit_val c = of_char c - 48"

definition digits_val :: "string \<Rightarrow> nat" where
  "digits_val s = foldl (\<lambda>n c. 10 * n + digit_val c) 0 s"

text \<open>The shared front end of \<open>strtol\<close>, \<open>strtoul\<close> and \<open>operator>>\<close>: white space,
  an optional sign, the longest run of digits.\<close>

definition scan_int :: "string \<Rightarrow> bool \<times> string" where
  "scan_int s =
     (let t = dropWhile is_space s
      in case t of
           [] \<Rightarrow> (False, [])
         | c # r \<Rightarrow> if c = CHR ''-'' then (True, takeWhile is_digit r)
                    else if c = CHR ''+'' then (False, takeWhile is_digit r)
                    else (False, takeWhile is_digit t))"

text \<open>\<open>strtoul(s, NULL, 10)\<close>: saturates at \<open>ULONG_MAX\<close>, negates modulo \<open>2^64\<close>.\<close>

definition strtoul :: "string \<Rightarrow> u64" where
  "strtoul s =
     (let (neg, ds) = scan_int s; n = digits_val ds
      in if n \<ge> 2 ^ 64 then - 1 else if neg then - of_nat n else of_nat n)"

text \<open>\<open>atoi(s)\<close> is \<open>(int) strtol(s, NULL, 10)\<close>: saturated to 64 bits, then truncated.\<close>

definition strtol :: "string \<Rightarrow> int" where
  "strtol s =
     (let (neg, ds) = scan_int s; n = int (digits_val ds)
      in if neg then max (- n) (- (2 ^ 63)) else min n (2 ^ 63 - 1))"

definition atoi :: "string \<Rightarrow> int" where
  "atoi s = sint (word_of_int (strtol s) :: u32)"

text \<open>\<open>std::istringstream(s) >> x\<close> for a 16-bit unsigned \<open>x\<close>: no digits stores 0, a value out
  of range stores the maximum (both set \<open>failbit\<close>, which the sources never read).\<close>

definition istream_u16 :: "string \<Rightarrow> u16" where
  "istream_u16 s =
     (let (neg, ds) = scan_int s; n = digits_val ds
      in if n > 65535 then 65535 else if neg then - of_nat n else of_nat n)"

text \<open>The same for \<open>int\<close>: saturates at both ends.\<close>

definition istream_int :: "string \<Rightarrow> int" where
  "istream_int s =
     (let (neg, ds) = scan_int s; n = int (digits_val ds)
      in if neg then max (- n) (- (2 ^ 31)) else min n (2 ^ 31 - 1))"

lemma digits_val_Nil [simp]: "digits_val [] = 0"
  by (simp add: digits_val_def)

lemma digits_val_snoc [simp]: "digits_val (s @ [c]) = 10 * digits_val s + digit_val c"
  by (simp add: digits_val_def)

lemma atoi_bounds: "- (2 ^ 31) \<le> atoi s" "atoi s < 2 ^ 31"
  using sint_greater_eq[of "word_of_int (strtol s) :: u32"]
    sint_less[of "word_of_int (strtol s) :: u32"]
  by (simp_all add: atoi_def)

text \<open>Decimal printing, as \<open>ostream << n\<close> and \<open>integerToString\<close> of a non-negative number do.\<close>

fun show_nat :: "nat \<Rightarrow> string" where
  "show_nat n = (if n < 10 then [char_of (48 + n)] else show_nat (n div 10) @ [char_of (48 + n mod 10)])"

declare show_nat.simps [simp del]

definition show_int :: "int \<Rightarrow> string" where
  "show_int i = (if i < 0 then CHR ''-'' # show_nat (nat (- i)) else show_nat (nat i))"

lemma of_char_digit: "n < 10 \<Longrightarrow> of_char (char_of (48 + n)) = (48 + n :: nat)"
  by (simp add: of_char_of)

lemma show_nat_digits: "list_all is_digit (show_nat n)"
proof (induction n rule: show_nat.induct)
  case (1 n)
  show ?case
  proof (cases "n < 10")
    case True
    then show ?thesis
      by (subst show_nat.simps) (simp add: is_digit_def of_char_digit)
  next
    case False
    with 1 have "list_all is_digit (show_nat (n div 10))" by simp
    with False show ?thesis
      by (subst show_nat.simps) (simp add: is_digit_def of_char_digit)
  qed
qed

lemma digits_val_show_nat [simp]: "digits_val (show_nat n) = n"
proof (induction n rule: show_nat.induct)
  case (1 n)
  show ?case
  proof (cases "n < 10")
    case True
    then have "digit_val (char_of (48 + n)) = n"
      using of_char_digit[of n] by (simp add: digit_val_def)
    with True show ?thesis
      by (subst show_nat.simps) (simp add: digits_val_def)
  next
    case False
    with 1 have "digits_val (show_nat (n div 10)) = n div 10" by simp
    moreover have "digit_val (char_of (48 + n mod 10)) = n mod 10"
      using of_char_digit[of "n mod 10"] by (simp add: digit_val_def)
    ultimately show ?thesis using False
      by (subst show_nat.simps) simp
  qed
qed

lemma show_nat_Nil [simp]: "show_nat n \<noteq> []"
  by (subst show_nat.simps) simp

lemma is_digit_not_space: "is_digit c \<Longrightarrow> \<not> is_space c"
  by (auto simp: is_digit_def is_space_def)

lemma takeWhile_all: "list_all P xs \<Longrightarrow> takeWhile P xs = xs"
  by (simp add: list_all_iff)

lemma scan_int_digits:
  assumes "list_all is_digit s"
  shows "scan_int s = (False, s)"
proof (cases s)
  case (Cons c r)
  with assms have c: "is_digit c" by simp
  then have sp: "\<not> is_space c" by (rule is_digit_not_space)
  from c have "c \<noteq> CHR ''-''" "c \<noteq> CHR ''+''" by (auto simp: is_digit_def)
  with Cons sp show ?thesis
    using takeWhile_all[OF assms] by (simp add: scan_int_def)
qed (simp add: scan_int_def)

lemma scan_int_show_nat [simp]: "scan_int (show_nat n) = (False, show_nat n)"
  by (rule scan_int_digits[OF show_nat_digits])

text \<open>Printing and reading back are inverse in range: the round trip of the numeric fields.\<close>

lemma strtoul_show_nat: "n < 2 ^ 64 \<Longrightarrow> strtoul (show_nat n) = of_nat n"
  by (simp add: strtoul_def)

lemma istream_u16_show_nat: "n < 2 ^ 16 \<Longrightarrow> istream_u16 (show_nat n) = of_nat n"
  by (simp add: istream_u16_def)

lemma atoi_show_nat:
  assumes "n < 2 ^ 31"
  shows "atoi (show_nat n) = int n"
proof -
  have "strtol (show_nat n) = int n" using assms by (simp add: strtol_def)
  moreover have "signed_take_bit 31 (int n) = int n"
    using assms by (simp add: signed_take_bit_int_eq_self)
  ultimately show ?thesis by (simp add: atoi_def signed_of_nat)
qed

section \<open>Ordered association lists\<close>

text \<open>
  \<open>std::map\<close> with \<open>operator<\<close> on the keys is modelled, where its iteration order matters, by an
  association list with strictly increasing keys.
\<close>

fun map_insert :: "'k::linorder \<Rightarrow> 'v \<Rightarrow> ('k \<times> 'v) list \<Rightarrow> ('k \<times> 'v) list" where
  "map_insert k v [] = [(k, v)]"
| "map_insert k v ((k', v') # m) =
     (if k < k' then (k, v) # (k', v') # m
      else if k = k' then (k', v') # m
      else (k', v') # map_insert k v m)"

fun map_assign :: "'k::linorder \<Rightarrow> 'v \<Rightarrow> ('k \<times> 'v) list \<Rightarrow> ('k \<times> 'v) list" where
  "map_assign k v [] = [(k, v)]"
| "map_assign k v ((k', v') # m) =
     (if k < k' then (k, v) # (k', v') # m
      else if k = k' then (k, v) # m
      else (k', v') # map_assign k v m)"

abbreviation sorted_map :: "('k::linorder \<times> 'v) list \<Rightarrow> bool" where
  "sorted_map m \<equiv> sorted_wrt (<) (map fst m)"

lemma fst_map_insert [simp]: "fst ` set (map_insert k v m) = insert k (fst ` set m)"
  by (induction k v m rule: map_insert.induct) auto

lemma fst_map_assign [simp]: "fst ` set (map_assign k v m) = insert k (fst ` set m)"
  by (induction k v m rule: map_assign.induct) auto

lemma sorted_map_Cons:
  "sorted_map ((k, v) # m) \<longleftrightarrow> (\<forall>x \<in> fst ` set m. k < x) \<and> sorted_map m"
  by auto

lemma sorted_map_insert: "sorted_map m \<Longrightarrow> sorted_map (map_insert k v m)"
proof (induction k v m rule: map_insert.induct)
  case (2 k v k' v' m)
  then show ?case
    unfolding map_insert.simps(2) by (auto simp: sorted_map_Cons simp del: list.map)
qed simp

lemma sorted_map_assign: "sorted_map m \<Longrightarrow> sorted_map (map_assign k v m)"
proof (induction k v m rule: map_assign.induct)
  case (2 k v k' v' m)
  then show ?case
    unfolding map_assign.simps(2) by (auto simp: sorted_map_Cons simp del: list.map)
qed simp

lemma map_of_insert:
  "sorted_map m \<Longrightarrow>
     map_of (map_insert k v m) x = (if x = k \<and> map_of m k = None then Some v else map_of m x)"
proof (induction k v m rule: map_insert.induct)
  case (2 k v k' v' m)
  have less: "k < k' \<Longrightarrow> map_of m k = None"
    using "2.prems" by (fastforce simp: map_of_eq_None_iff)
  show ?case using 2 less by (auto split: if_splits)
qed simp

lemma map_of_assign: "sorted_map m \<Longrightarrow> map_of (map_assign k v m) = (map_of m)(k \<mapsto> v)"
  by (induction k v m rule: map_assign.induct) auto

text \<open>\<open>erase(key)\<close>.\<close>

definition map_erase :: "'k \<Rightarrow> ('k \<times> 'v) list \<Rightarrow> ('k \<times> 'v) list" where
  "map_erase k m = filter (\<lambda>(k', _). k' \<noteq> k) m"

lemma map_of_erase [simp]: "map_of (map_erase k m) = (map_of m)(k := None)"
  by (induction m) (auto simp: map_erase_def)

lemma fst_map_erase [simp]: "fst ` set (map_erase k m) = fst ` set m - {k}"
  by (force simp: map_erase_def)

lemma sorted_map_erase [simp]: "sorted_map m \<Longrightarrow> sorted_map (map_erase k m)"
  by (induction m) (auto simp: map_erase_def)

lemma values_map_assign: "\<lbrakk>\<forall>x \<in> snd ` set m. P x; P v\<rbrakk> \<Longrightarrow> \<forall>x \<in> snd ` set (map_assign k v m). P x"
  by (induction k v m rule: map_assign.induct) auto

lemma values_map_insert: "\<lbrakk>\<forall>x \<in> snd ` set m. P x; P v\<rbrakk> \<Longrightarrow> \<forall>x \<in> snd ` set (map_insert k v m). P x"
  by (induction k v m rule: map_insert.induct) auto

lemma length_map_assign:
  "sorted_map m \<Longrightarrow> length (map_assign k v m) = (if map_of m k = None then Suc (length m) else length m)"
proof (induction k v m rule: map_assign.induct)
  case (2 k v k' v' m)
  have "k < k' \<Longrightarrow> map_of m k = None" using "2.prems" by (fastforce simp: map_of_eq_None_iff)
  with 2 show ?case by auto
qed simp

lemma length_map_erase: "length (map_erase k m) \<le> length m"
  by (simp add: map_erase_def)

section \<open>Sums over updated lists\<close>

lemma sum_list_map_update:
  fixes f :: "'a \<Rightarrow> 'b::comm_monoid_add"
  assumes "i < length xs"
  shows "sum_list (map f (xs[i := x])) + f (xs ! i) = sum_list (map f xs) + f x"
proof -
  have "sum_list (map f xs) = sum_list (map f (take i xs @ xs ! i # drop (Suc i) xs))"
    using id_take_nth_drop[OF assms] by simp
  then show ?thesis by (simp add: upd_conv_take_nth_drop[OF assms] ac_simps)
qed

lemma sum_list_indicator:
  "(\<Sum>x\<leftarrow>xs. if P x then 1 else 0) = (of_nat (length (filter P xs)) :: 'b::semiring_1)"
  by (induction xs) simp_all

end
