(* ===== verification/Std_Algorithms.thy ===== *)
theory Std_Algorithms
  imports Prelude
begin

text \<open>
  The algorithms of the C++ standard library the query engine calls on ranges ordered by a
  comparator: \<open>std::sort\<close>, \<open>std::merge\<close> / \<open>std::inplace_merge\<close>, \<open>std::set_union\<close> and
  \<open>std::set_intersection\<close>, as the standard specifies them. The standard requires a comparator
  that is a strict weak ordering; that contract is the locale \<open>strict_weak_ordering\<close>, relative to
  the set of values that occur, and the facts the callers rely on are proved inside it once.
  \<open>std::sort\<close> leaves the order of equivalent elements open: \<open>std_sort\<close> is one of the allowed
  results, and only facts every allowed result has are exported.
\<close>

definition sorted_by :: "('a \<Rightarrow> 'a \<Rightarrow> bool) \<Rightarrow> 'a list \<Rightarrow> bool" where
  "sorted_by lt xs \<longleftrightarrow> sorted_wrt (\<lambda>x y. \<not> lt y x) xs"

fun insert_by :: "('a \<Rightarrow> 'a \<Rightarrow> bool) \<Rightarrow> 'a \<Rightarrow> 'a list \<Rightarrow> 'a list" where
  "insert_by lt x [] = [x]"
| "insert_by lt x (y # ys) = (if lt y x then y # insert_by lt x ys else x # y # ys)"

definition std_sort :: "('a \<Rightarrow> 'a \<Rightarrow> bool) \<Rightarrow> 'a list \<Rightarrow> 'a list" where
  "std_sort lt xs = foldr (insert_by lt) xs []"

text \<open>\<open>std::merge\<close>: stable, an element of the second range goes first only when it is smaller.\<close>

fun std_merge :: "('a \<Rightarrow> 'a \<Rightarrow> bool) \<Rightarrow> 'a list \<Rightarrow> 'a list \<Rightarrow> 'a list" where
  "std_merge lt [] ys = ys"
| "std_merge lt xs [] = xs"
| "std_merge lt (x # xs) (y # ys) =
     (if lt y x then y # std_merge lt (x # xs) ys else x # std_merge lt xs (y # ys))"

fun std_set_union :: "('a \<Rightarrow> 'a \<Rightarrow> bool) \<Rightarrow> 'a list \<Rightarrow> 'a list \<Rightarrow> 'a list" where
  "std_set_union lt [] ys = ys"
| "std_set_union lt xs [] = xs"
| "std_set_union lt (x # xs) (y # ys) =
     (if lt x y then x # std_set_union lt xs (y # ys)
      else if lt y x then y # std_set_union lt (x # xs) ys
      else x # std_set_union lt xs ys)"

fun std_set_intersection :: "('a \<Rightarrow> 'a \<Rightarrow> bool) \<Rightarrow> 'a list \<Rightarrow> 'a list \<Rightarrow> 'a list" where
  "std_set_intersection lt [] ys = []"
| "std_set_intersection lt xs [] = []"
| "std_set_intersection lt (x # xs) (y # ys) =
     (if lt x y then std_set_intersection lt xs (y # ys)
      else if lt y x then std_set_intersection lt (x # xs) ys
      else x # std_set_intersection lt xs ys)"

text \<open>The three two-range algorithms recurse on one or on both ranges: one induction rule
  serves them all.\<close>

lemma merge_induct [case_names Nil1 Nil2 Cons]:
  assumes "\<And>ys. P [] ys" and "\<And>x xs. P (x # xs) []"
    and "\<And>x xs y ys. \<lbrakk>P xs (y # ys); P (x # xs) ys; P xs ys\<rbrakk> \<Longrightarrow> P (x # xs) (y # ys)"
  shows "P xs ys"
proof (induction xs arbitrary: ys)
  case (Cons x xs)
  show ?case by (induction ys) (auto intro: assms Cons)
qed (rule assms)

lemma sorted_by_simps [simp]:
  "sorted_by lt []"
  "sorted_by lt (x # xs) \<longleftrightarrow> (\<forall>y \<in> set xs. \<not> lt y x) \<and> sorted_by lt xs"
  by (simp_all add: sorted_by_def)

lemma sorted_by_append:
  "sorted_by lt (xs @ ys) \<longleftrightarrow>
     sorted_by lt xs \<and> sorted_by lt ys \<and> (\<forall>x \<in> set xs. \<forall>y \<in> set ys. \<not> lt y x)"
  by (auto simp: sorted_by_def sorted_wrt_append)

lemma sorted_by_rev: "sorted_by lt (rev xs) \<longleftrightarrow> sorted_by (\<lambda>x y. lt y x) xs"
  by (simp add: sorted_by_def sorted_wrt_rev)

lemma sorted_by_take: "sorted_by lt xs \<Longrightarrow> sorted_by lt (take n xs)"
  by (simp add: sorted_by_def sorted_wrt_take)

lemma mset_insert_by [simp]: "mset (insert_by lt x xs) = add_mset x (mset xs)"
  by (induction xs) auto

lemma mset_std_sort [simp]: "mset (std_sort lt xs) = mset xs"
  by (induction xs) (simp_all add: std_sort_def)

lemma set_std_sort [simp]: "set (std_sort lt xs) = set xs"
  using mset_std_sort[of lt xs] by (metis set_mset_mset)

lemma length_std_sort [simp]: "length (std_sort lt xs) = length xs"
  using mset_std_sort[of lt xs] by (metis size_mset)

lemma mset_std_merge [simp]: "mset (std_merge lt xs ys) = mset xs + mset ys"
  by (induction lt xs ys rule: std_merge.induct) auto

lemma set_std_merge [simp]: "set (std_merge lt xs ys) = set xs \<union> set ys"
  using mset_std_merge[of lt xs ys] by (metis set_mset_mset set_mset_union)

lemma set_insert_by [simp]: "set (insert_by lt x xs) = insert x (set xs)"
  by (induction xs) auto

lemma set_std_set_union_subset: "set (std_set_union lt xs ys) \<subseteq> set xs \<union> set ys"
  by (induction lt xs ys rule: std_set_union.induct) auto

lemma set_std_set_intersection_subset: "set (std_set_intersection lt xs ys) \<subseteq> set xs"
  by (induction lt xs ys rule: std_set_intersection.induct) auto

section \<open>The comparator contract\<close>

locale strict_weak_ordering =
  fixes lt :: "'a \<Rightarrow> 'a \<Rightarrow> bool" and A :: "'a set"
  assumes lt_irrefl: "x \<in> A \<Longrightarrow> \<not> lt x x"
    and lt_trans: "\<lbrakk>x \<in> A; y \<in> A; z \<in> A; lt x y; lt y z\<rbrakk> \<Longrightarrow> lt x z"
    and lt_split: "\<lbrakk>x \<in> A; y \<in> A; z \<in> A; lt x z\<rbrakk> \<Longrightarrow> lt x y \<or> lt y z"
begin

lemma lt_asym: "\<lbrakk>x \<in> A; y \<in> A; lt x y\<rbrakk> \<Longrightarrow> \<not> lt y x"
  using lt_irrefl[of x] lt_trans[of x y x] by blast

lemma not_lt_trans: "\<lbrakk>x \<in> A; y \<in> A; z \<in> A; \<not> lt y x; \<not> lt z y\<rbrakk> \<Longrightarrow> \<not> lt z x"
  using lt_split[of z y x] by blast

lemma sorted_by_ConsI:
  "\<lbrakk>x \<in> A; y \<in> A; set ys \<subseteq> A; \<not> lt y x; \<forall>z \<in> set ys. \<not> lt z y\<rbrakk> \<Longrightarrow> \<forall>z \<in> set ys. \<not> lt z x"
  using not_lt_trans by (meson subsetD)

lemma sorted_insert_by:
  "\<lbrakk>x \<in> A; set ys \<subseteq> A; sorted_by lt ys\<rbrakk> \<Longrightarrow> sorted_by lt (insert_by lt x ys)"
proof (induction ys)
  case (Cons y ys)
  then have A: "y \<in> A" "set ys \<subseteq> A" and s: "sorted_by lt ys" "\<forall>z \<in> set ys. \<not> lt z y" by auto
  show ?case
  proof (cases "lt y x")
    case True
    then have "\<not> lt x y" using A Cons.prems(1) lt_asym[of y x] by simp
    then show ?thesis using Cons.IH Cons.prems(1) A s True by simp
  next
    case False
    then have "\<forall>z \<in> set ys. \<not> lt z x" using A s Cons.prems(1) sorted_by_ConsI[of x y ys] by simp
    with False s show ?thesis by simp
  qed
qed simp

lemma sorted_std_sort: "set xs \<subseteq> A \<Longrightarrow> sorted_by lt (std_sort lt xs)"
proof (induction xs)
  case (Cons x xs)
  have "set (std_sort lt xs) \<subseteq> A" using Cons.prems by simp
  then have "sorted_by lt (insert_by lt x (std_sort lt xs))"
    using Cons by (intro sorted_insert_by) auto
  then show ?case by (simp add: std_sort_def)
qed (simp add: std_sort_def)

lemma sorted_std_merge:
  "\<lbrakk>set xs \<subseteq> A; set ys \<subseteq> A; sorted_by lt xs; sorted_by lt ys\<rbrakk>
     \<Longrightarrow> sorted_by lt (std_merge lt xs ys)"
proof (induction xs ys rule: merge_induct)
  case (Cons x xs y ys)
  then have A: "x \<in> A" "y \<in> A" "set xs \<subseteq> A" "set ys \<subseteq> A"
    and s: "\<forall>z \<in> set xs. \<not> lt z x" "\<forall>z \<in> set ys. \<not> lt z y" by auto
  show ?case
  proof (cases "lt y x")
    case True
    then have "\<not> lt x y" using A lt_asym[of y x] by simp
    moreover from this have "\<forall>z \<in> set xs. \<not> lt z y" using A s sorted_by_ConsI[of y x xs] by simp
    ultimately show ?thesis using True Cons A s by auto
  next
    case False
    then have "\<forall>z \<in> set ys. \<not> lt z x" using A s sorted_by_ConsI[of x y ys] by simp
    with False Cons A s show ?thesis by auto
  qed
qed simp_all

lemma sorted_std_set_union:
  "\<lbrakk>set xs \<subseteq> A; set ys \<subseteq> A; sorted_by lt xs; sorted_by lt ys\<rbrakk>
     \<Longrightarrow> sorted_by lt (std_set_union lt xs ys)"
proof (induction xs ys rule: merge_induct)
  case (Cons x xs y ys)
  then have A: "x \<in> A" "y \<in> A" "set xs \<subseteq> A" "set ys \<subseteq> A"
    and s: "\<forall>z \<in> set xs. \<not> lt z x" "\<forall>z \<in> set ys. \<not> lt z y" by auto
  have le: "\<not> lt y x \<Longrightarrow> \<forall>z \<in> set ys. \<not> lt z x" "\<not> lt x y \<Longrightarrow> \<forall>z \<in> set xs. \<not> lt z y"
    using A s sorted_by_ConsI[of x y ys] sorted_by_ConsI[of y x xs] by simp_all
  have sub: "set (std_set_union lt xs (y # ys)) \<subseteq> insert y (set xs \<union> set ys)"
    "set (std_set_union lt (x # xs) ys) \<subseteq> insert x (set xs \<union> set ys)"
    "set (std_set_union lt xs ys) \<subseteq> set xs \<union> set ys"
    using set_std_set_union_subset[of lt] by fastforce+
  have as: "lt x y \<Longrightarrow> \<not> lt y x" using A lt_asym[of x y] by simp
  consider "lt x y" | "lt y x" "\<not> lt x y" | "\<not> lt x y" "\<not> lt y x" by blast
  then show ?case
  proof cases
    case 1
    then show ?thesis using Cons A s le(1) as sub(1) by auto
  next
    case 2
    then show ?thesis using Cons A s le(2) sub(2) by auto
  next
    case 3
    then show ?thesis using Cons A s le sub(3) by auto
  qed
qed simp_all

lemma sorted_std_set_intersection:
  "\<lbrakk>set xs \<subseteq> A; set ys \<subseteq> A; sorted_by lt xs; sorted_by lt ys\<rbrakk>
     \<Longrightarrow> sorted_by lt (std_set_intersection lt xs ys)"
proof (induction xs ys rule: merge_induct)
  case (Cons x xs y ys)
  have "set (std_set_intersection lt xs ys) \<subseteq> set xs"
    by (rule set_std_set_intersection_subset)
  with Cons show ?case by auto
qed simp_all

end

locale strict_total_ordering = strict_weak_ordering +
  assumes lt_total: "\<lbrakk>x \<in> A; y \<in> A; \<not> lt x y; \<not> lt y x\<rbrakk> \<Longrightarrow> x = y"
begin

text \<open>With a total comparator the set algorithms are the multiset union and intersection.\<close>

lemma not_in_tail:
  "\<lbrakk>x \<in> A; set ys \<subseteq> A; lt x y; y \<in> A; \<forall>z \<in> set ys. \<not> lt z y\<rbrakk> \<Longrightarrow> x \<notin> set (y # ys)"
  using lt_irrefl by auto

lemma sorted_by_unique:
  "\<lbrakk>set xs \<subseteq> A; sorted_by lt xs; sorted_by lt ys; mset xs = mset ys\<rbrakk> \<Longrightarrow> xs = ys"
proof (induction xs arbitrary: ys)
  case (Cons x xs)
  from Cons.prems(4) obtain y ys' where ys: "ys = y # ys'" by (cases ys) auto
  have in_xy: "y \<in> set (x # xs)" "x \<in> set (y # ys')"
    using Cons.prems(4) ys by (metis list.set_intros(1) mset_eq_setD)+
  have "\<not> lt y x" "\<not> lt x y" using in_xy Cons.prems lt_irrefl ys by auto
  moreover have "x \<in> A" "y \<in> A" using in_xy(1) Cons.prems(1) by auto
  ultimately have "x = y" using lt_total by blast
  moreover from this have "xs = ys'" using Cons.prems ys by (intro Cons.IH) auto
  ultimately show ?case using ys by simp
qed simp

lemma mset_std_set_union:
  "\<lbrakk>set xs \<subseteq> A; set ys \<subseteq> A; sorted_by lt xs; sorted_by lt ys\<rbrakk>
     \<Longrightarrow> mset (std_set_union lt xs ys) = mset xs \<union># mset ys"
proof (induction xs ys rule: merge_induct)
  case (Cons x xs y ys)
  then have A: "x \<in> A" "y \<in> A" "set xs \<subseteq> A" "set ys \<subseteq> A"
    and s: "\<forall>z \<in> set xs. \<not> lt z x" "\<forall>z \<in> set ys. \<not> lt z y" by auto
  consider "lt x y" | "lt y x" "\<not> lt x y" | "x = y" "\<not> lt x y" "\<not> lt y x" using A lt_total by blast
  then show ?case
  proof cases
    case 1
    then have "x \<notin># mset (y # ys)" using A s not_in_tail[of x ys y] by simp
    then have "add_mset x (mset xs) \<union># mset (y # ys) = add_mset x (mset xs \<union># mset (y # ys))"
      by (rule sup_union_left1)
    with 1 Cons show ?thesis by simp
  next
    case 2
    then have "y \<notin># mset (x # xs)" using A s not_in_tail[of y xs x] by simp
    then have "mset (x # xs) \<union># add_mset y (mset ys) = add_mset y (mset (x # xs) \<union># mset ys)"
      by (rule sup_union_right1)
    with 2 Cons show ?thesis by simp
  next
    case 3
    with Cons show ?thesis by (simp add: sup_union_left2)
  qed
qed simp_all

lemma mset_std_set_intersection:
  "\<lbrakk>set xs \<subseteq> A; set ys \<subseteq> A; sorted_by lt xs; sorted_by lt ys\<rbrakk>
     \<Longrightarrow> mset (std_set_intersection lt xs ys) = mset xs \<inter># mset ys"
proof (induction xs ys rule: merge_induct)
  case (Cons x xs y ys)
  then have A: "x \<in> A" "y \<in> A" "set xs \<subseteq> A" "set ys \<subseteq> A"
    and s: "\<forall>z \<in> set xs. \<not> lt z x" "\<forall>z \<in> set ys. \<not> lt z y" by auto
  consider "lt x y" | "lt y x" "\<not> lt x y" | "x = y" "\<not> lt x y" "\<not> lt y x" using A lt_total by blast
  then show ?case
  proof cases
    case 1
    then have "x \<notin># mset (y # ys)" using A s not_in_tail[of x ys y] by simp
    then have "add_mset x (mset xs) \<inter># mset (y # ys) = mset xs \<inter># mset (y # ys)"
      by (rule inter_add_left1)
    with 1 Cons show ?thesis by simp
  next
    case 2
    then have "y \<notin># mset (x # xs)" using A s not_in_tail[of y xs x] by simp
    then have "mset (x # xs) \<inter># add_mset y (mset ys) = mset (x # xs) \<inter># mset ys"
      by (rule inter_add_right1)
    with 2 Cons show ?thesis by simp
  next
    case 3
    with Cons show ?thesis by simp
  qed
qed simp_all

end

section \<open>The smallest k elements\<close>

text \<open>
  \<open>is_topk lt k xs res\<close>: \<open>res\<close> is a sorted choice of \<open>k\<close> elements of \<open>xs\<close> (all of them when there
  are fewer) such that nothing left out is smaller than anything chosen.
\<close>

definition is_topk :: "('a \<Rightarrow> 'a \<Rightarrow> bool) \<Rightarrow> nat \<Rightarrow> 'a list \<Rightarrow> 'a list \<Rightarrow> bool" where
  "is_topk lt k xs res \<longleftrightarrow>
     sorted_by lt res \<and> mset res \<subseteq># mset xs \<and> length res = min k (length xs) \<and>
     (\<forall>x \<in># mset xs - mset res. \<forall>y \<in> set res. \<not> lt x y)"

lemma min_sum_list: "min k (\<Sum>x\<leftarrow>xs. min k (f x)) = min k (\<Sum>x\<leftarrow>xs. f x)" for k :: nat
  by (induction xs) auto

lemma concat_mset_subset:
  "list_all2 (\<lambda>r x. mset r \<subseteq># mset x) rs xss \<Longrightarrow> mset (concat rs) \<subseteq># mset (concat xss)"
  by (induction rule: list_all2_induct) (auto intro: subset_mset.add_mono)

lemma in_concat_diff:
  assumes "list_all2 (\<lambda>r x. mset r \<subseteq># mset x) rs xss" and "x \<in># mset (concat xss) - mset (concat rs)"
  shows "\<exists>i < length rs. x \<in># mset (xss ! i) - mset (rs ! i)"
  using assms
proof (induction rule: list_all2_induct)
  case (Cons r rs y xss)
  have sub: "mset (concat rs) \<subseteq># mset (concat xss)" using Cons.hyps(2) by (rule concat_mset_subset)
  have "mset (concat (y # xss)) - mset (concat (r # rs)) =
    (mset y - mset r) + (mset (concat xss) - mset (concat rs))"
    using Cons.hyps(1) sub by (simp add: multiset_eq_iff subseteq_mset_def)
  then consider "x \<in># mset y - mset r" | "x \<in># mset (concat xss) - mset (concat rs)"
    using Cons.prems by (metis union_iff)
  then show ?case
  proof cases
    case 1
    then show ?thesis by (intro exI[of _ 0]) simp
  next
    case 2
    then obtain i where "i < length rs" "x \<in># mset (xss ! i) - mset (rs ! i)" using Cons.IH by blast
    then show ?thesis by (intro exI[of _ "Suc i"]) simp
  qed
qed simp

lemma add_mset_subset:
  "\<lbrakk>M \<subseteq># N; y \<in># N; y \<notin># M\<rbrakk> \<Longrightarrow> add_mset y M \<subseteq># N"
  by (auto simp: subseteq_mset_def not_in_iff Suc_le_eq)

lemma mset_nth_concat: "i < length rs \<Longrightarrow> mset (rs ! i) \<subseteq># mset (concat rs)"
proof (induction rs arbitrary: i)
  case (Cons r rs)
  show ?case
  proof (cases i)
    case (Suc j)
    with Cons have "mset (rs ! j) \<subseteq># mset (concat rs)" by simp
    then show ?thesis using Suc by (simp add: subset_mset.add_increasing)
  qed simp
qed simp

lemma subset_mset_set: "\<lbrakk>mset xs \<subseteq># mset ys; set ys \<subseteq> B\<rbrakk> \<Longrightarrow> set xs \<subseteq> B"
  using set_mset_mono[of "mset xs" "mset ys"] by auto

lemma is_topkD:
  assumes "is_topk lt k xs res"
  shows "sorted_by lt res" "mset res \<subseteq># mset xs" "length res = min k (length xs)"
    "\<lbrakk>x \<in># mset xs - mset res; y \<in> set res\<rbrakk> \<Longrightarrow> \<not> lt x y"
  using assms by (auto simp: is_topk_def)

lemma is_topk_part_full:
  assumes "is_topk lt k xs res" and "x \<in># mset xs - mset res"
  shows "length res = k"
proof (rule ccontr)
  assume "length res \<noteq> k"
  with assms(1) have "size (mset res) = size (mset xs)" by (auto simp: is_topk_def)
  moreover have "mset res \<subseteq># mset xs" using assms(1) by (rule is_topkD)
  ultimately have "mset res = mset xs" by (metis mset_subset_size nat_less_le subset_mset.less_le)
  with assms(2) show False by simp
qed

context strict_weak_ordering
begin

lemma flip: "strict_weak_ordering (\<lambda>x y. lt y x) A"
proof
  show "x \<in> A \<Longrightarrow> \<not> lt x x" for x by (rule lt_irrefl)
  show "\<lbrakk>x \<in> A; y \<in> A; z \<in> A; lt y x; lt z y\<rbrakk> \<Longrightarrow> lt z x" for x y z
    using lt_trans[of z y x] by simp
  show "\<lbrakk>x \<in> A; y \<in> A; z \<in> A; lt z x\<rbrakk> \<Longrightarrow> lt y x \<or> lt z y" for x y z
    using lt_split[of z y x] by auto
qed

lemma topk_take_sorted:
  assumes "sorted_by lt ys" and "mset ys = mset xs"
  shows "is_topk lt k xs (take k ys)"
proof -
  have split: "mset xs = mset (take k ys) + mset (drop k ys)"
    using assms(2) by (metis append_take_drop_id mset_append)
  have "\<forall>y \<in> set (take k ys). \<forall>x \<in> set (drop k ys). \<not> lt x y"
    using assms(1) sorted_by_append[of lt "take k ys" "drop k ys"] by simp
  moreover have "length ys = length xs" using assms(2) by (metis size_mset)
  ultimately show ?thesis using assms(1) split
    by (auto simp: is_topk_def sorted_by_take)
qed

text \<open>A bound \<open>x\<close> above \<open>k\<close> elements of \<open>ys\<close> is above the \<open>k\<close> smallest elements of \<open>ys\<close>.\<close>

lemma topk_bound:
  assumes A: "set ys \<subseteq> A" "x \<in> A"
    and r: "mset r \<subseteq># mset ys" "length r = k" "\<forall>w \<in> set r. \<not> lt x w"
    and res: "is_topk lt k ys res" and y: "y \<in> set res"
  shows "\<not> lt x y"
proof
  assume xy: "lt x y"
  have yA: "y \<in> A" and rA: "set r \<subseteq> A"
    using y A(1) is_topkD(2)[OF res] r(1) subset_mset_set[of _ ys A] by blast+
  have wy: "lt w y" if "w \<in> set r" for w
    using lt_split[OF A(2) _ yA xy, of w] that rA r(3) by auto
  have cnt: "count (mset ys) w \<le> count (mset res) w" if "w \<in> set r" for w
    using wy[OF that] is_topkD(4)[OF res _ y, of w] by (meson in_diff_count not_le)
  have "count (mset r) w \<le> count (mset res) w" for w
  proof (cases "w \<in> set r")
    case True
    then show ?thesis using cnt[OF True] mset_subset_eq_count[OF r(1), of w] by simp
  next
    case False
    then have "w \<notin># mset r" by simp
    then show ?thesis by (metis count_eq_zero_iff le0)
  qed
  then have "mset r \<subseteq># mset res" by (simp add: subseteq_mset_def)
  moreover have "y \<notin># mset r" using wy lt_irrefl[OF yA] by auto
  ultimately have "add_mset y (mset r) \<subseteq># mset res" using y by (simp add: add_mset_subset)
  then have "Suc k \<le> length res" using r(2) by (metis size_mset_mono size_mset size_add_mset)
  with is_topkD(3)[OF res] show False by simp
qed

text \<open>Keeping the best \<open>k\<close> of every part and then the best \<open>k\<close> of what is left loses nothing.\<close>

lemma topk_concat:
  assumes A: "set (concat xss) \<subseteq> A"
    and parts: "list_all2 (is_topk lt k) xss rs" and res: "is_topk lt k (concat rs) res"
  shows "is_topk lt k (concat xss) res"
proof -
  have subs: "list_all2 (\<lambda>r x. mset r \<subseteq># mset x) rs xss"
    using parts by (auto simp: list_all2_conv_all_nth is_topk_def)
  have sub: "mset (concat rs) \<subseteq># mset (concat xss)" using subs by (rule concat_mset_subset)
  have res_sub: "mset res \<subseteq># mset (concat rs)" using res by (rule is_topkD)
  have "map length rs = map (\<lambda>x. min k (length x)) xss"
    using parts by (auto simp: list_all2_conv_all_nth is_topk_def intro!: nth_equalityI)
  then have "length res = min k (\<Sum>x\<leftarrow>xss. min k (length x))"
    using is_topkD(3)[OF res] by (simp add: length_concat)
  then have len: "length res = min k (length (concat xss))" by (simp add: min_sum_list length_concat)
  have "\<not> lt x y" if x: "x \<in># mset (concat xss) - mset res" and y: "y \<in> set res" for x y
  proof (cases "x \<in># mset (concat rs) - mset res")
    case True
    then show ?thesis using is_topkD(4)[OF res _ y] by simp
  next
    case False
    have "mset (concat xss) - mset res = (mset (concat xss) - mset (concat rs)) + (mset (concat rs) - mset res)"
      using sub res_sub by (simp add: multiset_eq_iff subseteq_mset_def)
    with x False have "x \<in># mset (concat xss) - mset (concat rs)" by (metis union_iff)
    from in_concat_diff[OF subs this] obtain i where
      i: "i < length rs" "x \<in># mset (xss ! i) - mset (rs ! i)" by (elim exE conjE)
    have part: "is_topk lt k (xss ! i) (rs ! i)"
      using parts i(1) by (simp add: list_all2_conv_all_nth)
    have "x \<in> set (concat xss)" using x by (metis in_diffD set_mset_mset)
    then have xA: "x \<in> A" using A by blast
    have ysA: "set (concat rs) \<subseteq> A" using sub A by (rule subset_mset_set)
    have "\<forall>w \<in> set (rs ! i). \<not> lt x w" using is_topkD(4)[OF part i(2)] by simp
    then show ?thesis
      by (rule topk_bound[OF ysA xA mset_nth_concat[OF i(1)] is_topk_part_full[OF part i(2)] _ res y])
  qed
  moreover have "mset res \<subseteq># mset (concat xss)" using res_sub sub by (rule subset_mset.trans)
  ultimately show ?thesis using is_topkD(1)[OF res] len by (simp add: is_topk_def)
qed

end

end
