(* ===== verification/Db_Values.thy ===== *)
theory Db_Values
  imports Std_Algorithms
begin

text \<open>
  The values that travel between the query engine and the column store, and the unit of a WHERE
  result (\<open>query.h\<close>: \<open>query_result_unit_t\<close>; \<open>set_operation.cc\<close>: its \<open>operator<\<close>; \<open>query.cc\<close>:
  its accessors). \<open>DbDataValue\<close> lists the alternatives of \<open>GenDb::DbDataValue\<close> the sources store
  or read (an address is whether it is of version 6, and its bytes); \<open>'d\<close> is the type of \<open>double\<close> values, of which only a linear order is used here, so
  facts about ordered ranges speak of values that are not NaN.
  \<open>operator<\<close> of \<open>boost::variant\<close> compares the alternatives first and the contents second.
\<close>

datatype 'd DbDataValue =
    DbBlank
  | DbString string
  | DbU64 u64
  | DbU32 u32
  | DbUuid "u8 list"
  | DbU8 u8
  | DbU16 u16
  | DbDouble 'd
  | DbInet bool "u8 list"

fun which :: "'d DbDataValue \<Rightarrow> nat" where
  "which DbBlank = 0"
| "which (DbString _) = 1"
| "which (DbU64 _) = 2"
| "which (DbU32 _) = 3"
| "which (DbUuid _) = 4"
| "which (DbU8 _) = 5"
| "which (DbU16 _) = 6"
| "which (DbDouble _) = 7"
| "which (DbInet _ _) = 8"

fun same_which_le :: "'d::linorder DbDataValue \<Rightarrow> 'd DbDataValue \<Rightarrow> bool" where
  "same_which_le DbBlank b \<longleftrightarrow> True"
| "same_which_le (DbString a) b \<longleftrightarrow> (case b of DbString x \<Rightarrow> a \<le> x | _ \<Rightarrow> False)"
| "same_which_le (DbU64 a) b \<longleftrightarrow> (case b of DbU64 x \<Rightarrow> a \<le> x | _ \<Rightarrow> False)"
| "same_which_le (DbU32 a) b \<longleftrightarrow> (case b of DbU32 x \<Rightarrow> a \<le> x | _ \<Rightarrow> False)"
| "same_which_le (DbUuid a) b \<longleftrightarrow> (case b of DbUuid x \<Rightarrow> a \<le> x | _ \<Rightarrow> False)"
| "same_which_le (DbU8 a) b \<longleftrightarrow> (case b of DbU8 x \<Rightarrow> a \<le> x | _ \<Rightarrow> False)"
| "same_which_le (DbU16 a) b \<longleftrightarrow> (case b of DbU16 x \<Rightarrow> a \<le> x | _ \<Rightarrow> False)"
| "same_which_le (DbDouble a) b \<longleftrightarrow> (case b of DbDouble x \<Rightarrow> a \<le> x | _ \<Rightarrow> False)"
| "same_which_le (DbInet v6 a) b \<longleftrightarrow> (case b of DbInet w6 x \<Rightarrow> \<not> v6 \<and> w6 \<or> v6 = w6 \<and> a \<le> x | _ \<Rightarrow> False)"

lemma same_which_le_refl: "same_which_le a a"
  by (cases a) auto

lemma same_which_le_trans:
  "\<lbrakk>which a = which b; which b = which c; same_which_le a b; same_which_le b c\<rbrakk> \<Longrightarrow> same_which_le a c"
  by (cases a; cases b; simp; cases c; auto)

lemma same_which_le_antisym:
  "\<lbrakk>which a = which b; same_which_le a b; same_which_le b a\<rbrakk> \<Longrightarrow> a = b"
  by (cases a; cases b) auto

lemma same_which_le_total: "which a = which b \<Longrightarrow> same_which_le a b \<or> same_which_le b a"
  by (cases a; cases b) auto

instantiation DbDataValue :: (linorder) linorder
begin

definition less_eq_DbDataValue :: "'a DbDataValue \<Rightarrow> 'a DbDataValue \<Rightarrow> bool" where
  "less_eq_DbDataValue a b \<longleftrightarrow> which a < which b \<or> which a = which b \<and> same_which_le a b"

definition less_DbDataValue :: "'a DbDataValue \<Rightarrow> 'a DbDataValue \<Rightarrow> bool" where
  "less_DbDataValue a b \<longleftrightarrow> a \<le> b \<and> \<not> b \<le> (a :: 'a DbDataValue)"

instance
proof
  fix a b c :: "'a DbDataValue"
  show "(a < b) = (a \<le> b \<and> \<not> b \<le> a)" by (simp add: less_DbDataValue_def)
  show "a \<le> a" by (simp add: less_eq_DbDataValue_def same_which_le_refl)
  show "a \<le> b \<Longrightarrow> b \<le> c \<Longrightarrow> a \<le> c"
    unfolding less_eq_DbDataValue_def using same_which_le_trans[of a b c] by auto
  show "a \<le> b \<Longrightarrow> b \<le> a \<Longrightarrow> a = b"
    unfolding less_eq_DbDataValue_def using same_which_le_antisym[of a b] by auto
  show "a \<le> b \<or> b \<le> a"
    unfolding less_eq_DbDataValue_def using same_which_le_total[of a b] by auto
qed

end

section \<open>The result unit\<close>

record 'v query_result_unit_t =
  timestamp :: u64
  info :: "'v list"

type_synonym 'v WhereResultT = "'v query_result_unit_t list"

text \<open>The comparison loop of \<open>query_result_unit_t::operator<\<close>: pairwise, up to the shorter vector.\<close>

fun info_lt :: "'v::linorder list \<Rightarrow> 'v list \<Rightarrow> bool" where
  "info_lt (a # as) (b # bs) = (if a < b then True else if b < a then False else info_lt as bs)"
| "info_lt _ _ = False"

definition query_result_unit_lt ::
    "'v::linorder query_result_unit_t \<Rightarrow> 'v query_result_unit_t \<Rightarrow> bool" where
  "query_result_unit_lt l r =
     (if timestamp l = timestamp r then info_lt (info l) (info r) else timestamp l < timestamp r)"

definition get_uuid :: "'d DbDataValue query_result_unit_t \<Rightarrow> u8 list outcome" where
  "get_uuid r = (case info r of DbUuid u # _ \<Rightarrow> Ret u | _ \<Rightarrow> Abort)"

definition set_stattable_info ::
    "string \<Rightarrow> u8 list \<Rightarrow> 'd DbDataValue query_result_unit_t \<Rightarrow> 'd DbDataValue query_result_unit_t" where
  "set_stattable_info attribstr uuid r = r\<lparr>info := info r @ [DbString attribstr, DbUuid uuid]\<rparr>"

definition get_objectid :: "'d DbDataValue query_result_unit_t \<Rightarrow> string outcome" where
  "get_objectid r = (case info r of _ # DbString s # _ \<Rightarrow> Ret s | _ \<Rightarrow> Abort)"

definition get_stattable_info ::
    "'d DbDataValue query_result_unit_t \<Rightarrow> (string \<times> u8 list) outcome" where
  "get_stattable_info r = (case info r of DbString s # DbUuid u # _ \<Rightarrow> Ret (s, u) | _ \<Rightarrow> Abort)"

section \<open>Where the comparator is an order\<close>

text \<open>
  \<open>operator<\<close> stops at the end of the shorter \<open>info\<close>, so a vector and its proper prefix are
  equivalent to each other and the relation is not a strict weak ordering on all units. Every
  query fills \<open>info\<close> with one fixed number of columns, and there it is a strict total ordering.
\<close>

definition units_of_width :: "nat \<Rightarrow> 'v query_result_unit_t set" where
  "units_of_width n = {r. length (info r) = n}"

lemma info_lt_irrefl: "\<not> info_lt xs (xs :: 'v::linorder list)"
  by (induction xs) auto

lemma info_lt_trans:
  "\<lbrakk>length xs = length ys; length ys = length zs; info_lt xs ys; info_lt ys zs\<rbrakk> \<Longrightarrow> info_lt xs zs"
proof (induction xs zs arbitrary: ys rule: info_lt.induct)
  case (1 a as b bs)
  then obtain c cs where ys: "ys = c # cs" by (cases ys) auto
  have ac: "a < c \<or> a = c \<and> info_lt as cs" and cb: "c < b \<or> c = b \<and> info_lt cs bs"
    using "1.prems" ys by (auto split: if_splits)
  have "a = b \<Longrightarrow> c = b \<Longrightarrow> a = c \<Longrightarrow> info_lt as bs"
    using "1.IH"[of cs] "1.prems" ys ac cb by auto
  with ac cb show ?case by auto
qed auto

lemma info_lt_total:
  "\<lbrakk>length xs = length ys; \<not> info_lt xs ys; \<not> info_lt ys xs\<rbrakk> \<Longrightarrow> xs = (ys :: 'v::linorder list)"
  by (induction xs ys rule: info_lt.induct) (auto split: if_splits)

lemma query_result_unit_lt_total:
  "\<lbrakk>length (info l) = length (info r); \<not> query_result_unit_lt l r; \<not> query_result_unit_lt r l\<rbrakk>
     \<Longrightarrow> l = (r :: 'v::linorder query_result_unit_t)"
  by (auto simp: query_result_unit_lt_def split: if_splits
      intro!: query_result_unit_t.equality info_lt_total)

lemma query_result_unit_lt_trans:
  "\<lbrakk>length (info x) = length (info y); length (info y) = length (info z);
    query_result_unit_lt x y; query_result_unit_lt y z\<rbrakk> \<Longrightarrow> query_result_unit_lt x z"
  using info_lt_trans[of "info x" "info y" "info z"]
  by (auto simp: query_result_unit_lt_def split: if_splits)

interpretation unit_order: strict_total_ordering
  "query_result_unit_lt :: 'v::linorder query_result_unit_t \<Rightarrow> _" "units_of_width n" for n
proof
  fix x y z :: "'v query_result_unit_t"
  assume A: "x \<in> units_of_width n"
  show "\<not> query_result_unit_lt x x" by (simp add: query_result_unit_lt_def info_lt_irrefl)
  assume B: "y \<in> units_of_width n"
  show tot: "\<not> query_result_unit_lt x y \<Longrightarrow> \<not> query_result_unit_lt y x \<Longrightarrow> x = y"
    using A B query_result_unit_lt_total[of x y] by (simp add: units_of_width_def)
  assume C: "z \<in> units_of_width n"
  show "query_result_unit_lt x y \<Longrightarrow> query_result_unit_lt y z \<Longrightarrow> query_result_unit_lt x z"
    using A B C query_result_unit_lt_trans[of x y z] by (simp add: units_of_width_def)
  assume lt: "query_result_unit_lt x z"
  show "query_result_unit_lt x y \<or> query_result_unit_lt y z"
    using A B C lt tot query_result_unit_lt_trans[of y x z] by (auto simp: units_of_width_def)
qed

lemmas unit_order_simps [qe_simps] = units_of_width_def query_result_unit_lt_def

lemma get_set_stattable_info:
  "info r = [] \<Longrightarrow> get_stattable_info (set_stattable_info s u r) = Ret (s, u)"
  by (simp add: get_stattable_info_def set_stattable_info_def)

end
