(* ===== verification/Set_Operation.thy ===== *)
theory Set_Operation
  imports Db_Values
begin

text \<open>
  \<open>contrail-query-engine/set_operation.cc\<close>: the combination of the results of the database queries
  of one WHERE clause. Both operations start from \<open>*inp[0]\<close>, so an empty \<open>inp\<close> is an access out of
  range (\<open>Abort\<close>). The inputs are the result vectors \<open>DbQueryUnit::WPCompleteCb\<close> has sorted.
\<close>

text \<open>The loops of \<open>op_and\<close> and \<open>op_or\<close>, from index 1 on.\<close>

primrec op_and_loop :: "'v::linorder WhereResultT \<Rightarrow> 'v WhereResultT list \<Rightarrow> 'v WhereResultT" where
  "op_and_loop res [] = res"
| "op_and_loop res (x # rest) = op_and_loop (std_set_intersection query_result_unit_lt res x) rest"

definition op_and :: "'v::linorder WhereResultT list \<Rightarrow> 'v WhereResultT outcome" where
  "op_and inp = (case inp of [] \<Rightarrow> Abort | x # rest \<Rightarrow> Ret (op_and_loop x rest))"

primrec op_or_loop :: "'v::linorder WhereResultT \<Rightarrow> 'v WhereResultT list \<Rightarrow> 'v WhereResultT" where
  "op_or_loop res [] = res"
| "op_or_loop res (x # rest) = op_or_loop (std_set_union query_result_unit_lt res x) rest"

definition op_or :: "'v::linorder WhereResultT list \<Rightarrow> 'v WhereResultT outcome" where
  "op_or inp = (case inp of [] \<Rightarrow> Abort | x # rest \<Rightarrow> Ret (op_or_loop x rest))"

text \<open>What the callers guarantee of each input: one width of \<open>info\<close>, sorted.\<close>

definition where_input :: "nat \<Rightarrow> 'v::linorder WhereResultT \<Rightarrow> bool" where
  "where_input n xs \<longleftrightarrow> (\<forall>r \<in> set xs. length (info r) = n) \<and> sorted_by query_result_unit_lt xs"

lemma where_input_iff:
  "where_input n xs \<longleftrightarrow> set xs \<subseteq> units_of_width n \<and> sorted_by query_result_unit_lt xs"
  by (auto simp: where_input_def units_of_width_def)

lemma where_input_intersection:
  "\<lbrakk>where_input n xs; where_input n ys\<rbrakk>
     \<Longrightarrow> where_input n (std_set_intersection query_result_unit_lt xs ys)"
  unfolding where_input_iff
  using set_std_set_intersection_subset[of query_result_unit_lt xs ys]
    unit_order.sorted_std_set_intersection[of xs n ys] by auto

lemma where_input_union:
  "\<lbrakk>where_input n xs; where_input n ys\<rbrakk>
     \<Longrightarrow> where_input n (std_set_union query_result_unit_lt xs ys)"
  unfolding where_input_iff
  using set_std_set_union_subset[of query_result_unit_lt xs ys]
    unit_order.sorted_std_set_union[of xs n ys] by auto

lemma mset_intersection:
  "\<lbrakk>where_input n xs; where_input n ys\<rbrakk>
     \<Longrightarrow> mset (std_set_intersection query_result_unit_lt xs ys) = mset xs \<inter># mset ys"
  unfolding where_input_iff using unit_order.mset_std_set_intersection[of xs n ys] by simp

lemma mset_union:
  "\<lbrakk>where_input n xs; where_input n ys\<rbrakk>
     \<Longrightarrow> mset (std_set_union query_result_unit_lt xs ys) = mset xs \<union># mset ys"
  unfolding where_input_iff using unit_order.mset_std_set_union[of xs n ys] by simp

lemma op_and_loop_correct:
  "\<lbrakk>where_input n res; list_all (where_input n) inp\<rbrakk>
     \<Longrightarrow> where_input n (op_and_loop res inp) \<and>
        set (op_and_loop res inp) = set res \<inter> (\<Inter>x \<in> set inp. set x) \<and>
        (\<forall>r. count (mset (op_and_loop res inp)) r = Min (insert (count (mset res) r) ((\<lambda>x. count (mset x) r) ` set inp)))"
proof (induction inp arbitrary: res)
  case (Cons x inp)
  let ?i = "std_set_intersection query_result_unit_lt res x"
  have i: "where_input n ?i" and m: "mset ?i = mset res \<inter># mset x"
    using Cons.prems where_input_intersection mset_intersection by auto
  have s: "set ?i = set res \<inter> set x"
    using m by (metis set_mset_inter set_mset_mset)
  have c: "count (mset ?i) r = min (count (mset res) r) (count (mset x) r)" for r
    by (simp add: m)
  have "Min (insert (min a b) S) = Min (insert a (insert b S))" if "finite S" for a b :: nat and S
    using that by (cases "S = {}") (auto simp: min.assoc)
  then show ?case using Cons.IH[OF i] Cons.prems s c by auto
qed simp

lemma op_or_loop_correct:
  "\<lbrakk>where_input n res; list_all (where_input n) inp\<rbrakk>
     \<Longrightarrow> where_input n (op_or_loop res inp) \<and>
        set (op_or_loop res inp) = set res \<union> (\<Union>x \<in> set inp. set x) \<and>
        (\<forall>r. count (mset (op_or_loop res inp)) r = Max (insert (count (mset res) r) ((\<lambda>x. count (mset x) r) ` set inp)))"
proof (induction inp arbitrary: res)
  case (Cons x inp)
  let ?i = "std_set_union query_result_unit_lt res x"
  have i: "where_input n ?i" and m: "mset ?i = mset res \<union># mset x"
    using Cons.prems where_input_union mset_union by auto
  have s: "set ?i = set res \<union> set x"
    using m by (metis set_mset_sup set_mset_mset)
  have c: "count (mset ?i) r = max (count (mset res) r) (count (mset x) r)" for r
    by (simp add: m)
  have "Max (insert (max a b) S) = Max (insert a (insert b S))" if "finite S" for a b :: nat and S
    using that by (cases "S = {}") (auto simp: max.assoc)
  then show ?case using Cons.IH[OF i] Cons.prems s c by auto
qed simp

text \<open>Sorted results of one width are determined by their multisets, so the operations depend on the
  set of their inputs only, not on the order in which they are given.\<close>

lemma where_input_eqI:
  "\<lbrakk>where_input n xs; where_input n ys; \<And>r. count (mset xs) r = count (mset ys) r\<rbrakk> \<Longrightarrow> xs = ys"
  unfolding where_input_iff by (rule unit_order.sorted_by_unique[of xs n]) (auto intro: multiset_eqI)

lemma op_and_Ret:
  assumes "inp \<noteq> []" and "list_all (where_input n) inp"
  shows "\<exists>res. op_and inp = Ret res \<and> where_input n res \<and> set res = (\<Inter>x \<in> set inp. set x) \<and>
    (\<forall>r. count (mset res) r = Min ((\<lambda>x. count (mset x) r) ` set inp))"
proof (cases inp)
  case (Cons x rest)
  with assms(2) op_and_loop_correct[of n x rest] show ?thesis by (simp add: op_and_def)
qed (use assms in simp)

lemma op_or_Ret:
  assumes "inp \<noteq> []" and "list_all (where_input n) inp"
  shows "\<exists>res. op_or inp = Ret res \<and> where_input n res \<and> set res = (\<Union>x \<in> set inp. set x) \<and>
    (\<forall>r. count (mset res) r = Max ((\<lambda>x. count (mset x) r) ` set inp))"
proof (cases inp)
  case (Cons x rest)
  with assms(2) op_or_loop_correct[of n x rest] show ?thesis by (simp add: op_or_def)
qed (use assms in simp)

lemma op_and_set_cong:
  assumes "list_all (where_input n) xs" "set xs = set ys"
  shows "op_and xs = op_and ys"
proof (cases "xs = []")
  case False
  have ys: "list_all (where_input n) ys" "ys \<noteq> []" using assms False by (auto simp: list_all_iff)
  obtain r where r: "op_and xs = Ret r" "where_input n r" "\<forall>u. count (mset r) u = Min ((\<lambda>x. count (mset x) u) ` set xs)"
    using op_and_Ret[OF False assms(1)] by blast
  obtain t where t: "op_and ys = Ret t" "where_input n t" "\<forall>u. count (mset t) u = Min ((\<lambda>x. count (mset x) u) ` set ys)"
    using op_and_Ret[OF ys(2,1)] by blast
  have "r = t" using r(3) t(3) assms(2) by (intro where_input_eqI[OF r(2) t(2)]) simp
  then show ?thesis using r(1) t(1) by simp
qed (use assms in simp)

lemma op_or_set_cong:
  assumes "list_all (where_input n) xs" "set xs = set ys"
  shows "op_or xs = op_or ys"
proof (cases "xs = []")
  case False
  have ys: "list_all (where_input n) ys" "ys \<noteq> []" using assms False by (auto simp: list_all_iff)
  obtain r where r: "op_or xs = Ret r" "where_input n r" "\<forall>u. count (mset r) u = Max ((\<lambda>x. count (mset x) u) ` set xs)"
    using op_or_Ret[OF False assms(1)] by blast
  obtain t where t: "op_or ys = Ret t" "where_input n t" "\<forall>u. count (mset t) u = Max ((\<lambda>x. count (mset x) u) ` set ys)"
    using op_or_Ret[OF ys(2,1)] by blast
  have "r = t" using r(3) t(3) assms(2) by (intro where_input_eqI[OF r(2) t(2)]) simp
  then show ?thesis using r(1) t(1) by simp
qed (use assms in simp)

section \<open>Properties\<close>

text \<open>
  C12: \<open>SetOperationUnit::op_and\<close> on a non-empty list of sorted results of one width returns the
  sorted list of exactly the units present in every input, each as often as in the input that has
  it least.
\<close>

theorem op_and_correct:
  assumes "inp \<noteq> []" and "list_all (where_input n) inp"
  shows "\<exists>res. op_and inp = Ret res \<and> where_input n res \<and> set res = (\<Inter>x \<in> set inp. set x) \<and>
    (\<forall>r. count (mset res) r = Min ((\<lambda>x. count (mset x) r) ` set inp))"
  by (rule op_and_Ret[OF assms])

text \<open>
  C13: \<open>SetOperationUnit::op_or\<close> on a non-empty list of sorted results of one width returns the
  sorted list of exactly the units present in some input, each as often as in the input that has
  it most.
\<close>

theorem op_or_correct:
  assumes "inp \<noteq> []" and "list_all (where_input n) inp"
  shows "\<exists>res. op_or inp = Ret res \<and> where_input n res \<and> set res = (\<Union>x \<in> set inp. set x) \<and>
    (\<forall>r. count (mset res) r = Max ((\<lambda>x. count (mset x) r) ` set inp))"
  by (rule op_or_Ret[OF assms])

definition sample_unit :: "u64 \<Rightarrow> nat \<Rightarrow> nat query_result_unit_t" where
  "sample_unit t v = \<lparr>timestamp = t, info = [v]\<rparr>"

lemmas sample_simps = sample_unit_def where_input_def query_result_unit_lt_def

theorem op_and_correct_witness:
  "\<exists>res. op_and [[sample_unit 1 4, sample_unit 2 5], [sample_unit 2 5]] = Ret res \<and>
     set res = {sample_unit 2 5}"
proof -
  have h: "list_all (where_input 1) [[sample_unit 1 4, sample_unit 2 5], [sample_unit 2 5]]"
    by (simp add: sample_simps)
  show ?thesis using op_and_correct[OF _ h] by (auto simp: sample_unit_def)
qed

theorem op_or_correct_witness:
  "\<exists>res. op_or [[sample_unit 1 4], [sample_unit 2 5]] = Ret res \<and>
     set res = {sample_unit 1 4, sample_unit 2 5}"
proof -
  have h: "list_all (where_input 1) [[sample_unit 1 4], [sample_unit 2 5]]"
    by (simp add: sample_simps)
  show ?thesis using op_or_correct[OF _ h] by auto
qed

text \<open>
  C11: \<open>query_result_unit_t::operator<\<close> is not a strict weak ordering on units whose \<open>info\<close> vectors
  differ in length: a unit with an empty \<open>info\<close> is equivalent to two units that are ordered.
\<close>

theorem query_result_unit_lt_not_swo:
  "\<exists>a b c :: nat query_result_unit_t. query_result_unit_lt a c \<and>
     \<not> query_result_unit_lt a b \<and> \<not> query_result_unit_lt b c"
proof -
  let ?u = "\<lambda>i. \<lparr>timestamp = 0, info = i\<rparr> :: nat query_result_unit_t"
  have "query_result_unit_lt (?u [1]) (?u [2]) \<and> \<not> query_result_unit_lt (?u [1]) (?u []) \<and>
    \<not> query_result_unit_lt (?u []) (?u [2])"
    by (simp add: query_result_unit_lt_def)
  then show ?thesis by blast
qed

end
