(* ===== verification/Json.thy ===== *)
theory Json
  imports Prelude
begin

text \<open>
  The part of the rapidjson interface the query engine uses, on parsed documents: a number is
  integral (\<open>JInt\<close>, what rapidjson keeps as a 64-bit integer) or a \<open>double\<close> (\<open>JDouble\<close>, of the
  unspecified type \<open>'d\<close>). Where rapidjson asserts (a member access on something that is not an
  object, a missing member, \<open>GetInt\<close> on a number that is not an \<open>int\<close>), the accessors crash. The
  parser itself is outside the repository and enters the model as a function argument.
  \<open>checked\<close> is the result of code that validates input: \<open>Fail\<close> is an early return that leaves an
  error number in \<open>status_details\<close> (the \<open>QE_PARSE_ERROR\<close> and \<open>QE_INVALIDARG_ERROR\<close> macros of
  \<open>query.h\<close>), \<open>Crash\<close> a failed assertion.
\<close>

datatype 'a checked = Done 'a | Fail qe_errno | Crash

fun bind_checked :: "'a checked \<Rightarrow> ('a \<Rightarrow> 'b checked) \<Rightarrow> 'b checked" where
  "bind_checked (Done x) f = f x"
| "bind_checked (Fail e) f = Fail e"
| "bind_checked Crash f = Crash"

definition ensure :: "bool \<Rightarrow> qe_errno \<Rightarrow> unit checked" where
  "ensure c e = (if c then Done () else Fail e)"

definition of_outcome :: "'a outcome \<Rightarrow> 'a checked" where
  "of_outcome r = (case r of Ret x \<Rightarrow> Done x | Abort \<Rightarrow> Crash)"

fun foldl_checked :: "('s \<Rightarrow> 'a \<Rightarrow> 's checked) \<Rightarrow> 's \<Rightarrow> 'a list \<Rightarrow> 's checked" where
  "foldl_checked f s [] = Done s"
| "foldl_checked f s (x # xs) = bind_checked (f s x) (\<lambda>s'. foldl_checked f s' xs)"

fun map_checked :: "('a \<Rightarrow> 'b checked) \<Rightarrow> 'a list \<Rightarrow> 'b list checked" where
  "map_checked f [] = Done []"
| "map_checked f (x # xs) = bind_checked (f x) (\<lambda>y. bind_checked (map_checked f xs) (\<lambda>ys. Done (y # ys)))"

lemma bind_checked_Done_iff [simp]:
  "bind_checked m f = Done y \<longleftrightarrow> (\<exists>x. m = Done x \<and> f x = Done y)"
  by (cases m) auto

lemma ensure_Done_iff [simp]: "ensure c e = Done u \<longleftrightarrow> c"
  by (simp add: ensure_def)

lemma ensure_simps [simp]: "ensure True e = Done ()" "ensure False e = Fail e"
  by (simp_all add: ensure_def)

lemma foldl_checked_inv:
  assumes step: "\<And>s x s'. \<lbrakk>P s; x \<in> set xs; f s x = Done s'\<rbrakk> \<Longrightarrow> P s'"
    and run: "foldl_checked f s xs = Done t" and init: "P s"
  shows "P t"
  using assms
proof (induction xs arbitrary: s)
  case (Cons x xs)
  from Cons.prems(2) obtain s' where s': "f s x = Done s'" "foldl_checked f s' xs = Done t" by auto
  have "P s'" using Cons.prems(1)[of s x s'] Cons.prems(3) s'(1) by simp
  moreover have "P v'" if "P v" "w \<in> set xs" "f v w = Done v'" for v w v'
    using that by (intro Cons.prems(1)[of v w v']) simp_all
  ultimately show ?case using s'(2) by (intro Cons.IH[of s'])
qed simp

lemma map_checked_length: "map_checked f xs = Done ys \<Longrightarrow> length ys = length xs"
  by (induction xs arbitrary: ys) auto

lemma map_checked_nth:
  "\<lbrakk>map_checked f xs = Done ys; i < length xs\<rbrakk> \<Longrightarrow> f (xs ! i) = Done (ys ! i)"
  by (induction xs arbitrary: ys i) (auto simp: nth_Cons split: nat.splits)

datatype 'd json =
    JNull
  | JBool bool
  | JInt int
  | JDouble 'd
  | JString string
  | JArray "'d json list"
  | JObject "(string \<times> 'd json) list"

fun IsString :: "'d json \<Rightarrow> bool" where
  "IsString (JString _) = True" | "IsString _ = False"

fun IsArray :: "'d json \<Rightarrow> bool" where
  "IsArray (JArray _) = True" | "IsArray _ = False"

fun IsObject :: "'d json \<Rightarrow> bool" where
  "IsObject (JObject _) = True" | "IsObject _ = False"

fun IsNumber :: "'d json \<Rightarrow> bool" where
  "IsNumber (JInt _) = True" | "IsNumber (JDouble _) = True" | "IsNumber _ = False"

fun IsInt :: "'d json \<Rightarrow> bool" where
  "IsInt (JInt i) \<longleftrightarrow> - (2 ^ 31) \<le> i \<and> i < 2 ^ 31" | "IsInt _ \<longleftrightarrow> False"

fun IsUint :: "'d json \<Rightarrow> bool" where
  "IsUint (JInt i) \<longleftrightarrow> 0 \<le> i \<and> i < 2 ^ 32" | "IsUint _ \<longleftrightarrow> False"

fun IsDouble :: "'d json \<Rightarrow> bool" where
  "IsDouble (JDouble _) = True" | "IsDouble _ = False"

fun GetInt :: "'d json \<Rightarrow> int checked" where
  "GetInt (JInt i) = (if IsInt (JInt i :: 'd json) then Done i else Crash)"
| "GetInt _ = Crash"

fun GetString :: "'d json \<Rightarrow> string checked" where
  "GetString (JString s) = Done s" | "GetString _ = Crash"

fun GetBool :: "'d json \<Rightarrow> bool checked" where
  "GetBool (JBool b) = Done b" | "GetBool _ = Crash"

fun elements :: "'d json \<Rightarrow> 'd json list checked" where
  "elements (JArray xs) = Done xs" | "elements _ = Crash"

fun HasMember :: "'d json \<Rightarrow> string \<Rightarrow> bool checked" where
  "HasMember (JObject ms) k = Done (map_of ms k \<noteq> None)" | "HasMember _ k = Crash"

fun member :: "'d json \<Rightarrow> string \<Rightarrow> 'd json checked" where
  "member (JObject ms) k = (case map_of ms k of Some v \<Rightarrow> Done v | None \<Rightarrow> Crash)"
| "member _ k = Crash"

text \<open>\<open>v.HasMember(a) && v.HasMember(b) && ...\<close>, with the short circuit.\<close>

fun HasMembers :: "'d json \<Rightarrow> string list \<Rightarrow> bool checked" where
  "HasMembers v [] = Done True"
| "HasMembers v (k # ks) = bind_checked (HasMember v k) (\<lambda>b. if b then HasMembers v ks else Done False)"

lemma HasMembers_object: "HasMembers (JObject ms) ks = Done (\<forall>k \<in> set ks. map_of ms k \<noteq> None)"
  by (induction ks) auto

end
