(* ===== verification/Query_Tables.thy ===== *)
theory Query_Tables
  imports Json "HOL-Library.Product_Lexorder"
begin

text \<open>
  Table names and schemas: the classification of a table name (\<open>query.cc\<close>, the \<open>is_..._query\<close>
  functions), the lookups in the table of virtual-table schemas (\<open>is_valid_where_field\<close>,
  \<open>is_valid_sort_field\<close>, \<open>get_column_field_datatype\<close>), the enumerations of \<open>json_parse.h\<close> and
  \<open>QEOpServerProxy.h\<close>, and the statistics-table helper \<open>stats_query.cc\<close>. The schema data itself
  (\<open>g_viz_constants\<close>, generated from \<open>viz.sandesh\<close>) is an argument; single constants are written
  out with the value \<open>viz.sandesh\<close> gives them.
\<close>

section \<open>Constants and enumerations\<close>

definition RowTimeInBits :: nat where "RowTimeInBits = 23"
definition PARTITION_MIN :: nat where "PARTITION_MIN = 0"
definition PARTITION_MAX :: nat where "PARTITION_MAX = 8"

abbreviation MESSAGE_TABLE :: string where "MESSAGE_TABLE \<equiv> ''MessageTable''"
abbreviation COLLECTOR_GLOBAL_TABLE :: string where "COLLECTOR_GLOBAL_TABLE \<equiv> ''MessageTablev2''"
abbreviation FLOW_TABLE :: string where "FLOW_TABLE \<equiv> ''FlowRecordTable''"
abbreviation FLOW_SERIES_TABLE :: string where "FLOW_SERIES_TABLE \<equiv> ''FlowSeriesTable''"
abbreviation SESSION_TABLE :: string where "SESSION_TABLE \<equiv> ''SessionTable''"
abbreviation SESSION_SERIES_TABLE :: string where "SESSION_SERIES_TABLE \<equiv> ''SessionSeriesTable''"
abbreviation SESSION_RECORD_TABLE :: string where "SESSION_RECORD_TABLE \<equiv> ''SessionRecordTable''"
abbreviation OBJECT_VALUE_TABLE :: string where "OBJECT_VALUE_TABLE \<equiv> ''ObjectValueTable''"
abbreviation OBJECT_TABLE :: string where "OBJECT_TABLE \<equiv> ''ObjectTable''"
abbreviation STATS_TABLE :: string where "STATS_TABLE \<equiv> ''StatsTableV4''"
abbreviation STAT_VT_PREFIX :: string where "STAT_VT_PREFIX \<equiv> ''StatTable''"
abbreviation STAT_VT_FIELDNAMES_PREFIX :: string where
  "STAT_VT_FIELDNAMES_PREFIX \<equiv> ''StatTable.FieldNames.''"

text \<open>\<open>json_parse.h\<close>: the sources cast any \<open>int\<close> to \<open>match_op\<close>, so a value outside the
  enumerators is kept.\<close>

datatype match_op = EQUAL | NOT_EQUAL | IN_RANGE | NOT_IN_RANGE | LEQ | GEQ | PREFIX | REGEX_MATCH
  | CONTAINS | OTHER_OP int

definition match_op_of_int :: "int \<Rightarrow> match_op" where
  "match_op_of_int i =
     (if i = 1 then EQUAL else if i = 2 then NOT_EQUAL else if i = 3 then IN_RANGE
      else if i = 4 then NOT_IN_RANGE else if i = 5 then LEQ else if i = 6 then GEQ
      else if i = 7 then PREFIX else if i = 8 then REGEX_MATCH else if i = 9 then CONTAINS
      else OTHER_OP i)"

datatype sort_op = ASCENDING | DESCENDING | OTHER_SORT int

definition sort_op_of_int :: "int \<Rightarrow> sort_op" where
  "sort_op_of_int i = (if i = 1 then ASCENDING else if i = 2 then DESCENDING else OTHER_SORT i)"

datatype VarType = VT_BLANK | VT_STRING | VT_UINT64 | VT_DOUBLE | VT_UUID | VT_TDIGEST
  | VT_CENTROID | VT_MAP_ELEM | VT_LIST

datatype AggOper = AGG_INVALID | AGG_SUM | AGG_COUNT | AGG_CLASS | AGG_MAX | AGG_MIN
  | AGG_PERCENTILES | AGG_AVG | AGG_COUNT_DISTINCT

fun agg_num :: "AggOper \<Rightarrow> nat" where
  "agg_num AGG_INVALID = 0" | "agg_num AGG_SUM = 1" | "agg_num AGG_COUNT = 2"
| "agg_num AGG_CLASS = 3" | "agg_num AGG_MAX = 4" | "agg_num AGG_MIN = 5"
| "agg_num AGG_PERCENTILES = 6" | "agg_num AGG_AVG = 7" | "agg_num AGG_COUNT_DISTINCT = 8"

lemma agg_num_inject [simp]: "agg_num a = agg_num b \<longleftrightarrow> a = b"
  by (cases a; cases b) auto

instantiation AggOper :: linorder
begin

definition less_eq_AggOper :: "AggOper \<Rightarrow> AggOper \<Rightarrow> bool" where
  "less_eq_AggOper a b \<longleftrightarrow> agg_num a \<le> agg_num b"

definition less_AggOper :: "AggOper \<Rightarrow> AggOper \<Rightarrow> bool" where
  "less_AggOper a b \<longleftrightarrow> agg_num a < agg_num b"

instance
  by standard (auto simp: less_eq_AggOper_def less_AggOper_def)

end

section \<open>Classification of table names\<close>

definition is_stat_table_query :: "string \<Rightarrow> bool" where
  "is_stat_table_query tname \<longleftrightarrow> starts_with tname STAT_VT_PREFIX"

definition is_session_query :: "string \<Rightarrow> bool" where
  "is_session_query tname \<longleftrightarrow> tname = SESSION_SERIES_TABLE \<or> tname = SESSION_RECORD_TABLE"

definition is_stat_fieldnames_table_query :: "string \<Rightarrow> bool" where
  "is_stat_fieldnames_table_query tname \<longleftrightarrow> starts_with tname STAT_VT_FIELDNAMES_PREFIX"

definition is_flow_query :: "string \<Rightarrow> bool" where
  "is_flow_query tname \<longleftrightarrow> tname = FLOW_SERIES_TABLE \<or> tname = FLOW_TABLE"

definition is_message_table_query :: "string \<Rightarrow> bool" where
  "is_message_table_query tname \<longleftrightarrow> tname = MESSAGE_TABLE"

definition is_object_table_query :: "string \<Rightarrow> bool" where
  "is_object_table_query tname \<longleftrightarrow>
     tname \<noteq> MESSAGE_TABLE \<and> tname \<noteq> FLOW_TABLE \<and> tname \<noteq> FLOW_SERIES_TABLE \<and>
     tname \<noteq> OBJECT_VALUE_TABLE \<and> \<not> is_stat_table_query tname \<and> \<not> is_session_query tname"

lemmas table_defs = is_stat_table_query_def is_session_query_def is_flow_query_def
  is_message_table_query_def is_object_table_query_def starts_with_def

section \<open>Statistics tables\<close>

record column_t =
  cd_datatype :: VarType
  cd_index :: bool
  cd_output :: bool
  cd_suffixes :: "string list"

record stat_attribute =
  attr_name :: string
  attr_datatype :: string
  attr_index :: bool
  attr_suffixes :: "string list"

record stat_table =
  stat_type :: string
  stat_attr :: string
  attributes :: "stat_attribute list"

record StatsQuery =
  sq_type :: string
  sq_attr :: string
  sq_is_static :: bool
  sq_schema :: "string \<rightharpoonup> column_t"

text \<open>
  The split of a name \<open>StatTable.<type>.<attr>\<close>, with the arithmetic on \<open>npos\<close> (the all-ones
  \<open>size_t\<close>) the source performs when a dot is missing.
\<close>

definition GetStatTableAttrName :: "string \<Rightarrow> string \<times> string" where
  "GetStatTableAttrName tname =
     (let from = (case find_char CHR ''.'' tname of None \<Rightarrow> 0 | Some tpos \<Rightarrow> Suc tpos)
      in case find_char_from CHR ''.'' tname from of
           None \<Rightarrow> (drop from tname, tname)
         | Some apos \<Rightarrow> (take (apos - from) (drop from tname), drop (Suc apos) tname))"

definition stat_column :: "stat_attribute \<Rightarrow> column_t" where
  "stat_column a =
     \<lparr>cd_datatype = (if attr_datatype a = ''string'' then VT_STRING
                     else if attr_datatype a = ''double'' then VT_DOUBLE else VT_UINT64),
      cd_index = attr_index a, cd_output = True, cd_suffixes = sort (remdups (attr_suffixes a))\<rparr>"

fun add_attributes :: "stat_attribute list \<Rightarrow> (string \<rightharpoonup> column_t) \<Rightarrow> (string \<rightharpoonup> column_t)" where
  "add_attributes [] s = s"
| "add_attributes (a # as) s = add_attributes as (s(attr_name a \<mapsto> stat_column a))"

fun scan_stat_tables ::
    "stat_table list \<Rightarrow> string \<Rightarrow> string \<Rightarrow> bool \<times> (string \<rightharpoonup> column_t) \<Rightarrow> bool \<times> (string \<rightharpoonup> column_t)" where
  "scan_stat_tables [] ty at st = st"
| "scan_stat_tables (t # ts) ty at (static, s) =
     (if stat_type t \<noteq> ty \<or> stat_attr t \<noteq> at then scan_stat_tables ts ty at (static, s)
      else scan_stat_tables ts ty at (True, add_attributes (attributes t) s))"

definition new_StatsQuery :: "stat_table list \<Rightarrow> string \<Rightarrow> StatsQuery outcome" where
  "new_StatsQuery tables tname =
     (if \<not> is_stat_table_query tname then Abort
      else let (ty, at) = GetStatTableAttrName tname;
               (static, s) = scan_stat_tables tables ty at (False, Map.empty);
               s1 = (if s ''name'' = None
                     then s(''name'' \<mapsto> \<lparr>cd_datatype = VT_STRING, cd_index = True, cd_output = True, cd_suffixes = []\<rparr>)
                     else s);
               s2 = s1(''Source'' \<mapsto> \<lparr>cd_datatype = VT_STRING, cd_index = True, cd_output = False, cd_suffixes = []\<rparr>);
               s3 = s2(''UUID'' \<mapsto> \<lparr>cd_datatype = VT_UUID, cd_index = False, cd_output = True, cd_suffixes = []\<rparr>)
           in Ret \<lparr>sq_type = ty, sq_attr = at, sq_is_static = static, sq_schema = s3\<rparr>)"

definition blank_column :: column_t where
  "blank_column = \<lparr>cd_datatype = VT_BLANK, cd_index = False, cd_output = False, cd_suffixes = []\<rparr>"

definition stats_get_column_desc :: "StatsQuery \<Rightarrow> string \<Rightarrow> column_t" where
  "stats_get_column_desc q c = (case sq_schema q c of Some d \<Rightarrow> d | None \<Rightarrow> blank_column)"

text \<open>One arm of \<open>ParseAgg\<close>: after the keyword, one character is skipped and the last one erased;
  \<open>substr\<close> past the end and \<open>erase\<close> on an empty string throw.\<close>

definition agg_arm :: "nat \<Rightarrow> AggOper \<Rightarrow> string \<Rightarrow> (AggOper \<times> string) outcome" where
  "agg_arm n agg vname =
     bind_outcome (substr_from vname n) (\<lambda>s. if s = [] then Abort else Ret (agg, butlast s))"

definition ParseAgg :: "string \<Rightarrow> string \<Rightarrow> (AggOper \<times> string) outcome" where
  "ParseAgg vname sfield =
     (if starts_with vname ''COUNT_DISTINCT'' then agg_arm 15 AGG_COUNT_DISTINCT vname
      else if starts_with vname ''COUNT'' then agg_arm 6 AGG_COUNT vname
      else if starts_with vname ''SUM'' then agg_arm 4 AGG_SUM vname
      else if starts_with vname ''CLASS'' then agg_arm 6 AGG_CLASS vname
      else if starts_with vname ''MAX'' then agg_arm 4 AGG_MAX vname
      else if starts_with vname ''MIN'' then agg_arm 4 AGG_MIN vname
      else if starts_with vname ''AVG'' then agg_arm 4 AGG_AVG vname
      else if starts_with vname ''PERCENTILES'' then agg_arm 12 AGG_PERCENTILES vname
      else Ret (AGG_INVALID, sfield))"

section \<open>Schema lookups\<close>

record vtable_column =
  col_name :: string
  col_datatype :: string
  col_index :: bool

record vtable =
  tab_name :: string
  tab_columns :: "vtable_column list"

fun is_valid_where_field :: "vtable list \<Rightarrow> string \<Rightarrow> StatsQuery option \<Rightarrow> string \<Rightarrow> bool" where
  "is_valid_where_field [] table stats f =
     (if is_stat_table_query table
      then (case stats of
              Some q \<Rightarrow> if sq_is_static q then (if cd_index (stats_get_column_desc q f) then True else True)
                        else True
            | None \<Rightarrow> True)
      else True)"
| "is_valid_where_field (t # ts) table stats f =
     (if tab_name t = table then list_ex (\<lambda>c. col_name c = f \<and> col_index c) (tab_columns t)
      else is_valid_where_field ts table stats f)"

definition is_valid_sort_field :: "string list \<Rightarrow> string \<Rightarrow> bool" where
  "is_valid_sort_field select_fields f \<longleftrightarrow>
     f = ''packets'' \<or> f = ''bytes'' \<or> f = ''SUM(packets)'' \<or> f = ''SUM(bytes)'' \<or> f \<in> set select_fields"

fun vtable_column_datatype :: "vtable_column list \<Rightarrow> string \<Rightarrow> string" where
  "vtable_column_datatype [] f = ''''"
| "vtable_column_datatype (c # cs) f = (if col_name c = f then col_datatype c else vtable_column_datatype cs f)"

fun get_column_field_datatype :: "vtable list \<Rightarrow> string \<Rightarrow> StatsQuery option \<Rightarrow> string \<Rightarrow> string" where
  "get_column_field_datatype [] table stats f =
     (case stats of
        Some q \<Rightarrow> (case cd_datatype (stats_get_column_desc q f) of
            VT_STRING \<Rightarrow> ''string'' | VT_UINT64 \<Rightarrow> ''int'' | VT_DOUBLE \<Rightarrow> ''double'' | _ \<Rightarrow> '''')
      | None \<Rightarrow> '''')"
| "get_column_field_datatype (t # ts) table stats f =
     (if tab_name t = table then vtable_column_datatype (tab_columns t) f
      else get_column_field_datatype ts table stats f)"

text \<open>\<open>get_column_name\<close> and \<open>get_query_string\<close> search the table
  \<open>query_string_to_column_name\<close>, which the program never fills.\<close>

definition query_string_to_column_name :: "(string \<times> string) list" where
  "query_string_to_column_name = []"

definition get_column_name :: "string \<Rightarrow> string" where
  "get_column_name s = (case map_of query_string_to_column_name s of Some c \<Rightarrow> c | None \<Rightarrow> s)"

definition get_query_string :: "string \<Rightarrow> string" where
  "get_query_string s =
     (case find (\<lambda>p. snd p = s) query_string_to_column_name of Some p \<Rightarrow> fst p | None \<Rightarrow> s)"

lemma get_column_name_id [simp]: "get_column_name s = s"
  by (simp add: get_column_name_def query_string_to_column_name_def)

section \<open>Properties\<close>

text \<open>The keyword each aggregate is written with in a SELECT or sort field.\<close>

fun agg_keyword :: "AggOper \<Rightarrow> string" where
  "agg_keyword AGG_INVALID = ''''" | "agg_keyword AGG_SUM = ''SUM''" | "agg_keyword AGG_COUNT = ''COUNT''"
| "agg_keyword AGG_CLASS = ''CLASS''" | "agg_keyword AGG_MAX = ''MAX''" | "agg_keyword AGG_MIN = ''MIN''"
| "agg_keyword AGG_PERCENTILES = ''PERCENTILES''" | "agg_keyword AGG_AVG = ''AVG''"
| "agg_keyword AGG_COUNT_DISTINCT = ''COUNT_DISTINCT''"

lemmas agg_simps = ParseAgg_def agg_arm_def starts_with_def substr_from_def

text \<open>
  C38: \<open>StatsQuery::ParseAgg\<close> reads back every aggregate written as \<open>KEYWORD(field)\<close>: the operator
  and exactly the text between the parentheses.
\<close>

theorem ParseAgg_roundtrip:
  assumes "agg \<noteq> AGG_INVALID"
  shows "ParseAgg (agg_keyword agg @ ''('' @ field @ '')'') dflt = Ret (agg, field)"
  using assms by (cases agg) (simp_all add: agg_simps butlast_append)

theorem ParseAgg_roundtrip_witness:
  "ParseAgg ''SUM(flow.bytes)'' '''' = Ret (AGG_SUM, ''flow.bytes'')"
  using ParseAgg_roundtrip[of AGG_SUM "''flow.bytes''" "''''"] by simp

text \<open>
  A bare aggregate keyword, or one followed by a single character, makes \<open>ParseAgg\<close> throw
  (\<open>substr\<close> or \<open>erase\<close> out of range) instead of being rejected.
\<close>

theorem ParseAgg_bare_keyword_aborts:
  assumes "agg \<noteq> AGG_INVALID"
  shows "ParseAgg (agg_keyword agg) dflt = Abort \<and> ParseAgg (agg_keyword agg @ ''('') dflt = Abort"
  using assms by (cases agg) (simp_all add: agg_simps)

theorem ParseAgg_bare_keyword_aborts_witness: "ParseAgg ''SUM'' '''' = Abort"
  using ParseAgg_bare_keyword_aborts[of AGG_SUM "''''"] by simp

text \<open>
  The table predicates partition the table names: every name is of exactly one of the kinds
  message, flow, session, statistics, object-value and object table, so each dispatch on them
  takes one branch.
\<close>

theorem table_kinds_partition:
  "length (filter (\<lambda>b. b)
     [is_message_table_query t, is_flow_query t, is_session_query t, is_stat_table_query t,
      t = OBJECT_VALUE_TABLE, is_object_table_query t]) = 1"
  by (auto simp: table_defs)

text \<open>
  Splitting a statistics-table name \<open>StatTable.<type>.<attr>\<close> gives back its two parts, for
  every type without a dot.
\<close>

theorem GetStatTableAttrName_roundtrip:
  assumes "CHR ''.'' \<notin> set ty"
  shows "GetStatTableAttrName (''StatTable.'' @ ty @ ''.'' @ at) = (ty, at)"
  using find_char_append[OF assms, of at]
  by (simp add: GetStatTableAttrName_def find_char_from_def)

theorem GetStatTableAttrName_roundtrip_witness:
  "GetStatTableAttrName ''StatTable.Cpu.cpu_info.share'' = (''Cpu'', ''cpu_info.share'')"
  using GetStatTableAttrName_roundtrip[of "''Cpu''" "''cpu_info.share''"] by simp

text \<open>
  For a table that is not among the fixed schemas, \<open>is_valid_where_field\<close> accepts every field,
  also the columns of a static statistics table that are not indexed: the test of \<open>cdesc.index\<close>
  falls through to \<open>return true\<close>.
\<close>

theorem is_valid_where_field_vacuous:
  assumes "table \<notin> tab_name ` set tables"
  shows "is_valid_where_field tables table stats f"
  using assms by (induction tables) (auto split: option.splits)

theorem is_valid_where_field_vacuous_witness:
  "\<exists>q. new_StatsQuery [\<lparr>stat_type = ''Cpu'', stat_attr = ''info'',
        attributes = [\<lparr>attr_name = ''load'', attr_datatype = ''int'', attr_index = False, attr_suffixes = []\<rparr>]\<rparr>]
        ''StatTable.Cpu.info'' = Ret q \<and> sq_is_static q \<and>
     \<not> cd_index (stats_get_column_desc q ''load'') \<and> is_valid_where_field [] ''StatTable.Cpu.info'' (Some q) ''load''"
  using is_valid_where_field_vacuous[of "''StatTable.Cpu.info''" "[]"]
  by (simp add: new_StatsQuery_def table_defs GetStatTableAttrName_def find_char_from_def
      stats_get_column_desc_def stat_column_def)

end
