(* ===== verification/Query_Rows.thy ===== *)
theory Query_Rows
  imports Query_Tables Std_Algorithms
begin

text \<open>
  The rows that SELECT hands to post-processing (\<open>QEOpServerProxy.h\<close>: \<open>SubVal\<close>, \<open>AggRowT\<close>,
  \<open>OutRowMultimapT\<close>, \<open>OutRowT\<close>, \<open>BufferT\<close>) and the code outside the repository that is applied to
  them, as one record of functions. A \<open>std::multimap\<close> is the list of its entries in key order.
\<close>

datatype ('d, 't, 'c) SubVal =
    SBlank
  | SString string
  | SUint64 u64
  | SDouble 'd
  | SUuid "u8 list"
  | STdigest 't
  | SCentroid 'c

type_synonym ('d, 't, 'c) StatMap = "(string \<times> ('d, 't, 'c) SubVal) list"
type_synonym ('d, 't, 'c) AggRowT = "((AggOper \<times> string) \<times> ('d, 't, 'c) SubVal) list"
type_synonym ('d, 't, 'c) OutRow =
  "('d, 't, 'c) SubVal list \<times> ('d, 't, 'c) StatMap \<times> ('d, 't, 'c) AggRowT"
type_synonym ('d, 't, 'c) MapBufT = "('d, 't, 'c) OutRow list"

type_synonym OutRowT = "string \<rightharpoonup> string"
type_synonym 'm ResultRowT = "OutRowT \<times> 'm"
type_synonym 'm BufferT = "'m ResultRowT list"

datatype query_status_t = QUERY_PROCESSING_NOT_STARTED | QUERY_IN_PROGRESS | QUERY_SUCCESS | QUERY_FAILURE

text \<open>
  Functions outside the repository. \<open>string_to_u64 s v\<close> and \<open>string_to_double s v\<close> are what a
  variable holding \<open>v\<close> holds after \<open>stringToInteger(s, variable)\<close>; \<open>stale_u64\<close> and
  \<open>stale_double\<close> are the contents of the variables the sources leave uninitialised before such a
  call. \<open>regex_match s p\<close> matches \<open>s\<close> against the regular expression compiled from \<open>p\<close>.
\<close>

record ('d, 't, 'c) row_ext =
  regex_match :: "string \<Rightarrow> string \<Rightarrow> bool"
  regex_valid :: "string \<Rightarrow> bool"
  string_to_u64 :: "string \<Rightarrow> u64 \<Rightarrow> u64"
  string_to_double :: "string \<Rightarrow> 'd \<Rightarrow> 'd"
  stale_u64 :: u64
  stale_double :: 'd
  double_less :: "'d \<Rightarrow> 'd \<Rightarrow> bool"
  show_double :: "'d \<Rightarrow> string"
  show_uuid :: "u8 list \<Rightarrow> string"
  show_tdigest :: "'t \<Rightarrow> string"
  show_centroid :: "'c \<Rightarrow> string"

text \<open>\<open>ostream << SubVal\<close>.\<close>

definition show_SubVal :: "('d, 't, 'c, 'z) row_ext_scheme \<Rightarrow> ('d, 't, 'c) SubVal \<Rightarrow> string" where
  "show_SubVal ext v =
     (case v of SBlank \<Rightarrow> '''' | SString s \<Rightarrow> s | SUint64 n \<Rightarrow> show_nat (unat n)
      | SDouble d \<Rightarrow> show_double ext d | SUuid u \<Rightarrow> show_uuid ext u
      | STdigest t \<Rightarrow> show_tdigest ext t | SCentroid c \<Rightarrow> show_centroid ext c)"

text \<open>The conversion of a JSON match value to text, as the WHERE and filter parsers write it: an
  integer outside the 32-bit ranges has no branch and leaves the string empty.\<close>

definition value_text :: "('d \<Rightarrow> string) \<Rightarrow> 'd json \<Rightarrow> string" where
  "value_text showd v =
     (case v of JString s \<Rightarrow> s
      | JInt i \<Rightarrow> if IsInt v \<or> IsUint v then show_int i else ''''
      | JDouble d \<Rightarrow> showd d
      | _ \<Rightarrow> '''')"

record filter_match_t =
  fm_name :: string
  fm_value :: string
  fm_op :: match_op
  ignore_col_absence :: bool
  match_e :: string

record sort_field_t =
  sf_name :: string
  sf_type :: string

text \<open>A sample instance of the external functions, for evaluating concrete runs.\<close>

definition sample_ext :: "(nat, unit, unit) row_ext" where
  "sample_ext = \<lparr>regex_match = (=), regex_valid = (\<lambda>_. True), string_to_u64 = (\<lambda>s _. strtoul s),
     string_to_double = (\<lambda>s _. digits_val s), stale_u64 = 0, stale_double = 0, double_less = (<),
     show_double = show_nat, show_uuid = (\<lambda>_. ''''), show_tdigest = (\<lambda>_. ''''), show_centroid = (\<lambda>_. '''')\<rparr>"

end
