(* ===== verification/Post_Processing.thy ===== *)
theory Post_Processing
  imports Query_Rows
begin

text \<open>
  \<open>contrail-query-engine/post_processing.cc\<close> and the constructor of \<open>PostProcessingQuery\<close>
  (\<open>query.cc\<close>): the filter, the sort, the limit, and the two merges that combine the results of
  the parallel instances of a query. \<open>QE_ASSERT\<close> in \<open>sort_field_comparator\<close> makes sorting partial:
  a sort or a merge is \<open>Abort\<close> when some pair of the rows it may compare lacks a sort column the
  comparison reaches.
\<close>

record pp_query =
  pp_status :: "qe_errno option"
  filter_list :: "filter_match_t list list"
  pp_sorted :: bool
  sorting_type :: sort_op
  sort_fields :: "sort_field_t list"
  limit :: int

section \<open>Comparing rows\<close>

definition is_num_type :: "string \<Rightarrow> bool" where
  "is_num_type t \<longleftrightarrow> t = ''int'' \<or> t = ''long'' \<or> t = ''ipv4''"

fun sort_field_comparator ::
    "('d, 't, 'c) row_ext \<Rightarrow> sort_field_t list \<Rightarrow> 'm ResultRowT \<Rightarrow> 'm ResultRowT \<Rightarrow> bool outcome" where
  "sort_field_comparator ext [] l r = Ret False"
| "sort_field_comparator ext (f # fs) l r =
     (case fst l (sf_name f) of None \<Rightarrow> Abort
      | Some lv \<Rightarrow> (case fst r (sf_name f) of None \<Rightarrow> Abort
        | Some rv \<Rightarrow>
            if is_num_type (sf_type f) then
              (let a = string_to_u64 ext lv 0; b = string_to_u64 ext rv 0
               in if a < b then Ret True else if a > b then Ret False
                  else sort_field_comparator ext fs l r)
            else if lv < rv then Ret True else if lv > rv then Ret False
            else sort_field_comparator ext fs l r))"

definition row_lt :: "('d, 't, 'c) row_ext \<Rightarrow> sort_field_t list \<Rightarrow> 'm ResultRowT \<Rightarrow> 'm ResultRowT \<Rightarrow> bool" where
  "row_lt ext fs l r \<longleftrightarrow> sort_field_comparator ext fs l r = Ret True"

text \<open>The rows the comparator is defined on: every sort column present.\<close>

definition has_sort_fields :: "sort_field_t list \<Rightarrow> 'm ResultRowT \<Rightarrow> bool" where
  "has_sort_fields fs r \<longleftrightarrow> (\<forall>f \<in> set fs. fst r (sf_name f) \<noteq> None)"

definition cross_abort :: "('d, 't, 'c) row_ext \<Rightarrow> sort_field_t list \<Rightarrow> 'm BufferT \<Rightarrow> 'm BufferT \<Rightarrow> bool" where
  "cross_abort ext fs xs ys \<longleftrightarrow>
     list_ex (\<lambda>x. list_ex (\<lambda>y. sort_field_comparator ext fs x y = Abort \<or>
                                sort_field_comparator ext fs y x = Abort) ys) xs"

fun pairs_abort :: "('d, 't, 'c) row_ext \<Rightarrow> sort_field_t list \<Rightarrow> 'm BufferT \<Rightarrow> bool" where
  "pairs_abort ext fs [] \<longleftrightarrow> False"
| "pairs_abort ext fs (x # xs) \<longleftrightarrow> cross_abort ext fs [x] xs \<or> pairs_abort ext fs xs"

text \<open>\<open>std::sort\<close> over the range, or over the reversed range for any other sort order.\<close>

definition sort_rows :: "('d, 't, 'c) row_ext \<Rightarrow> pp_query \<Rightarrow> 'm BufferT \<Rightarrow> 'm BufferT outcome" where
  "sort_rows ext pp rows =
     (if pairs_abort ext (sort_fields pp) rows then Abort
      else if sorting_type pp = ASCENDING then Ret (std_sort (row_lt ext (sort_fields pp)) rows)
      else Ret (rev (std_sort (row_lt ext (sort_fields pp)) (rev rows))))"

text \<open>\<open>size() > (size_t) limit\<close> and \<open>resize(limit)\<close>: a negative limit is a huge \<open>size_t\<close>.\<close>

definition apply_limit :: "int \<Rightarrow> 'a list \<Rightarrow> 'a list" where
  "apply_limit lim xs =
     (let n = unat (word_of_int lim :: u64)
      in if lim \<noteq> 0 \<and> length xs > n then take n xs else xs)"

section \<open>Merging\<close>

definition merge_processing ::
    "('d, 't, 'c) row_ext \<Rightarrow> pp_query \<Rightarrow> 'm BufferT option \<Rightarrow> 'm BufferT \<Rightarrow> 'm BufferT \<Rightarrow> (bool \<times> 'm BufferT) outcome" where
  "merge_processing ext pp result inp out =
     (let lt = row_lt ext (sort_fields pp); fs = sort_fields pp
      in if pp_status pp \<noteq> None then Ret (False, out)
         else if pp_sorted pp then
           (case result of
              None \<Rightarrow>
                if out = [] then Ret (True, inp)
                else if cross_abort ext fs out inp then Abort
                else if sorting_type pp = ASCENDING then Ret (True, std_merge lt out inp)
                else Ret (True, rev (std_merge lt (rev inp) (rev out)))
            | Some result2 \<Rightarrow>
                if cross_abort ext fs inp result2 then Abort
                else if sorting_type pp = ASCENDING then Ret (True, out @ std_merge lt inp result2)
                else Ret (True, out @ std_merge lt (rev inp) (rev result2)))
         else
           (case result of
              None \<Rightarrow> Ret (True, out @ inp)
            | Some result2 \<Rightarrow> Ret (True, out @ inp @ result2)))"

definition final_merge_processing ::
    "('d, 't, 'c) row_ext \<Rightarrow> pp_query \<Rightarrow> 'm BufferT list \<Rightarrow> 'm BufferT \<Rightarrow> (bool \<times> 'm BufferT) outcome" where
  "final_merge_processing ext pp inputs out =
     (if pp_status pp \<noteq> None then Ret (False, out)
      else let merged = out @ concat inputs
           in bind_outcome (if pp_sorted pp then sort_rows ext pp merged else Ret merged)
                (\<lambda>rows. Ret (True, apply_limit (limit pp) rows)))"

section \<open>Filtering\<close>

text \<open>The \<open>switch\<close> of the filter loop over statistics rows.\<close>

definition stat_match :: "('d, 't, 'c) row_ext \<Rightarrow> filter_match_t \<Rightarrow> ('d, 't, 'c) SubVal \<Rightarrow> bool" where
  "stat_match ext f v =
     (case fm_op f of
        EQUAL \<Rightarrow> fm_value f = show_SubVal ext v
      | NOT_EQUAL \<Rightarrow> fm_value f \<noteq> show_SubVal ext v
      | LEQ \<Rightarrow> (case v of
            SUint64 x \<Rightarrow> \<not> x > string_to_u64 ext (fm_value f) (stale_u64 ext)
          | SDouble d \<Rightarrow> \<not> double_less ext (string_to_double ext (fm_value f) (stale_double ext)) d
          | _ \<Rightarrow> True)
      | GEQ \<Rightarrow> (case v of
            SUint64 x \<Rightarrow> \<not> x < string_to_u64 ext (fm_value f) (stale_u64 ext)
          | SDouble d \<Rightarrow> \<not> double_less ext d (string_to_double ext (fm_value f) (stale_double ext))
          | _ \<Rightarrow> True)
      | REGEX_MATCH \<Rightarrow> regex_match ext (show_SubVal ext v) (match_e f)
      | _ \<Rightarrow> True)"

text \<open>A missing attribute leaves the AND loop with \<open>and_check\<close> still true.\<close>

fun stat_and_check :: "('d, 't, 'c) row_ext \<Rightarrow> ('d, 't, 'c) StatMap \<Rightarrow> filter_match_t list \<Rightarrow> bool" where
  "stat_and_check ext attrs [] = True"
| "stat_and_check ext attrs (f # fs) =
     (case map_of attrs (fm_name f) of
        None \<Rightarrow> True
      | Some v \<Rightarrow> if stat_match ext f v then stat_and_check ext attrs fs else False)"

fun stat_delete_row :: "('d, 't, 'c) row_ext \<Rightarrow> ('d, 't, 'c) StatMap \<Rightarrow> filter_match_t list list \<Rightarrow> bool" where
  "stat_delete_row ext attrs [] = True"
| "stat_delete_row ext attrs (fa # fas) =
     (if stat_and_check ext attrs fa then False else stat_delete_row ext attrs fas)"

fun filter_stat_rows ::
    "('d, 't, 'c) row_ext \<Rightarrow> filter_match_t list list \<Rightarrow> ('d, 't, 'c) MapBufT \<Rightarrow> ('d, 't, 'c) MapBufT" where
  "filter_stat_rows ext fl [] = []"
| "filter_stat_rows ext fl ((key, attrs, aggs) # rows) =
     (if stat_delete_row ext attrs fl then filter_stat_rows ext fl rows
      else (key, attrs, aggs) # filter_stat_rows ext fl rows)"

text \<open>The \<open>switch\<close> over the other rows; \<open>None\<close> is the \<open>default\<close> branch, which makes the query fail.\<close>

definition row_match :: "('d, 't, 'c) row_ext \<Rightarrow> filter_match_t \<Rightarrow> string \<Rightarrow> bool option" where
  "row_match ext f v =
     (case fm_op f of
        EQUAL \<Rightarrow> Some (fm_value f = v)
      | NOT_EQUAL \<Rightarrow> Some (fm_value f \<noteq> v)
      | LEQ \<Rightarrow> Some (\<not> atoi v > atoi (fm_value f))
      | GEQ \<Rightarrow> Some (\<not> atoi v < atoi (fm_value f))
      | REGEX_MATCH \<Rightarrow> Some (regex_match ext v (match_e f))
      | _ \<Rightarrow> None)"

fun row_and_check :: "('d, 't, 'c) row_ext \<Rightarrow> OutRowT \<Rightarrow> filter_match_t list \<Rightarrow> bool option" where
  "row_and_check ext row [] = Some True"
| "row_and_check ext row (f # fs) =
     (case row (fm_name f) of
        None \<Rightarrow> if \<not> ignore_col_absence f then Some False else row_and_check ext row fs
      | Some v \<Rightarrow> (case row_match ext f v of
            None \<Rightarrow> None
          | Some b \<Rightarrow> if b then row_and_check ext row fs else Some False))"

fun row_delete :: "('d, 't, 'c) row_ext \<Rightarrow> OutRowT \<Rightarrow> filter_match_t list list \<Rightarrow> bool option" where
  "row_delete ext row [] = Some True"
| "row_delete ext row (fa # fas) =
     (case row_and_check ext row fa of
        None \<Rightarrow> None
      | Some b \<Rightarrow> if b then Some False else row_delete ext row fas)"

fun filter_rows :: "('d, 't, 'c) row_ext \<Rightarrow> filter_match_t list list \<Rightarrow> 'm BufferT \<Rightarrow> 'm BufferT option" where
  "filter_rows ext fl [] = Some []"
| "filter_rows ext fl (row # rows) =
     (case row_delete ext (fst row) fl of
        None \<Rightarrow> None
      | Some d \<Rightarrow> map_option (\<lambda>rs. if d then rs else row # rs) (filter_rows ext fl rows))"

section \<open>process_query\<close>

definition limit_here :: "string \<Rightarrow> bool \<Rightarrow> bool" where
  "limit_here table parallelized \<longleftrightarrow>
     table \<noteq> FLOW_SERIES_TABLE \<or> (table = FLOW_SERIES_TABLE \<and> \<not> parallelized)"

definition process_query ::
    "('d, 't, 'c) row_ext \<Rightarrow> pp_query \<Rightarrow> string \<Rightarrow> bool \<Rightarrow> 'm BufferT \<Rightarrow> ('d, 't, 'c) MapBufT
     \<Rightarrow> (query_status_t \<times> 'm BufferT \<times> ('d, 't, 'c) MapBufT) outcome" where
  "process_query ext pp table parallelized raw mres =
     (if pp_status pp \<noteq> None then Ret (QUERY_FAILURE, raw, mres)
      else
        let mres1 = (if filter_list pp \<noteq> [] then filter_stat_rows ext (filter_list pp) mres else mres)
        in case (if filter_list pp \<noteq> [] then filter_rows ext (filter_list pp) raw else Some raw) of
             None \<Rightarrow> Ret (QUERY_FAILURE, raw, mres1)
           | Some raw1 \<Rightarrow>
               bind_outcome (if pp_sorted pp then sort_rows ext pp raw1 else Ret raw1)
                 (\<lambda>raw2. if limit_here table parallelized
                          then Ret (QUERY_SUCCESS, apply_limit (limit pp) raw2, apply_limit (limit pp) mres1)
                          else Ret (QUERY_SUCCESS, raw2, mres1)))"

section \<open>The comparator is a strict weak ordering on rows with all sort columns\<close>

definition num_key :: "('d, 't, 'c) row_ext \<Rightarrow> sort_field_t \<Rightarrow> 'm ResultRowT \<Rightarrow> u64" where
  "num_key ext f r = string_to_u64 ext (the (fst r (sf_name f))) 0"

definition str_key :: "sort_field_t \<Rightarrow> 'm ResultRowT \<Rightarrow> string" where
  "str_key f r = the (fst r (sf_name f))"

lemma row_lt_Nil [simp]: "\<not> row_lt ext [] l r"
  by (simp add: row_lt_def)

lemma row_lt_Cons:
  assumes "has_sort_fields (f # fs) l" and "has_sort_fields (f # fs) r"
  shows "row_lt ext (f # fs) l r \<longleftrightarrow>
    (if is_num_type (sf_type f)
     then num_key ext f l < num_key ext f r \<or> num_key ext f l = num_key ext f r \<and> row_lt ext fs l r
     else str_key f l < str_key f r \<or> str_key f l = str_key f r \<and> row_lt ext fs l r)"
  using assms
  by (auto simp: row_lt_def has_sort_fields_def num_key_def str_key_def Let_def split: if_splits)

lemma has_sort_fields_ConsD: "has_sort_fields (f # fs) r \<Longrightarrow> has_sort_fields fs r"
  by (simp add: has_sort_fields_def)

lemma comparator_Ret:
  "\<lbrakk>has_sort_fields fs l; has_sort_fields fs r\<rbrakk> \<Longrightarrow> sort_field_comparator ext fs l r \<noteq> Abort"
  by (induction fs) (auto simp: has_sort_fields_def Let_def split: if_splits)

lemma row_lt_irrefl: "has_sort_fields fs r \<Longrightarrow> \<not> row_lt ext fs r r"
  by (induction fs) (auto simp: row_lt_Cons dest: has_sort_fields_ConsD)

lemma row_lt_trans:
  "\<lbrakk>has_sort_fields fs x; has_sort_fields fs y; has_sort_fields fs z; row_lt ext fs x y; row_lt ext fs y z\<rbrakk>
     \<Longrightarrow> row_lt ext fs x z"
proof (induction fs)
  case (Cons f fs)
  note h = Cons.prems(1-3)[THEN has_sort_fields_ConsD]
  show ?case
  proof (cases "is_num_type (sf_type f)")
    case True
    then show ?thesis using Cons.IH[OF h] Cons.prems by (auto simp: row_lt_Cons)
  next
    case False
    then show ?thesis using Cons.IH[OF h] Cons.prems by (auto simp: row_lt_Cons)
  qed
qed simp

lemma row_lt_split:
  "\<lbrakk>has_sort_fields fs x; has_sort_fields fs y; has_sort_fields fs z; row_lt ext fs x z\<rbrakk>
     \<Longrightarrow> row_lt ext fs x y \<or> row_lt ext fs y z"
proof (induction fs)
  case (Cons f fs)
  note h = Cons.prems(1-3)[THEN has_sort_fields_ConsD]
  show ?case
  proof (cases "is_num_type (sf_type f)")
    case True
    then show ?thesis using Cons.IH[OF h] Cons.prems by (auto simp: row_lt_Cons)
  next
    case False
    then show ?thesis using Cons.IH[OF h] Cons.prems by (auto simp: row_lt_Cons)
  qed
qed simp

interpretation row_order: strict_weak_ordering "row_lt ext fs" "Collect (has_sort_fields fs)" for ext fs
  using row_lt_irrefl row_lt_trans row_lt_split by unfold_locales blast+

text \<open>The order a query asks for: the comparator, or its converse for any other sort order.\<close>

definition dir_lt :: "('d, 't, 'c) row_ext \<Rightarrow> pp_query \<Rightarrow> 'm ResultRowT \<Rightarrow> 'm ResultRowT \<Rightarrow> bool" where
  "dir_lt ext pp = (if sorting_type pp = ASCENDING then row_lt ext (sort_fields pp)
                    else (\<lambda>l r. row_lt ext (sort_fields pp) r l))"

interpretation dir_order: strict_weak_ordering "dir_lt ext pp" "Collect (has_sort_fields (sort_fields pp))" for ext pp
  unfolding dir_lt_def
  using row_order.strict_weak_ordering_axioms row_order.flip by (cases "sorting_type pp = ASCENDING") simp_all

lemma cross_abort_False:
  "\<lbrakk>list_all (has_sort_fields fs) xs; list_all (has_sort_fields fs) ys\<rbrakk> \<Longrightarrow> \<not> cross_abort ext fs xs ys"
  using comparator_Ret unfolding cross_abort_def list_all_iff list_ex_iff by blast

lemma pairs_abort_False: "list_all (has_sort_fields fs) xs \<Longrightarrow> \<not> pairs_abort ext fs xs"
proof (induction xs)
  case (Cons x xs)
  then show ?case using cross_abort_False[of fs "[x]" xs ext] by simp
qed simp

lemma sort_rows_correct:
  assumes "list_all (has_sort_fields (sort_fields pp)) rows"
  shows "\<exists>res. sort_rows ext pp rows = Ret res \<and> sorted_by (dir_lt ext pp) res \<and> mset res = mset rows"
proof -
  have sub: "set rows \<subseteq> Collect (has_sort_fields (sort_fields pp))"
    using assms by (auto simp: list_all_iff)
  then have "sorted_by (row_lt ext (sort_fields pp)) (std_sort (row_lt ext (sort_fields pp)) rows)"
    "sorted_by (row_lt ext (sort_fields pp)) (std_sort (row_lt ext (sort_fields pp)) (rev rows))"
    by (auto intro!: row_order.sorted_std_sort)
  then show ?thesis using pairs_abort_False[OF assms, of ext]
    by (simp add: sort_rows_def dir_lt_def sorted_by_rev)
qed

lemma apply_limit_pos:
  "\<lbrakk>0 < lim; lim < 2 ^ 31\<rbrakk> \<Longrightarrow> apply_limit lim xs = take (nat lim) xs"
  by (simp add: apply_limit_def Let_def unat_eq_nat_uint uint_word_of_int)

section \<open>What the filter loops compute\<close>

definition supported_op :: "match_op \<Rightarrow> bool" where
  "supported_op m \<longleftrightarrow> m \<in> {EQUAL, NOT_EQUAL, LEQ, GEQ, REGEX_MATCH}"

text \<open>The intended reading: some AND list of which every filter matches.\<close>

definition row_passes :: "('d, 't, 'c) row_ext \<Rightarrow> filter_match_t list list \<Rightarrow> OutRowT \<Rightarrow> bool" where
  "row_passes ext fl row \<longleftrightarrow>
     (\<exists>fa \<in> set fl. \<forall>f \<in> set fa.
        case row (fm_name f) of None \<Rightarrow> ignore_col_absence f | Some v \<Rightarrow> row_match ext f v = Some True)"

definition supported_filters :: "filter_match_t list list \<Rightarrow> bool" where
  "supported_filters fl \<longleftrightarrow> (\<forall>fa \<in> set fl. \<forall>f \<in> set fa. supported_op (fm_op f))"

lemma row_match_supported: "supported_op (fm_op f) \<Longrightarrow> row_match ext f v \<noteq> None"
  by (auto simp: supported_op_def row_match_def)

lemma row_and_check_eq:
  "\<forall>f \<in> set fa. supported_op (fm_op f) \<Longrightarrow>
     row_and_check ext row fa = Some (\<forall>f \<in> set fa.
        case row (fm_name f) of None \<Rightarrow> ignore_col_absence f | Some v \<Rightarrow> row_match ext f v = Some True)"
proof (induction fa)
  case (Cons f fa)
  then have "row_match ext f v \<noteq> None" for v by (simp add: row_match_supported)
  with Cons show ?case by (cases "row (fm_name f)") (auto split: option.splits)
qed simp

lemma row_delete_eq:
  "supported_filters fl \<Longrightarrow> row_delete ext row fl = Some (\<not> row_passes ext fl row)"
proof (induction fl)
  case (Cons fa fl)
  then have "supported_filters fl" "\<forall>f \<in> set fa. supported_op (fm_op f)"
    by (auto simp: supported_filters_def)
  with Cons.IH show ?case by (simp add: row_and_check_eq row_passes_def)
qed (simp add: row_passes_def)

lemma filter_rows_eq:
  "supported_filters fl \<Longrightarrow> filter_rows ext fl rows = Some (filter (\<lambda>r. row_passes ext fl (fst r)) rows)"
  by (induction rows) (auto simp: row_delete_eq)

definition filtered :: "('d, 't, 'c) row_ext \<Rightarrow> pp_query \<Rightarrow> 'm BufferT \<Rightarrow> 'm BufferT" where
  "filtered ext pp rows =
     (if filter_list pp = [] then rows else filter (\<lambda>r. row_passes ext (filter_list pp) (fst r)) rows)"

lemma filtered_concat: "filtered ext pp (concat xss) = concat (map (filtered ext pp) xss)"
  by (cases "filter_list pp = []") (simp_all add: filtered_def[abs_def] filter_concat)

lemma set_filtered: "set (filtered ext pp rows) \<subseteq> set rows"
  by (simp add: filtered_def)

lemma process_query_topk:
  assumes ok: "pp_status pp = None" "supported_filters (filter_list pp)" "pp_sorted pp"
    and lim: "0 < limit pp" "limit pp < 2 ^ 31"
    and cols: "list_all (has_sort_fields (sort_fields pp)) rows" and here: "limit_here table par"
  shows "\<exists>out m. process_query ext pp table par rows [] = Ret (QUERY_SUCCESS, out, m) \<and>
      is_topk (dir_lt ext pp) (nat (limit pp)) (filtered ext pp rows) out"
proof -
  have "list_all (has_sort_fields (sort_fields pp)) (filtered ext pp rows)"
    using cols set_filtered[of ext pp rows] by (auto simp: list_all_iff)
  from sort_rows_correct[OF this, of ext] obtain s where
    s: "sort_rows ext pp (filtered ext pp rows) = Ret s" "sorted_by (dir_lt ext pp) s"
      "mset s = mset (filtered ext pp rows)"
    by blast
  have "process_query ext pp table par rows [] =
      Ret (QUERY_SUCCESS, take (nat (limit pp)) s, apply_limit (limit pp) [])"
    using ok here s(1) lim by (cases "filter_list pp = []")
      (auto simp: process_query_def filtered_def filter_rows_eq apply_limit_pos)
  then show ?thesis using dir_order.topk_take_sorted[OF s(2,3), of "nat (limit pp)"] by blast
qed

section \<open>Properties\<close>

text \<open>
  C27: with supported operators, the filter loop of \<open>PostProcessingQuery::process_query\<close> (with its
  early exits) keeps exactly the rows for which some AND list matches in every member, in their
  original order, and the query succeeds.
\<close>

theorem filter_rows_spec:
  assumes "pp_status pp = None" and "supported_filters (filter_list pp)" and "\<not> pp_sorted pp" and "limit pp = 0"
  shows "\<exists>mres'. process_query ext pp table par rows mres = Ret (QUERY_SUCCESS, filtered ext pp rows, mres')"
  using assms by (simp add: process_query_def filtered_def filter_rows_eq apply_limit_def)

text \<open>A small query for the witnesses: filter on \<open>a\<close>, sort by the integer column \<open>b\<close>.\<close>

definition sample_pp :: pp_query where
  "sample_pp = \<lparr>pp_status = None,
     filter_list = [[\<lparr>fm_name = ''a'', fm_value = ''1'', fm_op = EQUAL, ignore_col_absence = False, match_e = ''''\<rparr>]],
     pp_sorted = True, sorting_type = ASCENDING, sort_fields = [\<lparr>sf_name = ''b'', sf_type = ''int''\<rparr>], limit = 1\<rparr>"

definition sample_row :: "string \<Rightarrow> string \<Rightarrow> unit ResultRowT" where
  "sample_row a b = ([''a'' \<mapsto> a, ''b'' \<mapsto> b], ())"

theorem filter_rows_spec_witness:
  "\<exists>mres'. process_query sample_ext (sample_pp\<lparr>pp_sorted := False, limit := 0\<rparr>) MESSAGE_TABLE True
     [sample_row ''1'' ''7'', sample_row ''2'' ''3''] [] = Ret (QUERY_SUCCESS, [sample_row ''1'' ''7''], mres')"
  using filter_rows_spec[of "sample_pp\<lparr>pp_sorted := False, limit := 0\<rparr>" sample_ext MESSAGE_TABLE True
      "[sample_row ''1'' ''7'', sample_row ''2'' ''3'']" "[]"]
  by (simp add: sample_pp_def sample_row_def filtered_def supported_filters_def supported_op_def
      row_passes_def row_match_def)

text \<open>
  C11: applying the limit in every parallel instance and again in the final merge returns the best
  \<open>limit\<close> rows of the whole result: for any split of the rows into chunks, each filtered, sorted
  and cut by \<open>process_query\<close>, \<open>final_merge_processing\<close> yields rows in the requested order, taken from
  the filtered rows of all chunks, as many as the limit allows, and no row left out precedes a row
  returned.
\<close>

theorem limit_pushdown:
  assumes ok: "pp_status pp = None" "supported_filters (filter_list pp)" "pp_sorted pp"
    and lim: "0 < limit pp" "limit pp < 2 ^ 31"
    and cols: "\<forall>rows \<in> set chunks. list_all (has_sort_fields (sort_fields pp)) rows"
    and here: "limit_here table par"
  shows "\<exists>outs res.
    list_all2 (\<lambda>rows out. \<exists>m. process_query ext pp table par rows [] = Ret (QUERY_SUCCESS, out, m)) chunks outs \<and>
    final_merge_processing ext pp outs [] = Ret (True, res) \<and>
    is_topk (dir_lt ext pp) (nat (limit pp)) (filtered ext pp (concat chunks)) res"
proof -
  let ?k = "nat (limit pp)" and ?lt = "dir_lt ext pp" and ?A = "Collect (has_sort_fields (sort_fields pp))"
  have "\<exists>out m. process_query ext pp table par rows [] = Ret (QUERY_SUCCESS, out, m) \<and>
      is_topk ?lt ?k (filtered ext pp rows) out" if "rows \<in> set chunks" for rows
    using process_query_topk[OF ok lim _ here] cols that by blast
  then obtain g where g: "\<And>rows. rows \<in> set chunks \<Longrightarrow>
      (\<exists>m. process_query ext pp table par rows [] = Ret (QUERY_SUCCESS, g rows, m)) \<and>
      is_topk ?lt ?k (filtered ext pp rows) (g rows)" by metis
  let ?outs = "map g chunks"
  have parts: "list_all2 (is_topk ?lt ?k) (map (filtered ext pp) chunks) ?outs"
    using g by (simp add: list_all2_conv_all_nth)
  have sub: "set (concat (map (filtered ext pp) chunks)) \<subseteq> ?A"
    using cols set_filtered[of ext pp] by (fastforce simp: list_all_iff)
  have "\<forall>out \<in> set ?outs. list_all (has_sort_fields (sort_fields pp)) out"
    using g sub by (fastforce simp: list_all_iff dest!: is_topkD(2) mset_subset_eqD)
  then have "list_all (has_sort_fields (sort_fields pp)) (concat ?outs)" by (auto simp: list_all_iff)
  from sort_rows_correct[OF this, of ext] obtain s where
    s: "sort_rows ext pp (concat ?outs) = Ret s" "sorted_by ?lt s" "mset s = mset (concat ?outs)" by blast
  have "final_merge_processing ext pp ?outs [] = Ret (True, take ?k s)"
    using ok s(1) lim by (simp add: final_merge_processing_def apply_limit_pos)
  moreover have "is_topk ?lt ?k (filtered ext pp (concat chunks)) (take ?k s)"
    using dir_order.topk_concat[OF sub parts dir_order.topk_take_sorted[OF s(2,3)]]
    by (simp add: filtered_concat)
  moreover have "list_all2 (\<lambda>rows out. \<exists>m. process_query ext pp table par rows [] = Ret (QUERY_SUCCESS, out, m)) chunks ?outs"
    using g by (simp add: list_all2_conv_all_nth)
  ultimately show ?thesis by blast
qed

theorem limit_pushdown_witness:
  "\<exists>outs res. length outs = 2 \<and> final_merge_processing sample_ext sample_pp outs [] = Ret (True, res) \<and>
     is_topk (dir_lt sample_ext sample_pp) 1 [sample_row ''1'' ''7'', sample_row ''1'' ''5''] res"
proof -
  let ?c = "[[sample_row ''1'' ''7'', sample_row ''2'' ''3''], [sample_row ''1'' ''5'']]"
  have "\<exists>outs res.
    list_all2 (\<lambda>rows out. \<exists>m. process_query sample_ext sample_pp MESSAGE_TABLE True rows [] = Ret (QUERY_SUCCESS, out, m)) ?c outs \<and>
    final_merge_processing sample_ext sample_pp outs [] = Ret (True, res) \<and>
    is_topk (dir_lt sample_ext sample_pp) (nat (limit sample_pp)) (filtered sample_ext sample_pp (concat ?c)) res"
    by (rule limit_pushdown)
      (simp_all add: sample_pp_def sample_row_def supported_filters_def supported_op_def has_sort_fields_def limit_here_def)
  moreover have "filtered sample_ext sample_pp (concat ?c) = [sample_row ''1'' ''7'', sample_row ''1'' ''5'']"
    by (simp add: filtered_def sample_pp_def sample_row_def row_passes_def row_match_def)
  moreover have "nat (limit sample_pp) = 1" by (simp add: sample_pp_def)
  ultimately obtain outs res where
    o: "list_all2 (\<lambda>rows out. \<exists>m. process_query sample_ext sample_pp MESSAGE_TABLE True rows [] = Ret (QUERY_SUCCESS, out, m)) ?c outs"
      "final_merge_processing sample_ext sample_pp outs [] = Ret (True, res)"
      "is_topk (dir_lt sample_ext sample_pp) 1 [sample_row ''1'' ''7'', sample_row ''1'' ''5''] res"
    by auto
  have "length outs = 2" using list_all2_lengthD[OF o(1)] by simp
  with o(2,3) show ?thesis by blast
qed

text \<open>
  C19: \<open>merge_processing\<close> into an accumulator (the case \<open>QueryAccumulate\<close> runs: no result of its
  own), for rows with all sort columns: merging a sorted input into a sorted output gives a sorted
  output in either direction, with exactly the rows of both.
\<close>

theorem merge_processing_sorted:
  assumes "pp_status pp = None" and "pp_sorted pp"
    and "list_all (has_sort_fields (sort_fields pp)) (inp @ out)"
    and "sorted_by (dir_lt ext pp) inp" and "sorted_by (dir_lt ext pp) out"
  shows "\<exists>res. merge_processing ext pp None inp out = Ret (True, res) \<and>
    sorted_by (dir_lt ext pp) res \<and> mset res = mset inp + mset out"
proof -
  let ?fs = "sort_fields pp" and ?lt = "row_lt ext (sort_fields pp)"
  have sub: "set inp \<subseteq> Collect (has_sort_fields ?fs)" "set out \<subseteq> Collect (has_sort_fields ?fs)"
    using assms(3) by (auto simp: list_all_iff)
  have na: "\<not> cross_abort ext ?fs out inp"
    using assms(3) by (intro cross_abort_False) (auto simp: list_all_iff)
  show ?thesis
  proof (cases "sorting_type pp = ASCENDING")
    case True
    then have "sorted_by ?lt (std_merge ?lt out inp)"
      using assms(4,5) sub by (intro row_order.sorted_std_merge) (auto simp: dir_lt_def)
    with True assms na show ?thesis
      by (cases "out = []") (auto simp: merge_processing_def dir_lt_def Let_def)
  next
    case False
    then have "sorted_by ?lt (std_merge ?lt (rev inp) (rev out))"
      using assms(4,5) sub by (intro row_order.sorted_std_merge) (auto simp: dir_lt_def sorted_by_rev)
    with False assms na show ?thesis
      by (cases "out = []") (auto simp: merge_processing_def dir_lt_def sorted_by_rev Let_def)
  qed
qed

theorem merge_processing_sorted_witness:
  "\<exists>res. merge_processing sample_ext (sample_pp\<lparr>sorting_type := DESCENDING\<rparr>) None
      [sample_row ''1'' ''5''] [sample_row ''1'' ''7'', sample_row ''1'' ''3''] = Ret (True, res) \<and>
    sorted_by (dir_lt sample_ext (sample_pp\<lparr>sorting_type := DESCENDING\<rparr>)) res \<and> length res = 3"
proof -
  let ?pp = "sample_pp\<lparr>sorting_type := DESCENDING\<rparr>"
  have "sorted_by (dir_lt sample_ext ?pp) [sample_row ''1'' ''7'', sample_row ''1'' ''3'']"
    by (simp add: dir_lt_def row_lt_def sample_pp_def sample_row_def sample_ext_def is_num_type_def
        strtoul_def scan_int_def is_space_def is_digit_def digits_val_def digit_val_def)
  then have "\<exists>res. merge_processing sample_ext ?pp None
      [sample_row ''1'' ''5''] [sample_row ''1'' ''7'', sample_row ''1'' ''3''] = Ret (True, res) \<and>
    sorted_by (dir_lt sample_ext ?pp) res \<and> mset res = mset [sample_row ''1'' ''5''] + mset [sample_row ''1'' ''7'', sample_row ''1'' ''3'']"
    by (intro merge_processing_sorted) (simp_all add: sample_pp_def sample_row_def has_sort_fields_def)
  moreover have "mset res = mset [sample_row ''1'' ''5''] + mset [sample_row ''1'' ''7'', sample_row ''1'' ''3''] \<Longrightarrow> length res = 3" for res
    by (drule arg_cong[of _ _ size]) simp
  ultimately show ?thesis by blast
qed

text \<open>
  A merge in descending order against a result of the query's own merges the reversed ranges
  front to back, so two descending inputs come out in ascending order.
\<close>

theorem merge_processing_descending_reversed:
  assumes "pp_status pp = None" and "pp_sorted pp" and "sorting_type pp = DESCENDING"
    and "list_all (has_sort_fields (sort_fields pp)) (inp @ own)"
    and "sorted_by (dir_lt ext pp) inp" and "sorted_by (dir_lt ext pp) own"
  shows "\<exists>res. merge_processing ext pp (Some own) inp [] = Ret (True, res) \<and>
    sorted_by (row_lt ext (sort_fields pp)) res \<and> mset res = mset inp + mset own"
proof -
  let ?fs = "sort_fields pp" and ?lt = "row_lt ext (sort_fields pp)"
  have "\<not> cross_abort ext ?fs inp own"
    using assms(4) by (intro cross_abort_False) (auto simp: list_all_iff)
  moreover have "sorted_by ?lt (std_merge ?lt (rev inp) (rev own))"
    using assms(3-6) by (intro row_order.sorted_std_merge) (auto simp: dir_lt_def sorted_by_rev list_all_iff)
  ultimately show ?thesis using assms by (simp add: merge_processing_def Let_def)
qed

theorem merge_processing_descending_reversed_witness:
  "\<exists>res. merge_processing sample_ext (sample_pp\<lparr>sorting_type := DESCENDING\<rparr>)
      (Some [sample_row ''1'' ''5'']) [sample_row ''1'' ''7''] [] = Ret (True, res) \<and>
    sorted_by (row_lt sample_ext (sort_fields sample_pp)) res"
  using merge_processing_descending_reversed[of "sample_pp\<lparr>sorting_type := DESCENDING\<rparr>"
      "[sample_row ''1'' ''7'']" "[sample_row ''1'' ''5'']" sample_ext]
  by (auto simp: sample_pp_def sample_row_def has_sort_fields_def)

text \<open>
  The filter over statistics rows keeps a row that has none of the filtered attributes (the AND
  loop leaves with \<open>and_check\<close> still true), while the filter over the other rows drops such a row
  unless the filter ignores absent columns.
\<close>

theorem missing_attribute_divergence:
  assumes "fl \<noteq> []" and "\<forall>fa \<in> set fl. fa \<noteq> [] \<and> (\<forall>f \<in> set fa. map_of attrs (fm_name f) = None \<and> \<not> ignore_col_absence f)"
  shows "filter_stat_rows ext fl [(key, attrs, aggs)] = [(key, attrs, aggs)] \<and>
    filter_rows ext fl [(\<lambda>n. map_option (show_SubVal ext) (map_of attrs n), m)] = Some []"
proof -
  from assms(1) obtain fa fas where fl: "fl = fa # fas" by (cases fl) auto
  with assms(2) obtain f fs where "fa = f # fs" by (cases fa) auto
  with fl assms(2) have "\<not> stat_delete_row ext attrs fl" by simp
  moreover have "row_delete ext (\<lambda>n. map_option (show_SubVal ext) (map_of attrs n)) fl = Some True"
    using assms(2)
  proof (induction fl)
    case (Cons fa fas)
    then obtain f fs where "fa = f # fs" by (cases fa) auto
    with Cons show ?case by simp
  qed simp
  ultimately show ?thesis by simp
qed

theorem missing_attribute_divergence_witness:
  "filter_stat_rows sample_ext (filter_list sample_pp) [([], [(''c'', SUint64 1)], [])] = [([], [(''c'', SUint64 1)], [])]"
  using missing_attribute_divergence[of "filter_list sample_pp" "[(''c'', SUint64 1)]" sample_ext "[]" "[]"]
  by (simp add: sample_pp_def)

end
