(* ===== verification/Post_Parse.thy ===== *)
theory Post_Parse
  imports Post_Processing
begin

text \<open>
  The constructor of \<open>PostProcessingQuery\<close> (\<open>contrail-query-engine/query.cc\<close>): sort order, limit,
  sort fields and filter from the JSON request, the filters WHERE left for post-processing, the
  filter that hides the query engine's own log messages. The request is the \<open>std::map\<close>
  \<open>json_api_data\<close>, an association list in key order; \<open>parse\<close> is rapidjson's parser.
\<close>

record query_ctx =
  ctx_tables :: "vtable list"
  ctx_table :: string
  ctx_stats :: "StatsQuery option"
  ctx_select :: "string list"
  ctx_where_filters :: "filter_match_t list list"
  ctx_filter_qe_logs :: bool
  ctx_moduleid :: string

record pp_parse =
  pq :: pp_query
  pp_json_string :: string
  pp_merge_needed :: bool

definition init_pp :: pp_parse where
  "init_pp = \<lparr>pq = \<lparr>pp_status = None, filter_list = [], pp_sorted = False, sorting_type = OTHER_SORT 0,
     sort_fields = [], limit = 0\<rparr>, pp_json_string = '''', pp_merge_needed = False\<rparr>"

section \<open>One filter expression\<close>

text \<open>The old list format converts all numbers; the list of lists has no branch for doubles.\<close>

definition filter_value :: "('d, 't, 'c) row_ext \<Rightarrow> bool \<Rightarrow> 'd json \<Rightarrow> string" where
  "filter_value ext old v = (if \<not> old \<and> IsDouble v then '''' else value_text (show_double ext) v)"

definition parse_filter :: "('d, 't, 'c) row_ext \<Rightarrow> bool \<Rightarrow> 'd json \<Rightarrow> filter_match_t checked" where
  "parse_filter ext old v =
     bind_checked (HasMembers v [''name'', ''value'', ''op'']) (\<lambda>has.
     bind_checked (ensure has EBADMSG) (\<lambda>_.
     bind_checked (member v ''name'') (\<lambda>n.
     bind_checked (member v ''value'') (\<lambda>x.
     bind_checked (member v ''op'') (\<lambda>p.
     bind_checked (ensure (IsString n) EINVAL) (\<lambda>_.
     bind_checked (ensure (IsString x \<or> IsNumber x) EINVAL) (\<lambda>_.
     bind_checked (ensure (IsNumber p) EINVAL) (\<lambda>_.
     bind_checked (GetString n) (\<lambda>name.
     bind_checked (GetInt p) (\<lambda>i.
       (let val = filter_value ext old x; mop = match_op_of_int i
        in if mop = REGEX_MATCH then
             (if regex_valid ext val
              then Done \<lparr>fm_name = name, fm_value = val, fm_op = mop, ignore_col_absence = False, match_e = val\<rparr>
              else Crash)
           else Done \<lparr>fm_name = name, fm_value = val, fm_op = mop, ignore_col_absence = False, match_e = ''''\<rparr>)))))))))))"

definition parse_filters :: "('d, 't, 'c) row_ext \<Rightarrow> 'd json \<Rightarrow> filter_match_t list list checked" where
  "parse_filters ext v =
     bind_checked (ensure (IsArray v) EBADMSG) (\<lambda>_.
     bind_checked (elements v) (\<lambda>fs.
       if fs \<noteq> [] \<and> \<not> IsArray (hd fs) then
         bind_checked (map_checked (parse_filter ext True) fs) (\<lambda>fa. Done [fa])
       else
         map_checked (\<lambda>a.
           bind_checked (ensure (IsArray a) EBADMSG) (\<lambda>_.
           bind_checked (elements a) (map_checked (parse_filter ext False)))) fs))"

section \<open>Sort fields\<close>

definition parse_sort_field :: "query_ctx \<Rightarrow> 'd json \<Rightarrow> sort_field_t checked" where
  "parse_sort_field ctx v =
     (let dt = get_column_field_datatype (ctx_tables ctx) (ctx_table ctx) (ctx_stats ctx)
      in bind_checked (ensure (IsString v) EBADMSG) (\<lambda>_.
         bind_checked (GetString v) (\<lambda>s.
         bind_checked
           (case ctx_stats ctx of
              Some q \<Rightarrow>
                if is_stat_table_query (ctx_table ctx) \<and> sq_is_static q then
                  bind_checked (of_outcome (ParseAgg s '''')) (\<lambda>(agg, sfield).
                    if agg \<noteq> AGG_INVALID then ensure (dt sfield \<noteq> '''') EINVAL else ensure (dt s \<noteq> '''') EINVAL)
                else Done ()
            | None \<Rightarrow> Done ()) (\<lambda>_.
         bind_checked (ensure (is_valid_sort_field (ctx_select ctx) s) EINVAL) (\<lambda>_.
           Done \<lparr>sf_name = get_column_name s, sf_type = dt s\<rparr>)))))"

section \<open>The request loop\<close>

definition pp_json_field :: "string \<Rightarrow> string \<Rightarrow> string" where
  "pp_json_field key val = ''{ '' @ [CHR 0x22] @ key @ [CHR 0x22] @ '' : '' @ val @ '' }''"

definition pp_step ::
    "('d, 't, 'c) row_ext \<Rightarrow> (string \<Rightarrow> 'd json) \<Rightarrow> query_ctx \<Rightarrow> pp_parse \<Rightarrow> string \<times> string \<Rightarrow> pp_parse checked" where
  "pp_step ext parse ctx st kv =
     (let (key, val) = kv
      in if key = ''sort'' then
           Done (st\<lparr>pq := (pq st)\<lparr>pp_sorted := True, sorting_type := sort_op_of_int (istream_int val)\<rparr>,
                    pp_merge_needed := True, pp_json_string := pp_json_string st @ val @ '' ''\<rparr>)
         else if key = ''limit'' then
           Done (st\<lparr>pq := (pq st)\<lparr>limit := istream_int val\<rparr>,
                    pp_merge_needed := True, pp_json_string := pp_json_string st @ val @ '' ''\<rparr>)
         else if key = ''sort_fields'' then
           (let text = pp_json_field ''sort_fields'' val
            in bind_checked (member (parse text) ''sort_fields'') (\<lambda>v.
               bind_checked (ensure (IsArray v) EBADMSG) (\<lambda>_.
               bind_checked (elements v) (\<lambda>vs.
               bind_checked (map_checked (parse_sort_field ctx) vs) (\<lambda>sfs.
                 Done (st\<lparr>pq := (pq st)\<lparr>sort_fields := sort_fields (pq st) @ sfs\<rparr>,
                          pp_json_string := pp_json_string st @ text @ '' ''\<rparr>))))))
         else if key = ''filter'' then
           (let text = pp_json_field ''filter'' val
            in bind_checked (member (parse text) ''filter'') (\<lambda>v.
               bind_checked (parse_filters ext v) (\<lambda>fl.
                 Done (st\<lparr>pq := (pq st)\<lparr>filter_list := filter_list (pq st) @ fl\<rparr>,
                          pp_json_string := pp_json_string st @ text @ '' ''\<rparr>))))
         else Done st)"

text \<open>The filters WHERE leaves: appended, all of them, to every AND list of the request.\<close>

definition combine_where_filters :: "filter_match_t list list \<Rightarrow> filter_match_t list list \<Rightarrow> filter_match_t list list" where
  "combine_where_filters fl wfl =
     (if wfl \<noteq> [] then (if fl = [] then wfl else map (\<lambda>fa. fa @ concat wfl) fl) else fl)"

definition qe_log_filter :: "string \<Rightarrow> filter_match_t" where
  "qe_log_filter moduleid = \<lparr>fm_name = ''ModuleId'', fm_value = moduleid, fm_op = NOT_EQUAL,
     ignore_col_absence = True, match_e = ''''\<rparr>"

definition add_qe_log_filter :: "query_ctx \<Rightarrow> filter_match_t list list \<Rightarrow> filter_match_t list list" where
  "add_qe_log_filter ctx fl =
     (if ctx_filter_qe_logs ctx \<and> is_message_table_query (ctx_table ctx) then
        (if fl = [] then [[qe_log_filter (ctx_moduleid ctx)]]
         else map (\<lambda>fa. fa @ [qe_log_filter (ctx_moduleid ctx)]) fl)
      else fl)"

definition sort_if_fields :: "pp_query \<Rightarrow> pp_query" where
  "sort_if_fields q =
     (if sort_fields q \<noteq> [] \<and> \<not> pp_sorted q then q\<lparr>pp_sorted := True, sorting_type := ASCENDING\<rparr> else q)"

definition new_PostProcessingQuery ::
    "('d, 't, 'c) row_ext \<Rightarrow> (string \<Rightarrow> 'd json) \<Rightarrow> query_ctx \<Rightarrow> (string \<times> string) list \<Rightarrow> pp_parse checked" where
  "new_PostProcessingQuery ext parse ctx json_api_data =
     bind_checked (foldl_checked (pp_step ext parse ctx) init_pp json_api_data) (\<lambda>st.
       (let fl1 = combine_where_filters (filter_list (pq st)) (ctx_where_filters ctx);
            fl2 = add_qe_log_filter ctx fl1
        in Done (st\<lparr>pq := sort_if_fields ((pq st)\<lparr>filter_list := fl2\<rparr>)\<rparr>)))"

section \<open>Properties\<close>

lemma row_passes_append:
  "row_passes ext [fa @ fb] row \<longleftrightarrow> row_passes ext [fa] row \<and> row_passes ext [fb] row"
  by (auto simp: row_passes_def)

lemma row_passes_singleton: "row_passes ext fl row \<longleftrightarrow> (\<exists>fa \<in> set fl. row_passes ext [fa] row)"
  by (simp add: row_passes_def)

lemma row_passes_concat: "row_passes ext [concat fl] row \<longleftrightarrow> (\<forall>fa \<in> set fl. row_passes ext [fa] row)"
  by (auto simp: row_passes_def)

text \<open>
  When the request carries its own filter, the filters of the WHERE alternatives are conjoined:
  a row passes only if it satisfies the request's filter and \<^emph>\<open>every\<close> alternative of WHERE, although
  WHERE is a disjunction of them. Without a filter in the request the disjunction is kept.
\<close>

theorem where_filters_conjoined:
  assumes "wfl \<noteq> []"
  shows "row_passes ext (combine_where_filters fl wfl) row \<longleftrightarrow>
    (if fl = [] then (\<exists>w \<in> set wfl. row_passes ext [w] row)
     else row_passes ext fl row \<and> (\<forall>w \<in> set wfl. row_passes ext [w] row))"
proof (cases "fl = []")
  case True
  with assms show ?thesis by (simp add: combine_where_filters_def) (rule row_passes_singleton)
next
  case False
  have "row_passes ext (map (\<lambda>fa. fa @ concat wfl) fl) row \<longleftrightarrow>
      (\<exists>fa \<in> set fl. row_passes ext [fa @ concat wfl] row)"
    by (subst row_passes_singleton) simp
  also have "\<dots> \<longleftrightarrow> row_passes ext fl row \<and> row_passes ext [concat wfl] row"
    by (subst (2) row_passes_singleton) (auto simp: row_passes_append)
  finally show ?thesis using False assms by (simp add: combine_where_filters_def row_passes_concat)
qed

definition sample_filter :: "string \<Rightarrow> string \<Rightarrow> filter_match_t" where
  "sample_filter n v = \<lparr>fm_name = n, fm_value = v, fm_op = EQUAL, ignore_col_absence = False, match_e = ''''\<rparr>"

theorem where_filters_conjoined_witness:
  "\<not> row_passes sample_ext
      (combine_where_filters [[sample_filter ''proto'' ''6'']]
         [[sample_filter ''sport'' ''1''], [sample_filter ''sport'' ''2'']])
      [''proto'' \<mapsto> ''6'', ''sport'' \<mapsto> ''1'']"
  by (subst where_filters_conjoined) (auto simp: row_passes_def sample_filter_def row_match_def)

text \<open>
  For a message-table query that hides the query engine's own logs, the constructed query drops
  every row whose \<open>ModuleId\<close> is the query engine's, whatever the request and WHERE ask for, and
  keeps the rows without a \<open>ModuleId\<close> column that pass the other filters.
\<close>

theorem qe_log_filter_effect:
  assumes "ctx_filter_qe_logs ctx" and "is_message_table_query (ctx_table ctx)"
  shows "row_passes ext (add_qe_log_filter ctx fl) row \<longleftrightarrow>
    (fl = [] \<or> row_passes ext fl row) \<and> row ''ModuleId'' \<noteq> Some (ctx_moduleid ctx)"
proof -
  let ?f = "qe_log_filter (ctx_moduleid ctx)"
  have f: "row_passes ext [[?f]] row \<longleftrightarrow> row ''ModuleId'' \<noteq> Some (ctx_moduleid ctx)"
    by (auto simp: row_passes_def qe_log_filter_def row_match_def split: option.splits)
  have "row_passes ext (map (\<lambda>fa. fa @ [?f]) fl) row \<longleftrightarrow> (\<exists>fa \<in> set fl. row_passes ext [fa @ [?f]] row)"
    by (subst row_passes_singleton) simp
  also have "\<dots> \<longleftrightarrow> row_passes ext fl row \<and> row_passes ext [[?f]] row"
    by (subst (2) row_passes_singleton) (auto simp: row_passes_append)
  finally show ?thesis using assms f by (auto simp: add_qe_log_filter_def)
qed

definition sample_ctx :: query_ctx where
  "sample_ctx = \<lparr>ctx_tables = [], ctx_table = MESSAGE_TABLE, ctx_stats = None, ctx_select = [],
     ctx_where_filters = [], ctx_filter_qe_logs = True, ctx_moduleid = ''QueryEngine''\<rparr>"

theorem qe_log_filter_effect_witness:
  "\<not> row_passes sample_ext (add_qe_log_filter sample_ctx []) [''ModuleId'' \<mapsto> ''QueryEngine'']"
  by (subst qe_log_filter_effect) (simp_all add: sample_ctx_def is_message_table_query_def)

definition pp_inv :: "query_ctx \<Rightarrow> pp_parse \<Rightarrow> bool" where
  "pp_inv ctx st \<longleftrightarrow>
     (\<forall>f \<in> set (sort_fields (pq st)). is_valid_sort_field (ctx_select ctx) (sf_name f)) \<and>
     (limit (pq st) \<noteq> 0 \<longrightarrow> pp_merge_needed st) \<and> (pp_sorted (pq st) \<longrightarrow> pp_merge_needed st)"

lemma parse_sort_field_valid:
  "parse_sort_field ctx v = Done f \<Longrightarrow> is_valid_sort_field (ctx_select ctx) (sf_name f)"
  by (auto simp: parse_sort_field_def Let_def)

lemma pp_step_inv: "\<lbrakk>pp_inv ctx st; pp_step ext parse ctx st kv = Done st'\<rbrakk> \<Longrightarrow> pp_inv ctx st'"
proof (cases kv)
  case (Pair key val)
  assume inv: "pp_inv ctx st" and step: "pp_step ext parse ctx st kv = Done st'"
  have valid: "is_valid_sort_field (ctx_select ctx) (sf_name f)"
    if "map_checked (parse_sort_field ctx) vs = Done sfs" "f \<in> set sfs" for vs sfs f
    using that map_checked_nth[OF that(1)] map_checked_length[OF that(1)] parse_sort_field_valid
    by (metis in_set_conv_nth)
  show ?thesis using inv step valid Pair
    by (auto simp: pp_inv_def pp_step_def Let_def split: if_splits)
qed

text \<open>
  A successfully constructed query never keeps unsorted output when the request names sort
  fields, every sort field is one the request selects (or one of the flow statistics), and asking
  for a sort order or a limit makes the engine merge the partial results.
\<close>

theorem new_PostProcessingQuery_inv:
  assumes "new_PostProcessingQuery ext parse ctx json_api_data = Done st"
  shows "(\<forall>f \<in> set (sort_fields (pq st)). is_valid_sort_field (ctx_select ctx) (sf_name f)) \<and>
    (sort_fields (pq st) \<noteq> [] \<longrightarrow> pp_sorted (pq st)) \<and> (limit (pq st) \<noteq> 0 \<longrightarrow> pp_merge_needed st)"
proof -
  from assms obtain st0 where st0: "foldl_checked (pp_step ext parse ctx) init_pp json_api_data = Done st0"
    and st: "st = st0\<lparr>pq := sort_if_fields ((pq st0)\<lparr>filter_list :=
       add_qe_log_filter ctx (combine_where_filters (filter_list (pq st0)) (ctx_where_filters ctx))\<rparr>)\<rparr>"
    by (auto simp: new_PostProcessingQuery_def Let_def)
  have "pp_inv ctx init_pp" by (simp add: pp_inv_def init_pp_def)
  from foldl_checked_inv[where P = "pp_inv ctx", OF pp_step_inv st0 this] have "pp_inv ctx st0" .
  then show ?thesis by (auto simp: st pp_inv_def sort_if_fields_def)
qed

theorem new_PostProcessingQuery_inv_witness:
  "\<exists>st. new_PostProcessingQuery sample_ext (\<lambda>_. JObject [(''sort_fields'', JArray [JString ''packets''])])
       sample_ctx [(''limit'', ''5''), (''sort_fields'', ''...'')] = Done st \<and>
     pp_sorted (pq st) \<and> pp_merge_needed st"
proof -
  let ?p = "(\<lambda>_. JObject [(''sort_fields'', JArray [JString ''packets''])]) :: string \<Rightarrow> nat json"
  obtain st where st: "new_PostProcessingQuery sample_ext ?p sample_ctx [(''limit'', ''5''), (''sort_fields'', ''...'')] = Done st"
    and "sort_fields (pq st) \<noteq> []" "limit (pq st) \<noteq> 0"
    by (simp add: new_PostProcessingQuery_def pp_step_def sample_ctx_def Let_def parse_sort_field_def
        init_pp_def is_valid_sort_field_def sort_if_fields_def istream_int_def scan_int_def is_space_def
        is_digit_def digits_val_def digit_val_def)
  with new_PostProcessingQuery_inv[OF st] show ?thesis by blast
qed

end
