(* ===== verification/Stats_Select.thy ===== *)
theory Stats_Select
  imports Query_Rows
begin

text \<open>
  \<open>stats_select.cc\<close>: the aggregation of SELECT rows. \<open>LoadRow\<close> turns one WHERE result into a row of
  an ordered multimap, keyed by the sort columns followed by a hash of the non-aggregate columns
  (the \<open>uniks\<close>), and merges it into the row already there when the \<open>uniks\<close> agree; \<open>Merge\<close> and
  \<open>MergeFinal\<close> combine the multimaps of the parallel instances; \<open>Jsonify\<close> renders a row. A
  \<open>std::multimap\<close> is the list of its entries: \<open>find\<close> yields the first entry with an equivalent key,
  \<open>insert\<close> puts the new entry after the entries that are not greater. A \<open>shared_ptr\<close> to a digest or
  a centroid is the digest or centroid it points to: a merge updates the one the output row owns, and
  the rows it was copied from are not read again. Writing a vector out of range is \<open>Abort\<close>.
  \<open>'d\<close> is \<open>double\<close> with \<open>operator==\<close> as equality (JSON numbers are never NaN).
\<close>

section \<open>Externals\<close>

text \<open>
  \<open>string_hash\<close> and \<open>hash_pairs\<close> are \<open>boost::hash_value\<close> of a string and \<open>boost::hash_range\<close> of a
  range of pairs, given the hashes of the second components; the rest is \<open>double\<close> arithmetic and the
  interface of the t-digest library. \<open>TDigest_add\<close> returns the digest after the call and the
  replacement it hands back, if any; percentiles are asked for in percent.
\<close>

record ('d, 't, 'c) agg_ext = "('d, 't, 'c) row_ext" +
  string_hash :: "string \<Rightarrow> u64"
  hash_pairs :: "(string \<times> u64) list \<Rightarrow> u64"
  double_add :: "'d \<Rightarrow> 'd \<Rightarrow> 'd"
  double_of_u64 :: "u64 \<Rightarrow> 'd"
  double_of_int :: "int \<Rightarrow> 'd"
  Centroid_create :: 'c
  Centroid_add :: "'c \<Rightarrow> 'd \<Rightarrow> int \<Rightarrow> 'c"
  Centroid_get_mean :: "'c \<Rightarrow> 'd"
  Centroid_get_count :: "'c \<Rightarrow> int"
  TDigest_create :: 't
  TDigest_add :: "'t \<Rightarrow> 'd \<Rightarrow> int \<Rightarrow> 't \<times> 't option"
  TDigest_centroids :: "'t \<Rightarrow> 'c list"
  TDigest_percentile :: "'t \<Rightarrow> nat \<Rightarrow> 'd"
  tdigest_ptr_less :: "'t \<Rightarrow> 't \<Rightarrow> bool"
  centroid_ptr_less :: "'c \<Rightarrow> 'c \<Rightarrow> bool"

section \<open>Keys\<close>

fun sub_which :: "('d, 't, 'c) SubVal \<Rightarrow> nat" where
  "sub_which SBlank = 0" | "sub_which (SString _) = 1" | "sub_which (SUint64 _) = 2"
| "sub_which (SDouble _) = 3" | "sub_which (SUuid _) = 4" | "sub_which (STdigest _) = 5"
| "sub_which (SCentroid _) = 6"

text \<open>\<open>boost::variant::operator<\<close>: the alternative first, then the value.\<close>

definition sub_less :: "('d, 't, 'c) agg_ext \<Rightarrow> ('d, 't, 'c) SubVal \<Rightarrow> ('d, 't, 'c) SubVal \<Rightarrow> bool" where
  "sub_less ext a b \<longleftrightarrow>
     sub_which a < sub_which b \<or>
     (case (a, b) of (SString s, SString s') \<Rightarrow> s < s' | (SUint64 n, SUint64 n') \<Rightarrow> n < n'
      | (SDouble d, SDouble d') \<Rightarrow> double_less ext d d' | (SUuid u, SUuid u') \<Rightarrow> u < u'
      | (STdigest t, STdigest t') \<Rightarrow> tdigest_ptr_less ext t t'
      | (SCentroid c, SCentroid c') \<Rightarrow> centroid_ptr_less ext c c' | _ \<Rightarrow> False)"

text \<open>\<open>std::vector::operator<\<close>.\<close>

fun vec_less :: "('a \<Rightarrow> 'a \<Rightarrow> bool) \<Rightarrow> 'a list \<Rightarrow> 'a list \<Rightarrow> bool" where
  "vec_less lt xs [] = False"
| "vec_less lt [] (y # ys) = True"
| "vec_less lt (x # xs) (y # ys) = (lt x y \<or> \<not> lt y x \<and> vec_less lt xs ys)"

abbreviation key_less :: "('d, 't, 'c) agg_ext \<Rightarrow> ('d, 't, 'c) SubVal list \<Rightarrow> ('d, 't, 'c) SubVal list \<Rightarrow> bool" where
  "key_less ext \<equiv> vec_less (sub_less ext)"

definition key_equiv :: "('d, 't, 'c) agg_ext \<Rightarrow> ('d, 't, 'c) SubVal list \<Rightarrow> ('d, 't, 'c) SubVal list \<Rightarrow> bool" where
  "key_equiv ext k k' \<longleftrightarrow> \<not> key_less ext k k' \<and> \<not> key_less ext k' k"

fun mm_insert :: "('d, 't, 'c) agg_ext \<Rightarrow> ('d, 't, 'c) OutRow \<Rightarrow> ('d, 't, 'c) MapBufT \<Rightarrow> ('d, 't, 'c) MapBufT" where
  "mm_insert ext r [] = [r]"
| "mm_insert ext r (q # qs) =
     (if key_less ext (fst r) (fst q) then r # q # qs else q # mm_insert ext r qs)"

fun mm_find :: "('d, 't, 'c) agg_ext \<Rightarrow> ('d, 't, 'c) SubVal list \<Rightarrow> ('d, 't, 'c) MapBufT \<Rightarrow> nat option" where
  "mm_find ext k [] = None"
| "mm_find ext k (q # qs) = (if key_equiv ext k (fst q) then Some 0 else map_option Suc (mm_find ext k qs))"

definition vec_set :: "'a list \<Rightarrow> nat \<Rightarrow> 'a \<Rightarrow> 'a list outcome" where
  "vec_set v i x = (if i < length v then Ret (v[i := x]) else Abort)"

section \<open>Merging rows\<close>

text \<open>A centroid of the other digest is added; a digest handed back replaces the old one.\<close>

definition tdigest_step :: "('d, 't, 'c) agg_ext \<Rightarrow> 't \<Rightarrow> 'c \<Rightarrow> 't" where
  "tdigest_step ext t c =
     (case TDigest_add ext t (Centroid_get_mean ext c) (Centroid_get_count ext c) of
        (t', None) \<Rightarrow> t' | (t', Some nd) \<Rightarrow> nd)"

fun merge_sum :: "('d, 't, 'c) agg_ext \<Rightarrow> ('d, 't, 'c) SubVal \<Rightarrow> ('d, 't, 'c) SubVal \<Rightarrow> ('d, 't, 'c) SubVal outcome" where
  "merge_sum ext (SUint64 a) (SUint64 b) = Ret (SUint64 (a + b))"
| "merge_sum ext (SUint64 a) _ = Abort"
| "merge_sum ext (SDouble a) (SDouble b) = Ret (SDouble (double_add ext a b))"
| "merge_sum ext (SDouble a) _ = Abort"
| "merge_sum ext sv _ = Ret sv"

fun merge_count :: "('d, 't, 'c) SubVal \<Rightarrow> ('d, 't, 'c) SubVal \<Rightarrow> ('d, 't, 'c) SubVal outcome" where
  "merge_count (SUint64 a) (SUint64 b) = Ret (SUint64 (a + b))"
| "merge_count _ _ = Abort"

fun merge_max :: "('d, 't, 'c) agg_ext \<Rightarrow> ('d, 't, 'c) SubVal \<Rightarrow> ('d, 't, 'c) SubVal \<Rightarrow> ('d, 't, 'c) SubVal outcome" where
  "merge_max ext (SUint64 a) (SUint64 b) = Ret (SUint64 (if a > b then a else b))"
| "merge_max ext (SUint64 a) _ = Abort"
| "merge_max ext (SDouble a) (SDouble b) = Ret (SDouble (if double_less ext b a then a else b))"
| "merge_max ext (SDouble a) _ = Abort"
| "merge_max ext sv _ = Ret sv"

fun merge_min :: "('d, 't, 'c) agg_ext \<Rightarrow> ('d, 't, 'c) SubVal \<Rightarrow> ('d, 't, 'c) SubVal \<Rightarrow> ('d, 't, 'c) SubVal outcome" where
  "merge_min ext (SUint64 a) (SUint64 b) = Ret (SUint64 (if a < b then a else b))"
| "merge_min ext (SUint64 a) _ = Abort"
| "merge_min ext (SDouble a) (SDouble b) = Ret (SDouble (if double_less ext a b then a else b))"
| "merge_min ext (SDouble a) _ = Abort"
| "merge_min ext sv _ = Ret sv"

fun merge_avg :: "('d, 't, 'c) agg_ext \<Rightarrow> ('d, 't, 'c) SubVal \<Rightarrow> ('d, 't, 'c) SubVal \<Rightarrow> ('d, 't, 'c) SubVal outcome" where
  "merge_avg ext (SCentroid p) (SCentroid q) =
     Ret (SCentroid (Centroid_add ext p (Centroid_get_mean ext q) (Centroid_get_count ext q)))"
| "merge_avg ext (SCentroid p) _ = Abort"
| "merge_avg ext sv _ = Ret sv"

fun merge_percentiles :: "('d, 't, 'c) agg_ext \<Rightarrow> ('d, 't, 'c) SubVal \<Rightarrow> ('d, 't, 'c) SubVal \<Rightarrow> ('d, 't, 'c) SubVal outcome" where
  "merge_percentiles ext (STdigest p) (STdigest q) =
     Ret (STdigest (foldl (tdigest_step ext) p (TDigest_centroids ext q)))"
| "merge_percentiles ext (STdigest p) _ = Abort"
| "merge_percentiles ext sv _ = Ret sv"

definition merge_agg :: "('d, 't, 'c) agg_ext \<Rightarrow> AggOper \<Rightarrow> ('d, 't, 'c) SubVal \<Rightarrow> ('d, 't, 'c) SubVal \<Rightarrow> ('d, 't, 'c) SubVal outcome" where
  "merge_agg ext agg sv kv =
     (case agg of AGG_SUM \<Rightarrow> merge_sum ext sv kv
      | AGG_COUNT \<Rightarrow> merge_count sv kv
      | AGG_COUNT_DISTINCT \<Rightarrow> merge_count sv kv
      | AGG_MAX \<Rightarrow> merge_max ext sv kv
      | AGG_MIN \<Rightarrow> merge_min ext sv kv
      | AGG_AVG \<Rightarrow> merge_avg ext sv kv
      | AGG_PERCENTILES \<Rightarrow> merge_percentiles ext sv kv
      | _ \<Rightarrow> Ret sv)"

fun merge_agg_entries :: "('d, 't, 'c) agg_ext \<Rightarrow> ('d, 't, 'c) AggRowT \<Rightarrow> ('d, 't, 'c) AggRowT \<Rightarrow> ('d, 't, 'c) AggRowT outcome" where
  "merge_agg_entries ext [] narows = Ret []"
| "merge_agg_entries ext ((k, sv) # arows) narows =
     bind_outcome (case map_of narows k of None \<Rightarrow> Ret sv | Some kv \<Rightarrow> merge_agg ext (fst k) sv kv)
       (\<lambda>sv'. bind_outcome (merge_agg_entries ext arows narows) (\<lambda>rest. Ret ((k, sv') # rest)))"

definition MergeAggRow :: "('d, 't, 'c) agg_ext \<Rightarrow> ('d, 't, 'c) AggRowT \<Rightarrow> ('d, 't, 'c) AggRowT \<Rightarrow> ('d, 't, 'c) AggRowT outcome" where
  "MergeAggRow ext arows narows = (if arows = [] then Ret narows else merge_agg_entries ext arows narows)"

definition MergeFullRow ::
    "('d, 't, 'c) agg_ext \<Rightarrow> ('d, 't, 'c) SubVal list \<Rightarrow> ('d, 't, 'c) StatMap \<Rightarrow> ('d, 't, 'c) AggRowT \<Rightarrow>
     ('d, 't, 'c) MapBufT \<Rightarrow> ('d, 't, 'c) MapBufT outcome" where
  "MergeFullRow ext ukey uniks narows out =
     (case mm_find ext ukey out of
        Some i \<Rightarrow>
          (let (k, rm, arows) = out ! i
           in if rm \<noteq> uniks then Ret (mm_insert ext (ukey, uniks, narows) out)
              else bind_outcome (MergeAggRow ext arows narows) (\<lambda>arows'. Ret (out[i := (k, rm, arows')])))
      | None \<Rightarrow> Ret (mm_insert ext (ukey, uniks, narows) out))"

section \<open>The selector\<close>

text \<open>The members of \<open>StatsSelect\<close> the code uses; a \<open>std::set\<close> is its sorted list of elements.\<close>

record StatsSelect =
  ss_status :: bool
  ts_period :: u64
  isT :: bool
  count_field :: string
  count_distinct_field :: string
  sort_cols :: "(string \<times> nat) list"
  agg_sort_cols :: "((AggOper \<times> string) \<times> nat) list"
  unik_cols :: "string list"
  sum_cols :: "string list"
  class_cols :: "string list"
  max_field :: "string list"
  min_field :: "string list"
  avg_field :: "string list"
  percentile_cols :: "string list"

abbreviation STAT_TIME_FIELD :: string where "STAT_TIME_FIELD \<equiv> ''T''"
abbreviation STAT_TIMEBIN_FIELD :: string where "STAT_TIMEBIN_FIELD \<equiv> ''T=''"
abbreviation STAT_UUID_FIELD :: string where "STAT_UUID_FIELD \<equiv> ''UUID''"

definition blank_select :: StatsSelect where
  "blank_select = \<lparr>ss_status = False, ts_period = 0, isT = False, count_field = [], count_distinct_field = [],
     sort_cols = [], agg_sort_cols = [], unik_cols = [], sum_cols = [], class_cols = [], max_field = [],
     min_field = [], avg_field = [], percentile_cols = []\<rparr>"

definition add_agg_field :: "StatsSelect \<Rightarrow> string \<Rightarrow> AggOper \<Rightarrow> string \<Rightarrow> StatsSelect" where
  "add_agg_field s f agg sfield =
     (case agg of
        AGG_INVALID \<Rightarrow> s\<lparr>unik_cols := insort_insert f (unik_cols s)\<rparr>
      | AGG_COUNT \<Rightarrow> s\<lparr>count_field := sfield\<rparr>
      | AGG_COUNT_DISTINCT \<Rightarrow> s\<lparr>count_distinct_field := sfield, unik_cols := insort_insert sfield (unik_cols s)\<rparr>
      | AGG_SUM \<Rightarrow> s\<lparr>sum_cols := insort_insert sfield (sum_cols s)\<rparr>
      | AGG_CLASS \<Rightarrow> s\<lparr>class_cols := insort_insert sfield (class_cols s)\<rparr>
      | AGG_MAX \<Rightarrow> s\<lparr>max_field := insort_insert sfield (max_field s)\<rparr>
      | AGG_MIN \<Rightarrow> s\<lparr>min_field := insort_insert sfield (min_field s)\<rparr>
      | AGG_PERCENTILES \<Rightarrow> s\<lparr>percentile_cols := insort_insert sfield (percentile_cols s)\<rparr>
      | AGG_AVG \<Rightarrow> s\<lparr>avg_field := insort_insert sfield (avg_field s)\<rparr>)"

fun scan_select_fields :: "StatsSelect \<Rightarrow> string list \<Rightarrow> StatsSelect outcome" where
  "scan_select_fields s [] = Ret (s\<lparr>ss_status := True\<rparr>)"
| "scan_select_fields s (f # fs) =
     (if f = STAT_TIME_FIELD
      then (if ts_period s \<noteq> 0 then Ret s
            else scan_select_fields (s\<lparr>isT := True, sort_cols := map_insert f 0 (sort_cols s)\<rparr>) fs)
      else if starts_with f STAT_TIMEBIN_FIELD
      then (if isT s then Ret s
            else let s' = s\<lparr>ts_period := strtoul (drop 2 f) * 1000000\<rparr>
                 in if ts_period s' = 0 then Ret s'
                    else scan_select_fields
                           (s'\<lparr>sort_cols := map_insert STAT_TIMEBIN_FIELD 0 (sort_cols s')\<rparr>) fs)
      else bind_outcome (ParseAgg f f)
             (\<lambda>(agg, sfield). scan_select_fields (add_agg_field s f agg sfield) fs))"

definition new_StatsSelect :: "string list \<Rightarrow> StatsSelect outcome" where
  "new_StatsSelect select_fields = scan_select_fields blank_select select_fields"

text \<open>\<open>SetSortOrder\<close>: position \<open>st\<close> of the key belongs to sort field \<open>st\<close>. \<open>stats\<close> is the main
  query's \<open>StatsQuery\<close> when its table is a statistics table.\<close>

fun set_sort_fields :: "StatsQuery option \<Rightarrow> nat \<Rightarrow> sort_field_t list \<Rightarrow> StatsSelect \<Rightarrow> StatsSelect outcome" where
  "set_sort_fields stats st [] s = Ret s"
| "set_sort_fields stats st (f # fs) s =
     (if starts_with (sf_name f) STAT_TIMEBIN_FIELD
      then set_sort_fields stats (Suc st) fs (s\<lparr>sort_cols := map_insert STAT_TIMEBIN_FIELD st (sort_cols s)\<rparr>)
      else if sf_name f = STAT_TIME_FIELD
      then set_sort_fields stats (Suc st) fs (s\<lparr>sort_cols := map_insert (sf_name f) st (sort_cols s)\<rparr>)
      else bind_outcome (ParseAgg (sf_name f) (sf_name f))
        (\<lambda>(agg, sfield).
           if (case stats of None \<Rightarrow> False
               | Some q \<Rightarrow> sq_is_static q \<and> cd_datatype (stats_get_column_desc q sfield) = VT_BLANK)
           then Ret s
           else if agg = AGG_INVALID
           then set_sort_fields stats (Suc st) fs (s\<lparr>sort_cols := map_insert (sf_name f) st (sort_cols s)\<rparr>)
           else set_sort_fields stats (Suc st) fs
                  (s\<lparr>agg_sort_cols := map_insert (agg, sfield) st (agg_sort_cols s)\<rparr>)))"

definition SetSortOrder :: "StatsQuery option \<Rightarrow> sort_field_t list \<Rightarrow> StatsSelect \<Rightarrow> StatsSelect outcome" where
  "SetSortOrder stats sort_fields s =
     set_sort_fields stats 0 sort_fields (if sort_fields \<noteq> [] then s\<lparr>sort_cols := []\<rparr> else s)"

section \<open>Loading a row\<close>

type_synonym ('d, 't, 'c) StatEntry = "string \<times> ('d, 't, 'c) SubVal"

definition hash_uniks :: "('d, 't, 'c) agg_ext \<Rightarrow> ('d, 't, 'c) StatMap \<Rightarrow> u64" where
  "hash_uniks ext uniks = hash_pairs ext (map (\<lambda>(k, v). (k, string_hash ext (show_SubVal ext v))) uniks)"

definition time_bin :: "u64 \<Rightarrow> u64 \<Rightarrow> u64" where
  "time_bin period timestamp = timestamp - timestamp mod period"

fun insert_entries :: "('d, 't, 'c) StatEntry list \<Rightarrow> string list \<Rightarrow> ('d, 't, 'c) StatMap \<Rightarrow> ('d, 't, 'c) StatMap" where
  "insert_entries [] cols m = m"
| "insert_entries ((n, v) # row) cols m = insert_entries row cols (if n \<in> set cols then map_insert n v m else m)"

definition build_uniks :: "StatsSelect \<Rightarrow> u8 list \<Rightarrow> u64 \<Rightarrow> ('d, 't, 'c) StatEntry list \<Rightarrow> ('d, 't, 'c) StatMap" where
  "build_uniks s u timestamp row =
     (let m1 = (if STAT_UUID_FIELD \<in> set (unik_cols s) then map_insert STAT_UUID_FIELD (SUuid u) [] else []);
          m2 = (if isT s then map_insert STAT_TIME_FIELD (SUint64 timestamp) m1 else m1);
          m3 = (if ts_period s \<noteq> 0
                then map_insert STAT_TIMEBIN_FIELD (SUint64 (time_bin (ts_period s) timestamp)) m2 else m2)
      in insert_entries row (unik_cols s) m3)"

text \<open>The key: one slot per sort column, one per aggregate sort column, the last for the hash.\<close>

definition fill_slot :: "('d, 't, 'c) StatMap \<Rightarrow> ('d, 't, 'c) SubVal list \<Rightarrow> string \<times> nat \<Rightarrow> ('d, 't, 'c) SubVal list outcome" where
  "fill_slot uniks ukey c =
     (case map_of uniks (fst c) of None \<Rightarrow> Abort | Some v \<Rightarrow> vec_set ukey (snd c) v)"

definition build_ukey :: "('d, 't, 'c) agg_ext \<Rightarrow> StatsSelect \<Rightarrow> ('d, 't, 'c) StatMap \<Rightarrow> ('d, 't, 'c) SubVal list outcome" where
  "build_ukey ext s uniks =
     (let hash_slot = length (sort_cols s) + length (agg_sort_cols s)
      in foldl_outcome (fill_slot uniks)
           (replicate hash_slot SBlank @ [SUint64 (hash_uniks ext uniks)]) (sort_cols s))"

definition number_val :: "('d, 't, 'c) agg_ext \<Rightarrow> ('d, 't, 'c) SubVal \<Rightarrow> 'd outcome" where
  "number_val ext v = (case v of SUint64 n \<Rightarrow> Ret (double_of_u64 ext n) | SDouble d \<Rightarrow> Ret d | _ \<Rightarrow> Abort)"

definition add_sum :: "StatsSelect \<Rightarrow> ('d, 't, 'c) AggRowT \<Rightarrow> ('d, 't, 'c) StatEntry \<Rightarrow> ('d, 't, 'c) AggRowT" where
  "add_sum s m e = (if fst e \<in> set (sum_cols s) then map_insert (AGG_SUM, fst e) (snd e) m else m)"

definition add_aggs :: "('d, 't, 'c) agg_ext \<Rightarrow> StatsSelect \<Rightarrow> ('d, 't, 'c) AggRowT \<Rightarrow> ('d, 't, 'c) StatEntry \<Rightarrow> ('d, 't, 'c) AggRowT outcome" where
  "add_aggs ext s m e =
     (let n = fst e; v = snd e;
          m1 = (if n \<in> set (max_field s) then map_insert (AGG_MAX, n) v m else m);
          m2 = (if n \<in> set (min_field s) then map_insert (AGG_MIN, n) v m1 else m1)
      in bind_outcome
           (if n \<in> set (avg_field s)
            then bind_outcome (number_val ext v)
                   (\<lambda>d. Ret (map_insert (AGG_AVG, n) (SCentroid (Centroid_add ext (Centroid_create ext) d 1)) m2))
            else Ret m2)
           (\<lambda>m3. if n \<in> set (percentile_cols s)
                 then bind_outcome (number_val ext v)
                        (\<lambda>d. Ret (map_insert (AGG_PERCENTILES, n)
                                    (STdigest (fst (TDigest_add ext (TDigest_create ext) d 1))) m3))
                 else Ret m3))"

fun class_uniks :: "string \<Rightarrow> ('d, 't, 'c) StatMap \<Rightarrow> ('d, 't, 'c) StatEntry list \<Rightarrow> ('d, 't, 'c) StatMap \<Rightarrow> ('d, 't, 'c) StatMap" where
  "class_uniks ct uniks [] h = h"
| "class_uniks ct uniks ((n, v) # row) h =
     class_uniks ct uniks row (if n \<noteq> ct \<and> map_of uniks n \<noteq> None then map_assign n v h else h)"

definition add_class :: "('d, 't, 'c) agg_ext \<Rightarrow> ('d, 't, 'c) StatMap \<Rightarrow> ('d, 't, 'c) StatEntry list \<Rightarrow> ('d, 't, 'c) AggRowT \<Rightarrow> string \<Rightarrow> ('d, 't, 'c) AggRowT" where
  "add_class ext uniks row m ct =
     map_insert (AGG_CLASS, ct) (SUint64 (hash_uniks ext (class_uniks ct uniks row []))) m"

definition build_narows :: "('d, 't, 'c) agg_ext \<Rightarrow> StatsSelect \<Rightarrow> ('d, 't, 'c) StatMap \<Rightarrow> ('d, 't, 'c) StatEntry list \<Rightarrow> ('d, 't, 'c) AggRowT outcome" where
  "build_narows ext s uniks row =
     bind_outcome (foldl_outcome (add_aggs ext s) (foldl (add_sum s) [] row) row)
       (\<lambda>m. let m' = foldl (add_class ext uniks row) m (class_cols s)
            in Ret (if count_field s \<noteq> [] then map_insert (AGG_COUNT, count_field s) (SUint64 1) m' else m'))"

definition LoadRow ::
    "('d, 't, 'c) agg_ext \<Rightarrow> StatsSelect \<Rightarrow> u8 list \<Rightarrow> u64 \<Rightarrow> ('d, 't, 'c) StatEntry list \<Rightarrow>
     ('d, 't, 'c) MapBufT \<Rightarrow> (bool \<times> ('d, 't, 'c) MapBufT) outcome" where
  "LoadRow ext s u timestamp row out =
     (if \<not> ss_status s then Ret (False, out)
      else let uniks = build_uniks s u timestamp row
           in bind_outcome (build_ukey ext s uniks)
                (\<lambda>ukey. bind_outcome (build_narows ext s uniks row)
                  (\<lambda>narows. bind_outcome (MergeFullRow ext ukey uniks narows out)
                    (\<lambda>out'. Ret (True, out')))))"

section \<open>Merging multimaps\<close>

definition Merge_row :: "('d, 't, 'c) agg_ext \<Rightarrow> string \<Rightarrow> ('d, 't, 'c) MapBufT \<Rightarrow> ('d, 't, 'c) OutRow \<Rightarrow> ('d, 't, 'c) MapBufT outcome" where
  "Merge_row ext cdf out r =
     (let (ukey, uniks, narows) = r
      in case map_of uniks cdf of
           None \<Rightarrow> MergeFullRow ext ukey uniks narows out
         | Some _ \<Rightarrow>
             (let narows' = map_insert (AGG_COUNT_DISTINCT, cdf) (SUint64 1) narows;
                  uniks' = filter (\<lambda>p. fst p \<noteq> cdf) uniks
              in if ukey = [] then Abort
                 else MergeFullRow ext (ukey[length ukey - 1 := SUint64 (hash_uniks ext uniks')]) uniks' narows' out))"

definition Merge :: "('d, 't, 'c) agg_ext \<Rightarrow> string \<Rightarrow> ('d, 't, 'c) MapBufT \<Rightarrow> ('d, 't, 'c) MapBufT \<Rightarrow> ('d, 't, 'c) MapBufT outcome" where
  "Merge ext cdf input out = foldl_outcome (Merge_row ext cdf) out input"

definition resort_slot :: "('d, 't, 'c) AggRowT \<Rightarrow> ('d, 't, 'c) SubVal list \<Rightarrow> (AggOper \<times> string) \<times> nat \<Rightarrow> ('d, 't, 'c) SubVal list outcome" where
  "resort_slot narows ukey c =
     (case map_of narows (fst c) of None \<Rightarrow> Abort | Some v \<Rightarrow> vec_set ukey (snd c) v)"

definition resort_row :: "('d, 't, 'c) agg_ext \<Rightarrow> StatsSelect \<Rightarrow> ('d, 't, 'c) MapBufT \<Rightarrow> ('d, 't, 'c) OutRow \<Rightarrow> ('d, 't, 'c) MapBufT outcome" where
  "resort_row ext s out r =
     (let (ukey, uniks, narows) = r
      in bind_outcome (foldl_outcome (resort_slot narows) ukey (agg_sort_cols s))
           (\<lambda>ukey'. MergeFullRow ext ukey' uniks narows out))"

definition MergeFinal :: "('d, 't, 'c) agg_ext \<Rightarrow> StatsSelect \<Rightarrow> ('d, 't, 'c) MapBufT list \<Rightarrow> ('d, 't, 'c) MapBufT \<Rightarrow> ('d, 't, 'c) MapBufT outcome" where
  "MergeFinal ext s inputs out =
     (if agg_sort_cols s = []
      then foldl_outcome (\<lambda>o' i. Merge ext (count_distinct_field s) i o') out inputs
      else bind_outcome (foldl_outcome (\<lambda>t i. Merge ext (count_distinct_field s) i t) [] inputs)
             (\<lambda>temp. foldl_outcome (resort_row ext s) out temp))"

section \<open>Aggregates are conserved\<close>

text \<open>The 64-bit value an aggregate has in a row, and its total over the rows of one group (the rows
  whose \<open>uniks\<close> are \<open>u\<close>).\<close>

definition agg_u64 :: "AggOper \<times> string \<Rightarrow> ('d, 't, 'c) AggRowT \<Rightarrow> u64" where
  "agg_u64 k m = (case map_of m k of Some (SUint64 n) \<Rightarrow> n | _ \<Rightarrow> 0)"

definition has_u64 :: "AggOper \<times> string \<Rightarrow> ('d, 't, 'c) AggRowT \<Rightarrow> bool" where
  "has_u64 k m \<longleftrightarrow> map_of m k = Some (SUint64 (agg_u64 k m))"

definition group_total :: "AggOper \<times> string \<Rightarrow> ('d, 't, 'c) StatMap \<Rightarrow> ('d, 't, 'c) MapBufT \<Rightarrow> u64" where
  "group_total k u out = (\<Sum>(ukey, uniks, narows)\<leftarrow>out. if uniks = u then agg_u64 k narows else 0)"

definition rows_have :: "AggOper \<times> string \<Rightarrow> ('d, 't, 'c) MapBufT \<Rightarrow> bool" where
  "rows_have k out \<longleftrightarrow> list_all (\<lambda>(ukey, uniks, narows). has_u64 k narows) out"

text \<open>The total over all groups that satisfy \<open>P\<close>.\<close>

definition total_of :: "AggOper \<times> string \<Rightarrow> (('d, 't, 'c) StatMap \<Rightarrow> bool) \<Rightarrow> ('d, 't, 'c) MapBufT \<Rightarrow> u64" where
  "total_of k P out = (\<Sum>(ukey, uniks, narows)\<leftarrow>out. if P uniks then agg_u64 k narows else 0)"

lemma has_u64I: "map_of m k = Some (SUint64 n) \<Longrightarrow> has_u64 k m \<and> agg_u64 k m = n"
  by (simp add: has_u64_def agg_u64_def)

lemma rows_have_simps [simp]:
  "rows_have k []" "rows_have k (r # out) \<longleftrightarrow> has_u64 k (snd (snd r)) \<and> rows_have k out"
  by (auto simp: rows_have_def split: prod.splits)

lemma group_total_simps [simp]:
  "group_total k u [] = 0"
  "group_total k u (r # out) = (if fst (snd r) = u then agg_u64 k (snd (snd r)) else 0) + group_total k u out"
  by (auto simp: group_total_def split: prod.splits)

lemma total_of_simps [simp]:
  "total_of k P [] = 0"
  "total_of k P (r # out) = (if P (fst (snd r)) then agg_u64 k (snd (snd r)) else 0) + total_of k P out"
  by (auto simp: total_of_def split: prod.splits)

lemma group_total_of: "group_total k u out = total_of k (\<lambda>w. w = u) out"
  by (simp add: group_total_def total_of_def)

lemma merge_agg_entries_map_of:
  "merge_agg_entries ext a n = Ret r \<Longrightarrow>
     map_of r k = (case map_of a k of None \<Rightarrow> None
                   | Some sv \<Rightarrow> (case map_of n k of None \<Rightarrow> Some sv
                       | Some kv \<Rightarrow> Some (the_ret (merge_agg ext (fst k) sv kv))))"
proof (induction a arbitrary: r)
  case (Cons p a)
  obtain k' sv where p: "p = (k', sv)" by fastforce
  from Cons.prems obtain sv' rest where
    sv': "(case map_of n k' of None \<Rightarrow> Ret sv | Some kv \<Rightarrow> merge_agg ext (fst k') sv kv) = Ret sv'"
    and rest: "merge_agg_entries ext a n = Ret rest" and r: "r = (k', sv') # rest"
    by (auto simp: p bind_outcome_Ret_iff)
  show ?case using Cons.IH[OF rest] sv' by (auto simp: p r split: option.splits)
qed simp

lemma merge_agg_additive:
  "fst k \<in> {AGG_SUM, AGG_COUNT, AGG_COUNT_DISTINCT} \<Longrightarrow>
     merge_agg ext (fst k) (SUint64 a) (SUint64 b) = Ret (SUint64 (a + b))"
  by (auto simp: merge_agg_def)

lemma MergeAggRow_additive:
  assumes k: "fst k \<in> {AGG_SUM, AGG_COUNT, AGG_COUNT_DISTINCT}"
    and have_k: "has_u64 k a" "has_u64 k n" and run: "MergeAggRow ext a n = Ret r"
  shows "has_u64 k r \<and> agg_u64 k r = agg_u64 k a + agg_u64 k n"
proof -
  from have_k(1) have "a \<noteq> []" by (auto simp: has_u64_def)
  with run have "merge_agg_entries ext a n = Ret r" by (simp add: MergeAggRow_def)
  from merge_agg_entries_map_of[OF this, of k] have_k
  have "map_of r k = Some (SUint64 (agg_u64 k a + agg_u64 k n))"
    by (simp add: has_u64_def merge_agg_additive[OF k])
  then show ?thesis by (rule has_u64I)
qed

lemma mm_insert_facts [simp]:
  "rows_have k (mm_insert ext r out) \<longleftrightarrow> has_u64 k (snd (snd r)) \<and> rows_have k out"
  "total_of k P (mm_insert ext r out) = total_of k P (r # out)"
  by (induction out) auto

lemma mset_mm_insert [simp]: "mset (mm_insert ext r out) = add_mset r (mset out)"
  by (induction out) auto

lemma mm_find_Some:
  "mm_find ext k out = Some i \<Longrightarrow> i < length out \<and> key_equiv ext k (fst (out ! i))"
proof (induction out arbitrary: i)
  case (Cons q qs)
  then show ?case by (cases "key_equiv ext k (fst q)") auto
qed simp

lemma mm_find_None: "mm_find ext k out = None \<longleftrightarrow> (\<forall>r \<in> set out. \<not> key_equiv ext k (fst r))"
  by (induction out) auto

lemma rows_have_append: "rows_have k (xs @ ys) \<longleftrightarrow> rows_have k xs \<and> rows_have k ys"
  by (simp add: rows_have_def)

lemma total_of_append: "total_of k P (xs @ ys) = total_of k P xs + total_of k P ys"
  by (simp add: total_of_def)

lemma rows_update:
  assumes i: "i < length out" and same: "fst (snd r) = fst (snd (out ! i))"
  shows "rows_have k out \<Longrightarrow> has_u64 k (snd (snd r)) \<Longrightarrow> rows_have k (out[i := r])"
    and "total_of k P (out[i := r]) = total_of k P out +
           (if P (fst (snd r)) then agg_u64 k (snd (snd r)) - agg_u64 k (snd (snd (out ! i))) else 0)"
proof -
  let ?a = "take i out" and ?b = "drop (Suc i) out"
  have out: "out = ?a @ out ! i # ?b" using i by (rule id_take_nth_drop)
  have upd: "out[i := r] = ?a @ r # ?b" using i by (rule upd_conv_take_nth_drop)
  show "rows_have k out \<Longrightarrow> has_u64 k (snd (snd r)) \<Longrightarrow> rows_have k (out[i := r])"
    unfolding upd by (subst (asm) out) (simp add: rows_have_append)
  have "total_of k P out = total_of k P ?a + total_of k P (out ! i # ?b)"
    by (subst out) (rule total_of_append)
  then show "total_of k P (out[i := r]) = total_of k P out +
           (if P (fst (snd r)) then agg_u64 k (snd (snd r)) - agg_u64 k (snd (snd (out ! i))) else 0)"
    unfolding upd using same by (simp add: total_of_append)
qed

lemma MergeFullRow_total_of:
  assumes k: "fst k \<in> {AGG_SUM, AGG_COUNT, AGG_COUNT_DISTINCT}"
    and have_k: "rows_have k out" "has_u64 k narows"
    and run: "MergeFullRow ext ukey uniks narows out = Ret out'"
  shows "rows_have k out' \<and>
         total_of k P out' = total_of k P out + (if P uniks then agg_u64 k narows else 0)"
proof (cases "mm_find ext ukey out")
  case None
  with run have "out' = mm_insert ext (ukey, uniks, narows) out" by (simp add: MergeFullRow_def)
  with have_k show ?thesis by simp
next
  case (Some i)
  obtain q rm arows where r: "out ! i = (q, rm, arows)" by (metis prod.exhaust)
  from Some have i: "i < length out" by (blast dest: mm_find_Some)
  show ?thesis
  proof (cases "rm = uniks")
    case False
    with run Some r have "out' = mm_insert ext (ukey, uniks, narows) out" by (simp add: MergeFullRow_def)
    with have_k show ?thesis by simp
  next
    case True
    with run Some r obtain arows' where a: "MergeAggRow ext arows narows = Ret arows'"
      and out': "out' = out[i := (q, rm, arows')]" by (auto simp: MergeFullRow_def bind_outcome_Ret_iff)
    have "has_u64 k arows"
      using have_k(1) i r by (metis (mono_tags, lifting) case_prodD list_all_length rows_have_def)
    from MergeAggRow_additive[OF k this have_k(2) a]
    show ?thesis using rows_update[of i out "(q, rm, arows')"] have_k(1) i r True
      by (simp add: out')
  qed
qed

lemma MergeFullRow_total:
  assumes "fst k \<in> {AGG_SUM, AGG_COUNT, AGG_COUNT_DISTINCT}" and "rows_have k out" and "has_u64 k narows"
    and "MergeFullRow ext ukey uniks narows out = Ret out'"
  shows "rows_have k out' \<and> group_total k u out' = group_total k u out + (if uniks = u then agg_u64 k narows else 0)"
  unfolding group_total_of by (rule MergeFullRow_total_of[OF assms])

section \<open>What \<open>LoadRow\<close> puts into the aggregates\<close>

text \<open>Each stage keeps the map sorted and touches only keys of its own operators.\<close>

lemma map_insert_other [simp]:
  "k \<noteq> k' \<Longrightarrow> map_of (map_insert k v m) k' = map_of m k'"
  by (induction k v m rule: map_insert.induct) auto

lemma map_insert_other_op [simp]:
  "fst k \<noteq> agg \<Longrightarrow> map_of (map_insert (agg, n) v m) k = map_of m k"
  by (rule map_insert_other) auto

lemma add_sum_facts:
  assumes "sorted_map m"
  shows "sorted_map (add_sum s m e)"
    and "fst k \<noteq> AGG_SUM \<Longrightarrow> map_of (add_sum s m e) k = map_of m k"
  using assms by (auto simp: add_sum_def sorted_map_insert)

lemma foldl_add_sum_sorted: "sorted_map m \<Longrightarrow> sorted_map (foldl (add_sum s) m row)"
  by (induction row arbitrary: m) (auto intro: add_sum_facts)

lemma foldl_add_sum_other:
  "\<lbrakk>sorted_map m; fst k \<noteq> AGG_SUM\<rbrakk> \<Longrightarrow> map_of (foldl (add_sum s) m row) k = map_of m k"
  by (induction row arbitrary: m) (auto simp: add_sum_facts)

lemma foldl_add_sum_map_of:
  assumes "sorted_map m" and "c \<in> set (sum_cols s)"
  shows "map_of (foldl (add_sum s) m row) (AGG_SUM, c) =
           (case map_of m (AGG_SUM, c) of Some v \<Rightarrow> Some v | None \<Rightarrow> map_of row c)"
  using assms(1)
proof (induction row arbitrary: m)
  case (Cons e row)
  have "map_of (add_sum s m e) (AGG_SUM, c) =
      (case map_of m (AGG_SUM, c) of Some v \<Rightarrow> Some v | None \<Rightarrow> if c = fst e then Some (snd e) else None)"
    using Cons.prems assms(2) by (auto simp: add_sum_def map_of_insert split: option.splits)
  with Cons.IH[OF add_sum_facts(1)[OF Cons.prems, of s e]]
  show ?case by (cases e) (simp split: option.splits)
qed (simp split: option.split)

lemma add_aggs_facts:
  assumes "sorted_map m" and "add_aggs ext s m e = Ret m'"
  shows "sorted_map m'"
    and "fst k \<notin> {AGG_MAX, AGG_MIN, AGG_AVG, AGG_PERCENTILES} \<Longrightarrow> map_of m' k = map_of m k"
  using assms by (auto simp: add_aggs_def Let_def bind_outcome_Ret_iff sorted_map_insert split: if_splits)

lemma foldl_add_aggs_facts:
  assumes "sorted_map m" and "foldl_outcome (add_aggs ext s) m row = Ret m'"
  shows "sorted_map m' \<and>
    (\<forall>k. fst k \<notin> {AGG_MAX, AGG_MIN, AGG_AVG, AGG_PERCENTILES} \<longrightarrow> map_of m' k = map_of m k)"
  using assms
proof (induction row arbitrary: m)
  case (Cons e row)
  then obtain m1 where m1: "add_aggs ext s m e = Ret m1" "foldl_outcome (add_aggs ext s) m1 row = Ret m'"
    by (auto simp: bind_outcome_Ret_iff)
  show ?case
    using Cons.IH[OF add_aggs_facts(1)[OF Cons.prems(1) m1(1)] m1(2)]
      add_aggs_facts(2)[OF Cons.prems(1) m1(1)] by simp
qed simp

lemma foldl_add_class_facts:
  assumes "sorted_map m"
  shows "sorted_map (foldl (add_class ext uniks row) m cs) \<and>
    (\<forall>k. fst k \<noteq> AGG_CLASS \<longrightarrow> map_of (foldl (add_class ext uniks row) m cs) k = map_of m k)"
  using assms
proof (induction cs arbitrary: m)
  case (Cons c cs)
  have "sorted_map (add_class ext uniks row m c)"
    using Cons.prems by (simp add: add_class_def sorted_map_insert)
  from Cons.IH[OF this] Cons.prems show ?case by (auto simp: add_class_def)
qed simp

lemma build_narows_facts:
  assumes "build_narows ext s uniks row = Ret narows"
  shows "sorted_map narows"
    and "count_field s \<noteq> [] \<Longrightarrow> map_of narows (AGG_COUNT, count_field s) = Some (SUint64 1)"
    and "c \<in> set (sum_cols s) \<Longrightarrow> map_of narows (AGG_SUM, c) = map_of row c"
    and "map_of narows (AGG_COUNT_DISTINCT, c) = None"
proof -
  let ?m0 = "foldl (add_sum s) [] row"
  from assms obtain m where m: "foldl_outcome (add_aggs ext s) ?m0 row = Ret m"
    and narows: "narows = (let m' = foldl (add_class ext uniks row) m (class_cols s)
       in if count_field s \<noteq> [] then map_insert (AGG_COUNT, count_field s) (SUint64 1) m' else m')"
    by (auto simp: build_narows_def bind_outcome_Ret_iff Let_def)
  have s0: "sorted_map ?m0" by (rule foldl_add_sum_sorted) simp
  note f1 = foldl_add_aggs_facts[OF s0 m]
  note f2 = foldl_add_class_facts[OF conjunct1[OF f1], of ext uniks row "class_cols s"]
  have o: "fst k \<noteq> AGG_SUM \<Longrightarrow> map_of ?m0 k = None" for k
    by (simp add: foldl_add_sum_other)
  show "sorted_map narows" using f2 by (simp add: narows Let_def sorted_map_insert)
  show "count_field s \<noteq> [] \<Longrightarrow> map_of narows (AGG_COUNT, count_field s) = Some (SUint64 1)"
    using f1 f2 o by (simp add: narows Let_def map_of_insert)
  show "c \<in> set (sum_cols s) \<Longrightarrow> map_of narows (AGG_SUM, c) = map_of row c"
    using f1 f2 by (simp add: narows Let_def map_of_insert foldl_add_sum_map_of)
  show "map_of narows (AGG_COUNT_DISTINCT, c) = None"
    using f1 f2 o by (simp add: narows Let_def map_of_insert)
qed

section \<open>Conservation over a whole run\<close>

text \<open>The calls of \<open>LoadRow\<close> for the WHERE results of one instance, in order.\<close>

type_synonym ('d, 't, 'c) loaded = "u8 list \<times> u64 \<times> ('d, 't, 'c) StatEntry list"

definition load_row :: "('d, 't, 'c) agg_ext \<Rightarrow> StatsSelect \<Rightarrow> ('d, 't, 'c) MapBufT \<Rightarrow> ('d, 't, 'c) loaded \<Rightarrow> ('d, 't, 'c) MapBufT outcome" where
  "load_row ext s out r =
     (let (u, ts, row) = r in bind_outcome (LoadRow ext s u ts row out) (\<lambda>(b, out'). Ret out'))"

definition load_rows :: "('d, 't, 'c) agg_ext \<Rightarrow> StatsSelect \<Rightarrow> ('d, 't, 'c) loaded list \<Rightarrow> ('d, 't, 'c) MapBufT \<Rightarrow> ('d, 't, 'c) MapBufT outcome" where
  "load_rows ext s rows out = foldl_outcome (load_row ext s) out rows"

definition row_uniks :: "StatsSelect \<Rightarrow> ('d, 't, 'c) loaded \<Rightarrow> ('d, 't, 'c) StatMap" where
  "row_uniks s r = (let (u, ts, row) = r in build_uniks s u ts row)"

lemma load_row_RetE:
  assumes "load_row ext s out r = Ret out'" and "ss_status s"
  obtains ukey narows where "build_ukey ext s (row_uniks s r) = Ret ukey"
    and "build_narows ext s (row_uniks s r) (snd (snd r)) = Ret narows"
    and "MergeFullRow ext ukey (row_uniks s r) narows out = Ret out'"
  using assms by (auto simp: load_row_def LoadRow_def row_uniks_def Let_def bind_outcome_Ret_iff split: prod.splits)

lemma load_rows_total:
  assumes k: "fst k \<in> {AGG_SUM, AGG_COUNT, AGG_COUNT_DISTINCT}" and st: "ss_status s"
    and val: "\<And>r narows. \<lbrakk>r \<in> set rows; build_narows ext s (row_uniks s r) (snd (snd r)) = Ret narows\<rbrakk> \<Longrightarrow>
                map_of narows k = Some (SUint64 (f r))"
    and run: "load_rows ext s rows out = Ret out'" and out: "rows_have k out"
  shows "rows_have k out' \<and>
    group_total k u out' = group_total k u out + (\<Sum>r\<leftarrow>rows. if row_uniks s r = u then f r else 0)"
  using val run out
proof (induction rows arbitrary: out)
  case (Cons r rows)
  from Cons.prems(2) obtain o1 where o1: "load_row ext s out r = Ret o1" "load_rows ext s rows o1 = Ret out'"
    by (auto simp: load_rows_def bind_outcome_Ret_iff)
  obtain ukey narows where n: "build_narows ext s (row_uniks s r) (snd (snd r)) = Ret narows"
    and mf: "MergeFullRow ext ukey (row_uniks s r) narows out = Ret o1"
    using load_row_RetE[OF o1(1) st] .
  have "has_u64 k narows \<and> agg_u64 k narows = f r"
    using Cons.prems(1)[OF _ n] by (intro has_u64I) simp
  with MergeFullRow_total[OF k Cons.prems(3) _ mf, of u]
  have t1: "rows_have k o1" "group_total k u o1 = group_total k u out + (if row_uniks s r = u then f r else 0)"
    by simp_all
  have "map_of n' k = Some (SUint64 (f q))"
    if "q \<in> set rows" "build_narows ext s (row_uniks s q) (snd (snd q)) = Ret n'" for q n'
    using Cons.prems(1)[of q n'] that by simp
  from Cons.IH[OF this o1(2) t1(1)] t1(2) show ?case by simp
qed (simp add: load_rows_def)

text \<open>
  COUNT counts. After any sequence of rows has been loaded, the COUNT column summed over the
  output rows of a group is the number of loaded rows of that group (as a 64-bit number), hash
  collisions and sort order notwithstanding.\<close>

theorem count_counts_rows:
  assumes "ss_status s" and "count_field s \<noteq> []" and "load_rows ext s rows [] = Ret out"
  shows "group_total (AGG_COUNT, count_field s) u out =
         of_nat (length (filter (\<lambda>r. row_uniks s r = u) rows))"
proof -
  have "group_total (AGG_COUNT, count_field s) u out = (\<Sum>r\<leftarrow>rows. if row_uniks s r = u then 1 else 0)"
    by (rule load_rows_total[where out = "[]", THEN conjunct2, simplified])
      (use assms build_narows_facts(2)[OF _ assms(2)] in auto)
  then show ?thesis by (simp add: sum_list_indicator)
qed

text \<open>
  SUM adds up. When every loaded row carries the summed column as an unsigned number, the SUM
  column over the output rows of a group is the sum of that column over the loaded rows of the group,
  modulo 2^64.\<close>

theorem sum_adds_up:
  assumes "ss_status s" and "c \<in> set (sum_cols s)"
    and "\<And>r. r \<in> set rows \<Longrightarrow> map_of (snd (snd r)) c = Some (SUint64 (f r))"
    and "load_rows ext s rows [] = Ret out"
  shows "group_total (AGG_SUM, c) u out = (\<Sum>r\<leftarrow>rows. if row_uniks s r = u then f r else 0)"
proof (rule load_rows_total[where out = "[]", THEN conjunct2, simplified])
  fix r narows assume "r \<in> set rows" "build_narows ext s (row_uniks s r) (snd (snd r)) = Ret narows"
  with build_narows_facts(3)[OF _ assms(2)] assms(3) show "map_of narows (AGG_SUM, c) = Some (SUint64 (f r))"
    by metis
qed (use assms in simp_all)

section \<open>Conservation over merges\<close>

definition strip :: "string \<Rightarrow> ('d, 't, 'c) StatMap \<Rightarrow> ('d, 't, 'c) StatMap" where
  "strip cdf uniks = filter (\<lambda>p. fst p \<noteq> cdf) uniks"

lemma strip_absent: "map_of uniks cdf = None \<Longrightarrow> strip cdf uniks = uniks"
  by (force simp: strip_def map_of_eq_None_iff filter_id_conv)

text \<open>What a row of an input adds to aggregate \<open>k\<close> when it is merged: its own value, or 1 for the
  COUNT_DISTINCT of a column the row has and that has not been counted before.\<close>

definition contribution :: "string \<Rightarrow> AggOper \<times> string \<Rightarrow> ('d, 't, 'c) OutRow \<Rightarrow> u64" where
  "contribution cdf k r =
     (let (ukey, uniks, narows) = r
      in if map_of uniks cdf \<noteq> None \<and> k = (AGG_COUNT_DISTINCT, cdf) \<and> map_of narows k = None then 1
         else agg_u64 k narows)"

definition contributes :: "string \<Rightarrow> AggOper \<times> string \<Rightarrow> ('d, 't, 'c) OutRow \<Rightarrow> bool" where
  "contributes cdf k r \<longleftrightarrow>
     (let (ukey, uniks, narows) = r
      in sorted_map narows \<and>
         (has_u64 k narows \<or> map_of uniks cdf \<noteq> None \<and> k = (AGG_COUNT_DISTINCT, cdf) \<and> map_of narows k = None))"

lemma Merge_row_total:
  assumes k: "fst k \<in> {AGG_SUM, AGG_COUNT, AGG_COUNT_DISTINCT}"
    and r: "contributes cdf k r" and out: "rows_have k out" and run: "Merge_row ext cdf out r = Ret out'"
  shows "rows_have k out' \<and> group_total k u out' =
         group_total k u out + (if strip cdf (fst (snd r)) = u then contribution cdf k r else 0)"
proof -
  obtain ukey uniks narows where r_eq: "r = (ukey, uniks, narows)" by (cases r)
  show ?thesis
  proof (cases "map_of uniks cdf")
    case None
    with run r have "MergeFullRow ext ukey uniks narows out = Ret out'" "has_u64 k narows"
      by (simp_all add: Merge_row_def contributes_def r_eq)
    with MergeFullRow_total[OF k out this(2,1), of u] None show ?thesis
      by (auto simp: r_eq strip_absent contribution_def)
  next
    case (Some v)
    let ?n = "map_insert (AGG_COUNT_DISTINCT, cdf) (SUint64 1) narows"
    from run Some obtain key where mf: "MergeFullRow ext key (strip cdf uniks) ?n out = Ret out'"
      by (auto simp: Merge_row_def r_eq strip_def Let_def split: if_splits)
    have "map_of ?n k = Some (SUint64 (contribution cdf k r))"
      using r Some by (auto simp: contributes_def contribution_def r_eq map_of_insert has_u64_def)
    then have "has_u64 k ?n \<and> agg_u64 k ?n = contribution cdf k r" by (rule has_u64I)
    with MergeFullRow_total[OF k out _ mf, of u] show ?thesis by (simp add: r_eq)
  qed
qed

lemma foldl_outcome_total:
  fixes amount :: "('d, 't, 'c) MapBufT \<Rightarrow> 'a::monoid_add"
  assumes step: "\<And>o' x o''. \<lbrakk>x \<in> set xs; rows_have k o'; f o' x = Ret o''\<rbrakk> \<Longrightarrow> rows_have k o'' \<and> amount o'' = amount o' + g x"
    and run: "foldl_outcome f out xs = Ret out'" and out: "rows_have k out"
  shows "rows_have k out' \<and> amount out' = amount out + (\<Sum>x\<leftarrow>xs. g x)"
  using assms
proof (induction xs arbitrary: out)
  case (Cons x xs)
  from Cons.prems(2) obtain o1 where o1: "f out x = Ret o1" "foldl_outcome f o1 xs = Ret out'"
    by (auto simp: bind_outcome_Ret_iff)
  have h: "rows_have k o1" "amount o1 = amount out + g x"
    using Cons.prems(1)[OF _ Cons.prems(3) o1(1)] by simp_all
  have "rows_have k o'' \<and> amount o'' = amount o' + g y" if "y \<in> set xs" "rows_have k o'" "f o' y = Ret o''" for o' y o''
    by (rule Cons.prems(1)) (use that in simp_all)
  from Cons.IH[OF this o1(2) h(1)] have "rows_have k out'"
    and "amount out' = amount out + g x + (\<Sum>x\<leftarrow>xs. g x)" unfolding h(2) by blast+
  then show ?case by (simp add: add.assoc)
qed simp

lemma Merge_total:
  assumes k: "fst k \<in> {AGG_SUM, AGG_COUNT, AGG_COUNT_DISTINCT}"
    and input: "\<And>r. r \<in> set input \<Longrightarrow> contributes cdf k r" and out: "rows_have k out"
    and run: "Merge ext cdf input out = Ret out'"
  shows "rows_have k out' \<and> group_total k u out' = group_total k u out +
           (\<Sum>r\<leftarrow>input. if strip cdf (fst (snd r)) = u then contribution cdf k r else 0)"
  by (rule foldl_outcome_total[OF Merge_row_total[OF k input] run[unfolded Merge_def] out])

lemma resort_row_total:
  assumes k: "fst k \<in> {AGG_SUM, AGG_COUNT, AGG_COUNT_DISTINCT}"
    and r: "has_u64 k (snd (snd r))" and out: "rows_have k out" and run: "resort_row ext s out r = Ret out'"
  shows "rows_have k out' \<and>
         group_total k u out' = group_total k u out + (if fst (snd r) = u then agg_u64 k (snd (snd r)) else 0)"
proof -
  obtain ukey uniks narows where r_eq: "r = (ukey, uniks, narows)" by (cases r)
  from run obtain key where "MergeFullRow ext key uniks narows out = Ret out'"
    by (auto simp: resort_row_def r_eq bind_outcome_Ret_iff)
  from MergeFullRow_total[OF k out _ this, of u] r show ?thesis by (simp add: r_eq)
qed

lemma rows_haveD: "rows_have k out \<Longrightarrow> r \<in> set out \<Longrightarrow> has_u64 k (snd (snd r))"
  by (auto simp: rows_have_def list_all_iff)

lemma group_total_alt: "group_total k u out = (\<Sum>r\<leftarrow>out. if fst (snd r) = u then agg_u64 k (snd (snd r)) else 0)"
  by (induction out) simp_all

lemma MergeFinal_total:
  assumes k: "fst k \<in> {AGG_SUM, AGG_COUNT, AGG_COUNT_DISTINCT}"
    and input: "\<And>i r. \<lbrakk>i \<in> set inputs; r \<in> set i\<rbrakk> \<Longrightarrow> contributes (count_distinct_field s) k r"
    and run: "MergeFinal ext s inputs [] = Ret out"
  shows "group_total k u out =
     (\<Sum>i\<leftarrow>inputs. \<Sum>r\<leftarrow>i. if strip (count_distinct_field s) (fst (snd r)) = u
                             then contribution (count_distinct_field s) k r else 0)"
proof -
  let ?m = "\<lambda>o' i. Merge ext (count_distinct_field s) i o'"
  have merged: "rows_have k temp \<and> group_total k u temp = (\<Sum>i\<leftarrow>inputs. \<Sum>r\<leftarrow>i.
      if strip (count_distinct_field s) (fst (snd r)) = u then contribution (count_distinct_field s) k r else 0)"
    if "foldl_outcome ?m [] inputs = Ret temp" for temp
    using foldl_outcome_total[OF _ that, of k "group_total k u", OF Merge_total[OF k input]] by simp
  show ?thesis
  proof (cases "agg_sort_cols s = []")
    case True
    with run merged show ?thesis by (simp add: MergeFinal_def)
  next
    case False
    with run obtain temp where temp: "foldl_outcome ?m [] inputs = Ret temp"
      and rest: "foldl_outcome (resort_row ext s) [] temp = Ret out"
      by (auto simp: MergeFinal_def bind_outcome_Ret_iff)
    have have_temp: "has_u64 k (snd (snd r))" if "r \<in> set temp" for r
      using merged[OF temp] that by (blast dest: rows_haveD)
    have "group_total k u out = group_total k u []
        + (\<Sum>r\<leftarrow>temp. if fst (snd r) = u then agg_u64 k (snd (snd r)) else 0)"
      by (rule conjunct2[OF foldl_outcome_total[OF resort_row_total[OF k have_temp] rest]]) simp_all
    with merged[OF temp] show ?thesis by (simp add: group_total_alt[of k u temp])
  qed
qed

text \<open>Sums and counts over any class of groups; the column of COUNT_DISTINCT leaves the grouping in the final merge.\<close>

lemma Merge_row_total_of:
  assumes k: "fst k \<in> {AGG_SUM, AGG_COUNT}" and r: "has_u64 k (snd (snd r))" and out: "rows_have k out"
    and run: "Merge_row ext cdf out r = Ret out'"
  shows "rows_have k out' \<and> total_of k P out' = total_of k P out + (if P (strip cdf (fst (snd r))) then agg_u64 k (snd (snd r)) else 0)"
proof -
  obtain ukey uniks narows where r_eq: "r = (ukey, uniks, narows)" by (cases r)
  have k': "fst k \<in> {AGG_SUM, AGG_COUNT, AGG_COUNT_DISTINCT}" using k by auto
  show ?thesis
  proof (cases "map_of uniks cdf")
    case None
    then have "MergeFullRow ext ukey uniks narows out = Ret out'" using run by (simp add: Merge_row_def r_eq)
    from MergeFullRow_total_of[OF k' out _ this, of P] r None show ?thesis by (simp add: r_eq strip_absent)
  next
    case (Some v)
    let ?n = "map_insert (AGG_COUNT_DISTINCT, cdf) (SUint64 1) narows"
    from run Some obtain key where mf: "MergeFullRow ext key (strip cdf uniks) ?n out = Ret out'"
      by (auto simp: Merge_row_def r_eq strip_def Let_def split: if_splits)
    have "map_of ?n k = map_of narows k" by (rule map_insert_other_op) (use k in auto)
    then have "has_u64 k ?n" "agg_u64 k ?n = agg_u64 k narows" using r by (simp_all add: has_u64_def agg_u64_def r_eq)
    with MergeFullRow_total_of[OF k' out _ mf, of P] show ?thesis by (simp add: r_eq)
  qed
qed

lemma Merge_total_of:
  assumes "fst k \<in> {AGG_SUM, AGG_COUNT}" and "rows_have k input" and "rows_have k out" and "Merge ext cdf input out = Ret out'"
  shows "rows_have k out' \<and> total_of k P out' = total_of k P out + total_of k (\<lambda>w. P (strip cdf w)) input"
proof -
  have "(\<Sum>r\<leftarrow>input. if P (strip cdf (fst (snd r))) then agg_u64 k (snd (snd r)) else 0) = total_of k (\<lambda>w. P (strip cdf w)) input"
    by (induction input) simp_all
  moreover have "rows_have k out' \<and> total_of k P out' = total_of k P out + (\<Sum>r\<leftarrow>input. if P (strip cdf (fst (snd r))) then agg_u64 k (snd (snd r)) else 0)"
    by (rule foldl_outcome_total[OF _ assms(4)[unfolded Merge_def] assms(3)])
      (rule Merge_row_total_of[OF assms(1) rows_haveD[OF assms(2)]])
  ultimately show ?thesis by simp
qed

lemma MergeFinal_total_of:
  assumes k: "fst k \<in> {AGG_SUM, AGG_COUNT}" and input: "\<And>i. i \<in> set inputs \<Longrightarrow> rows_have k i"
    and run: "MergeFinal ext s inputs [] = Ret out"
  shows "total_of k P out = (\<Sum>i\<leftarrow>inputs. total_of k (\<lambda>w. P (strip (count_distinct_field s) w)) i)"
proof -
  let ?m = "\<lambda>o' i. Merge ext (count_distinct_field s) i o'"
  have k': "fst k \<in> {AGG_SUM, AGG_COUNT, AGG_COUNT_DISTINCT}" using k by auto
  have merged: "rows_have k temp \<and> total_of k P temp = (\<Sum>i\<leftarrow>inputs. total_of k (\<lambda>w. P (strip (count_distinct_field s) w)) i)"
    if "foldl_outcome ?m [] inputs = Ret temp" for temp
    using foldl_outcome_total[OF _ that, of k "total_of k P", OF Merge_total_of[OF k input]] by simp
  show ?thesis
  proof (cases "agg_sort_cols s = []")
    case True
    with run merged show ?thesis by (simp add: MergeFinal_def)
  next
    case False
    with run obtain temp where temp: "foldl_outcome ?m [] inputs = Ret temp" and rest: "foldl_outcome (resort_row ext s) [] temp = Ret out"
      by (auto simp: MergeFinal_def bind_outcome_Ret_iff)
    have step: "rows_have k o'' \<and> total_of k P o'' = total_of k P o' + (if P (fst (snd r)) then agg_u64 k (snd (snd r)) else 0)"
      if "r \<in> set temp" "rows_have k o'" "resort_row ext s o' r = Ret o''" for o' r o''
      using MergeFullRow_total_of[OF k' that(2)] rows_haveD[OF conjunct1[OF merged[OF temp]] that(1)] that(3)
      by (cases r) (auto simp: resort_row_def bind_outcome_Ret_iff)
    have "(\<Sum>r\<leftarrow>temp. if P (fst (snd r)) then agg_u64 k (snd (snd r)) else 0) = total_of k P temp" by (induction temp) simp_all
    with foldl_outcome_total[OF step rest] merged[OF temp] show ?thesis by simp
  qed
qed

text \<open>
  The final merge of the parallel instances conserves the aggregates. With or without sorting on
  aggregates, the total of a SUM, COUNT or COUNT_DISTINCT column over the output rows of a group is
  what the rows of all inputs contribute to that group once the COUNT_DISTINCT column is dropped from
  the grouping: no row is lost or merged twice.\<close>

theorem merge_final_conserves:
  assumes k: "fst k \<in> {AGG_SUM, AGG_COUNT, AGG_COUNT_DISTINCT}"
    and input: "\<And>i r. \<lbrakk>i \<in> set inputs; r \<in> set i\<rbrakk> \<Longrightarrow> contributes (count_distinct_field s) k r"
    and run: "MergeFinal ext s inputs [] = Ret out"
  shows "group_total k u out =
     (\<Sum>i\<leftarrow>inputs. \<Sum>r\<leftarrow>i. if strip (count_distinct_field s) (fst (snd r)) = u
                             then contribution (count_distinct_field s) k r else 0)"
  using assms by (rule MergeFinal_total)

text \<open>
  COUNT_DISTINCT counts the rows of the inputs, not the distinct values. When the inputs are the
  grouped results of the parallel instances, a value that occurs in the time ranges of \<open>n\<close> instances
  is counted \<open>n\<close> times: the column is the number of input rows of the group over all instances.\<close>

theorem count_distinct_counts_per_instance:
  assumes "count_distinct_field s = f"
    and "\<And>i r. \<lbrakk>i \<in> set inputs; r \<in> set i\<rbrakk> \<Longrightarrow>
           map_of (fst (snd r)) f \<noteq> None \<and> sorted_map (snd (snd r)) \<and> map_of (snd (snd r)) (AGG_COUNT_DISTINCT, f) = None"
    and "MergeFinal ext s inputs [] = Ret out"
  shows "group_total (AGG_COUNT_DISTINCT, f) u out =
         of_nat (length (filter (\<lambda>r. strip f (fst (snd r)) = u) (concat inputs)))"
proof -
  let ?k = "(AGG_COUNT_DISTINCT, f)"
  have c: "contributes f ?k r \<and> contribution f ?k r = 1" if "i \<in> set inputs" "r \<in> set i" for i r
    using assms(2)[OF that] by (auto simp: contributes_def contribution_def split: prod.splits)
  have one: "(\<Sum>r\<leftarrow>xs. if strip f (fst (snd r)) = u then contribution f ?k r else 0) =
      (of_nat (length (filter (\<lambda>r. strip f (fst (snd r)) = u) xs)) :: u64)" if "xs \<in> set inputs" for xs
    using c[OF that] by (induction xs) simp_all
  have "(\<Sum>i\<leftarrow>inputs. \<Sum>r\<leftarrow>i. if strip f (fst (snd r)) = u then contribution f ?k r else 0) =
      (of_nat (length (filter (\<lambda>r. strip f (fst (snd r)) = u) (concat inputs))) :: u64)"
    using one by (induction inputs) simp_all
  moreover have "group_total ?k u out = (\<Sum>i\<leftarrow>inputs. \<Sum>r\<leftarrow>i. if strip f (fst (snd r)) = u
                             then contribution f ?k r else 0)"
    using MergeFinal_total[of ?k inputs s ext out u] c assms(3) unfolding assms(1) by simp
  ultimately show ?thesis by simp
qed

section \<open>One output row per group\<close>

text \<open>A selector whose sort columns never reach the slot of the hash.\<close>

definition slots_ok :: "StatsSelect \<Rightarrow> bool" where
  "slots_ok s \<longleftrightarrow> list_all (\<lambda>c. snd c < length (sort_cols s) + length (agg_sort_cols s)) (sort_cols s)"

definition irreflexive_values :: "('d, 't, 'c) agg_ext \<Rightarrow> bool" where
  "irreflexive_values ext \<longleftrightarrow> (\<forall>d. \<not> double_less ext d d) \<and> (\<forall>t. \<not> tdigest_ptr_less ext t t) \<and>
     (\<forall>c. \<not> centroid_ptr_less ext c c)"

lemma vec_less_irrefl: "(\<And>x. \<not> lt x x) \<Longrightarrow> \<not> vec_less lt v v"
  by (induction v) auto

lemma key_equiv_refl: "irreflexive_values ext \<Longrightarrow> key_equiv ext k k"
proof -
  assume "irreflexive_values ext"
  then have "\<not> sub_less ext v v" for v by (cases v) (auto simp: sub_less_def irreflexive_values_def)
  then show ?thesis by (simp add: key_equiv_def vec_less_irrefl)
qed

lemma key_equiv_last:
  "\<lbrakk>length xs = length ys; key_equiv ext (xs @ [SUint64 a]) (ys @ [SUint64 b])\<rbrakk> \<Longrightarrow> a = b"
  by (induction xs ys rule: list_induct2) (auto simp: key_equiv_def sub_less_def)

lemma fill_slots_append:
  assumes "foldl_outcome (fill_slot uniks) (xs @ [h]) cs = Ret k" and "list_all (\<lambda>c. snd c < length xs) cs"
  shows "\<exists>ys. k = ys @ [h] \<and> length ys = length xs"
  using assms
proof (induction cs arbitrary: xs)
  case (Cons c cs)
  then have c: "snd c < length xs" by simp
  have step: "fill_slot uniks (xs @ [h]) c = Ret z \<Longrightarrow> \<exists>v. z = xs[snd c := v] @ [h]" for z
    using c by (auto simp: fill_slot_def vec_set_def list_update_append split: option.splits)
  from Cons.prems(1) step obtain v where rest: "foldl_outcome (fill_slot uniks) (xs[snd c := v] @ [h]) cs = Ret k"
    by (auto simp: bind_outcome_Ret_iff)
  from Cons.IH[OF rest] Cons.prems(2) show ?case by simp
qed auto

lemma build_ukey_shape:
  assumes "slots_ok s" and "build_ukey ext s uniks = Ret k"
  shows "\<exists>ys. k = ys @ [SUint64 (hash_uniks ext uniks)] \<and> length ys = length (sort_cols s) + length (agg_sort_cols s)"
  using fill_slots_append[of uniks "replicate (length (sort_cols s) + length (agg_sort_cols s)) SBlank"] assms
  by (fastforce simp: build_ukey_def slots_ok_def)

lemma build_ukey_equiv:
  assumes "slots_ok s" and "build_ukey ext s u = Ret k" and "build_ukey ext s v = Ret k'" and "key_equiv ext k k'"
  shows "hash_uniks ext u = hash_uniks ext v"
  using build_ukey_shape[OF assms(1,2)] build_ukey_shape[OF assms(1,3)] assms(4) key_equiv_last by metis

text \<open>The buffer during a run: each row sits under the key of its \<open>uniks\<close>, no two rows share them.\<close>

definition grouped :: "('d, 't, 'c) agg_ext \<Rightarrow> StatsSelect \<Rightarrow> ('d, 't, 'c) StatMap set \<Rightarrow> ('d, 't, 'c) MapBufT \<Rightarrow> bool" where
  "grouped ext s G out \<longleftrightarrow> distinct (map (fst \<circ> snd) out) \<and> (fst \<circ> snd) ` set out = G \<and>
     (\<forall>r \<in> set out. build_ukey ext s (fst (snd r)) = Ret (fst r))"

lemma grouped_insert:
  assumes "grouped ext s G out" and "uniks \<notin> G" and "build_ukey ext s uniks = Ret ukey"
  shows "grouped ext s (insert uniks G) (mm_insert ext (ukey, uniks, narows) out)"
proof -
  have "mset (map (fst \<circ> snd) (mm_insert ext (ukey, uniks, narows) out)) = add_mset uniks (mset (map (fst \<circ> snd) out))"
    by (simp add: mset_map)
  moreover have "set (mm_insert ext (ukey, uniks, narows) out) = insert (ukey, uniks, narows) (set out)"
    by (metis mset_mm_insert set_mset_add_mset_insert set_mset_mset)
  ultimately show ?thesis using assms
    by (auto simp: grouped_def distinct_count_atmost_1 count_mset_0_iff dest!: mset_eq_imp_distinct_iff[where ys = "uniks # map (fst \<circ> snd) out", simplified])
qed

lemma grouped_update:
  assumes "grouped ext s G out" and "i < length out" and "out ! i = (q, u, a)"
  shows "grouped ext s G (out[i := (q, u, a')])"
proof -
  have m: "map (fst \<circ> snd) (out[i := (q, u, a')]) = map (fst \<circ> snd) out"
    using assms(2,3) by (simp add: map_update list_update_same_conv)
  have "(fst \<circ> snd) ` set (out[i := (q, u, a')]) = (fst \<circ> snd) ` set out"
    using m by (metis set_map)
  moreover have "build_ukey ext s u = Ret q"
    using assms by (metis fst_conv grouped_def nth_mem snd_conv)
  ultimately show ?thesis using assms(1) m set_update_subset_insert[of out i "(q, u, a')"]
    by (auto simp: grouped_def)
qed

lemma grouped_merge:
  assumes G: "grouped ext s G out" and s: "slots_ok s" and irr: "irreflexive_values ext"
    and inj: "inj_on (hash_uniks ext) (insert uniks G)" and key: "build_ukey ext s uniks = Ret ukey"
    and run: "MergeFullRow ext ukey uniks narows out = Ret out'"
  shows "grouped ext s (insert uniks G) out'"
proof (cases "mm_find ext ukey out")
  case None
  have "uniks \<notin> G"
  proof
    assume "uniks \<in> G"
    then obtain r where "r \<in> set out" "fst r = ukey" using G key by (force simp: grouped_def)
    with None key_equiv_refl[OF irr, of ukey] show False by (auto simp: mm_find_None)
  qed
  with run None grouped_insert[OF G _ key] show ?thesis by (auto simp: MergeFullRow_def)
next
  case (Some i)
  obtain q rm a where r: "out ! i = (q, rm, a)" by (metis prod.exhaust)
  from mm_find_Some[OF Some] r have i: "i < length out" and eq: "key_equiv ext ukey q" by simp_all
  have rm: "rm \<in> G" "build_ukey ext s rm = Ret q"
    using G nth_mem[OF i] r by (force simp: grouped_def)+
  from build_ukey_equiv[OF s key rm(2) eq] inj rm(1) have [simp]: "rm = uniks"
    by (auto dest: inj_onD)
  from run Some r obtain a' where "out' = out[i := (q, uniks, a')]"
    by (auto simp: MergeFullRow_def bind_outcome_Ret_iff)
  with grouped_update[OF G i] r rm(1) show ?thesis by (simp add: insert_absorb)
qed

text \<open>
  C24: one output row per group. When the hash separates the groups that occur and no sort column
  occupies the hash slot, the loaded rows collapse to exactly one output row per combination of
  non-aggregate columns.\<close>

theorem one_row_per_group:
  assumes "ss_status s" and "slots_ok s" and "irreflexive_values ext"
    and "inj_on (hash_uniks ext) (row_uniks s ` set rows)" and "load_rows ext s rows [] = Ret out"
  shows "distinct (map (fst \<circ> snd) out) \<and> (fst \<circ> snd) ` set out = row_uniks s ` set rows"
proof -
  have "grouped ext s (G \<union> row_uniks s ` set rows) out'"
    if "load_rows ext s rows out = Ret out'" "grouped ext s G out"
      "inj_on (hash_uniks ext) (G \<union> row_uniks s ` set rows)" for G out out'
    using that
  proof (induction rows arbitrary: G out)
    case (Cons r rows)
    from Cons.prems(1) obtain o1 where o1: "load_row ext s out r = Ret o1" "load_rows ext s rows o1 = Ret out'"
      by (auto simp: load_rows_def bind_outcome_Ret_iff)
    obtain ukey narows where key: "build_ukey ext s (row_uniks s r) = Ret ukey"
      and mf: "MergeFullRow ext ukey (row_uniks s r) narows out = Ret o1"
      using load_row_RetE[OF o1(1) assms(1)] .
    have eq: "G \<union> row_uniks s ` set (r # rows) = insert (row_uniks s r) G \<union> row_uniks s ` set rows" by auto
    have "inj_on (hash_uniks ext) (insert (row_uniks s r) G)"
      by (rule inj_on_subset[OF Cons.prems(3)]) auto
    from Cons.IH[OF o1(2) grouped_merge[OF Cons.prems(2) assms(2,3) this key mf]] Cons.prems(3)
    show ?case unfolding eq by blast
  qed (simp add: load_rows_def)
  from this[OF assms(5), of "{}"] assms(4) show ?thesis by (simp add: grouped_def)
qed

section \<open>Slots of the sort order\<close>

definition field_key :: "string \<Rightarrow> (AggOper \<times> string) outcome" where
  "field_key f = (if starts_with f STAT_TIMEBIN_FIELD then Ret (AGG_INVALID, STAT_TIMEBIN_FIELD)
                 else if f = STAT_TIME_FIELD then Ret (AGG_INVALID, f) else ParseAgg f f)"

definition slots :: "StatsSelect \<Rightarrow> ((AggOper \<times> string) \<times> nat) multiset" where
  "slots s = image_mset (\<lambda>(n, i). ((AGG_INVALID, n), i)) (mset (sort_cols s)) + mset (agg_sort_cols s)"

lemma mset_map_insert: "k \<notin> fst ` set m \<Longrightarrow> mset (map_insert k v m) = add_mset (k, v) (mset m)"
  by (induction k v m rule: map_insert.induct) auto

lemma slots_add:
  "(AGG_INVALID, n) \<notin> fst ` set_mset (slots s) \<Longrightarrow>
     slots (s\<lparr>sort_cols := map_insert n i (sort_cols s)\<rparr>) = add_mset ((AGG_INVALID, n), i) (slots s)"
  "k \<notin> fst ` set_mset (slots s) \<Longrightarrow>
     slots (s\<lparr>agg_sort_cols := map_insert k i (agg_sort_cols s)\<rparr>) = add_mset (k, i) (slots s)"
proof -
  assume "(AGG_INVALID, n) \<notin> fst ` set_mset (slots s)"
  then have "n \<notin> fst ` set (sort_cols s)" by (force simp: slots_def)
  then show "slots (s\<lparr>sort_cols := map_insert n i (sort_cols s)\<rparr>) = add_mset ((AGG_INVALID, n), i) (slots s)"
    by (simp add: slots_def mset_map_insert)
next
  assume "k \<notin> fst ` set_mset (slots s)"
  then have "k \<notin> fst ` set (agg_sort_cols s)" by (force simp: slots_def)
  then show "slots (s\<lparr>agg_sort_cols := map_insert k i (agg_sort_cols s)\<rparr>) = add_mset (k, i) (slots s)"
    by (simp add: slots_def mset_map_insert)
qed

lemma ParseAgg_invalid: "ParseAgg f g = Ret (AGG_INVALID, h) \<Longrightarrow> h = g"
  by (auto simp: ParseAgg_def agg_arm_def bind_outcome_Ret_iff split: if_splits)

lemma set_sort_fields_slots:
  assumes "set_sort_fields stats st fs s = Ret s'" and "distinct (map (field_key \<circ> sf_name) fs)"
    and "\<forall>f \<in> set fs. field_key (sf_name f) \<notin> Ret ` fst ` set_mset (slots s)"
    and "image_mset snd (slots s) = mset [0..<st]"
  shows "\<exists>n. image_mset snd (slots s') = mset [0..<n]"
  using assms
proof (induction fs arbitrary: st s)
  case (Cons f fs)
  let ?k = "field_key (sf_name f)"
  have step: ?case if k: "?k = Ret k" and s1: "slots s1 = add_mset (k, st) (slots s)"
    and run: "set_sort_fields stats (Suc st) fs s1 = Ret s'" for k s1
  proof (rule Cons.IH[OF run])
    show "distinct (map (field_key \<circ> sf_name) fs)" using Cons.prems(2) by (simp add: comp_def)
    have "\<forall>g \<in> set fs. field_key (sf_name g) \<noteq> Ret k" using Cons.prems(2) k by force
    then show "\<forall>g \<in> set fs. field_key (sf_name g) \<notin> Ret ` fst ` set_mset (slots s1)"
      using Cons.prems(3) by (simp add: s1)
    show "image_mset snd (slots s1) = mset [0..<Suc st]" using Cons.prems(4) by (simp add: s1)
  qed
  have fresh: "k \<notin> fst ` set_mset (slots s)" if "?k = Ret k" for k
    using Cons.prems(3) that by force
  show ?case
  proof (cases "starts_with (sf_name f) STAT_TIMEBIN_FIELD \<or> sf_name f = STAT_TIME_FIELD")
    case True
    then show ?thesis using Cons.prems(1) step[OF _ slots_add(1)] fresh
      by (auto simp: field_key_def split: if_splits)
  next
    case False
    with Cons.prems(1) obtain agg sfield where p: "?k = Ret (agg, sfield)"
      and p': "ParseAgg (sf_name f) (sf_name f) = Ret (agg, sfield)"
      by (auto simp: field_key_def bind_outcome_Ret_iff)
    show ?thesis
    proof (cases "agg = AGG_INVALID")
      case True
      with p p' have k: "?k = Ret (AGG_INVALID, sf_name f)" by (auto dest: ParseAgg_invalid)
      show ?thesis using Cons.prems(1,4) False p' True step[OF k slots_add(1)[OF fresh[OF k]]]
        by (auto split: if_splits)
    next
      case agg: False
      show ?thesis using Cons.prems(1,4) False p' agg step[OF p slots_add(2)[OF fresh[OF p]]]
        by (auto split: if_splits)
    qed
  qed
qed auto

text \<open>
  Distinct sort fields keep the hash slot. When the sort fields name distinct columns, the
  positions \<open>SetSortOrder\<close> hands out are exactly 0, 1, 2, ..., so no sort column is written over the
  hash or outside the key, even when the scan stops at an unknown field.\<close>

theorem distinct_sort_fields_slots_ok:
  assumes "SetSortOrder stats sort_fields s = Ret s'" and "sort_fields \<noteq> []" and "agg_sort_cols s = []"
    and "distinct (map (field_key \<circ> sf_name) sort_fields)"
  shows "image_mset snd (slots s') = mset [0..<length (sort_cols s') + length (agg_sort_cols s')] \<and> slots_ok s'"
proof -
  let ?s = "s\<lparr>sort_cols := []\<rparr>"
  have "slots ?s = {#}" using assms(3) by (simp add: slots_def)
  then obtain n where n: "image_mset snd (slots s') = mset [0..<n]"
    using set_sort_fields_slots[of stats 0 sort_fields ?s s'] assms by (auto simp: SetSortOrder_def)
  have "size (image_mset snd (slots s')) = n" by (subst n) simp
  then have len: "n = length (sort_cols s') + length (agg_sort_cols s')" by (simp add: slots_def)
  have set_n: "snd ` set_mset (slots s') = {..<n}" by (metis n set_image_mset mset_upt atLeast_upt set_mset_mset)
  have "snd c < n" if "c \<in> set (sort_cols s')" for c
  proof -
    have "((AGG_INVALID, fst c), snd c) \<in> set_mset (slots s')" using that by (force simp: slots_def)
    then have "snd c \<in> snd ` set_mset (slots s')" by force
    with set_n show ?thesis by simp
  qed
  with n len show ?thesis by (simp add: slots_ok_def list_all_iff)
qed

theorem distinct_sort_fields_slots_ok_witness:
  "\<exists>s'. SetSortOrder None [\<lparr>sf_name = ''name'', sf_type = ''string''\<rparr>, \<lparr>sf_name = ''SUM(x)'', sf_type = ''int''\<rparr>] blank_select = Ret s'
    \<and> slots_ok s'"
proof -
  let ?fs = "[\<lparr>sf_name = ''name'', sf_type = ''string''\<rparr>, \<lparr>sf_name = ''SUM(x)'', sf_type = ''int''\<rparr>]"
  let ?s = "blank_select\<lparr>sort_cols := [(''name'', 0)], agg_sort_cols := [((AGG_SUM, ''x''), 1)]\<rparr>"
  have "SetSortOrder None ?fs blank_select = Ret ?s" by code_simp
  moreover have "distinct (map (field_key \<circ> sf_name) ?fs)" by code_simp
  ultimately show ?thesis
    using distinct_sort_fields_slots_ok[of None ?fs blank_select ?s] by (simp add: blank_select_def)
qed

text \<open>
  A repeated sort field displaces the hash. With sort fields a, a, b the second a takes a position
  but no slot, so b lands in the last slot of the key, where \<open>LoadRow\<close> has put the hash: the key no
  longer separates groups that agree on a and b.\<close>

theorem repeated_sort_field_loses_hash:
  "\<exists>s. SetSortOrder None [\<lparr>sf_name = ''a'', sf_type = t\<rparr>, \<lparr>sf_name = ''a'', sf_type = t\<rparr>, \<lparr>sf_name = ''b'', sf_type = t\<rparr>] blank_select = Ret s \<and>
     \<not> slots_ok s \<and>
     (\<forall>ext x y z. build_ukey ext s [(''a'', x), (''b'', y), (''c'', z)] = Ret [x, SBlank, y])"
proof -
  let ?s = "blank_select\<lparr>sort_cols := [(''a'', 0), (''b'', 2)]\<rparr>"
  have "SetSortOrder None [\<lparr>sf_name = ''a'', sf_type = t\<rparr>, \<lparr>sf_name = ''a'', sf_type = t\<rparr>, \<lparr>sf_name = ''b'', sf_type = t\<rparr>] blank_select = Ret ?s"
    by (simp add: SetSortOrder_def blank_select_def ParseAgg_def starts_with_def)
  moreover have "\<not> slots_ok ?s" by (simp add: slots_ok_def blank_select_def)
  moreover have "build_ukey ext ?s [(''a'', x), (''b'', y), (''c'', z)] = Ret [x, SBlank, y]"
    for ext :: "('d, 't, 'c) agg_ext" and x y z
    by (simp add: build_ukey_def fill_slot_def vec_set_def blank_select_def numeral_2_eq_2)
  ultimately show ?thesis by blast
qed

section \<open>Concrete runs\<close>

definition sample_agg :: "(nat, unit, unit) agg_ext" where
  "sample_agg = row_ext.extend sample_ext
     (agg_ext.fields (\<lambda>s. of_nat (length s)) (\<lambda>ps. foldl (\<lambda>h p. 31 * h + snd p) 7 ps) (+) unat nat () (\<lambda>_ _ _. ()) (\<lambda>_. 0) (\<lambda>_. 1)
        () (\<lambda>t _ _. (t, None)) (\<lambda>_. []) (\<lambda>_ _. 0) (\<lambda>_ _. False) (\<lambda>_ _. False))"

definition sample_select :: StatsSelect where
  "sample_select = blank_select\<lparr>ss_status := True, count_field := ''x'', unik_cols := [''name''], sum_cols := [''x'']\<rparr>"

definition sample_rows :: "(nat, unit, unit) loaded list" where
  "sample_rows = [([], 5, [(''name'', SString ''a''), (''x'', SUint64 3)]),
                  ([], 6, [(''name'', SString ''bb''), (''x'', SUint64 1)]),
                  ([], 7, [(''name'', SString ''a''), (''x'', SUint64 4)])]"

definition sample_out :: "(nat, unit, unit) MapBufT" where
  "sample_out =
     [([SUint64 218], [(''name'', SString ''a'')], [((AGG_SUM, ''x''), SUint64 7), ((AGG_COUNT, ''x''), SUint64 2)]),
      ([SUint64 219], [(''name'', SString ''bb'')], [((AGG_SUM, ''x''), SUint64 1), ((AGG_COUNT, ''x''), SUint64 1)])]"

lemma sample_run: "load_rows sample_agg sample_select sample_rows [] = Ret sample_out"
  by code_simp

theorem count_counts_rows_witness:
  "group_total (AGG_COUNT, ''x'') [(''name'', SString ''a'')] sample_out = 2"
proof -
  have "length (filter (\<lambda>r. row_uniks sample_select r = [(''name'', SString ''a'')]) sample_rows) = 2" by code_simp
  with count_counts_rows[OF _ _ sample_run] show ?thesis
    by (simp add: sample_select_def del: One_nat_def)
qed

theorem sum_adds_up_witness:
  "group_total (AGG_SUM, ''x'') [(''name'', SString ''a'')] sample_out = 7"
proof -
  let ?f = "\<lambda>r :: (nat, unit, unit) loaded. agg_u64 (AGG_SUM, ''x'') (map (\<lambda>(n, v). ((AGG_SUM, n), v)) (snd (snd r)))"
  have "group_total (AGG_SUM, ''x'') [(''name'', SString ''a'')] sample_out =
      (\<Sum>r\<leftarrow>sample_rows. if row_uniks sample_select r = [(''name'', SString ''a'')] then ?f r else 0)"
    by (rule sum_adds_up[OF _ _ _ sample_run]) (auto simp: sample_select_def sample_rows_def agg_u64_def)
  also have "\<dots> = 7" by code_simp
  finally show ?thesis .
qed

theorem one_row_per_group_witness:
  "distinct (map (fst \<circ> snd) sample_out) \<and> (fst \<circ> snd) ` set sample_out = row_uniks sample_select ` set sample_rows"
proof (rule one_row_per_group[OF _ _ _ _ sample_run])
  show "ss_status sample_select" "slots_ok sample_select" by code_simp+
  show "irreflexive_values sample_agg"
    by (simp add: irreflexive_values_def sample_agg_def sample_ext_def row_ext.defs agg_ext.defs)
  show "inj_on (hash_uniks sample_agg) (row_uniks sample_select ` set sample_rows)" by code_simp
qed

definition sample_instances :: "(nat, unit, unit) MapBufT list" where
  "sample_instances =
     [[([SUint64 1], [(''name'', SString ''a'')], [((AGG_COUNT, ''x''), SUint64 2)])],
      [([SUint64 1], [(''name'', SString ''a'')], [((AGG_COUNT, ''x''), SUint64 3)])]]"

definition sample_merged :: "(nat, unit, unit) MapBufT" where
  "sample_merged = [([SUint64 1], [(''name'', SString ''a'')], [((AGG_COUNT, ''x''), SUint64 5)])]"

definition sample_distinct :: "(nat, unit, unit) MapBufT" where
  "sample_distinct = [([SUint64 7], [], [((AGG_COUNT, ''x''), SUint64 5), ((AGG_COUNT_DISTINCT, ''name''), SUint64 2)])]"

theorem merge_final_conserves_witness:
  "group_total (AGG_COUNT, ''x'') [(''name'', SString ''a'')] sample_merged = 5"
proof -
  let ?u = "[(''name'', SString ''a'')] :: (nat, unit, unit) StatMap"
  have run: "MergeFinal sample_agg sample_select sample_instances [] = Ret sample_merged" by code_simp
  have "group_total (AGG_COUNT, ''x'') ?u sample_merged =
      (\<Sum>i\<leftarrow>sample_instances. \<Sum>r\<leftarrow>i. if strip (count_distinct_field sample_select) (fst (snd r)) = ?u
         then contribution (count_distinct_field sample_select) (AGG_COUNT, ''x'') r else 0)"
    by (rule merge_final_conserves[OF _ _ run])
      (auto simp: sample_instances_def sample_select_def blank_select_def contributes_def has_u64_def agg_u64_def)
  also have "\<dots> = 5" by code_simp
  finally show ?thesis .
qed

theorem count_distinct_counts_per_instance_witness:
  "group_total (AGG_COUNT_DISTINCT, ''name'') [] sample_distinct = 2"
proof -
  let ?s = "sample_select\<lparr>count_distinct_field := ''name''\<rparr>"
  have run: "MergeFinal sample_agg ?s sample_instances [] = Ret sample_distinct" by code_simp
  have "group_total (AGG_COUNT_DISTINCT, ''name'') [] sample_distinct =
      of_nat (length (filter (\<lambda>r. strip ''name'' (fst (snd r)) = []) (concat sample_instances)))"
    by (rule count_distinct_counts_per_instance[OF _ _ run]) (auto simp: sample_instances_def)
  also have "\<dots> = 2" by code_simp
  finally show ?thesis .
qed

section \<open>Reading the SELECT clause\<close>

lemma scan_select_time:
  assumes "scan_select_fields s fs = Ret s'" and "ss_status s'" and "\<not> (isT s \<and> ts_period s \<noteq> 0)" and "\<not> ss_status s"
  shows "\<not> (isT s' \<and> ts_period s' \<noteq> 0) \<and> (isT s' \<longleftrightarrow> isT s \<or> STAT_TIME_FIELD \<in> set fs) \<and>
         (ts_period s' \<noteq> 0 \<longleftrightarrow> ts_period s \<noteq> 0 \<or> (\<exists>f \<in> set fs. starts_with f STAT_TIMEBIN_FIELD))"
  using assms
proof (induction s fs rule: scan_select_fields.induct)
  case (2 s f fs)
  consider "f = STAT_TIME_FIELD" | "f \<noteq> STAT_TIME_FIELD" "starts_with f STAT_TIMEBIN_FIELD"
    | "f \<noteq> STAT_TIME_FIELD" "\<not> starts_with f STAT_TIMEBIN_FIELD" by blast
  then show ?case
  proof cases
    case 1
    with 2 show ?thesis by (auto simp: starts_with_def split: if_splits)
  next
    case c: 2
    let ?s = "s\<lparr>ts_period := strtoul (drop 2 f) * 1000000\<rparr>"
    from c "2.prems" have nT: "\<not> isT s" and p: "ts_period ?s \<noteq> 0"
      and run: "scan_select_fields (?s\<lparr>sort_cols := map_insert STAT_TIMEBIN_FIELD 0 (sort_cols ?s)\<rparr>) fs = Ret s'"
      by (auto simp: Let_def split: if_splits)
    from "2.IH"(2)[OF c(1,2) nT refl p run] "2.prems" nT p c show ?thesis by auto
  next
    case c: 3
    with "2.prems" obtain agg sf where a: "ParseAgg f f = Ret (agg, sf)"
      and run: "scan_select_fields (add_agg_field s f agg sf) fs = Ret s'"
      by (auto simp: bind_outcome_Ret_iff)
    have keep: "isT (add_agg_field s f agg sf) = isT s" "ts_period (add_agg_field s f agg sf) = ts_period s"
        "ss_status (add_agg_field s f agg sf) = ss_status s"
      by (cases agg; simp add: add_agg_field_def)+
    from "2.IH"(3)[OF c run] "2.prems" keep c show ?thesis by auto
  qed
qed auto

definition agg_cols :: "AggOper \<Rightarrow> StatsSelect \<Rightarrow> string list" where
  "agg_cols agg s =
     (case agg of AGG_SUM \<Rightarrow> sum_cols s | AGG_CLASS \<Rightarrow> class_cols s | AGG_MAX \<Rightarrow> max_field s
      | AGG_MIN \<Rightarrow> min_field s | AGG_PERCENTILES \<Rightarrow> percentile_cols s | AGG_AVG \<Rightarrow> avg_field s | _ \<Rightarrow> [])"

lemma ParseAgg_time: "starts_with f STAT_TIMEBIN_FIELD \<or> f = STAT_TIME_FIELD \<Longrightarrow> ParseAgg f f = Ret (AGG_INVALID, f)"
  by (cases f; cases "tl f") (auto simp: ParseAgg_def starts_with_def)

lemma scan_select_cols:
  assumes "scan_select_fields s fs = Ret s'" and "ss_status s'" and "\<not> ss_status s"
    and "agg \<in> {AGG_SUM, AGG_CLASS, AGG_MAX, AGG_MIN, AGG_PERCENTILES, AGG_AVG}"
  shows "set (agg_cols agg s') = set (agg_cols agg s) \<union> {c. \<exists>f \<in> set fs. ParseAgg f f = Ret (agg, c)}"
  using assms
proof (induction s fs rule: scan_select_fields.induct)
  case (2 s f fs)
  consider "f = STAT_TIME_FIELD" | "f \<noteq> STAT_TIME_FIELD" "starts_with f STAT_TIMEBIN_FIELD"
    | "f \<noteq> STAT_TIME_FIELD" "\<not> starts_with f STAT_TIMEBIN_FIELD" by blast
  then show ?case
  proof cases
    case 1
    with 2 ParseAgg_time[of f] show ?thesis by (auto simp: agg_cols_def split: if_splits)
  next
    case c: 2
    let ?s = "s\<lparr>ts_period := strtoul (drop 2 f) * 1000000\<rparr>"
    from c "2.prems" have nT: "\<not> isT s" and p: "ts_period ?s \<noteq> 0"
      and run: "scan_select_fields (?s\<lparr>sort_cols := map_insert STAT_TIMEBIN_FIELD 0 (sort_cols ?s)\<rparr>) fs = Ret s'"
      by (auto simp: Let_def split: if_splits)
    from "2.IH"(2)[OF c(1,2) nT refl p run] "2.prems" c ParseAgg_time[of f] show ?thesis
      by (auto simp: agg_cols_def)
  next
    case c: 3
    with "2.prems" obtain a sf where a: "ParseAgg f f = Ret (a, sf)"
      and run: "scan_select_fields (add_agg_field s f a sf) fs = Ret s'"
      by (auto simp: bind_outcome_Ret_iff)
    have "ss_status (add_agg_field s f a sf) = ss_status s"
      "set (agg_cols agg (add_agg_field s f a sf)) = set (agg_cols agg s) \<union> (if a = agg then {sf} else {})"
      using "2.prems"(4) by (cases a; auto simp: add_agg_field_def agg_cols_def set_insort_insert)+
    with "2.IH"(3)[OF c run] "2.prems" a show ?thesis by auto
  qed
qed (auto simp: agg_cols_def)

text \<open>
  The selector reads the SELECT clause as written. When the constructor succeeds, each aggregate
  collects exactly the columns the clause applies it to; raw time is selected exactly when T is
  listed and time bins exactly when a T= field is, and never both.\<close>

theorem select_clause_read:
  assumes "new_StatsSelect fs = Ret s" and "ss_status s"
  shows "(agg \<in> {AGG_SUM, AGG_CLASS, AGG_MAX, AGG_MIN, AGG_PERCENTILES, AGG_AVG} \<longrightarrow>
            set (agg_cols agg s) = {c. \<exists>f \<in> set fs. ParseAgg f f = Ret (agg, c)}) \<and>
         (isT s \<longleftrightarrow> STAT_TIME_FIELD \<in> set fs) \<and>
         (ts_period s \<noteq> 0 \<longleftrightarrow> (\<exists>f \<in> set fs. starts_with f STAT_TIMEBIN_FIELD)) \<and>
         \<not> (isT s \<and> ts_period s \<noteq> 0)"
proof -
  have run: "scan_select_fields blank_select fs = Ret s" using assms(1) by (simp add: new_StatsSelect_def)
  have b: "\<not> ss_status blank_select" "\<not> isT blank_select" "ts_period blank_select = 0" "agg_cols agg blank_select = []"
    by (cases agg; simp add: blank_select_def agg_cols_def)+
  have t: "\<not> (isT s \<and> ts_period s \<noteq> 0) \<and> (isT s \<longleftrightarrow> STAT_TIME_FIELD \<in> set fs) \<and>
      (ts_period s \<noteq> 0 \<longleftrightarrow> (\<exists>f \<in> set fs. starts_with f STAT_TIMEBIN_FIELD))"
    using scan_select_time[OF run assms(2) _ b(1)] b(2,3) by (metis)
  have c: "agg \<in> {AGG_SUM, AGG_CLASS, AGG_MAX, AGG_MIN, AGG_PERCENTILES, AGG_AVG} \<longrightarrow>
      set (agg_cols agg s) = {c. \<exists>f \<in> set fs. ParseAgg f f = Ret (agg, c)}"
    using scan_select_cols[OF run assms(2) b(1), of agg] b(4) by simp
  show ?thesis
    by (intro conjI c conjunct1[OF t] conjunct1[OF conjunct2[OF t]] conjunct2[OF conjunct2[OF t]])
qed

theorem select_clause_read_witness:
  "\<exists>s. new_StatsSelect [''T=60'', ''name'', ''SUM(x)''] = Ret s \<and> ss_status s \<and> set (agg_cols AGG_SUM s) =
     {c. \<exists>f \<in> set [''T=60'', ''name'', ''SUM(x)'']. ParseAgg f f = Ret (AGG_SUM, c)} \<and> ts_period s \<noteq> 0"
proof -
  let ?s = "blank_select\<lparr>ss_status := True, ts_period := 60000000, sort_cols := [(''T='', 0)],
              unik_cols := [''name''], sum_cols := [''x'']\<rparr>"
  have "strtoul ''60'' = 60"
    by (simp add: strtoul_def scan_int_def is_space_def is_digit_def digits_val_def digit_val_def)
  then have r: "new_StatsSelect [''T=60'', ''name'', ''SUM(x)''] = Ret ?s"
    by (simp add: new_StatsSelect_def blank_select_def starts_with_def ParseAgg_def agg_arm_def substr_from_def
      add_agg_field_def insort_insert_key_def)
  show ?thesis using r select_clause_read[OF r, of AGG_SUM] by (intro exI[of _ ?s]) simp
qed

text \<open>
  Time bins. With a non-zero period the bin of a timestamp is the greatest multiple of the period
  that is not after it; in particular equal bins mean less than a period apart.\<close>

theorem time_bin_floor:
  assumes "period \<noteq> 0"
  shows "unat (time_bin period ts) = unat period * (unat ts div unat period) \<and>
         time_bin period ts \<le> ts \<and> ts - time_bin period ts < period"
proof (intro conjI)
  have mod: "unat (ts mod period) = unat ts mod unat period" by (rule unat_mod)
  have le: "ts mod period \<le> ts" by (simp add: word_le_nat_alt mod)
  then have "unat (time_bin period ts) = unat ts - unat ts mod unat period"
    by (simp add: time_bin_def unat_sub mod)
  then show u: "unat (time_bin period ts) = unat period * (unat ts div unat period)"
    by (simp add: minus_mod_eq_mult_div)
  then show "time_bin period ts \<le> ts" by (simp add: word_le_nat_alt)
  have "0 < unat period" using assms by (simp add: unat_gt_0)
  moreover have "ts - time_bin period ts = ts mod period" by (simp add: time_bin_def)
  ultimately show "ts - time_bin period ts < period" by (simp add: word_less_nat_alt mod)
qed

theorem time_bin_floor_witness: "unat (time_bin 60000000 (123456789 :: u64)) = 120000000"
  using time_bin_floor[of 60000000 123456789] by simp

text \<open>
  Merging keeps the columns of the older row. When the row already in the output has an aggregate,
  the merged row has exactly the aggregates of the older row; one that only the newer row carries (an
  attribute the first sample of the group lacked) is dropped.\<close>

theorem merge_keeps_old_columns:
  assumes "arows \<noteq> []" and "MergeAggRow ext arows narows = Ret merged"
  shows "map fst merged = map fst arows"
proof -
  have "map fst m = map fst a" if "merge_agg_entries ext a narows = Ret m" for a m
    using that by (induction a arbitrary: m) (auto simp: bind_outcome_Ret_iff)
  with assms show ?thesis by (simp add: MergeAggRow_def)
qed

theorem merge_keeps_old_columns_witness:
  "MergeAggRow sample_agg [((AGG_COUNT, ''x''), SUint64 1)] [((AGG_SUM, ''y''), SUint64 5), ((AGG_COUNT, ''x''), SUint64 1)]
     = Ret [((AGG_COUNT, ''x''), SUint64 2)] \<and> map fst [((AGG_COUNT, ''x''), SUint64 2 :: (nat, unit, unit) SubVal)] = [(AGG_COUNT, ''x'')]"
proof -
  have r: "MergeAggRow sample_agg [((AGG_COUNT, ''x''), SUint64 1)] [((AGG_SUM, ''y''), SUint64 5), ((AGG_COUNT, ''x''), SUint64 1)]
     = Ret [((AGG_COUNT, ''x''), SUint64 2)]" by code_simp
  from merge_keeps_old_columns[OF _ r] r show ?thesis by simp
qed

section \<open>Rows in key order\<close>

text \<open>The orders of the values a key can hold are strict weak orderings.\<close>

definition ordered_values :: "('d, 't, 'c) agg_ext \<Rightarrow> bool" where
  "ordered_values ext \<longleftrightarrow> strict_weak_ordering (double_less ext) UNIV \<and>
     strict_weak_ordering (tdigest_ptr_less ext) UNIV \<and> strict_weak_ordering (centroid_ptr_less ext) UNIV"

lemma sub_less_swo:
  assumes "ordered_values ext"
  shows "strict_weak_ordering (sub_less ext) UNIV"
proof -
  note d = strict_weak_ordering.lt_irrefl[where A = UNIV, simplified]
    strict_weak_ordering.lt_trans[where A = UNIV, simplified] strict_weak_ordering.lt_split[where A = UNIV, simplified]
  from assms have "strict_weak_ordering (double_less ext) UNIV" "strict_weak_ordering (tdigest_ptr_less ext) UNIV"
    "strict_weak_ordering (centroid_ptr_less ext) UNIV" by (simp_all add: ordered_values_def)
  note e = this[THEN d(1)] and t = this[THEN d(2)] and sp = this[THEN d(3)]
  show ?thesis
  proof
    show "\<not> sub_less ext x x" for x by (cases x) (auto simp: sub_less_def e)
    show "sub_less ext x z" if "sub_less ext x y" "sub_less ext y z" for x y z
      using that by (cases x; cases y; cases z) (auto simp: sub_less_def intro: t)
    show "sub_less ext x y \<or> sub_less ext y z" if "sub_less ext x z" for x y z
      using that by (cases x; cases z; cases y) (auto simp: sub_less_def dest: sp)
  qed
qed

lemma vec_less_swo:
  assumes "strict_weak_ordering lt (UNIV :: 'a set)"
  shows "strict_weak_ordering (vec_less lt) UNIV"
proof -
  note irr = strict_weak_ordering.lt_irrefl[OF assms, simplified]
    and tr = strict_weak_ordering.lt_trans[OF assms, simplified]
    and sp = strict_weak_ordering.lt_split[OF assms, simplified]
  show ?thesis
  proof
    show "\<not> vec_less lt v v" for v by (rule vec_less_irrefl) (rule irr)
    show "vec_less lt u w" if "vec_less lt u v" "vec_less lt v w" for u v w
      using that
    proof (induction u arbitrary: v w)
      case Nil
      then show ?case by (cases w; cases v) auto
    next
      case (Cons a u)
      then obtain b v' c w' where "v = b # v'" "w = c # w'" by (cases v; cases w) auto
      with Cons show ?case by (auto dest: tr sp)
    qed
    show "vec_less lt u v \<or> vec_less lt v w" if "vec_less lt u w" for u v w
      using that
    proof (induction u arbitrary: v w)
      case Nil
      then show ?case by (cases w; cases v) auto
    next
      case (Cons a u)
      then obtain c w' where "w = c # w'" by (cases w) auto
      with Cons show ?case by (cases v) (auto dest: tr sp)
    qed
  qed
qed

lemma key_less_swo: "ordered_values ext \<Longrightarrow> strict_weak_ordering (key_less ext) UNIV"
  by (rule vec_less_swo[OF sub_less_swo])

definition key_sorted :: "('d, 't, 'c) agg_ext \<Rightarrow> ('d, 't, 'c) MapBufT \<Rightarrow> bool" where
  "key_sorted ext out \<longleftrightarrow> sorted_by (key_less ext) (map fst out)"

lemma fst_mm_insert: "fst ` set (mm_insert ext r out) = insert (fst r) (fst ` set out)"
  by (induction out) auto

lemma key_sorted_insert:
  assumes "ordered_values ext" and "key_sorted ext out"
  shows "key_sorted ext (mm_insert ext r out)"
proof -
  note swo = key_less_swo[OF assms(1)]
  show ?thesis using assms(2) unfolding key_sorted_def
  proof (induction out)
    case (Cons q qs)
    show ?case
    proof (cases "key_less ext (fst r) (fst q)")
      case True
      have "\<not> key_less ext (fst p) (fst r)" if "p \<in> set (q # qs)" for p
        using True Cons.prems that strict_weak_ordering.lt_trans[OF swo, of "fst p" "fst r" "fst q"]
          strict_weak_ordering.lt_irrefl[OF swo, of "fst q"] by auto
      with True Cons.prems show ?thesis by simp
    next
      case False
      with Cons fst_mm_insert[of ext r qs] show ?thesis by auto
    qed
  qed simp
qed

lemma key_sorted_MergeFullRow:
  assumes "ordered_values ext" and "key_sorted ext out" and "MergeFullRow ext ukey uniks narows out = Ret out'"
  shows "key_sorted ext out'"
proof -
  have "map fst (out[i := (fst (out ! i), u, a)]) = map fst out" for i u a
    by (cases "i < length out") (simp_all add: map_update list_update_same_conv list_update_beyond)
  then show ?thesis using assms(3) key_sorted_insert[OF assms(1,2)] assms(2)
    by (auto simp: MergeFullRow_def key_sorted_def bind_outcome_Ret_iff Let_def split: option.splits prod.splits if_splits)
      (metis fst_conv)
qed

text \<open>
  The output is in key order. Loading rows keeps the multimap sorted by the sort vector, so its
  traversal yields the rows in the requested ascending order.\<close>

theorem loaded_rows_key_sorted:
  assumes "ordered_values ext" and "key_sorted ext out" and "load_rows ext s rows out = Ret out'"
  shows "key_sorted ext out'"
  using assms(2,3)
proof (induction rows arbitrary: out)
  case (Cons r rows)
  then obtain o1 where o1: "load_row ext s out r = Ret o1" "load_rows ext s rows o1 = Ret out'"
    by (auto simp: load_rows_def bind_outcome_Ret_iff)
  have "key_sorted ext o1"
  proof (cases "ss_status s")
    case True
    with load_row_RetE[OF o1(1)] key_sorted_MergeFullRow[OF assms(1) Cons.prems(1)] show ?thesis by metis
  next
    case False
    with o1(1) Cons.prems(1) show ?thesis by (auto simp: load_row_def LoadRow_def split: prod.splits)
  qed
  from Cons.IH[OF this o1(2)] show ?case .
qed (simp add: load_rows_def)

theorem loaded_rows_key_sorted_witness: "key_sorted sample_agg sample_out"
proof (rule loaded_rows_key_sorted[OF _ _ sample_run])
  show "ordered_values sample_agg"
    by (simp add: ordered_values_def strict_weak_ordering_def sample_agg_def sample_ext_def row_ext.defs agg_ext.defs)
      linarith
qed (simp add: key_sorted_def)

section \<open>Rendering a row\<close>

definition unik_json :: "('d, 't, 'c) agg_ext \<Rightarrow> ('d, 't, 'c) SubVal \<Rightarrow> 'd json outcome" where
  "unik_json ext v =
     (case v of SString s \<Rightarrow> Ret (JString (c_str s)) | SUuid u \<Rightarrow> Ret (JString (c_str (show_uuid ext u)))
      | SUint64 n \<Rightarrow> Ret (JInt (uint n)) | SDouble d \<Rightarrow> Ret (JDouble d) | _ \<Rightarrow> Abort)"

definition agg_name :: "string \<Rightarrow> AggOper \<Rightarrow> string \<Rightarrow> string outcome" where
  "agg_name table agg n =
     (case agg of
        AGG_SUM \<Rightarrow> Ret (if n \<in> {''forward_teardown_bytes'', ''forward_teardown_pkts'', ''reverse_teardown_bytes'',
                             ''reverse_teardown_pkts'', ''agg-packets'', ''agg-bytes''}
                        then n else ''SUM('' @ n @ '')'')
      | AGG_COUNT \<Rightarrow> Ret (if table = SESSION_SERIES_TABLE then ''sample_count'' else ''COUNT('' @ n @ '')'')
      | AGG_CLASS \<Rightarrow> Ret (if table = SESSION_SERIES_TABLE then ''session_class_id''
                          else if table = FLOW_SERIES_TABLE then ''flow_class_id'' else ''CLASS('' @ n @ '')'')
      | AGG_MAX \<Rightarrow> Ret (''MAX('' @ n @ '')'')
      | AGG_MIN \<Rightarrow> Ret (''MIN('' @ n @ '')'')
      | AGG_PERCENTILES \<Rightarrow> Ret (''PERCENTILES('' @ n @ '')'')
      | AGG_AVG \<Rightarrow> Ret (''AVG('' @ n @ '')'')
      | AGG_COUNT_DISTINCT \<Rightarrow> Ret (''COUNT_DISTINCT('' @ n @ '')'')
      | AGG_INVALID \<Rightarrow> Abort)"

definition percentile_points :: "(nat \<times> string) list" where
  "percentile_points = [(1, ''01''), (5, ''05''), (25, ''25''), (50, ''50''), (75, ''75''), (95, ''95''), (99, ''99'')]"

definition agg_json :: "('d, 't, 'c) agg_ext \<Rightarrow> ('d, 't, 'c) SubVal \<Rightarrow> 'd json outcome" where
  "agg_json ext v =
     (case v of SUint64 n \<Rightarrow> Ret (JInt (uint n)) | SDouble d \<Rightarrow> Ret (JDouble d)
      | STdigest t \<Rightarrow> Ret (JObject (map (\<lambda>(p, name). (name, JDouble (TDigest_percentile ext t p))) percentile_points))
      | SCentroid c \<Rightarrow> Ret (JDouble (Centroid_get_mean ext c)) | _ \<Rightarrow> Abort)"

definition add_unik_member :: "('d, 't, 'c) agg_ext \<Rightarrow> (string \<times> 'd json) list \<Rightarrow> string \<times> ('d, 't, 'c) SubVal \<Rightarrow> (string \<times> 'd json) list outcome" where
  "add_unik_member ext dd e = bind_outcome (unik_json ext (snd e)) (\<lambda>j. Ret (dd @ [(c_str (fst e), j)]))"

definition add_agg_member :: "('d, 't, 'c) agg_ext \<Rightarrow> string \<Rightarrow> (string \<times> 'd json) list \<Rightarrow> (AggOper \<times> string) \<times> ('d, 't, 'c) SubVal \<Rightarrow> (string \<times> 'd json) list outcome" where
  "add_agg_member ext table dd e =
     bind_outcome (agg_name table (fst (fst e)) (snd (fst e)))
       (\<lambda>n. bind_outcome (agg_json ext (snd e)) (\<lambda>j. Ret (dd @ [(c_str n, j)])))"

definition Jsonify :: "('d, 't, 'c) agg_ext \<Rightarrow> string \<Rightarrow> ('d, 't, 'c) StatMap \<Rightarrow> ('d, 't, 'c) AggRowT \<Rightarrow> 'd json outcome" where
  "Jsonify ext table uniks aggs =
     bind_outcome (foldl_outcome (add_unik_member ext) [] uniks)
       (\<lambda>dd. bind_outcome (foldl_outcome (add_agg_member ext table) dd aggs) (\<lambda>dd'. Ret (JObject dd')))"

definition renderable_unik :: "('d, 't, 'c) SubVal \<Rightarrow> bool" where
  "renderable_unik v \<longleftrightarrow> sub_which v \<in> {1, 2, 3, 4}"

definition renderable_agg :: "(AggOper \<times> string) \<times> ('d, 't, 'c) SubVal \<Rightarrow> bool" where
  "renderable_agg e \<longleftrightarrow> fst (fst e) \<noteq> AGG_INVALID \<and> sub_which (snd e) \<in> {2, 3, 5, 6}"

lemma foldl_outcome_members:
  assumes "\<And>dd e. e \<in> set xs \<Longrightarrow> f dd e = Ret (dd @ [g e])"
  shows "foldl_outcome f dd xs = Ret (dd @ map g xs)"
  using assms by (induction xs arbitrary: dd) simp_all

text \<open>
  Rendering is total and complete on rows the aggregation produces. A row whose \<open>uniks\<close> are
  strings, numbers or UUIDs and whose aggregates are numbers, digests or centroids is rendered without
  hitting an assertion, as an object with one member per column: the \<open>uniks\<close> under their names, then
  the aggregates under the names of the SELECT clause.\<close>

theorem jsonify_complete:
  assumes "list_all (renderable_unik \<circ> snd) uniks" and "list_all renderable_agg aggs"
  shows "Jsonify ext table uniks aggs =
     Ret (JObject (map (\<lambda>(n, v). (c_str n, the_ret (unik_json ext v))) uniks @
                   map (\<lambda>((agg, n), v). (c_str (the_ret (agg_name table agg n)), the_ret (agg_json ext v))) aggs))"
proof -
  have "add_unik_member ext dd e = Ret (dd @ [(\<lambda>(n, v). (c_str n, the_ret (unik_json ext v))) e])"
    if "e \<in> set uniks" for dd e
    using that assms(1) by (cases "snd e")
      (auto simp: list_all_iff renderable_unik_def add_unik_member_def unik_json_def split: prod.splits)
  moreover have "add_agg_member ext table dd e =
      Ret (dd @ [(\<lambda>((agg, n), v). (c_str (the_ret (agg_name table agg n)), the_ret (agg_json ext v))) e])"
    if "e \<in> set aggs" for dd e
  proof -
    obtain agg n v where e: "e = ((agg, n), v)" by (metis prod.exhaust)
    with that assms(2) have "agg \<noteq> AGG_INVALID" "sub_which v \<in> {2, 3, 5, 6}"
      by (force simp: list_all_iff renderable_agg_def)+
    then obtain nm j where "agg_name table agg n = Ret nm" "agg_json ext v = Ret j"
      by (cases agg; cases v; simp add: agg_name_def agg_json_def)
    then show ?thesis by (simp add: e add_agg_member_def)
  qed
  ultimately show ?thesis by (simp add: Jsonify_def foldl_outcome_members)
qed

theorem jsonify_complete_witness:
  "Jsonify sample_agg ''StatTable.a.b'' [(''name'', SString ''r1'')] [((AGG_SUM, ''x''), SUint64 7)] =
     Ret (JObject [(''name'', JString ''r1''), (''SUM(x)'', JInt 7)])"
  using jsonify_complete[of "[(''name'', SString ''r1'')]" "[((AGG_SUM, ''x''), SUint64 7)]" sample_agg "''StatTable.a.b''"]
  by (simp add: renderable_unik_def renderable_agg_def unik_json_def agg_name_def agg_json_def c_str_def)

end
