(* ===== verification/Query_Pipeline.thy ===== *)
theory Query_Pipeline
  imports Stats_Select Post_Processing Set_Operation
begin

text \<open>
  \<open>QEOpServerProxy.cc\<close>: the execution of one query. A number of instances claim the time chunks of the
  query one after the other; for each chunk an instance runs the OR terms of the WHERE clause, unites
  their results, runs SELECT and post-processing on them and adds the rows to what it has
  (\<open>QueryExec\<close>). When all instances have ended, \<open>QueryMerge\<close> combines their results and
  \<open>QueryResp\<close> writes them to redis. The instances share the counter of chunks and the counter of rows;
  the step relation below interleaves their atomic actions arbitrarily. What a call to the query engine
  answers is an argument. The admission of queries to redis connections (\<open>StartPipeline\<close>,
  \<open>QEPipeCb\<close>) is a second small state machine.
\<close>

section \<open>Accumulating the rows of a chunk\<close>

text \<open>\<open>multimap::insert\<close> with a hint: as close as possible before the hinted position. The result is
  the position of the new element and the container.\<close>

definition mm_insert_hint ::
    "('d, 't, 'c) agg_ext \<Rightarrow> nat \<Rightarrow> ('d, 't, 'c) OutRow \<Rightarrow> ('d, 't, 'c) MapBufT \<Rightarrow> nat \<times> ('d, 't, 'c) MapBufT" where
  "mm_insert_hint ext h r m =
     (let lb = length (filter (\<lambda>q. key_less ext (fst q) (fst r)) m);
          ub = length (filter (\<lambda>q. \<not> key_less ext (fst r) (fst q)) m);
          i = min (max h lb) ub
      in (i, take i m @ r # drop i m))"

definition mm_insert_all :: "('d, 't, 'c) agg_ext \<Rightarrow> ('d, 't, 'c) MapBufT \<Rightarrow> ('d, 't, 'c) MapBufT \<Rightarrow> ('d, 't, 'c) MapBufT" where
  "mm_insert_all ext rows m = snd (foldl (\<lambda>(h, m) r. mm_insert_hint ext h r m) (0, m) rows)"

text \<open>The rows of a chunk join the rows the instance has: result kinds are buffers and multimaps, with
  or without merging. The flag is the returned \<open>ret_code\<close>.\<close>

definition accumulate_map :: "('d, 't, 'c) agg_ext \<Rightarrow> bool \<Rightarrow> ('d, 't, 'c) MapBufT \<Rightarrow> ('d, 't, 'c) MapBufT \<Rightarrow> (bool \<times> ('d, 't, 'c) MapBufT) outcome" where
  "accumulate_map ext need_merge chunk acc =
     (if need_merge then bind_outcome (Merge ext '''' chunk acc) (\<lambda>r. Ret (True, r))
      else Ret (True, mm_insert_all ext chunk acc))"

definition accumulate_buffer :: "('d, 't, 'c) row_ext \<Rightarrow> pp_query \<Rightarrow> bool \<Rightarrow> 'm BufferT \<Rightarrow> 'm BufferT \<Rightarrow> (bool \<times> 'm BufferT) outcome" where
  "accumulate_buffer ext pp need_merge chunk acc =
     (if need_merge then merge_processing ext pp None chunk acc else Ret (True, chunk @ acc))"

section \<open>One instance\<close>

text \<open>The calls an instance makes and the answer to one: \<open>RawResultT\<close>, with null pointers for the
  parts the call does not produce.\<close>

datatype 'v exec_call = ExecWhere nat nat | ExecSelect nat "'v WhereResultT"

record ('v, 'r) RawResultT =
  perf_error :: bool
  raw_wres :: "'v WhereResultT option"
  raw_res :: "'r list option"

record query_input =
  num_chunks :: nat
  in_wterms :: nat
  max_rows :: u32

record ('v, 'r) Stage0Out =
  ret_code :: bool
  welem :: "'v WhereResultT option list"
  wresult :: "'v WhereResultT"
  so_result :: "'r list"
  current_chunk :: nat

datatype 'v next_action = Call "'v exec_call" | Claim | Stop

definition init_stage0 :: "query_input \<Rightarrow> ('v, 'r) Stage0Out" where
  "init_stage0 inp = \<lparr>ret_code = True, welem = replicate (in_wterms inp) None, wresult = [], so_result = [], current_chunk = 0\<rparr>"

text \<open>Claiming a chunk: \<open>chunk_q.fetch_and_increment()\<close>.\<close>

definition claim_chunk :: "query_input \<Rightarrow> nat \<Rightarrow> ('v, 'r) Stage0Out \<Rightarrow> ('v, 'r) Stage0Out \<times> 'v next_action" where
  "claim_chunk inp chunknum res =
     (res\<lparr>current_chunk := chunknum\<rparr>, if chunknum < num_chunks inp then Call (ExecWhere chunknum 0) else Stop)"

text \<open>\<open>QueryExec\<close> for \<open>step > 0\<close>, up to the point where the next chunk is claimed: \<open>raw\<close> is
  \<open>exts[step-1]\<close>. The result has the new row counter; the counter is tested before the rows of this
  chunk are added. An access outside \<open>welem\<close>, a null pointer or a failed assertion is \<open>Abort\<close>.\<close>

definition unite_terms :: "'v::linorder WhereResultT option list \<Rightarrow> 'v WhereResultT outcome" where
  "unite_terms ws = (if None \<in> set ws then Abort else op_or (map the ws))"

definition QueryExec_stage ::
    "('r list \<Rightarrow> 'r list \<Rightarrow> (bool \<times> 'r list) outcome) \<Rightarrow> query_input \<Rightarrow> nat \<Rightarrow> ('v::linorder, 'r) RawResultT \<Rightarrow>
     ('v, 'r) Stage0Out \<Rightarrow> u32 \<Rightarrow> (('v, 'r) Stage0Out \<times> u32 \<times> 'v next_action) outcome" where
  "QueryExec_stage accumulate inp step raw res total_rows =
     (let res1 = (if perf_error raw then res\<lparr>ret_code := False\<rparr> else res);
          substep = step mod (in_wterms inp + 1)
      in if \<not> ret_code res1 then Ret (res1, total_rows, Stop)
         else if substep = in_wterms inp then
           (if substep = 0 then Abort
            else let ws = (welem res1)[substep - 1 := raw_wres raw]
                 in if wresult res1 \<noteq> [] then Abort
                    else bind_outcome (unite_terms ws) (\<lambda>w.
                      Ret (res1\<lparr>welem := replicate (in_wterms inp) None, wresult := w\<rparr>, total_rows,
                           Call (ExecSelect (current_chunk res1) w))))
         else if substep = 0 then
           (case raw_res raw of None \<Rightarrow> Abort | Some rows \<Rightarrow>
              bind_outcome (accumulate rows (so_result res1)) (\<lambda>(ok, acc).
                (let added_rows = of_nat (length acc - length (so_result res1));
                     res2 = res1\<lparr>wresult := [], so_result := acc, ret_code := ok\<rparr>
                 in Ret (res2, total_rows + added_rows, if total_rows > max_rows inp then Stop else Claim))))
         else Ret (res1\<lparr>welem := (welem res1)[substep - 1 := raw_wres raw]\<rparr>, total_rows,
                   Call (ExecWhere (current_chunk res1) substep)))"

definition progress :: "u32 \<Rightarrow> nat \<Rightarrow> nat" where
  "progress chunknum chunks = 10 + unat (chunknum * 75) div chunks"

section \<open>The instances together\<close>

datatype 'v inst_phase = NotStarted | Pending "'v exec_call" | Claiming | Ended

record ('v, 'r) inst =
  i_out :: "('v, 'r) Stage0Out"
  i_steps :: nat
  i_phase :: "'v inst_phase"

record ('v, 'r) qe_run =
  chunk_q :: nat
  total_rows :: u32
  insts :: "('v, 'r) inst list"

definition phase_of :: "'v next_action \<Rightarrow> 'v inst_phase" where
  "phase_of a = (case a of Call c \<Rightarrow> Pending c | Claim \<Rightarrow> Claiming | Stop \<Rightarrow> Ended)"

definition initial_qe_run :: "query_input \<Rightarrow> nat \<Rightarrow> ('v, 'r) qe_run" where
  "initial_qe_run inp n = \<lparr>chunk_q = 0, total_rows = 0,
     insts = replicate n \<lparr>i_out = init_stage0 inp, i_steps = 0, i_phase = NotStarted\<rparr>\<rparr>"

text \<open>\<open>answer\<close> is what the query engine returns for a call. An instance starts, claims the next chunk or
  takes the answer to its pending call; no step is possible where \<open>QueryExec\<close> would abort.\<close>

inductive exec_step ::
    "('r list \<Rightarrow> 'r list \<Rightarrow> (bool \<times> 'r list) outcome) \<Rightarrow> query_input \<Rightarrow> ('v::linorder exec_call \<Rightarrow> ('v, 'r) RawResultT) \<Rightarrow>
     ('v, 'r) qe_run \<Rightarrow> ('v, 'r) qe_run \<Rightarrow> bool"
  for accumulate inp answer where
  exec_start: "\<lbrakk>i < length (insts s); i_phase (insts s ! i) = NotStarted\<rbrakk> \<Longrightarrow>
     exec_step accumulate inp answer s (s\<lparr>insts := (insts s)[i := (insts s ! i)\<lparr>i_phase := Claiming\<rparr>]\<rparr>)"
| exec_claim: "\<lbrakk>i < length (insts s); i_phase (insts s ! i) = Claiming;
     claim_chunk inp (chunk_q s) (i_out (insts s ! i)) = (out, a)\<rbrakk> \<Longrightarrow>
     exec_step accumulate inp answer s
       (s\<lparr>chunk_q := Suc (chunk_q s), insts := (insts s)[i := (insts s ! i)\<lparr>i_out := out, i_phase := phase_of a\<rparr>]\<rparr>)"
| exec_answer: "\<lbrakk>i < length (insts s); i_phase (insts s ! i) = Pending c;
     QueryExec_stage accumulate inp (Suc (i_steps (insts s ! i))) (answer c) (i_out (insts s ! i)) (total_rows s) = Ret (out, rows, a)\<rbrakk> \<Longrightarrow>
     exec_step accumulate inp answer s
       (s\<lparr>total_rows := rows,
          insts := (insts s)[i := \<lparr>i_out = out, i_steps = Suc (i_steps (insts s ! i)), i_phase = phase_of a\<rparr>]\<rparr>)"

inductive exec_reach for accumulate inp answer n where
  reach_init: "exec_reach accumulate inp answer n (initial_qe_run inp n)"
| reach_step: "\<lbrakk>exec_reach accumulate inp answer n s; exec_step accumulate inp answer s s'\<rbrakk> \<Longrightarrow> exec_reach accumulate inp answer n s'"

definition all_ended :: "('v, 'r) qe_run \<Rightarrow> bool" where
  "all_ended s \<longleftrightarrow> (\<forall>x \<in> set (insts s). i_phase x = Ended)"

section \<open>The final merge\<close>

record ('v, 'r) Stage0Merge =
  m_ret_code :: bool
  m_overflow :: bool
  m_result :: "'r list"

definition QueryMerge_stage ::
    "('r list list \<Rightarrow> (bool \<times> 'r list) outcome) \<Rightarrow> query_input \<Rightarrow> ('v, 'r) Stage0Out list \<Rightarrow> ('v, 'r) Stage0Merge outcome" where
  "QueryMerge_stage final inp subs =
     (if subs = [] then Abort
      else let rows = (\<Sum>s\<leftarrow>subs. of_nat (length (so_result s))) :: u32
           in if rows > max_rows inp then Ret \<lparr>m_ret_code = True, m_overflow = True, m_result = []\<rparr>
              else if \<not> list_all ret_code subs then Ret \<lparr>m_ret_code = False, m_overflow = False, m_result = []\<rparr>
              else bind_outcome (final (map so_result subs)) (\<lambda>(ok, res).
                     Ret \<lparr>m_ret_code = ok, m_overflow = False, m_result = res\<rparr>))"


definition final_buffer :: "('d, 't, 'c) row_ext \<Rightarrow> pp_query \<Rightarrow> bool \<Rightarrow> 'm BufferT list \<Rightarrow> (bool \<times> 'm BufferT) outcome" where
  "final_buffer ext pp need_merge inputs =
     (if need_merge then final_merge_processing ext pp inputs []
      else Ret (True, foldl (\<lambda>out rows. rows @ out) [] inputs))"

section \<open>The contract of accumulation\<close>

text \<open>What the pipeline relies on: adding the rows of a chunk adds up their \<open>amount\<close> and never loses
  rows. \<open>good_chunk\<close> and \<open>ok\<close> are the well-formedness the provider needs of the rows of a chunk and
  of the rows collected so far.\<close>

locale chunk_accumulation =
  fixes accumulate :: "'r list \<Rightarrow> 'r list \<Rightarrow> (bool \<times> 'r list) outcome"
    and amount :: "'r list \<Rightarrow> 'x::cancel_comm_monoid_add"
    and good_chunk :: "'r list \<Rightarrow> bool" and ok :: "'r list \<Rightarrow> bool"
  assumes amount_Nil: "amount [] = 0" and ok_Nil: "ok []"
    and accumulate_law: "\<lbrakk>good_chunk c; ok a; accumulate c a = Ret (b, a')\<rbrakk> \<Longrightarrow>
      b \<and> ok a' \<and> amount a' = amount a + amount c \<and> length a \<le> length a'"
begin
end

definition answers :: "(nat \<Rightarrow> nat \<Rightarrow> 'v WhereResultT) \<Rightarrow> (nat \<Rightarrow> 'v WhereResultT \<Rightarrow> 'r list) \<Rightarrow> 'v exec_call \<Rightarrow> ('v, 'r) RawResultT" where
  "answers wfn sfn c = (case c of
     ExecWhere ch k \<Rightarrow> \<lparr>perf_error = False, raw_wres = Some (wfn ch k), raw_res = None\<rparr>
   | ExecSelect ch w \<Rightarrow> \<lparr>perf_error = False, raw_wres = None, raw_res = Some (sfn ch w)\<rparr>)"

definition united :: "query_input \<Rightarrow> (nat \<Rightarrow> nat \<Rightarrow> 'v::linorder WhereResultT) \<Rightarrow> nat \<Rightarrow> 'v WhereResultT" where
  "united inp wfn ch = the_ret (op_or (map (wfn ch) [0..<in_wterms inp]))"

definition chunk_rows :: "query_input \<Rightarrow> (nat \<Rightarrow> nat \<Rightarrow> 'v::linorder WhereResultT) \<Rightarrow> (nat \<Rightarrow> 'v WhereResultT \<Rightarrow> 'r list) \<Rightarrow> nat \<Rightarrow> 'r list" where
  "chunk_rows inp wfn sfn ch = sfn ch (united inp wfn ch)"

definition phase_inv :: "query_input \<Rightarrow> (nat \<Rightarrow> nat \<Rightarrow> 'v::linorder WhereResultT) \<Rightarrow> ('v, 'r) inst \<Rightarrow> bool" where
  "phase_inv inp wfn x \<longleftrightarrow>
     (case i_phase x of
        NotStarted \<Rightarrow> i_steps x = 0 \<and> wresult (i_out x) = [] \<and> so_result (i_out x) = []
      | Claiming \<Rightarrow> i_steps x mod (in_wterms inp + 1) = 0 \<and> wresult (i_out x) = []
      | Pending (ExecWhere ch k) \<Rightarrow> ch = current_chunk (i_out x) \<and> k < in_wterms inp \<and>
          i_steps x mod (in_wterms inp + 1) = k \<and> wresult (i_out x) = [] \<and> (\<forall>j<k. welem (i_out x) ! j = Some (wfn ch j))
      | Pending (ExecSelect ch w) \<Rightarrow> ch = current_chunk (i_out x) \<and>
          i_steps x mod (in_wterms inp + 1) = in_wterms inp \<and> w = united inp wfn ch
      | Ended \<Rightarrow> True)"

definition inst_inv :: "query_input \<Rightarrow> (nat \<Rightarrow> nat \<Rightarrow> 'v::linorder WhereResultT) \<Rightarrow> ('v, 'r) inst \<Rightarrow> bool" where
  "inst_inv inp wfn x \<longleftrightarrow> ret_code (i_out x) \<and> length (welem (i_out x)) = in_wterms inp \<and> phase_inv inp wfn x"

text \<open>The chunk an instance has claimed and not yet accumulated.\<close>

definition open_chunk :: "('v, 'r) inst \<Rightarrow> nat option" where
  "open_chunk x = (case i_phase x of Pending (ExecWhere ch k) \<Rightarrow> Some ch | Pending (ExecSelect ch w) \<Rightarrow> Some ch | _ \<Rightarrow> None)"

lemma op_or_Ret_ret: "xs \<noteq> [] \<Longrightarrow> op_or xs = Ret (the_ret (op_or xs))"
  by (cases xs) (simp_all add: op_or_def)

lemma unite_terms_all:
  assumes "length ws = in_wterms inp" "0 < in_wterms inp" "\<forall>j < in_wterms inp. ws ! j = Some (wfn ch j)"
  shows "unite_terms ws = Ret (united inp wfn ch)"
proof -
  have ws: "ws = map (\<lambda>j. Some (wfn ch j)) [0..<in_wterms inp]" using assms(1,3) by (intro nth_equalityI) simp_all
  have "map the ws = map (wfn ch) [0..<in_wterms inp]" "None \<notin> set ws" by (auto simp: ws)
  moreover have "op_or (map (wfn ch) [0..<in_wterms inp]) = Ret (united inp wfn ch)"
    unfolding united_def by (rule op_or_Ret_ret) (use assms(2) in simp)
  ultimately show ?thesis unfolding unite_terms_def by simp
qed

lemma mod_Suc_below: "s mod (W + 1) = k \<Longrightarrow> k < W \<Longrightarrow> Suc s mod (W + 1) = Suc k" for W :: nat
  by (simp add: mod_Suc)

lemma mod_Suc_wrap: "s mod (W + 1) = W \<Longrightarrow> Suc s mod (W + 1) = 0" for W :: nat
  by (simp add: mod_Suc)

lemma exec_where_answer:
  assumes inv: "inst_inv inp wfn x" and ph: "i_phase x = Pending (ExecWhere ch k)"
    and run: "QueryExec_stage accumulate inp (Suc (i_steps x)) (answers wfn sfn (ExecWhere ch k)) (i_out x) rows = Ret (out, rows', a)"
  shows "inst_inv inp wfn \<lparr>i_out = out, i_steps = Suc (i_steps x), i_phase = phase_of a\<rparr> \<and>
    open_chunk \<lparr>i_out = out, i_steps = Suc (i_steps x), i_phase = phase_of a\<rparr> = Some ch \<and>
    so_result out = so_result (i_out x) \<and> rows' = rows"
proof -
  let ?W = "in_wterms inp"
  have k: "k < ?W" "i_steps x mod (?W + 1) = k" and ch: "ch = current_chunk (i_out x)" and wr: "wresult (i_out x) = []"
    and el: "\<forall>j<k. welem (i_out x) ! j = Some (wfn ch j)" and rc: "ret_code (i_out x)" and len: "length (welem (i_out x)) = ?W"
    using inv ph by (simp_all add: inst_inv_def phase_inv_def)
  have sub: "Suc (i_steps x) mod (?W + 1) = Suc k" using mod_Suc_below[OF k(2,1)] .
  let ?ws = "(welem (i_out x))[k := Some (wfn ch k)]"
  have ws: "\<forall>j < Suc k. ?ws ! j = Some (wfn ch j)" using el k len by (auto simp: less_Suc_eq)
  show ?thesis
  proof (cases "Suc k = ?W")
    case True
    have u: "unite_terms ?ws = Ret (united inp wfn ch)" using ws True len k by (intro unite_terms_all) simp_all
    have "Ret (out, rows', a) = Ret ((i_out x)\<lparr>welem := replicate ?W None, wresult := united inp wfn ch\<rparr>, rows, Call (ExecSelect ch (united inp wfn ch)))"
      using run unfolding QueryExec_stage_def sub answers_def using rc wr True[symmetric] u ch by (simp add: Let_def)
    then show ?thesis using rc ch True sub by (simp add: inst_inv_def phase_inv_def phase_of_def open_chunk_def)
  next
    case False
    have "Ret (out, rows', a) = Ret ((i_out x)\<lparr>welem := ?ws\<rparr>, rows, Call (ExecWhere ch (Suc k)))"
      using run unfolding QueryExec_stage_def sub answers_def using rc False ch by (simp add: Let_def)
    then show ?thesis using rc ch False sub k len ws wr by (simp add: inst_inv_def phase_inv_def phase_of_def open_chunk_def)
  qed
qed

lemma exec_select_answer:
  assumes inv: "inst_inv inp wfn x" and ph: "i_phase x = Pending (ExecSelect ch w)" and W: "0 < in_wterms inp"
    and run: "QueryExec_stage accumulate inp (Suc (i_steps x)) (answers wfn sfn (ExecSelect ch w)) (i_out x) rows = Ret (out, rows', a)"
  shows "\<exists>ok acc. accumulate (chunk_rows inp wfn sfn ch) (so_result (i_out x)) = Ret (ok, acc) \<and>
    out = (i_out x)\<lparr>wresult := [], so_result := acc, ret_code := ok\<rparr> \<and>
    rows' = rows + of_nat (length acc - length (so_result (i_out x))) \<and>
    a = (if rows > max_rows inp then Stop else Claim) \<and> Suc (i_steps x) mod (in_wterms inp + 1) = 0"
proof -
  have sub: "Suc (i_steps x) mod (in_wterms inp + 1) = 0" and rc: "ret_code (i_out x)" and w: "w = united inp wfn ch"
    using inv ph mod_Suc_wrap by (simp_all add: inst_inv_def phase_inv_def)
  from run obtain okf acc where acc: "accumulate (chunk_rows inp wfn sfn ch) (so_result (i_out x)) = Ret (okf, acc)"
    unfolding QueryExec_stage_def sub answers_def chunk_rows_def using rc W w
    by (auto simp: Let_def bind_outcome_Ret_iff)
  from run have "Ret (out, rows', a) = Ret ((i_out x)\<lparr>wresult := [], so_result := acc, ret_code := okf\<rparr>,
      rows + of_nat (length acc - length (so_result (i_out x))), if rows > max_rows inp then Stop else Claim)"
    unfolding QueryExec_stage_def sub answers_def using rc W acc[unfolded chunk_rows_def] w by (simp add: Let_def)
  with acc sub show ?thesis by auto
qed

section \<open>Every chunk is counted once\<close>

definition share ::
    "('r list \<Rightarrow> 'x::cancel_comm_monoid_add) \<Rightarrow> (nat \<Rightarrow> 'r list) \<Rightarrow> ('v, 'r) inst \<Rightarrow> 'x" where
  "share amount rows x = amount (so_result (i_out x)) + (case open_chunk x of None \<Rightarrow> 0 | Some ch \<Rightarrow> amount (rows ch))"

abbreviation held_rows :: "('v, 'r) inst \<Rightarrow> nat" where
  "held_rows x \<equiv> length (so_result (i_out x))"

definition run_inv ::
    "('r list \<Rightarrow> 'x::cancel_comm_monoid_add) \<Rightarrow> ('r list \<Rightarrow> bool) \<Rightarrow> query_input \<Rightarrow> (nat \<Rightarrow> nat \<Rightarrow> 'v::linorder WhereResultT) \<Rightarrow>
     (nat \<Rightarrow> 'r list) \<Rightarrow> nat \<Rightarrow> ('v, 'r) qe_run \<Rightarrow> bool" where
  "run_inv amount ok inp wfn rows n s \<longleftrightarrow>
     length (insts s) = n \<and>
     (\<forall>x \<in> set (insts s). inst_inv inp wfn x \<and> ok (so_result (i_out x)) \<and> (\<forall>ch. open_chunk x = Some ch \<longrightarrow> ch < num_chunks inp)) \<and>
     (\<Sum>x\<leftarrow>insts s. share amount rows x) = (\<Sum>ch<min (chunk_q s) (num_chunks inp). amount (rows ch)) \<and>
     total_rows s = of_nat (\<Sum>x\<leftarrow>insts s. held_rows x) \<and>
     ((\<exists>x \<in> set (insts s). i_phase x = Ended) \<longrightarrow>
        num_chunks inp \<le> chunk_q s \<or> unat (max_rows inp) < (\<Sum>x\<leftarrow>insts s. held_rows x))"

lemma sum_list_replicate_0 [simp]: "sum_list (replicate n (0 :: 'a::monoid_add)) = 0"
  by (induction n) simp_all

lemma of_nat_sum_list_map: "of_nat (\<Sum>x\<leftarrow>xs. f x) = (\<Sum>x\<leftarrow>xs. of_nat (f x) :: 'a::semiring_1)"
  by (induction xs) simp_all

lemma mset_add_length: "mset zs = mset xs + mset ys \<Longrightarrow> length xs \<le> length zs"
  by (drule arg_cong[where f = size]) simp

lemma sum_list_map_grow:
  fixes f :: "'a \<Rightarrow> 'b::cancel_comm_monoid_add"
  assumes "i < length xs" "f x = f (xs ! i) + d"
  shows "(\<Sum>y\<leftarrow>xs[i := x]. f y) = (\<Sum>y\<leftarrow>xs. f y) + d"
proof -
  have "(\<Sum>y\<leftarrow>xs[i := x]. f y) + f (xs ! i) = ((\<Sum>y\<leftarrow>xs. f y) + d) + f (xs ! i)"
    using sum_list_map_update[OF assms(1), of f x] assms(2) by (simp add: ac_simps)
  then show ?thesis by (rule add_right_imp_eq)
qed

lemma run_inv_update:
  assumes inv: "run_inv amount ok inp wfn rows n s" and i: "i < length (insts s)"
    and x': "inst_inv inp wfn x'" "ok (so_result (i_out x'))" "\<forall>ch. open_chunk x' = Some ch \<longrightarrow> ch < num_chunks inp"
    and share: "share amount rows x' = share amount rows (insts s ! i) + d"
    and q: "(\<Sum>ch<min q (num_chunks inp). amount (rows ch)) = (\<Sum>ch<min (chunk_q s) (num_chunks inp). amount (rows ch)) + d"
    and grow: "held_rows x' = held_rows (insts s ! i) + e" "t = total_rows s + of_nat e" "chunk_q s \<le> q"
    and ended: "i_phase x' = Ended \<Longrightarrow> num_chunks inp \<le> q \<or> max_rows inp < total_rows s"
    and s': "chunk_q s' = q" "total_rows s' = t" "insts s' = (insts s)[i := x']"
  shows "run_inv amount ok inp wfn rows n s'"
proof -
  have sums: "(\<Sum>x\<leftarrow>(insts s)[i := x']. share amount rows x) = (\<Sum>x\<leftarrow>insts s. share amount rows x) + d"
      "(\<Sum>x\<leftarrow>(insts s)[i := x']. held_rows x) = (\<Sum>x\<leftarrow>insts s. held_rows x) + e"
    using sum_list_map_grow[OF i, of "share amount rows" x' d] sum_list_map_grow[OF i, of held_rows x' e] share grow(1) by simp_all
  have old: "length (insts s) = n" "(\<Sum>x\<leftarrow>insts s. share amount rows x) = (\<Sum>ch<min (chunk_q s) (num_chunks inp). amount (rows ch))"
      "total_rows s = of_nat (\<Sum>x\<leftarrow>insts s. held_rows x)"
    and each: "\<forall>x \<in> set (insts s). inst_inv inp wfn x \<and> ok (so_result (i_out x)) \<and> (\<forall>ch. open_chunk x = Some ch \<longrightarrow> ch < num_chunks inp)"
    and stop: "(\<exists>x \<in> set (insts s). i_phase x = Ended) \<longrightarrow> num_chunks inp \<le> chunk_q s \<or> unat (max_rows inp) < (\<Sum>x\<leftarrow>insts s. held_rows x)"
    using inv by (simp_all add: run_inv_def)
  have sub: "set ((insts s)[i := x']) \<subseteq> insert x' (set (insts s))" by (rule set_update_subset_insert)
  have limit: "unat (max_rows inp) < (\<Sum>x\<leftarrow>insts s. held_rows x)" if "max_rows inp < total_rows s"
  proof -
    have "unat (max_rows inp) < unat (total_rows s)" using that by (simp add: word_less_nat_alt)
    also have "\<dots> \<le> (\<Sum>x\<leftarrow>insts s. held_rows x)" unfolding old(3) by (simp add: unat_of_nat)
    finally show ?thesis .
  qed
  have "num_chunks inp \<le> q \<or> unat (max_rows inp) < (\<Sum>x\<leftarrow>(insts s)[i := x']. held_rows x)"
    if "\<exists>x \<in> set ((insts s)[i := x']). i_phase x = Ended"
  proof -
    from that sub consider "i_phase x' = Ended" | "\<exists>x \<in> set (insts s). i_phase x = Ended" by auto
    then show ?thesis
    proof cases
      case 1 then show ?thesis using ended limit sums(2) by fastforce
    next
      case 2 then show ?thesis using stop grow(3) sums(2) by fastforce
    qed
  qed
  moreover have "\<forall>x \<in> set ((insts s)[i := x']). inst_inv inp wfn x \<and> ok (so_result (i_out x)) \<and> (\<forall>ch. open_chunk x = Some ch \<longrightarrow> ch < num_chunks inp)"
    using sub x' each by blast
  ultimately show ?thesis using old sums q grow(2) by (simp add: run_inv_def s')
qed

context chunk_accumulation
begin

lemma initial_inv:
  "run_inv amount ok inp wfn rows n (initial_qe_run inp n)"
  using amount_Nil ok_Nil
  by (auto simp: run_inv_def initial_qe_run_def inst_inv_def phase_inv_def init_stage0_def open_chunk_def share_def
      sum_list_replicate map_replicate_const)

lemma step_inv:
  assumes step: "exec_step accumulate inp (answers wfn sfn) s s'" and W: "0 < in_wterms inp"
    and chunks: "\<forall>ch < num_chunks inp. good_chunk (chunk_rows inp wfn sfn ch)"
    and inv: "run_inv amount ok inp wfn (chunk_rows inp wfn sfn) n s"
  shows "run_inv amount ok inp wfn (chunk_rows inp wfn sfn) n s'"
  using step
proof cases
  case (exec_start i)
  have x: "inst_inv inp wfn (insts s ! i)" "ok (so_result (i_out (insts s ! i)))" using inv exec_start(2) by (auto simp: run_inv_def)
  show ?thesis 
    using run_inv_update[OF inv exec_start(2), of "(insts s ! i)\<lparr>i_phase := Claiming\<rparr>" 0 "chunk_q s" 0 "total_rows s" s'] x exec_start(1,3)
    by (simp add: inst_inv_def phase_inv_def open_chunk_def share_def)
next
  case (exec_claim i out a)
  let ?x = "insts s ! i" and ?x' = "(insts s ! i)\<lparr>i_out := out, i_phase := phase_of a\<rparr>"
  have x: "inst_inv inp wfn ?x" "ok (so_result (i_out ?x))" using inv exec_claim(2) by (auto simp: run_inv_def)
  have out: "out = (i_out ?x)\<lparr>current_chunk := chunk_q s\<rparr>"
      and a: "a = (if chunk_q s < num_chunks inp then Call (ExecWhere (chunk_q s) 0) else Stop)"
    using exec_claim(4) by (simp_all add: claim_chunk_def)
  let ?d = "if chunk_q s < num_chunks inp then amount (chunk_rows inp wfn sfn (chunk_q s)) else 0"
  have sh: "share amount (chunk_rows inp wfn sfn) ?x' = share amount (chunk_rows inp wfn sfn) ?x + ?d"
    using exec_claim(3) out a by (simp add: share_def open_chunk_def phase_of_def)
  have q: "(\<Sum>ch<min (Suc (chunk_q s)) (num_chunks inp). amount (chunk_rows inp wfn sfn ch)) =
      (\<Sum>ch<min (chunk_q s) (num_chunks inp). amount (chunk_rows inp wfn sfn ch)) + ?d"
    by (cases "chunk_q s < num_chunks inp") (simp_all add: min_def)
  have "inst_inv inp wfn ?x'" "\<forall>ch. open_chunk ?x' = Some ch \<longrightarrow> ch < num_chunks inp"
    using x(1) exec_claim(3) out a W by (auto simp: inst_inv_def phase_inv_def phase_of_def open_chunk_def)
  moreover have "i_phase ?x' = Ended \<Longrightarrow> num_chunks inp \<le> Suc (chunk_q s)" using a by (auto simp: phase_of_def split: if_splits)
  ultimately show ?thesis 
    using run_inv_update[OF inv exec_claim(2), of ?x' ?d "Suc (chunk_q s)" 0 "total_rows s" s'] x(2) out sh q exec_claim(1) by simp
next
  case (exec_answer i c out rows a)
  let ?x = "insts s ! i" and ?x' = "\<lparr>i_out = out, i_steps = Suc (i_steps (insts s ! i)), i_phase = phase_of a\<rparr>"
  have x: "inst_inv inp wfn ?x" "ok (so_result (i_out ?x))" "\<forall>ch. open_chunk ?x = Some ch \<longrightarrow> ch < num_chunks inp"
    using inv exec_answer(2) by (auto simp: run_inv_def)
  show ?thesis
  proof (cases c)
    case (ExecWhere ch k)
    have "inst_inv inp wfn ?x' \<and> open_chunk ?x' = Some ch \<and> so_result out = so_result (i_out ?x) \<and> rows = total_rows s"
      using exec_where_answer[OF x(1) exec_answer(3)[unfolded ExecWhere] exec_answer(4)[unfolded ExecWhere]] .
    moreover have "open_chunk ?x = Some ch" using exec_answer(3) ExecWhere by (simp add: open_chunk_def)
    moreover have "i_phase ?x' \<noteq> Ended" using calculation(1) by (auto simp: open_chunk_def)
    ultimately show ?thesis 
      using run_inv_update[OF inv exec_answer(2), of ?x' 0 "chunk_q s" 0 rows s'] x exec_answer(1) by (simp add: share_def)
  next
    case (ExecSelect ch w)
    from exec_select_answer[OF x(1) exec_answer(3)[unfolded ExecSelect] W exec_answer(4)[unfolded ExecSelect]]
    obtain okf acc where r: "accumulate (chunk_rows inp wfn sfn ch) (so_result (i_out ?x)) = Ret (okf, acc)"
      "out = (i_out ?x)\<lparr>wresult := [], so_result := acc, ret_code := okf\<rparr>"
      "rows = total_rows s + of_nat (length acc - held_rows ?x)"
      "a = (if total_rows s > max_rows inp then Stop else Claim)" "Suc (i_steps ?x) mod (in_wterms inp + 1) = 0" by (elim exE conjE) (rule that)
    have oc: "open_chunk ?x = Some ch" using exec_answer(3) ExecSelect by (simp add: open_chunk_def)
    with x(3) chunks have okc: "good_chunk (chunk_rows inp wfn sfn ch)" by blast
    from accumulate_law[OF okc x(2) r(1)] have law: "okf" "ok acc"
      "amount acc = amount (so_result (i_out ?x)) + amount (chunk_rows inp wfn sfn ch)" "held_rows ?x \<le> length acc" by auto
    have noc: "open_chunk ?x' = None" using r(4) by (simp add: open_chunk_def phase_of_def)
    have "inst_inv inp wfn ?x'" using x(1) r(2,4,5) law(1) by (simp add: inst_inv_def phase_inv_def phase_of_def)
    moreover have "share amount (chunk_rows inp wfn sfn) ?x' = share amount (chunk_rows inp wfn sfn) ?x + 0"
      using noc oc law(3) r(2) by (simp add: share_def)
    moreover have "i_phase ?x' = Ended \<Longrightarrow> max_rows inp < total_rows s" using r(4) by (auto simp: phase_of_def split: if_splits)
    ultimately show ?thesis 
      using run_inv_update[OF inv exec_answer(2), of ?x' 0 "chunk_q s" "length acc - held_rows ?x" rows s'] noc law r(2,3) exec_answer(1) by simp
  qed
qed

lemma reach_inv:
  assumes "exec_reach accumulate inp (answers wfn sfn) n s" "0 < in_wterms inp"
    "\<forall>ch < num_chunks inp. good_chunk (chunk_rows inp wfn sfn ch)"
  shows "run_inv amount ok inp wfn (chunk_rows inp wfn sfn) n s"
  using assms(1)
proof induction
  case (reach_step s s')
  show ?case by (rule step_inv[OF reach_step(2) assms(2,3) reach_step(3)])
qed (rule initial_inv)

lemma finished_covers:
  assumes reach: "exec_reach accumulate inp (answers wfn sfn) n s" and ended: "all_ended s" and n: "0 < n"
    and W: "0 < in_wterms inp" and chunks: "\<forall>ch < num_chunks inp. good_chunk (chunk_rows inp wfn sfn ch)"
    and fits: "(\<Sum>x\<leftarrow>insts s. held_rows x) < 2 ^ 32"
    and merge: "QueryMerge_stage final inp (map i_out (insts s)) = Ret m" and no: "\<not> m_overflow m"
  shows "(\<Sum>x\<leftarrow>insts s. amount (so_result (i_out x))) = (\<Sum>ch<num_chunks inp. amount (chunk_rows inp wfn sfn ch))"
proof -
  have inv: "run_inv amount ok inp wfn (chunk_rows inp wfn sfn) n s" by (rule reach_inv[OF reach W chunks])
  then have len: "length (insts s) = n" and sum: "(\<Sum>x\<leftarrow>insts s. share amount (chunk_rows inp wfn sfn) x) =
      (\<Sum>ch<min (chunk_q s) (num_chunks inp). amount (chunk_rows inp wfn sfn ch))"
    and stop: "(\<exists>x \<in> set (insts s). i_phase x = Ended) \<longrightarrow>
      num_chunks inp \<le> chunk_q s \<or> unat (max_rows inp) < (\<Sum>x\<leftarrow>insts s. held_rows x)" by (simp_all add: run_inv_def)
  have rows: "(\<Sum>o'\<leftarrow>map i_out (insts s). of_nat (length (so_result o'))) = (of_nat (\<Sum>x\<leftarrow>insts s. held_rows x) :: u32)"
    by (simp add: comp_def of_nat_sum_list_map)
  have "\<not> of_nat (\<Sum>x\<leftarrow>insts s. held_rows x) > max_rows inp"
    using merge no unfolding QueryMerge_stage_def Let_def rows by (auto split: if_splits)
  then have "(\<Sum>x\<leftarrow>insts s. held_rows x) \<le> unat (max_rows inp)"
    using fits by (simp add: word_less_nat_alt unat_of_nat take_bit_nat_eq_self)
  moreover have "\<exists>x \<in> set (insts s). i_phase x = Ended"
    using ended len n by (cases "insts s") (auto simp: all_ended_def)
  ultimately have "num_chunks inp \<le> chunk_q s" using stop by auto
  moreover have "(\<Sum>x\<leftarrow>insts s. share amount (chunk_rows inp wfn sfn) x) = (\<Sum>x\<leftarrow>insts s. amount (so_result (i_out x)))"
    using ended by (intro arg_cong[where f = sum_list] map_cong) (auto simp: all_ended_def share_def open_chunk_def)
  ultimately show ?thesis using sum by (simp add: min_absorb2)
qed

end

lemma mm_insert_hint_mset: "mset (snd (mm_insert_hint ext h r m)) = add_mset r (mset m)"
proof -
  have "mset (take i m) + mset (drop i m) = mset m" for i by (metis append_take_drop_id mset_append)
  then show ?thesis by (simp add: mm_insert_hint_def Let_def)
qed

lemma mm_insert_all_mset: "mset (mm_insert_all ext rows m) = mset rows + mset m"
proof -
  have "mset (snd (foldl (\<lambda>(h, m) r. mm_insert_hint ext h r m) (h, m) rows)) = mset rows + mset m" for h
  proof (induction rows arbitrary: h m)
    case (Cons r rows)
    obtain h' m' where hm: "mm_insert_hint ext h r m = (h', m')" by fastforce
    then have "mset m' = add_mset r (mset m)" using mm_insert_hint_mset[of ext h r m] by simp
    then show ?case using Cons.IH[of h' m'] hm by simp
  qed simp
  then show ?thesis by (simp add: mm_insert_all_def)
qed

interpretation unmerged_map: chunk_accumulation "accumulate_map ext False" mset "\<lambda>_. True" "\<lambda>_. True" for ext
proof
  fix c a a' b assume "accumulate_map ext False c a = Ret (b, a')"
  then have e: "b" "a' = mm_insert_all ext c a" by (simp_all add: accumulate_map_def)
  then show "b \<and> True \<and> mset a' = mset a + mset c \<and> length a \<le> length a'"
    using mm_insert_all_mset[of ext c a] mset_add_length[of a' a c] by (simp add: add.commute)
qed simp_all

interpretation unmerged_buffer: chunk_accumulation "accumulate_buffer ext pp False" mset "\<lambda>_. True" "\<lambda>_. True" for ext pp
  by unfold_locales (auto simp: accumulate_buffer_def)

lemma merge_processing_mset:
  assumes "pp_status pp = None" "merge_processing ext pp None c a = Ret (b, a')"
  shows "b \<and> mset a' = mset a + mset c"
  using assms by (auto simp: merge_processing_def Let_def split: if_splits)

interpretation merged_buffer: chunk_accumulation "accumulate_buffer ext (pp\<lparr>pp_status := None\<rparr>) True" mset "\<lambda>_. True" "\<lambda>_. True"
  for ext and pp :: pp_query
proof
  fix c a a' b assume "accumulate_buffer ext (pp\<lparr>pp_status := None\<rparr>) True c a = Ret (b, a')"
  then have "b \<and> mset a' = mset a + mset c"
    using merge_processing_mset[of "pp\<lparr>pp_status := None\<rparr>"] by (simp add: accumulate_buffer_def)
  then show "b \<and> True \<and> mset a' = mset a + mset c \<and> length a \<le> length a'" using mset_add_length[of a' a c] by simp
qed simp_all

subsection \<open>Statistics\<close>



lemma mm_insert_length [simp]: "length (mm_insert ext r m) = Suc (length m)"
  by (induction m) simp_all





section \<open>Properties of a run\<close>

lemma foldl_prepend_mset: "mset (foldl (\<lambda>out rows. rows @ out) acc inputs) = mset acc + (\<Sum>i\<leftarrow>inputs. mset i)"
  by (induction inputs arbitrary: acc) (simp_all add: ac_simps)

text \<open>
  C2: a query whose rows need no merging returns the rows of every time chunk exactly once. However the
  parallel instances interleave, once all have ended and no overflow is reported, the merged result is
  the collection of the rows of all chunks, each chunk being evaluated on the union of the results of its
  OR terms; in particular an instance that stopped early at the row limit always shows as an overflow.
\<close>

theorem pipeline_returns_every_chunk:
  assumes "exec_reach (accumulate_buffer ext pp False) inp (answers wfn sfn) n s" and "all_ended s"
    and "0 < n" and "0 < in_wterms inp" and "(\<Sum>x\<leftarrow>insts s. held_rows x) < 2 ^ 32"
    and "QueryMerge_stage (final_buffer ext pp False) inp (map i_out (insts s)) = Ret m" and "\<not> m_overflow m"
  shows "m_ret_code m \<and> mset (m_result m) = (\<Sum>ch<num_chunks inp. mset (chunk_rows inp wfn sfn ch))"
proof -
  have cover: "(\<Sum>x\<leftarrow>insts s. mset (so_result (i_out x))) = (\<Sum>ch<num_chunks inp. mset (chunk_rows inp wfn sfn ch))"
    by (rule unmerged_buffer.finished_covers[OF assms(1-4) _ assms(5-7)]) simp
  have "run_inv mset (\<lambda>_. True) inp wfn (chunk_rows inp wfn sfn) n s"
    by (rule unmerged_buffer.reach_inv[OF assms(1,4)]) simp
  then have "list_all ret_code (map i_out (insts s))" by (auto simp: run_inv_def inst_inv_def list_all_iff)
  then have "m_ret_code m \<and> m_result m = foldl (\<lambda>out rows. rows @ out) [] (map so_result (map i_out (insts s)))"
    using assms(6,7) by (auto simp: QueryMerge_stage_def Let_def final_buffer_def split: if_splits)
  then show ?thesis using cover by (simp add: foldl_prepend_mset comp_def)
qed


text \<open>
  C25: a sorted query returns the rows of every time chunk exactly once and in order: once all instances
  have ended without an overflow, the result is the sorted collection of the rows of all chunks, cut
  at the limit.
\<close>

theorem pipeline_sorted_result:
  assumes "exec_reach (accumulate_buffer ext pp True) inp (answers wfn sfn) n s" and "all_ended s"
    and "0 < n" and "0 < in_wterms inp" and "pp_status pp = None" and "pp_sorted pp"
    and "\<forall>ch < num_chunks inp. list_all (has_sort_fields (sort_fields pp)) (chunk_rows inp wfn sfn ch)"
    and "(\<Sum>x\<leftarrow>insts s. held_rows x) < 2 ^ 32"
    and "QueryMerge_stage (final_buffer ext pp True) inp (map i_out (insts s)) = Ret m" and "\<not> m_overflow m"
  shows "m_ret_code m \<and> (\<exists>rows. m_result m = apply_limit (limit pp) rows \<and> sorted_by (dir_lt ext pp) rows \<and>
    mset rows = (\<Sum>ch<num_chunks inp. mset (chunk_rows inp wfn sfn ch)))"
proof -
  have pp: "pp = pp\<lparr>pp_status := None\<rparr>" using assms(5) by simp
  note reach = assms(1)[unfolded pp[THEN arg_cong, of "\<lambda>p. accumulate_buffer ext p True"]]
  let ?all = "\<Sum>ch<num_chunks inp. mset (chunk_rows inp wfn sfn ch)"
  have cover: "(\<Sum>x\<leftarrow>insts s. mset (so_result (i_out x))) = ?all"
    by (rule merged_buffer.finished_covers[OF reach assms(2-4) _ assms(8-10)]) simp
  have "run_inv mset (\<lambda>_. True) inp wfn (chunk_rows inp wfn sfn) n s"
    by (rule merged_buffer.reach_inv[OF reach assms(4)]) simp
  then have rc: "list_all ret_code (map i_out (insts s))" by (auto simp: run_inv_def inst_inv_def list_all_iff)
  let ?rows = "concat (map so_result (map i_out (insts s)))"
  have mrows: "mset ?rows = ?all" using cover by (simp add: mset_concat comp_def)
  have "set ?rows = set_mset ?all" by (metis mrows set_mset_mset)
  also have "\<dots> = (\<Union>ch<num_chunks inp. set (chunk_rows inp wfn sfn ch))" by (simp add: set_mset_sum)
  finally have "list_all (has_sort_fields (sort_fields pp)) ?rows" using assms(7) by (auto simp: list_all_iff)
  from sort_rows_correct[OF this, of ext] obtain res where
    res: "sort_rows ext pp ?rows = Ret res" "sorted_by (dir_lt ext pp) res" "mset res = mset ?rows" by blast
  have "m_ret_code m \<and> m_result m = apply_limit (limit pp) res"
    using assms(5,6,9,10) rc res(1)
    by (auto simp: QueryMerge_stage_def Let_def final_buffer_def final_merge_processing_def split: if_splits)
  then show ?thesis using res(2,3) mrows by auto
qed

subsection \<open>A run of one instance over one chunk\<close>

definition one_chunk :: query_input where
  "one_chunk = \<lparr>num_chunks = 1, in_wterms = 1, max_rows = 100\<rparr>"

definition one_chunk_end :: "'r list \<Rightarrow> ('v, 'r) qe_run" where
  "one_chunk_end acc = \<lparr>chunk_q = 2, total_rows = of_nat (length acc),
     insts = [\<lparr>i_out = \<lparr>ret_code = True, welem = [None], wresult = [], so_result = acc, current_chunk = 1\<rparr>, i_steps = 2, i_phase = Ended\<rparr>]\<rparr>"

definition one_inst :: "nat \<Rightarrow> u32 \<Rightarrow> 'v WhereResultT option list \<Rightarrow> 'v WhereResultT \<Rightarrow> 'r list \<Rightarrow> nat \<Rightarrow> nat \<Rightarrow> 'v inst_phase \<Rightarrow> ('v, 'r) qe_run" where
  "one_inst q t ws w rs cur k ph = \<lparr>chunk_q = q, total_rows = t,
     insts = [\<lparr>i_out = \<lparr>ret_code = True, welem = ws, wresult = w, so_result = rs, current_chunk = cur\<rparr>, i_steps = k, i_phase = ph\<rparr>]\<rparr>"

lemma one_chunk_reach:
  assumes acc: "accumulate (sfn 0 (wfn 0 0)) [] = Ret (True, acc)"
  shows "exec_reach accumulate one_chunk (answers wfn sfn) 1 (one_chunk_end acc)"
proof -
  let ?R = "exec_reach accumulate one_chunk (answers wfn sfn) 1" and ?S = "exec_step accumulate one_chunk (answers wfn sfn)"
  have s1: "?S (one_inst 0 0 [None] [] [] 0 0 NotStarted) (one_inst 0 0 [None] [] [] 0 0 Claiming)"
    using exec_step.exec_start[where i = 0 and s = "one_inst 0 0 [None] [] [] 0 0 NotStarted" and accumulate = accumulate and inp = one_chunk and answer = "answers wfn sfn"] by (simp add: one_inst_def)
  have s2: "?S (one_inst 0 0 [None] [] [] 0 0 Claiming) (one_inst 1 0 [None] [] [] 0 0 (Pending (ExecWhere 0 0)))"
    using exec_step.exec_claim[where i = 0 and s = "one_inst 0 0 [None] [] [] 0 0 Claiming" and accumulate = accumulate and inp = one_chunk and answer = "answers wfn sfn" and a = "Call (ExecWhere 0 0)" and out = "\<lparr>ret_code = True, welem = [None], wresult = [], so_result = [], current_chunk = 0\<rparr>"] by (simp add: one_inst_def claim_chunk_def one_chunk_def phase_of_def)
  have s3: "?S (one_inst 1 0 [None] [] [] 0 0 (Pending (ExecWhere 0 0))) (one_inst 1 0 [None] (wfn 0 0) [] 0 1 (Pending (ExecSelect 0 (wfn 0 0))))"
    using exec_step.exec_answer[where i = 0 and s = "one_inst 1 0 [None] [] [] 0 0 (Pending (ExecWhere 0 0))" and accumulate = accumulate and inp = one_chunk and answer = "answers wfn sfn" and a = "Call (ExecSelect 0 (wfn 0 0))" and out = "\<lparr>ret_code = True, welem = [None], wresult = wfn 0 0, so_result = [], current_chunk = 0\<rparr>" and rows = "0"]
    by (simp add: one_inst_def QueryExec_stage_def one_chunk_def answers_def phase_of_def unite_terms_def op_or_def)
  have s4: "?S (one_inst 1 0 [None] (wfn 0 0) [] 0 1 (Pending (ExecSelect 0 (wfn 0 0)))) (one_inst 1 (of_nat (length acc)) [None] [] acc 0 2 Claiming)"
    using exec_step.exec_answer[where i = 0 and s = "one_inst 1 0 [None] (wfn 0 0) [] 0 1 (Pending (ExecSelect 0 (wfn 0 0)))" and accumulate = accumulate and inp = one_chunk and answer = "answers wfn sfn" and a = "Claim" and out = "\<lparr>ret_code = True, welem = [None], wresult = [], so_result = acc, current_chunk = 0\<rparr>" and rows = "of_nat (length acc)"] acc
    by (simp add: one_inst_def QueryExec_stage_def one_chunk_def answers_def phase_of_def numeral_2_eq_2)
  have s5: "?S (one_inst 1 (of_nat (length acc)) [None] [] acc 0 2 Claiming) (one_chunk_end acc)"
    using exec_step.exec_claim[where i = 0 and s = "one_inst 1 (of_nat (length acc)) [None] [] acc 0 2 Claiming" and accumulate = accumulate and inp = one_chunk and answer = "answers wfn sfn" and a = "Stop" and out = "\<lparr>ret_code = True, welem = [None], wresult = [], so_result = acc, current_chunk = 1\<rparr>"]
    by (simp add: one_inst_def claim_chunk_def one_chunk_def phase_of_def one_chunk_end_def numeral_2_eq_2)
  have "?R (one_inst 0 0 [None] [] [] 0 0 NotStarted)" 
    using exec_reach.reach_init[of accumulate one_chunk "answers wfn sfn" 1]
    by (simp add: initial_qe_run_def init_stage0_def one_chunk_def one_inst_def)
  from reach_step[OF reach_step[OF reach_step[OF reach_step[OF reach_step[OF this s1] s2] s3] s4] s5] show ?thesis .
qed

lemma one_chunk_end_facts:
  "all_ended (one_chunk_end acc)" "length acc \<le> 100 \<Longrightarrow> (\<Sum>x\<leftarrow>insts (one_chunk_end acc). held_rows x) < 2 ^ 32"
  by (simp_all add: all_ended_def one_chunk_end_def)

lemma one_chunk_merge:
  assumes "length acc \<le> 100" "final [acc] = Ret (ok, res)"
  shows "QueryMerge_stage final one_chunk (map i_out (insts (one_chunk_end acc :: ('v, 'r) qe_run))) =
    Ret \<lparr>m_ret_code = ok, m_overflow = False, m_result = res\<rparr>"
proof -
  have "\<not> (100 :: u32) < of_nat (length acc)"
    using assms(1) by (simp add: word_less_nat_alt unat_of_nat take_bit_nat_eq_self)
  then show ?thesis using assms(2) by (simp add: QueryMerge_stage_def one_chunk_end_def one_chunk_def)
qed

theorem pipeline_returns_every_chunk_witness:
  "mset [sample_row ''1'' ''7''] =
     (\<Sum>ch<num_chunks one_chunk. mset (chunk_rows one_chunk (\<lambda>_ _. [sample_unit 3 1]) (\<lambda>ch w. [sample_row ''1'' ''7'']) ch))"
  using pipeline_returns_every_chunk[OF one_chunk_reach one_chunk_end_facts(1) _ _ one_chunk_end_facts(2) one_chunk_merge,
      of sample_ext sample_pp "\<lambda>ch w. [sample_row ''1'' ''7'']" "\<lambda>_ _. [sample_unit 3 1]" "[sample_row ''1'' ''7'']" True "[sample_row ''1'' ''7'']"]
  by (simp add: accumulate_buffer_def final_buffer_def one_chunk_def)

theorem pipeline_sorted_result_witness:
  "\<exists>rows. [sample_row ''1'' ''7''] = apply_limit (limit sample_pp) rows \<and> sorted_by (dir_lt sample_ext sample_pp) rows \<and>
     mset rows = (\<Sum>ch<num_chunks one_chunk. mset (chunk_rows one_chunk (\<lambda>_ _. [sample_unit 3 1]) (\<lambda>ch w. [sample_row ''1'' ''7'']) ch))"
  using pipeline_sorted_result[OF one_chunk_reach one_chunk_end_facts(1) _ _ _ _ _ one_chunk_end_facts(2) one_chunk_merge,
      of sample_ext sample_pp "\<lambda>ch w. [sample_row ''1'' ''7'']" "\<lambda>_ _. [sample_unit 3 1]" "[sample_row ''1'' ''7'']" True "[sample_row ''1'' ''7'']"]
  by (simp add: accumulate_buffer_def final_buffer_def one_chunk_def merge_processing_def final_merge_processing_def sample_pp_def
      sort_rows_def chunk_rows_def has_sort_fields_def sample_row_def apply_limit_def)



end
