(* ===== verification/Query_Service.thy ===== *)
theory Query_Service
  imports Query_Pipeline
begin

text \<open>
  \<open>QEOpServerProxy.cc\<close>, the part that talks to redis: rendering the rows (\<open>JsonInsert\<close>,
  \<open>QueryJsonify\<close>), writing them in batches and reporting the progress (\<open>QueryResp\<close>), and the
  admission of queries (\<open>StartPipeline\<close>, \<open>LeastLoadedConnection\<close>, \<open>QEPipeCb\<close>) with the state
  of the redis connections. The JSON writer and \<open>strtod\<close> are arguments; redis commands are values.
\<close>

section \<open>Rendering rows\<close>

text \<open>The members one column of the schema adds for an entry of a row. \<open>compare(0,5,"COUNT")\<close> is a
  test of the first five characters.\<close>

definition column_members :: "('d, 't, 'c) row_ext \<Rightarrow> (string \<Rightarrow> 'd) \<Rightarrow> string \<times> string \<Rightarrow> vtable_column \<Rightarrow> (string \<times> 'd json) list" where
  "column_members ext strtod e c =
     (let (k, v) = e; num = JInt (uint (string_to_u64 ext v 0))
      in if take 5 k = ''COUNT'' then [(k, num)]
         else if col_name c = k then
           (if v = '''' then [(k, JNull)]
            else if col_datatype c = ''string'' \<or> col_datatype c = ''uuid'' \<or> col_datatype c = ''ipaddr'' then [(k, JString v)]
            else if col_datatype c = ''double'' then [(k, JDouble (strtod v))]
            else [(k, num)])
         else [])"

definition JsonInsert :: "('d, 't, 'c) row_ext \<Rightarrow> (string \<Rightarrow> 'd) \<Rightarrow> vtable_column list \<Rightarrow> (string \<times> 'd json) list \<Rightarrow> string \<times> string \<Rightarrow> (string \<times> 'd json) list outcome" where
  "JsonInsert ext strtod columns dd e =
     (let ms = concat (map (column_members ext strtod e) columns)
      in if ms = [] then Abort else Ret (dd @ ms))"

text \<open>The columns of the table; the last table of that name in the list wins, an unknown table has the
  object schema. A row is the \<open>std::map\<close> as the list of its entries in key order.\<close>

definition table_columns :: "vtable list \<Rightarrow> vtable_column list \<Rightarrow> string \<Rightarrow> vtable_column list" where
  "table_columns tables object_columns table =
     foldl (\<lambda>cols t. if tab_name t = table then tab_columns t else cols) object_columns tables"

definition jsonify_row :: "('d, 't, 'c) row_ext \<Rightarrow> (string \<Rightarrow> 'd) \<Rightarrow> vtable_column list \<Rightarrow> (string \<times> string) list \<Rightarrow> 'd json outcome" where
  "jsonify_row ext strtod columns row =
     bind_outcome (foldl_outcome (JsonInsert ext strtod columns) [] row) (\<lambda>dd. Ret (JObject dd))"

fun outcomes :: "'a outcome list \<Rightarrow> 'a list outcome" where
  "outcomes [] = Ret []"
| "outcomes (x # xs) = bind_outcome x (\<lambda>y. bind_outcome (outcomes xs) (\<lambda>ys. Ret (y # ys)))"

definition QueryJsonify ::
    "('d, 't, 'c) agg_ext \<Rightarrow> ('d, 't, 'c) row_ext \<Rightarrow> (string \<Rightarrow> 'd) \<Rightarrow> ('d json \<Rightarrow> string) \<Rightarrow> vtable list \<Rightarrow> vtable_column list \<Rightarrow> string \<Rightarrow>
     bool \<Rightarrow> (string \<times> string) list list \<Rightarrow> ('d, 't, 'c) MapBufT \<Rightarrow> string list outcome" where
  "QueryJsonify agg ext strtod writer tables object_columns table map_output rows mrows =
     (if table = '''' then Ret []
      else let columns = table_columns tables object_columns table
           in bind_outcome (outcomes
                (if map_output then map (\<lambda>r. Jsonify agg table (fst (snd r)) (snd (snd r))) mrows
                 else map (jsonify_row ext strtod columns) rows)) (\<lambda>js. Ret (map writer js)))"

section \<open>Writing the result\<close>

datatype redis_cmd = RPUSH string "string list" | EXPIRE string string | LREM string string string
  | BRPOPLPUSH string string string

text \<open>One batch: rows are taken until their sizes reach \<open>kMaxRowThreshold\<close>; the size is a
  \<open>uint32_t\<close> compared as an \<open>int\<close>.\<close>

fun take_batch :: "u32 \<Rightarrow> string list \<Rightarrow> string list \<times> string list" where
  "take_batch rowsize [] = ([], [])"
| "take_batch rowsize (r # rs) =
     (if sint rowsize < 10000 then (let (b, rest) = take_batch (rowsize + of_nat (length r)) rs in (r # b, rest))
      else ([], r # rs))"

lemma take_batch_append: "take_batch n rs = (b, rest) \<Longrightarrow> rs = b @ rest"
  by (induction n rs arbitrary: b rule: take_batch.induct) (auto split: if_splits prod.splits)

lemma take_batch_progress: "r # rs = b @ rest \<Longrightarrow> take_batch 0 (r # rs) = (b, rest) \<Longrightarrow> length rest < length (r # rs)"
  by (auto split: prod.splits dest: take_batch_append)

function batches :: "string list \<Rightarrow> string list list" where
  "batches rs = (if rs = [] then [] else let (b, rest) = take_batch 0 rs in b # batches rest)"
  by auto
termination
proof (relation "measure length")
  fix rs :: "string list" and p b rest assume "rs \<noteq> []" "p = take_batch 0 rs" "(b, rest) = p"
  then show "(rest, rs) \<in> measure length"
    by (cases rs) (auto split: prod.splits dest!: take_batch_append)
qed simp

declare batches.simps [simp del]

definition progress_msg :: "int \<Rightarrow> string" where
  "progress_msg p = ''{'' @ [CHR 0x22] @ ''progress'' @ [CHR 0x22] @ '':'' @ show_int p @ ''}''"

definition lines_msg :: "nat \<Rightarrow> string" where
  "lines_msg n = ''{'' @ [CHR 0x22] @ ''progress'' @ [CHR 0x22] @ '':90, '' @ [CHR 0x22] @ ''lines'' @ [CHR 0x22] @ '':'' @ show_nat n @ ''}''"

definition final_msg :: "nat \<Rightarrow> nat \<Rightarrow> string" where
  "final_msg n cnt = ''{'' @ [CHR 0x22] @ ''progress'' @ [CHR 0x22] @ '':100, '' @ [CHR 0x22] @ ''lines'' @ [CHR 0x22] @ '':'' @ show_nat n
     @ '', '' @ [CHR 0x22] @ ''count'' @ [CHR 0x22] @ '':'' @ show_nat cnt @ ''}''"

text \<open>The number of a list is a \<open>uint32_t\<close>; there are no more lists than rows, and more rows than \<open>max_rows\<close> are an overflow, so it
  does not wrap around.\<close>

definition result_key :: "string \<Rightarrow> nat \<Rightarrow> string" where
  "result_key qid n = ''RESULT:'' @ qid @ '':'' @ show_nat n"

abbreviation reply_key :: "string \<Rightarrow> string" where "reply_key qid \<equiv> ''REPLY:'' @ qid"

definition batch_cmds :: "string \<Rightarrow> nat \<times> string list \<Rightarrow> redis_cmd list" where
  "batch_cmds qid nb = (let (n, b) = nb
     in [RPUSH (result_key qid n) b, EXPIRE (result_key qid n) ''300'', RPUSH (reply_key qid) [lines_msg n]])"

text \<open>\<open>QueryResp\<close>, instance 0, first step (\<open>ENOBUFS\<close> is 105, \<open>EIO\<close> is 5), its second step, and
  instance 1.\<close>

definition QueryResp_result :: "string \<Rightarrow> bool \<Rightarrow> bool \<Rightarrow> string list \<Rightarrow> redis_cmd list" where
  "QueryResp_result qid overflow ret_ok res =
     (if overflow then [RPUSH (reply_key qid) [progress_msg (- 105)]]
      else if \<not> ret_ok then [RPUSH (reply_key qid) [progress_msg (- 5)]]
      else let bs = batches res
           in concat (map (batch_cmds qid) (enumerate 0 bs)) @ [RPUSH (reply_key qid) [final_msg (length bs) (length res)]])"

definition QueryResp_expire :: "string \<Rightarrow> redis_cmd list" where
  "QueryResp_expire qid = [EXPIRE (reply_key qid) ''300'', EXPIRE (''QUERY:'' @ qid) ''300'']"

definition QueryResp_dequeue :: "string \<Rightarrow> string \<Rightarrow> redis_cmd list" where
  "QueryResp_dequeue hostname qid = [LREM (''ENGINE:'' @ hostname) ''0'' qid]"

text \<open>The lists a sequence of commands leaves in redis.\<close>

fun redis_lists :: "redis_cmd list \<Rightarrow> (string \<Rightarrow> string list) \<Rightarrow> (string \<Rightarrow> string list)" where
  "redis_lists [] m = m"
| "redis_lists (RPUSH k vs # cs) m = redis_lists cs (m(k := m k @ vs))"
| "redis_lists (_ # cs) m = redis_lists cs m"

section \<open>The result can be read back\<close>

lemma batches_concat: "concat (batches rs) = rs"
proof (induction rs rule: batches.induct)
  case (1 rs)
  show ?case
  proof (cases "rs = []")
    case False
    obtain b rest where br: "take_batch 0 rs = (b, rest)" by fastforce
    with 1 False have "concat (batches rest) = rest" by simp
    with br False take_batch_append[OF br] show ?thesis by (subst batches.simps) simp
  qed (simp add: batches.simps)
qed

lemma show_nat_inj: "show_nat i = show_nat j \<Longrightarrow> i = j"
  by (metis digits_val_show_nat)

lemma result_key_inj: "result_key qid i = result_key qid j \<longleftrightarrow> i = j"
  using show_nat_inj by (auto simp: result_key_def)

lemma result_key_reply: "result_key qid i \<noteq> reply_key qid'"
  by (simp add: result_key_def)

lemma redis_lists_append: "redis_lists (xs @ ys) m = redis_lists ys (redis_lists xs m)"
proof (induction xs arbitrary: m)
  case (Cons c xs)
  then show ?case by (cases c) (simp_all add: fun_upd_def)
qed simp

lemma redis_lists_batches:
  "redis_lists (concat (map (batch_cmds qid) (enumerate k bs))) m (result_key qid n) =
     m (result_key qid n) @ (if k \<le> n \<and> n < k + length bs then bs ! (n - k) else [])"
proof (induction bs arbitrary: k m)
  case (Cons b bs)
  have "redis_lists (batch_cmds qid (k, b)) m (result_key qid n) = m (result_key qid n) @ (if n = k then b else [])"
    using result_key_reply by (auto simp: batch_cmds_def result_key_inj)
  with Cons.IH[of "Suc k" "redis_lists (batch_cmds qid (k, b)) m"] show ?case
    by (auto simp: redis_lists_append nth_Cons' Suc_diff_Suc)
qed auto

text \<open>
  C35: what the query engine writes to redis is the result: starting from empty keys, the lists
  \<open>RESULT:qid:0\<close>, \<open>RESULT:qid:1\<close>, ... put together are the rendered rows in order, and the last
  message of the reply reports the number of lists and of rows.
\<close>

theorem result_readable_from_redis:
  assumes "\<forall>n. m (result_key qid n) = []"
  shows "let bs = batches res; after = redis_lists (QueryResp_result qid False True res) m
    in concat (map (\<lambda>n. after (result_key qid n)) [0..<length bs]) = res \<and>
       last (QueryResp_result qid False True res) = RPUSH (reply_key qid) [final_msg (length bs) (length res)]"
proof -
  let ?bs = "batches res" and ?after = "redis_lists (QueryResp_result qid False True res) m"
  have "?after (result_key qid n) = ?bs ! n" if "n < length ?bs" for n
    using that assms result_key_reply[of qid n qid]
    by (simp add: QueryResp_result_def Let_def redis_lists_append redis_lists_batches)
  then have "map (\<lambda>n. ?after (result_key qid n)) [0..<length ?bs] = ?bs" by (intro nth_equalityI) simp_all
  then show ?thesis using batches_concat[of res] by (simp add: Let_def QueryResp_result_def)
qed

theorem result_readable_from_redis_witness:
  "let bs = batches [''{}'', ''[]'']; after = redis_lists (QueryResp_result ''q'' False True [''{}'', ''[]'']) (\<lambda>_. [])
    in concat (map (\<lambda>n. after (result_key ''q'' n)) [0..<length bs]) = [''{}'', ''[]''] \<and>
       last (QueryResp_result ''q'' False True [''{}'', ''[]'']) = RPUSH (reply_key ''q'') [final_msg (length bs) 2]"
  using result_readable_from_redis[of "\<lambda>_. []" "''q''" "[''{}'', ''[]'']"] by (simp add: numeral_2_eq_2)

text \<open>Sizes: with rows that fit in 31 bits the counter of a batch does not wrap.\<close>

lemma take_batch_sizes:
  assumes "take_batch w rs = (b, rest)" "\<forall>r \<in> set rs. length r < 2 ^ 30" "unat w < 2 ^ 30 + 10000"
  shows "(b \<noteq> [] \<longrightarrow> unat w + (\<Sum>r\<leftarrow>butlast b. length r) < 10000) \<and> (rest \<noteq> [] \<longrightarrow> 10000 \<le> unat w + (\<Sum>r\<leftarrow>b. length r))"
  using assms
proof (induction w rs arbitrary: b rule: take_batch.induct)
  case (2 w r rs)
  have si: "sint w = int (unat w)"
  proof -
    have "unat w < 2 ^ 31" using "2.prems"(3) by simp
    then have "int (unat w) < int (2 ^ 31)" by (simp only: of_nat_less_iff)
    then have u: "uint w < 2 ^ 31" unfolding uint_nat by simp
    show ?thesis unfolding sint_uint uint_nat[symmetric] 
    proof (rule signed_take_bit_int_eq_self)
      have "0 \<le> uint w" by simp
      then show "- (2 ^ (LENGTH(32) - Suc 0)) \<le> uint w" by (rule order_trans[rotated]) simp
    qed (use u in simp)
  qed
  show ?case
  proof (cases "sint w < 10000")
    case True
    obtain b' where b': "take_batch (w + of_nat (length r)) rs = (b', rest)" "b = r # b'"
      using "2.prems"(1) True by (auto split: prod.splits)
    have w: "unat w < 10000" using True si by linarith
    have u: "unat (w + of_nat (length r)) = unat w + length r"
      using w "2.prems"(2) by (subst unat_add_lem[THEN iffD1]) (simp_all add: unat_of_nat take_bit_nat_eq_self)
    have "(b' \<noteq> [] \<longrightarrow> unat w + length r + (\<Sum>r\<leftarrow>butlast b'. length r) < 10000) \<and> (rest \<noteq> [] \<longrightarrow> 10000 \<le> unat w + length r + (\<Sum>r\<leftarrow>b'. length r))"
      using "2.IH"[OF True b'(1)] "2.prems"(2) u w by simp
    then show ?thesis using b'(2) w by (auto simp: add.assoc)
  next
    case False
    then have "10000 \<le> unat w" using si by linarith
    then show ?thesis using "2.prems"(1) False by auto
  qed
qed simp

lemma take_batch_nonempty: "rs \<noteq> [] \<Longrightarrow> take_batch 0 rs = (b, rest) \<Longrightarrow> b \<noteq> []"
  by (cases rs) (auto split: prod.splits)

text \<open>
  The batches are bounded on both sides: none is empty, each stays below the threshold without its
  last row, and every batch but the last reaches it, so the number of redis commands is bounded by the
  size of the result.
\<close>

theorem batch_sizes:
  assumes "\<forall>r \<in> set rs. length r < 2 ^ 30"
  shows "(\<forall>b \<in> set (batches rs). b \<noteq> [] \<and> (\<Sum>r\<leftarrow>butlast b. length r) < 10000) \<and>
    (\<forall>b \<in> set (butlast (batches rs)). 10000 \<le> (\<Sum>r\<leftarrow>b. length r))"
  using assms
proof (induction rs rule: batches.induct)
  case (1 rs)
  show ?case
  proof (cases "rs = []")
    case False
    obtain b rest where br: "take_batch 0 rs = (b, rest)" by fastforce
    have app: "rs = b @ rest" and ne: "b \<noteq> []" using take_batch_append[OF br] take_batch_nonempty[OF False br] .
    have small: "\<forall>r \<in> set rest. length r < 2 ^ 30" using "1.prems" app by auto
    have sizes: "(\<Sum>r\<leftarrow>butlast b. length r) < 10000" "rest \<noteq> [] \<Longrightarrow> 10000 \<le> (\<Sum>r\<leftarrow>b. length r)"
      using take_batch_sizes[OF br "1.prems"] ne by simp_all
    have bs: "batches rs = b # batches rest" using False br by (subst batches.simps) simp
    have "batches rest = [] \<longleftrightarrow> rest = []" by (subst batches.simps) (simp split: prod.splits)
    then show ?thesis using 1(1)[OF False br[symmetric] refl small] ne sizes by (auto simp: bs)
  qed (simp add: batches.simps)
qed

theorem batch_sizes_witness:
  "list_all (\<lambda>b. b \<noteq> [] \<and> (\<Sum>r\<leftarrow>butlast b. length r) < 10000) (batches [''{}'', ''[]''])"
  using batch_sizes[of "[''{}'', ''[]'']"] by (simp add: list_all_iff)

text \<open>
  A field whose name starts with COUNT is rendered once for every column of the schema: the test of
  the name inside the loop over the columns does not look at the column.
\<close>

theorem count_field_repeated:
  assumes "columns \<noteq> []"
  shows "JsonInsert ext strtod columns dd (''COUNT'' @ rest, v) =
    Ret (dd @ replicate (length columns) (''COUNT'' @ rest, JInt (uint (string_to_u64 ext v 0))))"
proof -
  have "concat (map (column_members ext strtod (''COUNT'' @ rest, v)) columns) =
      replicate (length columns) (''COUNT'' @ rest, JInt (uint (string_to_u64 ext v 0)))"
    by (induction columns) (simp_all add: column_members_def)
  then show ?thesis using assms by (simp add: JsonInsert_def)
qed

definition sample_columns :: "vtable_column list" where
  "sample_columns = [\<lparr>col_name = ''a'', col_datatype = ''int'', col_index = False\<rparr>, \<lparr>col_name = ''b'', col_datatype = ''int'', col_index = False\<rparr>]"

theorem count_field_repeated_witness:
  "JsonInsert sample_ext length sample_columns [] (''COUNT(*)'', ''x'') =
     Ret [(''COUNT(*)'', JInt (uint (string_to_u64 sample_ext ''x'' 0))), (''COUNT(*)'', JInt (uint (string_to_u64 sample_ext ''x'' 0)))]"
  using count_field_repeated[of sample_columns sample_ext length "[]" "''(*)''" "''x''"] by (simp add: sample_columns_def)

section \<open>Admission of queries\<close>

text \<open>
  A running pipeline is identified by a number and has its query id, redis host and connection.
  \<open>pipes\<close> is \<open>pipes_\<close>, from query ids to pipelines; \<open>npipes\<close> counts the pipelines per
  host and connection. \<open>kConnections\<close> is 4.
\<close>

definition kConnections :: nat where "kConnections = 4"

record pipeline =
  p_id :: nat
  p_qid :: string
  p_host :: nat
  p_conn :: nat

record proxy =
  running :: "pipeline list"
  pipes :: "string \<rightharpoonup> nat"
  npipes :: "int list list"
  next_pipe :: nat

definition new_proxy :: "nat \<Rightarrow> proxy" where
  "new_proxy hosts = \<lparr>running = [], pipes = Map.empty, npipes = replicate hosts (replicate kConnections 0), next_pipe = 0\<rparr>"

text \<open>The first connection with the least load.\<close>

definition least_step :: "int list \<Rightarrow> int \<times> nat \<Rightarrow> nat \<Rightarrow> int \<times> nat" where
  "least_step loads m i = (let (minvalue, minindex) = m in if loads ! i < minvalue then (loads ! i, i) else (minvalue, minindex))"

definition LeastLoadedConnection :: "int list \<Rightarrow> nat" where
  "LeastLoadedConnection loads =
     snd (foldl (least_step loads) (loads ! 0, 0) [1..<kConnections])"

text \<open>What reading the query from redis gives: no connection or no authentication (nothing is
  reported), no input, or the code of \<open>QueryPrepare\<close>.\<close>

datatype query_source = NoRedis | NoInput | Prepared int

datatype start_result = NotReported | Reported int | Started nat

definition StartPipeline :: "query_source \<Rightarrow> string \<Rightarrow> nat \<Rightarrow> nat \<Rightarrow> proxy \<Rightarrow> proxy \<times> start_result" where
  "StartPipeline src qid host num_pipes s =
     (case src of
        NoRedis \<Rightarrow> (s, NotReported)
      | NoInput \<Rightarrow> (s, Reported 5)
      | Prepared ret \<Rightarrow>
          if ret \<noteq> 0 then (s, Reported ret)
          else if num_pipes \<ge> 32 then (s, Reported 24)
          else let conn = LeastLoadedConnection (npipes s ! host); wp = next_pipe s
               in (s\<lparr>running := \<lparr>p_id = wp, p_qid = qid, p_host = host, p_conn = conn\<rparr> # running s,
                     pipes := (if pipes s qid = None then (pipes s)(qid \<mapsto> wp) else pipes s),
                     npipes := (npipes s)[host := (npipes s ! host)[conn := npipes s ! host ! conn + 1]],
                     next_pipe := Suc wp\<rparr>, Started conn))"

text \<open>\<open>QEPipeCb\<close>: the assertion compares the pipeline with the entry of its query id.\<close>

definition QEPipeCb :: "pipeline \<Rightarrow> proxy \<Rightarrow> proxy outcome" where
  "QEPipeCb p s =
     (if pipes s (p_qid p) \<noteq> Some (p_id p) then Abort
      else Ret (s\<lparr>running := remove1 p (running s), pipes := (pipes s)(p_qid p := None),
                  npipes := (npipes s)[p_host p := (npipes s ! p_host p)[p_conn p := npipes s ! p_host p ! p_conn p - 1]]\<rparr>))"

text \<open>With \<open>fresh\<close> no query id is queued again while a pipeline for it runs.\<close>

inductive proxy_step :: "nat \<Rightarrow> bool \<Rightarrow> proxy \<Rightarrow> proxy \<Rightarrow> bool" for hosts :: nat and fresh :: bool where
  proxy_start: "\<lbrakk>host < hosts; fresh \<longrightarrow> qid \<notin> p_qid ` set (running s); StartPipeline src qid host (card (dom (pipes s))) s = (s', r)\<rbrakk> \<Longrightarrow> proxy_step hosts fresh s s'"
| proxy_finish: "\<lbrakk>p \<in> set (running s); QEPipeCb p s = Ret s'\<rbrakk> \<Longrightarrow> proxy_step hosts fresh s s'"

inductive proxy_reach :: "nat \<Rightarrow> bool \<Rightarrow> proxy \<Rightarrow> bool" for hosts :: nat and fresh :: bool where
  proxy_init: "proxy_reach hosts fresh (new_proxy hosts)"
| proxy_more: "\<lbrakk>proxy_reach hosts fresh s; proxy_step hosts fresh s s'\<rbrakk> \<Longrightarrow> proxy_reach hosts fresh s'"

definition load_of :: "nat \<Rightarrow> nat \<Rightarrow> pipeline list \<Rightarrow> int" where
  "load_of h c ps = int (length (filter (\<lambda>p. p_host p = h \<and> p_conn p = c) ps))"

definition proxy_inv :: "nat \<Rightarrow> proxy \<Rightarrow> bool" where
  "proxy_inv hosts s \<longleftrightarrow>
     length (npipes s) = hosts \<and> (\<forall>h<hosts. length (npipes s ! h) = kConnections) \<and>
     (\<forall>p \<in> set (running s). p_host p < hosts \<and> p_conn p < kConnections \<and> p_id p < next_pipe s) \<and>
     (\<forall>h<hosts. \<forall>c<kConnections. npipes s ! h ! c = load_of h c (running s)) \<and>
     finite (dom (pipes s)) \<and> card (dom (pipes s)) \<le> 32"

lemma least_loaded_scan:
  assumes "\<forall>i \<in> set is. i < length loads" "j < length loads" "foldl (least_step loads) (loads ! j, j) is = (w, k)"
  shows "k < length loads \<and> w = loads ! k \<and> w \<le> loads ! j \<and> (\<forall>i \<in> set is. w \<le> loads ! i)"
  using assms
proof (induction "is" arbitrary: j)
  case (Cons i "is")
  show ?case
  proof (cases "loads ! i < loads ! j")
    case True
    then show ?thesis using Cons.IH[of i] Cons.prems by (auto simp: least_step_def)
  next
    case False
    then show ?thesis using Cons.IH[of j] Cons.prems by (auto simp: least_step_def)
  qed
qed simp

lemma LeastLoadedConnection_least:
  assumes "length loads = kConnections"
  shows "LeastLoadedConnection loads < kConnections \<and> (\<forall>c<kConnections. loads ! LeastLoadedConnection loads \<le> loads ! c)"
proof -
  obtain w k where r: "foldl (least_step loads) (loads ! 0, 0) [1..<kConnections] = (w, k)" by fastforce
  have "\<forall>i \<in> set [1..<kConnections]. i < length loads" "0 < length loads" using assms by (auto simp: kConnections_def)
  from least_loaded_scan[OF this r]
  have k: "k < length loads" "loads ! k \<le> loads ! 0" "\<forall>i \<in> {1..<kConnections}. loads ! k \<le> loads ! i" by auto
  have "loads ! k \<le> loads ! c" if "c < kConnections" for c
    using k(2,3) that by (cases "c = 0") auto
  then show ?thesis unfolding LeastLoadedConnection_def r using assms k(1) by simp
qed

lemma nested_update_nth:
  assumes "h < length xss" "c < length (xss ! h)" "h' < length xss"
  shows "xss[h := (xss ! h)[c := v]] ! h' ! c' = (if h' = h \<and> c' = c then v else xss ! h' ! c')"
  using assms by (auto simp: nth_list_update)

lemma load_of_Cons: "load_of h c (p # ps) = load_of h c ps + (if p_host p = h \<and> p_conn p = c then 1 else 0)"
  by (simp add: load_of_def)

lemma load_of_remove1: "p \<in> set ps \<Longrightarrow> load_of h c (remove1 p ps) = load_of h c ps - (if p_host p = h \<and> p_conn p = c then 1 else 0)"
  by (induction ps) (auto simp: load_of_Cons)

lemma start_inv:
  assumes inv: "proxy_inv hosts s" and h: "host < hosts"
    and run: "StartPipeline src qid host (card (dom (pipes s))) s = (s', r)"
  shows "proxy_inv hosts s'"
proof (cases "\<exists>conn. r = Started conn")
  case False
  then have "s' = s" using run by (auto simp: StartPipeline_def Let_def split: query_source.splits if_splits)
  then show ?thesis using inv by simp
next
  case True
  let ?c = "LeastLoadedConnection (npipes s ! host)"
  have s': "s' = s\<lparr>running := \<lparr>p_id = next_pipe s, p_qid = qid, p_host = host, p_conn = ?c\<rparr> # running s,
      pipes := (if pipes s qid = None then (pipes s)(qid \<mapsto> next_pipe s) else pipes s),
      npipes := (npipes s)[host := (npipes s ! host)[?c := npipes s ! host ! ?c + 1]], next_pipe := Suc (next_pipe s)\<rparr>"
    and few: "card (dom (pipes s)) < 32"
    using run True by (auto simp: StartPipeline_def Let_def split: query_source.splits if_splits)
  have len: "length (npipes s) = hosts" "\<forall>h<hosts. length (npipes s ! h) = kConnections"
    and run_ok: "\<forall>p \<in> set (running s). p_host p < hosts \<and> p_conn p < kConnections \<and> p_id p < next_pipe s"
    and loads: "\<forall>h<hosts. \<forall>c<kConnections. npipes s ! h ! c = load_of h c (running s)"
    and fin: "finite (dom (pipes s))" using inv by (simp_all add: proxy_inv_def)
  have c: "?c < kConnections" using LeastLoadedConnection_least[of "npipes s ! host"] len(2) h by simp
  have "npipes s' ! h' ! c' = load_of h' c' (running s')" if "h' < hosts" "c' < kConnections" for h' c'
    using nested_update_nth[of host "npipes s" ?c h' "npipes s ! host ! ?c + 1" c'] len h c that loads
    by (auto simp: s' load_of_Cons)
  moreover have "card (dom (pipes s')) \<le> 32" using few fin by (auto simp: s' card_insert_if)
  moreover have "\<forall>h'<hosts. length (npipes s' ! h') = kConnections" using len h by (simp add: s' nth_list_update)
  moreover have "\<forall>p \<in> set (running s'). p_host p < hosts \<and> p_conn p < kConnections \<and> p_id p < next_pipe s'"
    using run_ok h c by (auto simp: s' less_Suc_eq)
  ultimately show ?thesis using len fin by (simp add: proxy_inv_def s')
qed

lemma finish_inv:
  assumes inv: "proxy_inv hosts s" and p: "p \<in> set (running s)" and run: "QEPipeCb p s = Ret s'"
  shows "proxy_inv hosts s'"
proof -
  have s': "s' = s\<lparr>running := remove1 p (running s), pipes := (pipes s)(p_qid p := None),
      npipes := (npipes s)[p_host p := (npipes s ! p_host p)[p_conn p := npipes s ! p_host p ! p_conn p - 1]]\<rparr>"
    using run by (auto simp: QEPipeCb_def split: if_splits)
  have len: "length (npipes s) = hosts" "\<forall>h<hosts. length (npipes s ! h) = kConnections"
    and run_ok: "\<forall>p \<in> set (running s). p_host p < hosts \<and> p_conn p < kConnections \<and> p_id p < next_pipe s"
    and loads: "\<forall>h<hosts. \<forall>c<kConnections. npipes s ! h ! c = load_of h c (running s)"
    and fin: "finite (dom (pipes s))" "card (dom (pipes s)) \<le> 32" using inv by (simp_all add: proxy_inv_def)
  have pr: "p_host p < hosts" "p_conn p < kConnections" using run_ok p by auto
  have "npipes s' ! h' ! c' = load_of h' c' (running s')" if "h' < hosts" "c' < kConnections" for h' c'
    using nested_update_nth[of "p_host p" "npipes s" "p_conn p" h' "npipes s ! p_host p ! p_conn p - 1" c'] len pr that loads
    by (auto simp: s' load_of_remove1[OF p])
  moreover have "card (dom (pipes s')) \<le> 32"
    using fin card_mono[OF fin(1), of "dom (pipes s')"] by (force simp: s')
  moreover have "\<forall>h'<hosts. length (npipes s' ! h') = kConnections" using len pr by (simp add: s' nth_list_update)
  moreover have "\<forall>q \<in> set (running s'). p_host q < hosts \<and> p_conn q < kConnections \<and> p_id q < next_pipe s'"
    using run_ok by (auto simp: s' dest: notin_set_remove1)
  ultimately show ?thesis using len fin by (simp add: proxy_inv_def s')
qed

text \<open>The running pipelines are exactly the registered ones.\<close>

definition registered :: "proxy \<Rightarrow> bool" where
  "registered s \<longleftrightarrow> distinct (map p_qid (running s)) \<and> dom (pipes s) = p_qid ` set (running s) \<and>
     (\<forall>p \<in> set (running s). pipes s (p_qid p) = Some (p_id p))"

lemma start_registered:
  assumes "registered s" and "qid \<notin> p_qid ` set (running s)" and "StartPipeline src qid host n s = (s', r)"
  shows "registered s'"
proof -
  have q: "pipes s qid = None" using assms(1,2) by (auto simp: registered_def)
  show ?thesis
  proof (cases "running s' = running s")
    case True
    then have "s' = s" using assms(3) by (auto simp: StartPipeline_def Let_def split: query_source.splits if_splits)
    then show ?thesis using assms(1) by simp
  next
    case False
    then have s': "running s' = \<lparr>p_id = next_pipe s, p_qid = qid, p_host = host, p_conn = LeastLoadedConnection (npipes s ! host)\<rparr> # running s"
      "pipes s' = (pipes s)(qid \<mapsto> next_pipe s)"
      using assms(3) q by (auto simp: StartPipeline_def Let_def split: query_source.splits if_splits)
    have "p_qid p \<noteq> qid" if "p \<in> set (running s)" for p using that assms(2) by blast
    then show ?thesis using assms(1,2) by (simp add: registered_def s')
  qed
qed

lemma finish_registered:
  assumes "registered s" and "p \<in> set (running s)" and "QEPipeCb p s = Ret s'"
  shows "registered s'"
proof -
  have d: "distinct (map p_qid (running s))" using assms(1) by (simp add: registered_def)
  then have r: "set (remove1 p (running s)) = set (running s) - {p}" by (simp add: distinct_map set_remove1_eq)
  have inj: "p_qid q \<noteq> p_qid p" if "q \<in> set (running s) - {p}" for q
    using d that assms(2) by (auto simp: distinct_map dest: inj_onD)
  have "distinct (map p_qid (remove1 p (running s)))"
    using d by (auto simp: distinct_map r intro: inj_on_subset)
  moreover have "dom (pipes s) - {p_qid p} = p_qid ` (set (running s) - {p})"
  proof -
    have "dom (pipes s) = p_qid ` set (running s)" using assms(1) by (simp add: registered_def)
    then show ?thesis using inj by auto
  qed
  moreover have "running s' = remove1 p (running s)" "pipes s' = (pipes s)(p_qid p := None)"
    using assms(3) by (auto simp: QEPipeCb_def split: if_splits)
  ultimately show ?thesis using assms(1) inj by (simp add: registered_def r)
qed

lemma reach_proxy_inv: "proxy_reach hosts fresh s \<Longrightarrow> proxy_inv hosts s"
proof (induction rule: proxy_reach.induct)
  case proxy_init
  show ?case by (simp add: proxy_inv_def new_proxy_def load_of_def)
next
  case (proxy_more s s')
  from proxy_more(2) show ?case by cases (auto intro: start_inv finish_inv proxy_more(3))
qed

lemma reach_registered: "proxy_reach hosts True s \<Longrightarrow> registered s"
proof (induction rule: proxy_reach.induct)
  case proxy_init
  show ?case by (simp add: registered_def new_proxy_def)
next
  case (proxy_more s s')
  from proxy_more(2) show ?case by cases (auto intro: start_registered finish_registered proxy_more(3))
qed

lemma started_least:
  assumes inv: "proxy_inv hosts s" and "host < hosts" and "StartPipeline src qid host n s = (s', Started conn)"
  shows "conn < kConnections \<and> (\<forall>c<kConnections. load_of host conn (running s) \<le> load_of host c (running s))"
proof -
  have conn: "conn = LeastLoadedConnection (npipes s ! host)"
    using assms(3) by (auto simp: StartPipeline_def Let_def split: query_source.splits if_splits)
  have "conn < kConnections \<and> (\<forall>c<kConnections. npipes s ! host ! conn \<le> npipes s ! host ! c)"
    unfolding conn by (rule LeastLoadedConnection_least) (use inv assms(2) in \<open>simp add: proxy_inv_def\<close>)
  moreover have "npipes s ! host ! c = load_of host c (running s)" if "c < kConnections" for c
    using inv assms(2) that by (simp add: proxy_inv_def)
  ultimately show ?thesis by metis
qed

text \<open>
  C36: in every reachable state of the query service at most 32 query ids are registered, the load the
  service keeps for each redis connection is exactly the number of pipelines running on it, and a started
  query is put on a connection of least load. As long as no id is queued again while a pipeline for it runs, the
  running pipelines are the registered ones: at most 32 run, each under an id of its own, and the completion of none of them
  fails its assertion.
\<close>

theorem admission_invariant:
  assumes "proxy_reach hosts fresh s"
  shows "card (dom (pipes s)) \<le> 32 \<and> (\<forall>h<hosts. \<forall>c<kConnections. npipes s ! h ! c = load_of h c (running s)) \<and>
    (\<forall>src qid host s' conn. host < hosts \<longrightarrow> StartPipeline src qid host (card (dom (pipes s))) s = (s', Started conn) \<longrightarrow>
       conn < kConnections \<and> (\<forall>c<kConnections. load_of host conn (running s) \<le> load_of host c (running s))) \<and>
    (fresh \<longrightarrow> length (running s) \<le> 32 \<and> distinct (map p_qid (running s)) \<and> (\<forall>p \<in> set (running s). QEPipeCb p s \<noteq> Abort))"
proof -
  note inv = reach_proxy_inv[OF assms]
  then have few: "card (dom (pipes s)) \<le> 32" by (simp add: proxy_inv_def)
  have "length (running s) \<le> 32 \<and> distinct (map p_qid (running s)) \<and> (\<forall>p \<in> set (running s). QEPipeCb p s \<noteq> Abort)" if fresh
  proof -
    have r: "registered s" using reach_registered assms that by simp
    then have "length (running s) = card (dom (pipes s))" using distinct_card[of "map p_qid (running s)"] by (simp add: registered_def)
    with few r show ?thesis by (simp add: registered_def QEPipeCb_def)
  qed
  then show ?thesis using inv few started_least[OF inv] by (simp add: proxy_inv_def)
qed

definition first_query :: proxy where
  "first_query = fst (StartPipeline (Prepared 0) ''q1'' 1 0 (new_proxy 2))"

theorem admission_invariant_witness:
  "length (running first_query) = 1 \<and> npipes first_query ! 1 ! 0 = load_of 1 0 (running first_query) \<and> load_of 1 0 (running first_query) = 1 \<and>
   QEPipeCb (hd (running first_query)) first_query \<noteq> Abort"
proof -
  have "proxy_reach 2 True first_query"
  proof (rule proxy_more[OF proxy_init], rule proxy_start)
    show "StartPipeline (Prepared 0) ''q1'' 1 (card (dom (pipes (new_proxy 2)))) (new_proxy 2) =
        (first_query, snd (StartPipeline (Prepared 0) ''q1'' 1 0 (new_proxy 2)))" by (simp add: first_query_def new_proxy_def)
  qed (simp_all add: new_proxy_def)
  moreover have "LeastLoadedConnection [0, 0, 0, 0] = 0" by code_simp
  then have "length (running first_query) = 1" "load_of 1 0 (running first_query) = 1"
    by (simp_all add: first_query_def StartPipeline_def new_proxy_def load_of_def kConnections_def numeral_eq_Suc Let_def)
  moreover from this(1) have "hd (running first_query) \<in> set (running first_query)" by (cases "running first_query") simp_all
  ultimately show ?thesis using admission_invariant[of 2 True first_query] by (simp add: kConnections_def)
qed

text \<open>The limit counts ids, not pipelines: an id that is queued again and again while it runs starts any number of
  pipelines.\<close>

theorem repeated_id_not_limited: "\<exists>s. proxy_reach 1 False s \<and> length (running s) = n"
proof -
  have "\<exists>s. proxy_reach 1 False s \<and> length (running s) = n \<and> dom (pipes s) \<subseteq> {''q''}"
  proof (induction n)
    case 0
    show ?case by (intro exI[of _ "new_proxy 1"]) (simp add: proxy_init, simp add: new_proxy_def)
  next
    case (Suc n)
    then obtain s where s: "proxy_reach 1 False s" "length (running s) = n" "dom (pipes s) \<subseteq> {''q''}" by blast
    have "card (dom (pipes s)) \<le> 1" using card_mono[OF _ s(3)] by simp
    moreover obtain s' r where r: "StartPipeline (Prepared 0) ''q'' 0 (card (dom (pipes s))) s = (s', r)" by fastforce
    ultimately have "length (running s') = Suc n" "dom (pipes s') \<subseteq> insert ''q'' (dom (pipes s))"
      using s(2) by (auto simp: StartPipeline_def Let_def split: if_splits)
    with s(3) have "length (running s') = Suc n" "dom (pipes s') \<subseteq> {''q''}" by blast+
    moreover have "proxy_reach 1 False s'" by (rule proxy_more[OF s(1) proxy_start[OF _ _ r]]) simp_all
    ultimately show ?case by blast
  qed
  then show ?thesis by blast
qed

text \<open>A query id that is started a second time while the first run is still registered makes the
  completion of the second run fail its assertion.\<close>

lemma duplicate_query_id_aborts:
  assumes "pipes s qid = Some w" "w \<noteq> next_pipe s"
    and "StartPipeline src qid host n s = (s', Started conn)"
  shows "QEPipeCb (hd (running s')) s' = Abort"
  using assms by (auto simp: StartPipeline_def QEPipeCb_def Let_def split: query_source.splits if_splits)

end
