(* ===== verification/Query_Time.thy ===== *)
theory Query_Time
  imports Query_Tables
begin

unbundle bit_operations_syntax

text \<open>
  Time in a query. \<open>utils.cc\<close>: \<open>parse_time\<close> and the operator translation; \<open>query.cc\<close>: the time
  range \<open>AnalyticsQuery::Init\<close> derives from the request and the retention of the table, the slice
  it cuts the range into, the range of one batch, and the chunk loop of \<open>get_query_details\<close>.
  Timestamps are 64-bit microseconds and wrap as in the source. The clock readings and
  \<open>stringToInteger\<close> are arguments. A loop that may not end is a \<open>partial_function\<close> into
  \<open>option\<close>: \<open>None\<close> is a run that never returns.
\<close>

section \<open>Reading a time\<close>

text \<open>\<open>(int) s.find_last_of(c) > 0\<close>.\<close>

definition has_unit :: "char \<Rightarrow> string \<Rightarrow> bool" where
  "has_unit c s = (case find_last_char c s of None \<Rightarrow> False | Some i \<Rightarrow> 0 < i)"

text \<open>\<open>s.substr(5, s.length() - 7)\<close>: the length wraps when the string is shorter than 7.\<close>

definition offset_text :: "string \<Rightarrow> string outcome" where
  "offset_text s = (if length s < 7 then substr_from s 5 else substr s 5 (length s - 7))"

definition unit_usec :: "string \<Rightarrow> u64 option" where
  "unit_usec s =
     (if has_unit CHR ''h'' s then Some (3600 * 1000000)
      else if has_unit CHR ''m'' s then Some (60 * 1000000)
      else if has_unit CHR ''s'' s then Some 1000000
      else if has_unit CHR ''d'' s then Some (24 * 3600 * 1000000)
      else None)"

text \<open>\<open>None\<close> is a \<open>false\<close> return. \<open>now\<close> is what \<open>UTCTimestampUsec\<close> returns.\<close>

definition parse_time :: "(string \<Rightarrow> u64 option) \<Rightarrow> u64 \<Rightarrow> string \<Rightarrow> u64 option outcome" where
  "parse_time stringToInteger now t =
     (if t = ''\"now\"'' then Ret (Some now)
      else bind_outcome (substr t 1 3) (\<lambda>p.
        if p = ''now''
        then (case unit_usec t of
                None \<Rightarrow> Ret None
              | Some u \<Rightarrow> bind_outcome (offset_text t) (\<lambda>ds.
                  case stringToInteger ds of
                    None \<Rightarrow> Ret None
                  | Some n \<Rightarrow> bind_outcome (substr t 1 4) (\<lambda>q.
                      if q = ''now+'' then Ret (Some (now + n * u))
                      else if q = ''now-'' then Ret (Some (now - n * u))
                      else Ret None)))
        else Ret (stringToInteger t)))"

datatype gendb_op = DB_EQ | DB_LE | DB_GE | DB_LIKE | DB_INVALID

definition get_gendb_op_from_op :: "match_op \<Rightarrow> gendb_op" where
  "get_gendb_op_from_op op =
     (case op of EQUAL \<Rightarrow> DB_EQ | LEQ \<Rightarrow> DB_LE | GEQ \<Rightarrow> DB_GE | PREFIX \<Rightarrow> DB_LIKE | _ \<Rightarrow> DB_INVALID)"

text \<open>The lookups in the schema of the message table; a missing column is a failed \<open>assert\<close>, an
  index out of range undefined. \<open>index_types\<close> tells which columns have a secondary index.\<close>

record msg_schema =
  columns :: "string list"
  index_types :: "bool list"
  query_column_to_column :: "string \<rightharpoonup> string"
  column_to_query_column :: "string \<rightharpoonup> string"

definition MsgTableIndexToColumn :: "msg_schema \<Rightarrow> nat \<Rightarrow> string outcome" where
  "MsgTableIndexToColumn sch i = (if i < length (columns sch) then Ret (columns sch ! i) else Abort)"

definition MsgTableIndexToIndexType :: "msg_schema \<Rightarrow> nat \<Rightarrow> bool outcome" where
  "MsgTableIndexToIndexType sch i = (if i < length (index_types sch) then Ret (index_types sch ! i) else Abort)"

definition MsgTableQueryColumnToColumn :: "msg_schema \<Rightarrow> string \<Rightarrow> string outcome" where
  "MsgTableQueryColumnToColumn sch c = (case query_column_to_column sch c of Some x \<Rightarrow> Ret x | None \<Rightarrow> Abort)"

definition MsgTableColumnToQueryColumn :: "msg_schema \<Rightarrow> string \<Rightarrow> string outcome" where
  "MsgTableColumnToQueryColumn sch c = (case column_to_query_column sch c of Some x \<Rightarrow> Ret x | None \<Rightarrow> Abort)"

section \<open>The time range of a request\<close>

datatype ttl_type = FLOWDATA_TTL | STATSDATA_TTL | CONFIGAUDIT_TTL | GLOBAL_TTL

definition ttl_kind :: "string \<Rightarrow> ttl_type" where
  "ttl_kind table =
     (if is_stat_table_query table then STATSDATA_TTL
      else if is_flow_query table \<or> is_session_query table then FLOWDATA_TTL
      else if is_object_table_query table then CONFIGAUDIT_TTL
      else GLOBAL_TTL)"

definition cache_time :: u64 where
  "cache_time = 2 ^ (RowTimeInBits + 5)"

text \<open>The range of a request that asks for \<open>req_from\<close> to \<open>req_end\<close>: not before the retention
  limit, not after \<open>now\<close>; a query for field names looks back at least the cache time.\<close>

definition init_times :: "(ttl_type \<rightharpoonup> u64) \<Rightarrow> u64 \<Rightarrow> string \<Rightarrow> u64 \<Rightarrow> u64 \<Rightarrow> (u64 \<times> u64) outcome" where
  "init_times ttlmap now table req_from req_end =
     (case ttlmap (ttl_kind table) of
        None \<Rightarrow> Abort
      | Some ttl \<Rightarrow>
          (let min_start_time = now - ttl * 60 * 60 * 1000000;
               from = (if req_from < min_start_time then min_start_time else req_from);
               end = (if req_end > now then now else req_end)
           in Ret (if is_stat_fieldnames_table_query table \<and> end - from < cache_time
                   then (let from' = from - (cache_time - (end - from))
                         in (if from' < min_start_time then min_start_time else from', end))
                   else (from, end))))"

section \<open>Slices, batches and chunks\<close>

record batch =
  original_from_time :: u64
  original_end_time :: u64
  time_slice :: u64
  from_time :: u64
  end_time :: u64
  processing_needed :: bool
  parallelize_query :: bool

definition can_parallelize_query :: "string \<Rightarrow> bool" where
  "can_parallelize_query table \<longleftrightarrow> table \<noteq> OBJECT_VALUE_TABLE"

text \<open>The slice for a range of length \<open>period\<close>; \<open>(int)\<close> operands are converted to 64 bits.\<close>

definition compute_slice :: "int \<Rightarrow> int \<Rightarrow> u64 \<Rightarrow> u64 outcome" where
  "compute_slice max_slice total_batches period =
     (if (word_of_int total_batches :: u64) = 0 then Abort
      else let smax = word_of_int (2 ^ RowTimeInBits * max_slice);
               s1 = period div word_of_int total_batches + 1;
               s2 = (if s1 < 2 ^ RowTimeInBits then 2 ^ RowTimeInBits else s1)
           in Ret (if s2 > smax then smax else s2))"

definition init_batch :: "int \<Rightarrow> int \<Rightarrow> int \<Rightarrow> string \<Rightarrow> u64 \<Rightarrow> u64 \<Rightarrow> batch outcome" where
  "init_batch max_slice total_batches batch_num table from_req end_req =
     (let from = (if from_req > end_req then end_req - 1 else from_req);
          par = can_parallelize_query table
      in bind_outcome (if par then compute_slice max_slice total_batches (end_req - from) else Ret (end_req - from))
           (\<lambda>sl.
              let f = from + sl * word_of_int batch_num; e = f + sl
              in Ret \<lparr>original_from_time = from, original_end_time = end_req, time_slice = sl,
                      from_time = f,
                      end_time = (if f \<ge> end_req then e else if e > end_req then end_req else e),
                      processing_needed = f < end_req, parallelize_query = par\<rparr>))"

text \<open>The chunk loop of \<open>get_query_details\<close>.\<close>

partial_function (option) chunk_loop :: "u64 \<Rightarrow> u64 \<Rightarrow> u64 \<Rightarrow> u64 list option" where
  "chunk_loop sl stop start =
     (if start < stop
      then Option.bind (chunk_loop sl stop (start + sl))
             (\<lambda>cs. Some ((if start + sl \<le> stop then sl else stop - start) # cs))
      else Some [])"

definition chunk_sizes :: "batch \<Rightarrow> u64 list option" where
  "chunk_sizes b = chunk_loop (time_slice b) (original_end_time b) (original_from_time b)"

section \<open>Properties of times\<close>

lemma find_last_char_snoc: "find_last_char c (xs @ c # ys) = Some (length xs)" if "c \<notin> set ys"
proof -
  have "find_char c (rev ys @ c # rev xs) = Some (length (rev ys))"
    using that by (intro find_char_append) simp
  then show ?thesis by (simp add: find_last_char_def)
qed

lemma find_last_char_None: "c \<notin> set s \<Longrightarrow> find_last_char c s = None"
  by (simp add: find_last_char_def)

definition relative_time :: "bool \<Rightarrow> string \<Rightarrow> char \<Rightarrow> string" where
  "relative_time fwd ds u = ''\"now'' @ [if fwd then CHR ''+'' else CHR ''-''] @ ds @ [u, CHR 0x22]"

definition unit_of :: "char \<Rightarrow> u64" where
  "unit_of u = (if u = CHR ''h'' then 3600 * 1000000 else if u = CHR ''m'' then 60 * 1000000
                else if u = CHR ''s'' then 1000000 else 24 * 3600 * 1000000)"

lemma digit_not_unit: "list_all is_digit ds \<Longrightarrow> u \<in> set ''hmsd\"nowx+-'' \<Longrightarrow> u \<notin> set ds"
  by (auto simp: list_all_iff is_digit_def)

lemma unit_usec_relative:
  assumes ds: "list_all is_digit ds" and u: "u \<in> set ''hmsd''"
  shows "unit_usec (relative_time fwd ds u) = Some (unit_of u)"
proof -
  have pos: "has_unit u (relative_time fwd ds u)"
    using find_last_char_snoc[of u "[CHR 0x22]" "''\"now'' @ [if fwd then CHR ''+'' else CHR ''-''] @ ds"] u
    by (auto simp: has_unit_def relative_time_def)
  have neg: "\<not> has_unit v (relative_time fwd ds u)" if "v \<in> set ''hmsd''" "v \<noteq> u" for v
  proof -
    have "v \<notin> set (relative_time fwd ds u)"
      using that digit_not_unit[OF ds, of v] by (auto simp: relative_time_def)
    then show ?thesis by (simp add: has_unit_def find_last_char_None)
  qed
  show ?thesis using u pos neg by (auto simp: unit_usec_def unit_of_def)
qed

text \<open>
  Relative times. A time written \<open>"now+<digits><unit>"\<close> or \<open>"now-<digits><unit>"\<close> with unit h, m,
  s or d is read as the current time plus or minus that many units, in 64-bit microseconds.\<close>

theorem parse_time_relative:
  assumes "list_all is_digit ds" and "ds \<noteq> []" and "u \<in> set ''hmsd''" and "stringToInteger ds = Some n"
  shows "parse_time stringToInteger now (relative_time fwd ds u) =
         Ret (Some (if fwd then now + n * unit_of u else now - n * unit_of u))"
proof -
  let ?t = "relative_time fwd ds u"
  have "offset_text ?t = Ret ds" using assms(2)
    by (cases ds) (auto simp: offset_text_def relative_time_def substr_def substr_from_def)
  moreover have "substr ?t 1 3 = Ret ''now''" "substr ?t 1 4 = Ret (if fwd then ''now+'' else ''now-'')"
    by (simp_all add: substr_def relative_time_def)
  moreover have "?t \<noteq> ''\"now\"''" by (simp add: relative_time_def)
  ultimately show ?thesis using assms(4) unit_usec_relative[OF assms(1,3), of fwd]
    by (auto simp: parse_time_def)
qed

theorem parse_time_relative_witness:
  "parse_time (\<lambda>s. Some (strtoul s)) 7200000001 ''\"now-2h\"'' = Ret (Some 1)"
proof -
  have d: "strtoul ''2'' = 2"
    by (simp add: strtoul_def scan_int_def is_space_def is_digit_def digits_val_def digit_val_def)
  show ?thesis
    using parse_time_relative[of "''2''" "CHR ''h''" "\<lambda>s. Some (strtoul s)" 2 7200000001 False] d
    by (simp add: relative_time_def unit_of_def is_digit_def)
qed

text \<open>
  The range of a request stays within retention. Whatever times are asked for, the query ends no
  later than now and, for a retention shorter than the clock reading, starts no earlier than now minus
  the retention, also for field-name queries that extend the range backwards.\<close>

theorem init_times_within_retention:
  assumes "ttlmap (ttl_kind table) = Some ttl" and "init_times ttlmap now table req_from req_end = Ret (f, e)"
  shows "e \<le> now \<and> now - ttl * 3600000000 \<le> f \<and> (req_end \<le> now \<longrightarrow> e = req_end) \<and>
         (\<not> is_stat_fieldnames_table_query table \<longrightarrow> f = max req_from (now - ttl * 3600000000))"
proof -
  define m where "m = now - ttl * 3600000000"
  have m: "now - ttl * 60 * 60 * 1000000 = m" by (simp add: m_def)
  have "e \<le> now \<and> m \<le> f \<and> (req_end \<le> now \<longrightarrow> e = req_end) \<and>
      (\<not> is_stat_fieldnames_table_query table \<longrightarrow> f = max req_from m)"
    using assms(2) unfolding init_times_def assms(1) option.case m
    by (auto simp: Let_def max_def split: if_splits)
  then show ?thesis by (simp add: m_def)
qed

theorem init_times_within_retention_witness:
  "\<exists>f e. init_times (\<lambda>_. Some 1) 9000000000 ''MessageTable'' 1000 (-1) = Ret (f, e) \<and> e \<le> 9000000000 \<and> 5400000000 \<le> f"
proof -
  have "init_times (\<lambda>_. Some 1) 9000000000 ''MessageTable'' 1000 (-1) = Ret (5400000000, 9000000000)"
    by (simp add: init_times_def Let_def is_stat_fieldnames_table_query_def starts_with_def)
  with init_times_within_retention[of "\<lambda>_. Some 1" "''MessageTable''" 1 9000000000 1000 "-1" 5400000000 9000000000]
  show ?thesis by simp
qed

section \<open>Properties of slices and chunks\<close>

lemma unat_word_of_int:
  assumes "0 \<le> i" and "i < 2 ^ 64"
  shows "unat (word_of_int i :: u64) = nat i"
proof -
  have "uint (word_of_int i :: u64) = i"
    using assms by (simp add: uint_word_of_int)
  then show ?thesis by (metis nat_uint_eq)
qed

lemma compute_slice_range:
  assumes b: "0 < total_batches" "total_batches < 2 ^ 31" and m: "0 < max_slice" "max_slice < 2 ^ 31"
    and p: "unat period < 2 ^ 63" and run: "compute_slice max_slice total_batches period = Ret sl"
  shows "2 ^ 23 \<le> unat sl \<and> unat sl \<le> 2 ^ 23 * nat max_slice \<and>
         (unat sl < 2 ^ 23 * nat max_slice \<longrightarrow> unat period < unat sl * nat total_batches)"
proof -
  let ?b = "word_of_int total_batches :: u64" and ?smax = "word_of_int (8388608 * max_slice) :: u64"
  have ub: "unat ?b = nat total_batches" and us: "unat ?smax = 8388608 * nat max_slice"
    using b m unat_word_of_int[of total_batches] unat_word_of_int[of "8388608 * max_slice"]
    by (simp_all add: nat_mult_distrib)
  let ?s1 = "period div ?b + 1"
  have "unat period div nat total_batches \<le> unat period" by simp
  then have "unat period div nat total_batches < 2 ^ 63" using p by (rule le_less_trans)
  then have small: "unat period div nat total_batches + 1 < 2 ^ 64" by simp
  have u1: "unat ?s1 = unat period div nat total_batches + 1"
    using small by (simp add: unat_word_ariths unat_div ub)
  have "unat period < (unat period div nat total_batches + 1) * nat total_batches"
    using b(1) dividend_less_times_div[of "nat total_batches" "unat period"] by (simp add: algebra_simps)
  then have main: "unat period < unat ?s1 * nat total_batches" by (simp add: u1)
  have b0: "?b \<noteq> 0" using ub b(1) by (metis unat_0 zero_less_nat_eq less_irrefl)
  let ?s2 = "if ?s1 < 8388608 then 8388608 else ?s1"
  have sl: "sl = (if ?s2 > ?smax then ?smax else ?s2)"
    using run b0 unfolding compute_slice_def RowTimeInBits_def Let_def by (auto split: if_splits)
  have u2: "unat ?s2 = max 8388608 (unat ?s1)" by (simp add: word_less_nat_alt max_def)
  have usl: "unat sl = min (8388608 * nat max_slice) (max 8388608 (unat ?s1))"
    unfolding sl using u2 us by (simp add: word_less_nat_alt min_def)
  have "unat ?s1 * nat total_batches \<le> max 8388608 (unat ?s1) * nat total_batches" by (rule mult_le_mono1) simp
  with main have "unat period < max 8388608 (unat ?s1) * nat total_batches" by linarith
  moreover have "1 \<le> nat max_slice" using m by simp
  ultimately show ?thesis unfolding usl by (auto simp: min_def)
qed

text \<open>
  The slice is a multiple of work the column store can serve. With a sensible configuration
  (at least one batch, a positive slice limit within range) the slice is at least one row period and at
  most the configured number of row periods; below that limit the number of slices needed for the
  range does not exceed the number of batches.\<close>

theorem compute_slice_bounds:
  assumes b: "0 < total_batches" "total_batches < 2 ^ 31" and m: "0 < max_slice" "max_slice < 2 ^ 31"
    and p: "unat period < 2 ^ 63" and run: "compute_slice max_slice total_batches period = Ret sl"
  shows "2 ^ 23 \<le> unat sl \<and> unat sl \<le> 2 ^ 23 * nat max_slice \<and>
         (unat sl < 2 ^ 23 * nat max_slice \<longrightarrow> unat period < unat sl * nat total_batches)"
  using assms by (rule compute_slice_range)

theorem compute_slice_bounds_witness:
  "\<exists>sl. compute_slice 100 16 3600000000 = Ret sl \<and> 2 ^ 23 \<le> unat sl \<and> unat (3600000000 :: u64) < unat sl * 16"
proof -
  have r: "compute_slice 100 16 3600000000 = Ret 225000001"
    by (simp add: compute_slice_def RowTimeInBits_def)
  show ?thesis using compute_slice_bounds[OF _ _ _ _ _ r] r by simp
qed

text \<open>The chunk loop, in natural numbers, when nothing wraps: it ends, and its sizes are the slice
  except for a last, shorter one.\<close>

definition chunk_at :: "nat \<Rightarrow> nat \<Rightarrow> nat \<Rightarrow> nat" where
  "chunk_at sl len i = (if (i + 1) * sl \<le> len then sl else len - i * sl)"

lemma ceil_index:
  assumes "0 < sl"
  shows "j < (len + sl - 1) div sl \<longleftrightarrow> j * sl < (len :: nat)"
proof -
  have "j < (len + sl - 1) div sl \<longleftrightarrow> Suc j * sl \<le> len + sl - 1"
    using assms by (simp add: less_eq_Suc_le less_eq_div_iff_mult_less_eq)
  also have "\<dots> \<longleftrightarrow> j * sl < len" using assms by auto
  finally show ?thesis .
qed

lemma ceil_step:
  assumes "0 < sl" and "0 < (len :: nat)"
  shows "(len + sl - 1) div sl = Suc ((len - sl + sl - 1) div sl)"
proof (cases "sl \<le> len")
  case True
  then have "len + sl - 1 = (len - sl + sl - 1) + sl" using assms by simp
  then show ?thesis using assms(1) by (simp only: div_add_self2 neq0_conv Suc_eq_plus1)
next
  case False
  then have "(len + sl - 1) div sl = 1" using assms by (intro div_nat_eqI) auto
  then show ?thesis using False assms by simp
qed

lemma chunk_loop_returns:
  assumes "0 < unat sl" and "unat stop + unat sl < 2 ^ 64"
  shows "\<exists>cs. chunk_loop sl stop start = Some cs \<and>
     (let len = unat stop - unat start in
       length cs = (len + unat sl - 1) div unat sl \<and> (\<forall>i < length cs. unat (cs ! i) = chunk_at (unat sl) len i))"
proof (induction "unat stop - unat start" arbitrary: start rule: less_induct)
  case less
  show ?case
  proof (cases "start < stop")
    case False
    then have "unat stop - unat start = 0" by (simp add: word_less_nat_alt)
    with False assms(1) show ?thesis by (subst chunk_loop.simps) (simp add: Let_def)
  next
    case True
    let ?len = "unat stop - unat start" and ?len' = "unat stop - unat (start + sl)"
    from True have lt: "unat start < unat stop" by (simp add: word_less_nat_alt)
    have u: "unat (start + sl) = unat start + unat sl"
      using lt assms(2) by (intro unat_add_lem[THEN iffD1]) simp
    have "?len' < ?len" using lt u assms(1) by simp
    from less[OF this] obtain cs where cs: "chunk_loop sl stop (start + sl) = Some cs"
      and len: "length cs = (?len' + unat sl - 1) div unat sl"
      and nth: "\<forall>i < length cs. unat (cs ! i) = chunk_at (unat sl) ?len' i"
      by (auto simp: Let_def)
    let ?c = "if start + sl \<le> stop then sl else stop - start"
    have run: "chunk_loop sl stop start = Some (?c # cs)"
      using True cs by (subst chunk_loop.simps) simp
    have c0: "unat ?c = chunk_at (unat sl) ?len 0"
      using lt u by (auto simp: chunk_at_def word_le_nat_alt unat_sub)
    have l: "length (?c # cs) = (?len + unat sl - 1) div unat sl"
      using ceil_step[of "unat sl" ?len] len assms(1) lt u by simp
    have "unat ((?c # cs) ! i) = chunk_at (unat sl) ?len i" if "i < length (?c # cs)" for i
    proof (cases i)
      case 0
      then show ?thesis using c0 by simp
    next
      case (Suc j)
      with that have "j < length cs" by simp
      with nth have "unat (cs ! j) = chunk_at (unat sl) ?len' j" by simp
      moreover have "chunk_at (unat sl) ?len' j = chunk_at (unat sl) ?len (Suc j)"
      proof -
        have "j * unat sl < ?len'" using \<open>j < length cs\<close> unfolding len by (simp only: ceil_index[OF assms(1)])
        then show ?thesis using u lt by (auto simp: chunk_at_def)
      qed
      ultimately show ?thesis using Suc by simp
    qed
    with run l show ?thesis by (auto simp: Let_def)
  qed
qed

lemma chunk_loop_sum:
  assumes "0 < unat sl" and "unat stop + unat sl < 2 ^ 64"
  shows "chunk_loop sl stop start = Some cs \<Longrightarrow> sum_list (map unat cs) = unat stop - unat start"
proof (induction cs arbitrary: start)
  case Nil
  then have "\<not> start < stop" by (subst (asm) chunk_loop.simps) (auto split: if_splits bind_splits)
  then show ?case by (simp add: word_less_nat_alt)
next
  case (Cons c cs)
  then have lt: "start < stop" and rest: "chunk_loop sl stop (start + sl) = Some cs"
    and c: "c = (if start + sl \<le> stop then sl else stop - start)"
    by (subst (asm) (2) chunk_loop.simps, auto split: if_splits bind_splits)+
  have "unat (start + sl) = unat start + unat sl"
    using lt assms(2) by (intro unat_add_lem[THEN iffD1]) (simp add: word_less_nat_alt)
  with Cons.IH[OF rest] lt show ?case
    by (auto simp: c word_le_nat_alt word_less_nat_alt unat_sub)
qed

text \<open>
  C29: the chunk loop ends and partitions the range. For a positive slice, and away from the end of the
  64-bit range, the loop returns; the sizes add up to the length of the range, none exceeds the slice
  and none is zero, and there are as many as slices are needed.\<close>

theorem chunk_loop_partitions:
  assumes "0 < unat sl" and "unat stop + unat sl < 2 ^ 64"
  shows "\<exists>cs. chunk_loop sl stop start = Some cs \<and> sum_list (map unat cs) = unat stop - unat start \<and>
           length cs = (unat stop - unat start + unat sl - 1) div unat sl \<and>
           list_all (\<lambda>c. 0 < unat c \<and> unat c \<le> unat sl) cs"
proof -
  let ?len = "unat stop - unat start"
  from chunk_loop_returns[OF assms, of start] obtain cs where cs: "chunk_loop sl stop start = Some cs"
    and len: "length cs = (?len + unat sl - 1) div unat sl"
    and nth: "\<forall>i < length cs. unat (cs ! i) = chunk_at (unat sl) ?len i" by (auto simp: Let_def)
  have "0 < unat (cs ! i) \<and> unat (cs ! i) \<le> unat sl" if "i < length cs" for i
  proof -
    have "i * unat sl < ?len" using that unfolding len by (simp only: ceil_index[OF assms(1)])
    with nth that assms(1) show ?thesis by (auto simp: chunk_at_def)
  qed
  with cs len chunk_loop_sum[OF assms cs] show ?thesis by (auto simp: list_all_length)
qed

theorem chunk_loop_partitions_witness:
  "\<exists>cs. chunk_loop 10 25 1 = Some cs \<and> sum_list (map unat cs) = 24 \<and> length cs = 3"
  using chunk_loop_partitions[of 10 25 1] by auto

text \<open>The configuration and clock ranges the engine runs with: positive settings, times far from the end
  of the 64-bit range.\<close>

definition sane :: "int \<Rightarrow> int \<Rightarrow> u64 \<Rightarrow> u64 \<Rightarrow> bool" where
  "sane max_slice total_batches f e \<longleftrightarrow>
     0 < max_slice \<and> max_slice < 2 ^ 31 \<and> 0 < total_batches \<and> total_batches < 2 ^ 31 \<and>
     f < e \<and> unat e < 2 ^ 62"

lemma init_batch_slice:
  assumes s: "sane max_slice total_batches f e" and run: "init_batch max_slice total_batches i table f e = Ret b"
  shows "original_from_time b = f \<and> original_end_time b = e \<and> 0 < unat (time_slice b) \<and> unat (time_slice b) < 2 ^ 62 \<and>
         from_time b = f + time_slice b * word_of_int i \<and> processing_needed b = (from_time b < e) \<and>
         end_time b = (if from_time b \<ge> e then from_time b + time_slice b else min e (from_time b + time_slice b))"
proof -
  have fe: "\<not> f > e" using s by (auto simp: sane_def)
  have u: "unat (e - f) = unat e - unat f" using s by (auto simp: sane_def intro: unat_sub)
  obtain sl where sl: "(if can_parallelize_query table then compute_slice max_slice total_batches (e - f) else Ret (e - f)) = Ret sl"
    and b: "b = \<lparr>original_from_time = f, original_end_time = e, time_slice = sl, from_time = f + sl * word_of_int i,
        end_time = (if f + sl * word_of_int i \<ge> e then f + sl * word_of_int i + sl
                    else if f + sl * word_of_int i + sl > e then e else f + sl * word_of_int i + sl),
        processing_needed = f + sl * word_of_int i < e, parallelize_query = can_parallelize_query table\<rparr>"
    using run fe by (auto simp: init_batch_def Let_def bind_outcome_Ret_iff)
  have "0 < unat sl \<and> unat sl < 2 ^ 62"
  proof (cases "can_parallelize_query table")
    case True
    with sl have c: "compute_slice max_slice total_batches (e - f) = Ret sl" by simp
    have "unat e < 2 ^ 63" using s by (auto simp: sane_def)
    then have "unat (e - f) < 2 ^ 63" unfolding u by (rule le_less_trans[OF diff_le_self])
    from compute_slice_range[OF _ _ _ _ this c] s
    have "2 ^ 23 \<le> unat sl \<and> unat sl \<le> 2 ^ 23 * nat max_slice" by (simp add: sane_def)
    moreover have "nat max_slice < 2 ^ 31" using s by (simp add: sane_def nat_less_iff)
    ultimately show ?thesis by simp
  next
    case False
    with sl u s show ?thesis by (auto simp: sane_def word_less_nat_alt)
  qed
  then show ?thesis by (auto simp: b min_def)
qed

text \<open>The three quantities of a batch in natural numbers.\<close>

lemma batch_interval:
  assumes s: "sane max_slice total_batches f e" and run: "init_batch max_slice total_batches (int i) table f e = Ret b"
    and i: "i * unat (time_slice b) < unat e - unat f"
  shows "unat (from_time b) = unat f + i * unat (time_slice b)" and "processing_needed b"
    and "unat (end_time b) = min (unat e) (unat f + (i + 1) * unat (time_slice b))"
proof -
  note b = init_batch_slice[OF s run]
  let ?sl = "time_slice b"
  have e: "unat e < 2 ^ 62" using s by (simp add: sane_def)
  have lt: "unat f + i * unat ?sl < unat e" using i by simp
  have "i \<le> i * unat ?sl" using b by simp
  then have "i < 2 ^ 62" using lt e by linarith
  then have "unat (word_of_int (int i) :: u64) = i" by (simp add: unat_of_nat take_bit_nat_eq_self)
  then have m: "unat (?sl * word_of_int (int i)) = i * unat ?sl"
    using lt e by (subst unat_mult_lem[THEN iffD1]) (simp_all add: mult.commute)
  have "unat f + i * unat ?sl < 2 ^ 64" using lt e by simp
  then have "unat (f + ?sl * word_of_int (int i)) = unat f + i * unat ?sl"
    using m by (subst unat_add_lem[THEN iffD1]) simp_all
  then show frm: "unat (from_time b) = unat f + i * unat ?sl" using b by simp
  then have less: "from_time b < e" using lt by (simp add: word_less_nat_alt)
  then show "processing_needed b" using b by simp
  have "unat (from_time b) + unat ?sl < 2 ^ 64" using frm lt e b by simp
  then have "unat (from_time b + ?sl) = unat f + (i + 1) * unat ?sl"
    using frm by (subst unat_add_lem[THEN iffD1]) simp_all
  moreover have "end_time b = min e (from_time b + ?sl)" using b less by auto
  ultimately show "unat (end_time b) = min (unat e) (unat f + (i + 1) * unat ?sl)"
    by (simp add: min_def word_le_nat_alt)
qed

lemma same_slice:
  assumes "sane max_slice total_batches f e" and "init_batch max_slice total_batches i table f e = Ret b"
    and "init_batch max_slice total_batches j table f e = Ret c"
  shows "time_slice c = time_slice b"
  using assms(2,3) by (auto simp: init_batch_def Let_def bind_outcome_Ret_iff)

lemma batch_chunks:
  assumes s: "sane max_slice total_batches f e" and run: "init_batch max_slice total_batches i table f e = Ret b"
  shows "\<exists>cs. chunk_sizes b = Some cs \<and> length cs = (unat e - unat f + unat (time_slice b) - 1) div unat (time_slice b) \<and>
           (\<forall>j < length cs. j * unat (time_slice b) < unat e - unat f \<and> unat (cs ! j) = chunk_at (unat (time_slice b)) (unat e - unat f) j)"
proof -
  note b = init_batch_slice[OF s run]
  have "unat e + unat (time_slice b) < 2 ^ 64" using b s by (simp add: sane_def)
  from chunk_loop_returns[OF _ this, of f] b obtain cs where cs: "chunk_sizes b = Some cs"
    and len: "length cs = (unat e - unat f + unat (time_slice b) - 1) div unat (time_slice b)"
    and nth: "\<forall>j < length cs. unat (cs ! j) = chunk_at (unat (time_slice b)) (unat e - unat f) j"
    by (auto simp: Let_def chunk_sizes_def)
  have "j * unat (time_slice b) < unat e - unat f" if "j < length cs" for j
    using that b unfolding len by (simp only: ceil_index)
  with cs len nth show ?thesis by blast
qed

text \<open>
  The batches are the chunks. The chunk sizes a prepared query reports are the lengths of the time
  ranges its batches set up: batch \<open>i\<close> is active and spans exactly the \<open>i\<close>-th chunk, and every
  timestamp of the requested range falls into some batch.\<close>

theorem batches_are_chunks:
  assumes s: "sane max_slice total_batches f e" and run: "init_batch max_slice total_batches 0 table f e = Ret b"
    and cs: "chunk_sizes b = Some cs"
    and bs: "\<And>i. i < length cs \<Longrightarrow> init_batch max_slice total_batches (int i) table f e = Ret (bs i)"
  shows "(\<forall>i < length cs. processing_needed (bs i) \<and> unat (end_time (bs i)) = unat (from_time (bs i)) + unat (cs ! i)) \<and>
         (\<forall>t. f \<le> t \<and> t \<le> e \<longrightarrow> (\<exists>i < length cs. from_time (bs i) \<le> t \<and> t \<le> end_time (bs i)))"
proof -
  let ?sl = "unat (time_slice b)" and ?len = "unat e - unat f"
  from batch_chunks[OF s run] cs have len: "length cs = (?len + ?sl - 1) div ?sl"
    and nth: "\<And>j. j < length cs \<Longrightarrow> j * ?sl < ?len \<and> unat (cs ! j) = chunk_at ?sl ?len j" by auto
  have sl: "0 < ?sl" using init_batch_slice[OF s run] by simp
  have fe: "unat f < unat e" using s by (simp add: sane_def word_less_nat_alt)
  have iv: "processing_needed (bs i)" "unat (from_time (bs i)) = unat f + i * ?sl"
      "unat (end_time (bs i)) = min (unat e) (unat f + (i + 1) * ?sl)" if "i < length cs" for i
    using batch_interval[OF s bs[OF that]] nth[OF that] same_slice[OF s run bs[OF that]] by simp_all
  have "unat (end_time (bs i)) = unat (from_time (bs i)) + unat (cs ! i)" if "i < length cs" for i
    using iv[OF that] nth[OF that] fe by (auto simp: chunk_at_def min_def)
  moreover have "\<exists>i < length cs. from_time (bs i) \<le> t \<and> t \<le> end_time (bs i)" if t: "f \<le> t" "t \<le> e" for t
  proof -
    define d where "d = unat t - unat f"
    define i where "i = (if t = e then (?len - 1) div ?sl else d div ?sl)"
    have ft: "unat f \<le> unat t" "unat t \<le> unat e" using t by (simp_all add: word_le_nat_alt)
    have d: "t \<noteq> e \<Longrightarrow> d < ?len" using ft unfolding d_def by (simp add: word_unat_eq_iff)
    have "i * ?sl \<le> (if t = e then ?len - 1 else d)" by (simp add: i_def)
    then have lo: "i * ?sl < ?len" "i * ?sl \<le> d" using d fe by (auto simp: d_def split: if_splits)
    have hi: "d \<le> (i + 1) * ?sl"
    proof -
      have "x < (x div ?sl + 1) * ?sl" for x using sl dividend_less_times_div[of ?sl x] by (simp add: algebra_simps)
      from this[of "?len - 1"] this[of d] show ?thesis using fe by (auto simp: i_def d_def)
    qed
    from lo(1) have il: "i < length cs" unfolding len by (simp only: ceil_index[OF sl])
    have "from_time (bs i) \<le> t \<and> t \<le> end_time (bs i)"
      using iv(2,3)[OF il] lo(2) hi ft unfolding word_le_nat_alt d_def by auto
    with il show ?thesis by blast
  qed
  ultimately show ?thesis using iv(1) by blast
qed

definition sample_batch :: "int \<Rightarrow> batch" where
  "sample_batch i = the_ret (init_batch 100 16 i ''MessageTable'' 1000 20000000)"

lemma sample_batch_run: "init_batch 100 16 i ''MessageTable'' 1000 20000000 = Ret (sample_batch i)"
  by (simp add: sample_batch_def init_batch_def compute_slice_def can_parallelize_query_def Let_def)

lemma sample_sane: "sane 100 16 1000 20000000"
  by (simp add: sane_def)

theorem batches_are_chunks_witness:
  "\<exists>cs. chunk_sizes (sample_batch 0) = Some cs \<and> length cs = 3 \<and>
     (\<forall>i < length cs. processing_needed (sample_batch (int i)) \<and>
        unat (end_time (sample_batch (int i))) = unat (from_time (sample_batch (int i))) + unat (cs ! i))"
proof -
  have sl: "time_slice (sample_batch 0) = 8388608"
    by (simp add: sample_batch_def init_batch_def compute_slice_def can_parallelize_query_def Let_def RowTimeInBits_def)
  from batch_chunks[OF sample_sane sample_batch_run[of 0]] sl obtain cs where
    cs: "chunk_sizes (sample_batch 0) = Some cs" and "length cs = 3" by auto
  with batches_are_chunks[OF sample_sane sample_batch_run cs sample_batch_run] show ?thesis by blast
qed

end
