(* ===== verification/Db_Query.thy ===== *)
theory Db_Query
  imports Set_Operation Query_Time
begin

unbundle bit_operations_syntax

text \<open>
  \<open>db_query.cc\<close>: one database query of a WHERE clause (\<open>DbQueryUnit\<close>). \<open>populate_row_keys\<close>
  enumerates the rows of the time range; a pipeline of instances fetches them asynchronously
  (\<open>QueryExec\<close>, \<open>PipelineCb\<close>, \<open>cb\<close>), \<open>QueryMerge\<close> concatenates what the instances collected and
  \<open>WPCompleteCb\<close> sorts it. The rows the column store returns are an argument; the pipeline is a step
  relation in which the instances and the responses of the store interleave arbitrarily. \<open>vector::at\<close>
  out of range and a failed \<open>boost::get\<close> are \<open>Abort\<close>.
\<close>

section \<open>Timestamps\<close>

definition RowTimeInMask :: u32 where "RowTimeInMask = 0x7fffff"

text \<open>\<open>TIMESTAMP_FROM_T2T1\<close> and the two parts the writers store.\<close>

definition timestamp_from_t2t1 :: "u32 \<Rightarrow> u32 \<Rightarrow> u64" where
  "timestamp_from_t2t1 t2 t1 = push_bit RowTimeInBits (ucast t2) OR ucast (t1 AND RowTimeInMask)"

definition t2_of :: "u64 \<Rightarrow> u32" where
  "t2_of ts = ucast (drop_bit RowTimeInBits ts)"

definition t1_of :: "u64 \<Rightarrow> u32" where
  "t1_of ts = ucast ts AND RowTimeInMask"

section \<open>The query unit\<close>

type_synonym 'd WhereIndexInfo = "string \<times> gendb_op \<times> 'd DbDataValue"
type_synonym 'd rowkey = "'d DbDataValue list"
type_synonym 'd column = "'d DbDataValue list \<times> 'd DbDataValue list"

text \<open>What the unit reads of its main query.\<close>

record main_query =
  mq_table :: string
  mq_from_time :: u64
  mq_end_time :: u64
  unroll_needed :: bool

record 'd DbQueryUnit =
  cfname :: string
  cr_start :: "'d DbDataValue list"
  cr_finish :: "'d DbDataValue list"
  where_vec :: "'d WhereIndexInfo list"
  row_key_suffix :: "'d DbDataValue list"
  t_only_col :: bool
  t_only_row :: bool

definition new_DbQueryUnit :: "'d DbQueryUnit" where
  "new_DbQueryUnit = \<lparr>cfname = [], cr_start = [], cr_finish = [], where_vec = [], row_key_suffix = [],
     t_only_col = False, t_only_row = False\<rparr>"

section \<open>Row keys\<close>

definition partitions :: "u8 list" where
  "partitions = map of_nat [PARTITION_MIN..<PARTITION_MAX + 1]"

definition keys_of_t2 :: "main_query \<Rightarrow> 'd DbQueryUnit \<Rightarrow> u32 \<Rightarrow> 'd rowkey list" where
  "keys_of_t2 mq q t2 =
     (let table = mq_table mq;
          rowkey = DbU32 t2 # (if is_stat_table_query table then [DbU8 0] else [])
      in if is_flow_query table
         then concat (map (\<lambda>part_no. concat (map (\<lambda>is_si.
                map (\<lambda>sfx. rowkey @ [DbU8 part_no, DbU8 is_si, sfx]) (row_key_suffix q)) [0, 1])) partitions)
         else if is_session_query table
         then map (\<lambda>part_no. rowkey @ DbU8 part_no # row_key_suffix q) partitions
         else let rowkey' = rowkey @ (if t_only_row q then [] else row_key_suffix q)
              in if t_only_col q then map (\<lambda>part_no. rowkey' @ [DbU8 part_no]) partitions else [rowkey'])"

text \<open>\<open>for (uint32_t t2 = t2_start; t2 <= t2_end; t2++)\<close>: does not end when \<open>t2_end\<close> is the largest
  32-bit number.\<close>

partial_function (option) t2_loop :: "u32 \<Rightarrow> u32 \<Rightarrow> u32 list option" where
  "t2_loop t2 t2_end =
     (if t2 \<le> t2_end then Option.bind (t2_loop (t2 + 1) t2_end) (\<lambda>r. Some (t2 # r)) else Some [])"

definition set_column_range :: "main_query \<Rightarrow> 'd DbQueryUnit \<Rightarrow> 'd DbQueryUnit" where
  "set_column_range mq q =
     (let q1 = (if is_object_table_query (mq_table mq) then q\<lparr>cr_start := cr_start q @ [DbU32 0x80000000]\<rparr> else q)
      in q1\<lparr>cr_finish := cr_finish q1 @ [DbU32 0x7fffffff]\<rparr>)"

definition populate_row_keys :: "main_query \<Rightarrow> 'd DbQueryUnit \<Rightarrow> ('d DbQueryUnit \<times> 'd rowkey list) option" where
  "populate_row_keys mq q =
     Option.bind (t2_loop (t2_of (mq_from_time mq)) (t2_of (mq_end_time mq)))
       (\<lambda>t2s. Some (set_column_range mq q, concat (map (keys_of_t2 mq q) t2s)))"

section \<open>One row\<close>

definition vec_at :: "'a list \<Rightarrow> nat \<Rightarrow> 'a outcome" where
  "vec_at xs i = (if i < length xs then Ret (xs ! i) else Abort)"

text \<open>\<open>xs.at(xs.size() - n)\<close>: the index wraps when the vector is shorter.\<close>

definition vec_at_end :: "'a list \<Rightarrow> nat \<Rightarrow> 'a outcome" where
  "vec_at_end xs n = (if n \<le> length xs \<and> 0 < n then Ret (xs ! (length xs - n)) else Abort)"

definition get_u32 :: "'d DbDataValue \<Rightarrow> u32 outcome" where
  "get_u32 v = (case v of DbU32 n \<Rightarrow> Ret n | _ \<Rightarrow> Abort)"

definition get_u8 :: "'d DbDataValue \<Rightarrow> u8 outcome" where
  "get_u8 v = (case v of DbU8 n \<Rightarrow> Ret n | _ \<Rightarrow> Abort)"

definition get_uuid_value :: "'d DbDataValue \<Rightarrow> u8 list outcome" where
  "get_uuid_value v = (case v of DbUuid u \<Rightarrow> Ret u | _ \<Rightarrow> Abort)"

definition get_string :: "'d DbDataValue \<Rightarrow> string outcome" where
  "get_string v = (case v of DbString s \<Rightarrow> Ret s | _ \<Rightarrow> Abort)"

text \<open>\<open>PipelineCb\<close>: the secondary-index values are stored with the T2 of their row in front, except
  for values that start with a wildcard. \<open>to_string\<close> is \<open>GenDb::DbDataValueToString\<close>.\<close>

definition prefix_where_vec :: "('d DbDataValue \<Rightarrow> string) \<Rightarrow> 'd rowkey \<Rightarrow> 'd WhereIndexInfo list \<Rightarrow> 'd WhereIndexInfo list outcome" where
  "prefix_where_vec to_string rowkey wv =
     bind_outcome (vec_at rowkey 0) (\<lambda>k. Ret (map (\<lambda>(c, op, v).
       let s = to_string v
       in if starts_with s ''%'' then (c, op, v) else (c, op, DbString (to_string k @ '':'' @ s))) wv))"

definition message_table_order :: "nat list" where
  "message_table_order = [10, 11, 12, 13, 14, 15, 16, 0, 1, 2, 3, 4, 5, 6, 7, 8, 9, 17]"

fun map_outcome :: "('a \<Rightarrow> 'b outcome) \<Rightarrow> 'a list \<Rightarrow> 'b list outcome" where
  "map_outcome f [] = Ret []"
| "map_outcome f (x # xs) = bind_outcome (f x) (\<lambda>y. bind_outcome (map_outcome f xs) (\<lambda>ys. Ret (y # ys)))"

definition message_table_query_get_row :: "'d rowkey \<Rightarrow> 'd column \<Rightarrow> 'd DbDataValue list outcome" where
  "message_table_query_get_row key col =
     bind_outcome (map_outcome (vec_at key) [0, 1]) (\<lambda>ks.
       bind_outcome (map_outcome (vec_at (fst col)) [0, 1]) (\<lambda>ns.
         bind_outcome (map_outcome (vec_at (snd col)) message_table_order) (\<lambda>vs. Ret (ks @ ns @ vs))))"

definition column_t1 :: "main_query \<Rightarrow> 'd DbQueryUnit \<Rightarrow> 'd column \<Rightarrow> u32 outcome" where
  "column_t1 mq q col =
     (let table = mq_table mq
      in bind_outcome
           (if is_stat_table_query table then vec_at_end (fst col) 2
            else if is_session_query table \<or> is_flow_query table then vec_at (fst col) 2
            else if t_only_col q then vec_at_end (fst col) 2
            else vec_at_end (fst col) 1)
           get_u32)"

definition time_in_range :: "main_query \<Rightarrow> u64 \<Rightarrow> bool" where
  "time_in_range mq ts \<longleftrightarrow> \<not> (ts < mq_from_time mq \<or> ts > mq_end_time mq)"

definition session_info :: "main_query \<Rightarrow> u8 \<Rightarrow> u8 \<Rightarrow> 'd column \<Rightarrow> 'd DbDataValue list outcome" where
  "session_info mq is_si session_type col =
     bind_outcome (map_outcome (vec_at (fst col)) [0, 1, 2, 3]) (\<lambda>ns.
       if unroll_needed mq then Ret ([DbU8 is_si, DbU8 session_type] @ ns @ snd col)
       else if snd col = [] then Abort
       else Ret ([DbU8 is_si, DbU8 session_type] @ ns @ butlast (snd col)))"

definition column_info :: "main_query \<Rightarrow> 'd DbQueryUnit \<Rightarrow> 'd rowkey \<Rightarrow> u8 \<Rightarrow> u8 \<Rightarrow> 'd column \<Rightarrow> 'd DbDataValue list outcome" where
  "column_info mq q key is_si session_type col =
     (if is_stat_table_query (mq_table mq)
      then bind_outcome (bind_outcome (vec_at_end (fst col) 1) get_uuid_value) (\<lambda>uuid.
             bind_outcome (bind_outcome (vec_at_end (snd col) 1) get_string) (\<lambda>attribstr.
               Ret [DbString attribstr, DbUuid uuid]))
      else if is_session_query (mq_table mq) \<or> is_flow_query (mq_table mq)
      then session_info mq is_si session_type col
      else if t_only_col q then message_table_query_get_row key col
      else Ret (snd col))"

definition add_column ::
    "main_query \<Rightarrow> 'd DbQueryUnit \<Rightarrow> 'd rowkey \<Rightarrow> u32 \<Rightarrow> u8 \<Rightarrow> u8 \<Rightarrow> 'd DbDataValue WhereResultT \<Rightarrow> 'd column \<Rightarrow>
     'd DbDataValue WhereResultT outcome" where
  "add_column mq q key t2 is_si session_type res col =
     bind_outcome (column_t1 mq q col) (\<lambda>t1.
       let ts = timestamp_from_t2t1 t2 t1
       in if \<not> time_in_range mq ts then Ret res
          else bind_outcome (column_info mq q key is_si session_type col)
                 (\<lambda>i. Ret (res @ [\<lparr>timestamp = ts, info = i\<rparr>])))"

text \<open>\<open>cb\<close>, the response to one row: \<open>None\<close> is a failed read. The result is whether the read
  failed and the units of the row.\<close>

definition cb :: "main_query \<Rightarrow> 'd DbQueryUnit \<Rightarrow> 'd rowkey \<Rightarrow> 'd column list option \<Rightarrow> (bool \<times> 'd DbDataValue WhereResultT) outcome" where
  "cb mq q key response =
     bind_outcome (bind_outcome (vec_at key 0) get_u32) (\<lambda>t2.
       bind_outcome
         (if is_session_query (mq_table mq) \<or> is_flow_query (mq_table mq)
          then bind_outcome (bind_outcome (vec_at key 3) get_u8) (\<lambda>st.
                 bind_outcome (bind_outcome (vec_at key 2) get_u8) (\<lambda>si. Ret (si, st)))
          else Ret (0, 0))
         (\<lambda>(is_si, session_type).
            case response of
              None \<Rightarrow> Ret (True, [])
            | Some cols \<Rightarrow>
                bind_outcome (foldl_outcome (add_column mq q key t2 is_si session_type) [] cols)
                  (\<lambda>res. Ret (False, res))))"

section \<open>The fetch pipeline\<close>

text \<open>
  One instance of the pipeline: not yet called, waiting for the row it asked for, holding the response
  to it, or done; with the results it has collected. The shared state is the row counter and the error
  flag. \<open>QueryExec\<close> is the code run when an instance is called: \<open>prev\<close> is \<open>exts[step-1]\<close> when
  \<open>step > 0\<close>. The row counter is a natural number: it never exceeds the number of keys plus the
  number of instances.
\<close>

datatype 'u phase = Start | Waiting nat | Responded nat 'u | Finished

record 'u fetch_state =
  row_count :: nat
  query_fetch_error :: bool
  phases :: "'u list phase list"
  collected :: "'u list list"

definition QueryExec :: "nat \<Rightarrow> nat \<Rightarrow> 'u list option \<Rightarrow> 'u fetch_state \<Rightarrow> 'u fetch_state" where
  "QueryExec total_rows i prev s =
     (if query_fetch_error s then s\<lparr>phases := (phases s)[i := Finished]\<rparr>
      else let coll = (case prev of None \<Rightarrow> collected s | Some r \<Rightarrow> (collected s)[i := collected s ! i @ r]);
               current_row = row_count s
           in s\<lparr>row_count := Suc current_row, collected := coll,
                phases := (phases s)[i := if current_row < total_rows then Waiting current_row else Finished]\<rparr>)"

text \<open>The response to row \<open>r\<close> is \<open>fetch r\<close>: whether the read failed, and its units.\<close>

inductive pipe_step :: "(nat \<Rightarrow> bool \<times> 'u list) \<Rightarrow> nat \<Rightarrow> 'u fetch_state \<Rightarrow> 'u fetch_state \<Rightarrow> bool"
  for fetch :: "nat \<Rightarrow> bool \<times> 'u list" and nrows :: nat where
  start: "\<lbrakk>i < length (phases s); phases s ! i = Start\<rbrakk> \<Longrightarrow> pipe_step fetch nrows s (QueryExec nrows i None s)"
| respond: "\<lbrakk>i < length (phases s); phases s ! i = Waiting r; fetch r = (failed, us)\<rbrakk> \<Longrightarrow>
     pipe_step fetch nrows s (s\<lparr>phases := (phases s)[i := Responded r us],
                                query_fetch_error := query_fetch_error s \<or> failed\<rparr>)"
| next_row: "\<lbrakk>i < length (phases s); phases s ! i = Responded r us\<rbrakk> \<Longrightarrow>
     pipe_step fetch nrows s (QueryExec nrows i (Some us) s)"

definition initial_fetch :: "nat \<Rightarrow> 'u fetch_state" where
  "initial_fetch n = \<lparr>row_count = 0, query_fetch_error = False, phases = replicate n Start, collected = replicate n []\<rparr>"

definition finished :: "'u fetch_state \<Rightarrow> bool" where
  "finished s \<longleftrightarrow> list_all (\<lambda>p. case p of Finished \<Rightarrow> True | _ \<Rightarrow> False) (phases s)"

definition QueryMerge :: "'u fetch_state \<Rightarrow> 'u list" where
  "QueryMerge s = concat (collected s)"

text \<open>\<open>process_query\<close>: the keys, and the pipeline started on them with one instance per key.\<close>

definition start_db_query :: "main_query \<Rightarrow> 'd DbQueryUnit \<Rightarrow> ('d DbQueryUnit \<times> 'd rowkey list \<times> 'u fetch_state) option" where
  "start_db_query mq q =
     Option.bind (populate_row_keys mq q) (\<lambda>(q', keys). Some (q', keys, initial_fetch (length keys)))"

text \<open>\<open>WPCompleteCb\<close>: the sorted result and the status.\<close>

definition WPCompleteCb :: "bool \<Rightarrow> 'v::linorder query_result_unit_t fetch_state \<Rightarrow> 'v WhereResultT \<times> bool" where
  "WPCompleteCb ret_code s =
     (std_sort query_result_unit_lt (QueryMerge s), ret_code \<and> \<not> query_fetch_error s)"

section \<open>Properties of keys and rows\<close>

text \<open>The two parts of a timestamp below 2^55 microseconds determine it.\<close>

lemma timestamp_from_parts:
  assumes "ts < 2 ^ 55"
  shows "timestamp_from_t2t1 (t2_of ts) (t1_of ts) = ts"
proof (rule bit_word_eqI)
  fix n assume n: "n < LENGTH(64)"
  have hi: "\<not> bit ts m" if "55 \<le> m" for m
  proof
    assume "bit ts m"
    then have "m < 64" using bit_imp_le_length by fastforce
    have "unat ts < 2 ^ 55" using assms by (simp add: word_less_nat_alt)
    then have "take_bit 55 ts = ts"
      by (simp add: word_unat_eq_iff unsigned_take_bit_eq take_bit_nat_eq_self)
    then show False using \<open>bit ts m\<close> that by (metis bit_take_bit_iff not_less)
  qed
  have mask: "RowTimeInMask = mask 23" by (simp add: RowTimeInMask_def mask_eq_exp_minus_1)
  show "bit (timestamp_from_t2t1 (t2_of ts) (t1_of ts)) n \<longleftrightarrow> bit ts n"
    using n hi[of n] by (cases "55 \<le> n") (auto simp: timestamp_from_t2t1_def t2_of_def t1_of_def RowTimeInBits_def mask bit_simps not_less)
qed

text \<open>
  Splitting and joining a timestamp. The T2 and T1 parts of a timestamp below 2^55 microseconds are
  put back together by \<open>TIMESTAMP_FROM_T2T1\<close>.\<close>

theorem timestamp_roundtrip:
  assumes "ts < 2 ^ 55"
  shows "timestamp_from_t2t1 (t2_of ts) (t1_of ts) = ts"
  by (rule timestamp_from_parts[OF assms])

theorem timestamp_roundtrip_witness:
  "timestamp_from_t2t1 (t2_of 1500000000000000) (t1_of 1500000000000000) = 1500000000000000"
  using timestamp_roundtrip[of 1500000000000000] by simp

lemma t2_loop_returns:
  assumes "unat t2_end < 2 ^ 32 - 1"
  shows "t2_loop t2 t2_end = Some (map of_nat [unat t2..<unat t2_end + 1])"
proof (induction "unat t2_end + 1 - unat t2" arbitrary: t2)
  case 0
  then have "\<not> t2 \<le> t2_end" by (simp add: word_le_nat_alt)
  with 0 show ?case by (subst t2_loop.simps) simp
next
  case (Suc n)
  then have le: "unat t2 \<le> unat t2_end" by simp
  then have u: "unat (t2 + 1) = unat t2 + 1"
    using assms by (subst unat_add_lem[THEN iffD1]) simp_all
  with Suc(1)[of "t2 + 1"] Suc(2) have "t2_loop (t2 + 1) t2_end = Some (map of_nat [unat t2 + 1..<unat t2_end + 1])"
    by simp
  moreover have "[unat t2..<unat t2_end + 1] = unat t2 # [unat t2 + 1..<unat t2_end + 1]"
    using le by (simp add: upt_rec)
  ultimately show ?case using le by (subst t2_loop.simps) (simp add: word_le_nat_alt)
qed

lemma unat_u32: "n < 2 ^ 32 \<Longrightarrow> unat (of_nat n :: u32) = n"
  by (simp add: unat_of_nat take_bit_nat_eq_self)

lemma t2_of_nat:
  assumes "ts < 2 ^ 55"
  shows "unat (t2_of ts) = unat ts div 2 ^ 23"
proof -
  have "unat ts < 2 ^ 55" using assms by (simp add: word_less_nat_alt)
  then have "unat ts div 2 ^ 23 < 2 ^ 32" by (simp add: div_less_iff_less_mult)
  then show ?thesis
    by (simp add: t2_of_def RowTimeInBits_def unsigned_ucast_eq unsigned_take_bit_eq unsigned_drop_bit_eq
      drop_bit_eq_div unat_div take_bit_nat_eq_self)
qed

lemma t2_loop_set:
  assumes "mq_end_time mq < 2 ^ 55 - 2 ^ 23"
  shows "\<exists>t2s. t2_loop (t2_of (mq_from_time mq)) (t2_of (mq_end_time mq)) = Some t2s \<and>
     set t2s = {t2. t2_of (mq_from_time mq) \<le> t2 \<and> t2 \<le> t2_of (mq_end_time mq)} \<and> distinct t2s"
proof -
  let ?a = "t2_of (mq_from_time mq)" and ?b = "t2_of (mq_end_time mq)"
  have e: "unat (mq_end_time mq) < 2 ^ 55 - 2 ^ 23" using assms by (simp add: word_less_nat_alt)
  then have "mq_end_time mq < 2 ^ 55" by (simp add: word_less_nat_alt)
  from t2_of_nat[OF this] e have b: "unat ?b < 2 ^ 32 - 1" by (simp add: div_less_iff_less_mult)
  have inj: "inj_on (of_nat :: nat \<Rightarrow> u32) {unat ?a..<unat ?b + 1}"
  proof (rule inj_onI)
    fix x y assume "x \<in> {unat ?a..<unat ?b + 1}" "y \<in> {unat ?a..<unat ?b + 1}" "(of_nat x :: u32) = of_nat y"
    moreover from this(1,2) b have "x < 2 ^ 32" "y < 2 ^ 32" by simp_all
    ultimately show "x = y" using unat_u32 by metis
  qed
  have "(of_nat :: nat \<Rightarrow> u32) ` {unat ?a..<unat ?b + 1} = {t2. ?a \<le> t2 \<and> t2 \<le> ?b}"
  proof (intro set_eqI iffI)
    fix t :: u32 assume "t \<in> {t2. ?a \<le> t2 \<and> t2 \<le> ?b}"
    then have "unat t \<in> {unat ?a..<unat ?b + 1}" by (simp add: word_le_nat_alt)
    moreover have "of_nat (unat t) = t" by simp
    ultimately show "t \<in> of_nat ` {unat ?a..<unat ?b + 1}" by (metis imageI)
  next
    fix t :: u32 assume "t \<in> of_nat ` {unat ?a..<unat ?b + 1}"
    then obtain n where n: "t = of_nat n" "unat ?a \<le> n" "n \<le> unat ?b" by auto
    then have "unat t = n" using b unat_u32[of n] by simp
    then show "t \<in> {t2. ?a \<le> t2 \<and> t2 \<le> ?b}" using n by (simp add: word_le_nat_alt)
  qed
  with t2_loop_returns[OF b, of ?a] inj show ?thesis
    by (auto simp: distinct_map simp del: upt_Suc)
qed

lemma populate_row_keys_set:
  assumes "mq_end_time mq < 2 ^ 55 - 2 ^ 23"
  shows "\<exists>keys. populate_row_keys mq q = Some (set_column_range mq q, keys) \<and>
     set keys = (\<Union>t2 \<in> {t2. t2_of (mq_from_time mq) \<le> t2 \<and> t2 \<le> t2_of (mq_end_time mq)}. set (keys_of_t2 mq q t2)) \<and>
     (\<forall>ts. time_in_range mq ts \<longrightarrow> set (keys_of_t2 mq q (t2_of ts)) \<subseteq> set keys)"
proof -
  from t2_loop_set[OF assms] obtain t2s where
    run: "t2_loop (t2_of (mq_from_time mq)) (t2_of (mq_end_time mq)) = Some t2s"
    and set_t2s: "set t2s = {t2. t2_of (mq_from_time mq) \<le> t2 \<and> t2 \<le> t2_of (mq_end_time mq)}" by auto
  have "t2_of ts \<in> set t2s" if "time_in_range mq ts" for ts
  proof -
    from that have r: "mq_from_time mq \<le> ts" "ts \<le> mq_end_time mq" by (auto simp: time_in_range_def)
    moreover have e: "mq_end_time mq < 2 ^ 55" using assms by (simp add: word_less_nat_alt)
    ultimately have "ts < 2 ^ 55" "mq_from_time mq < 2 ^ 55" by auto
    with r e show ?thesis unfolding set_t2s
      by (auto simp: word_le_nat_alt t2_of_nat intro: div_le_mono)
  qed
  then show ?thesis using run set_t2s by (auto simp: populate_row_keys_def)
qed

text \<open>
  The row keys cover the time range. For times away from the end of the 32-bit row counter the
  enumeration ends, and its keys are exactly the keys of the rows from the one that holds the start to
  the one that holds the end; in particular the row of every timestamp in the range is asked for.\<close>

theorem row_keys_cover:
  assumes "mq_end_time mq < 2 ^ 55 - 2 ^ 23"
  shows "\<exists>keys. populate_row_keys mq q = Some (set_column_range mq q, keys) \<and>
     set keys = (\<Union>t2 \<in> {t2. t2_of (mq_from_time mq) \<le> t2 \<and> t2 \<le> t2_of (mq_end_time mq)}. set (keys_of_t2 mq q t2)) \<and>
     (\<forall>ts. time_in_range mq ts \<longrightarrow> set (keys_of_t2 mq q (t2_of ts)) \<subseteq> set keys)"
  by (rule populate_row_keys_set[OF assms])

theorem row_keys_cover_witness:
  "\<exists>keys. populate_row_keys \<lparr>mq_table = ''MessageTable'', mq_from_time = 1000, mq_end_time = 9000000, unroll_needed = False\<rparr>
      (new_DbQueryUnit :: nat DbQueryUnit) = Some (set_column_range \<lparr>mq_table = ''MessageTable'', mq_from_time = 1000, mq_end_time = 9000000, unroll_needed = False\<rparr> new_DbQueryUnit, keys)"
  using row_keys_cover[of "\<lparr>mq_table = ''MessageTable'', mq_from_time = 1000, mq_end_time = 9000000, unroll_needed = False\<rparr>" "new_DbQueryUnit"]
  by auto

section \<open>Properties of one row\<close>

lemma add_columns:
  assumes "foldl_outcome (add_column mq q key t2 si st) acc cols = Ret res"
  defines "ts \<equiv> \<lambda>c. timestamp_from_t2t1 t2 (the_ret (column_t1 mq q c))"
  shows "res = acc @ map (\<lambda>c. \<lparr>timestamp = ts c, info = the_ret (column_info mq q key si st c)\<rparr>)
                   (filter (\<lambda>c. time_in_range mq (ts c)) cols)"
  using assms(1)
proof (induction cols arbitrary: acc)
  case (Cons c cols)
  then obtain acc' where a: "add_column mq q key t2 si st acc c = Ret acc'"
    and rest: "foldl_outcome (add_column mq q key t2 si st) acc' cols = Ret res"
    by (auto simp: bind_outcome_Ret_iff)
  from a have "acc' = acc @ map (\<lambda>c. \<lparr>timestamp = ts c, info = the_ret (column_info mq q key si st c)\<rparr>)
                   (filter (\<lambda>c. time_in_range mq (ts c)) [c])"
    by (auto simp: add_column_def bind_outcome_Ret_iff Let_def ts_def split: if_splits)
  with Cons.IH[OF rest] show ?case by simp
qed simp

text \<open>
  A row yields exactly its columns within the time range. When a row has been read, its units are
  those of the columns whose full timestamp lies in the query's range, both ends included, in the order
  of the columns; a failed read yields no unit and raises the error flag.\<close>

theorem cb_exact:
  assumes "cb mq q key response = Ret (failed, res)"
  shows "failed = (response = None) \<and>
     (\<exists>t2 si st. vec_at key 0 = Ret (DbU32 t2) \<and>
        (let ts = (\<lambda>c. timestamp_from_t2t1 t2 (the_ret (column_t1 mq q c)))
         in res = map (\<lambda>c. \<lparr>timestamp = ts c, info = the_ret (column_info mq q key si st c)\<rparr>)
                    (filter (\<lambda>c. mq_from_time mq \<le> ts c \<and> ts c \<le> mq_end_time mq) (case response of None \<Rightarrow> [] | Some cols \<Rightarrow> cols))))"
proof -
  from assms obtain v t2 si st where k: "vec_at key 0 = Ret v" "get_u32 v = Ret t2"
    and r: "(case response of None \<Rightarrow> Ret (True, [])
            | Some cols \<Rightarrow> bind_outcome (foldl_outcome (add_column mq q key t2 si st) [] cols) (\<lambda>res. Ret (False, res)))
            = Ret (failed, res)"
    by (auto simp: cb_def bind_outcome_Ret_iff)
  have v: "v = DbU32 t2" using k(2) by (auto simp: get_u32_def split: DbDataValue.splits)
  have range: "time_in_range mq t \<longleftrightarrow> mq_from_time mq \<le> t \<and> t \<le> mq_end_time mq" for t
    by (auto simp: time_in_range_def)
  show ?thesis
  proof (cases response)
    case None
    with r k(1) v show ?thesis by auto
  next
    case (Some cols)
    with r have f: "\<not> failed" and run: "foldl_outcome (add_column mq q key t2 si st) [] cols = Ret res"
      by (auto simp: bind_outcome_Ret_iff)
    show ?thesis
      by (rule conjI, simp add: f Some, rule exI[of _ t2], rule exI[of _ si], rule exI[of _ st])
        (use add_columns[OF run] k(1) v in \<open>simp add: Some Let_def range\<close>)
  qed
qed

theorem cb_exact_witness:
  "\<exists>res. cb \<lparr>mq_table = ''MessageTable'', mq_from_time = 5, mq_end_time = 10, unroll_needed = False\<rparr> new_DbQueryUnit
     [DbU32 0] (Some [([DbU32 7], [DbString ''a'']), ([DbU32 11], [DbString ''b''])]) = Ret (False, res) \<and>
     map timestamp res = [7] \<and> map info res = [[DbString ''a'' :: nat DbDataValue]]"
proof -
  let ?mq = "\<lparr>mq_table = ''MessageTable'', mq_from_time = 5, mq_end_time = 10, unroll_needed = False\<rparr>"
  let ?cols = "[([DbU32 7], [DbString ''a'']), ([DbU32 11], [DbString ''b''])] :: nat column list"
  have r: "cb ?mq new_DbQueryUnit [DbU32 0] (Some ?cols) = Ret (False, [\<lparr>timestamp = 7, info = [DbString ''a'']\<rparr>])"
    by (simp add: cb_def vec_at_def get_u32_def add_column_def column_t1_def vec_at_end_def column_info_def
      new_DbQueryUnit_def table_defs time_in_range_def timestamp_from_t2t1_def RowTimeInMask_def)
  from cb_exact[OF r] r show ?thesis by auto
qed

text \<open>
  A timestamp on a chunk boundary is read twice. The end of each batch is the start of the next one
  and the range test of \<open>cb\<close> includes both ends, so a row stamped exactly at the boundary is part of
  the result of both batches.\<close>

theorem boundary_in_two_batches:
  assumes s: "sane max_slice total_batches f e" and run: "init_batch max_slice total_batches (int i) table f e = Ret b"
    and run': "init_batch max_slice total_batches (int (Suc i)) table f e = Ret b'" and act: "Suc i * unat (time_slice b) < unat e - unat f"
    and mq: "mq_from_time mq = from_time b" "mq_end_time mq = end_time b"
    and mq': "mq_from_time mq' = from_time b'" "mq_end_time mq' = end_time b'"
  shows "time_in_range mq (end_time b) \<and> time_in_range mq' (end_time b)"
proof -
  have sl: "time_slice b' = time_slice b" using same_slice[OF s run run'] by simp
  have act0: "i * unat (time_slice b) < unat e - unat f" using act by simp
  note iv = batch_interval[OF s run act0] and iv' = batch_interval[OF s run' act[folded sl]]
  have "unat (end_time b) = unat f + (i + 1) * unat (time_slice b)" using iv(3) act by simp
  then have "unat (end_time b) = unat (from_time b')" using iv'(1) sl by simp
  then have eq: "end_time b = from_time b'" by (simp add: word_unat_eq_iff)
  have "from_time b \<le> end_time b" using iv act by (simp add: word_le_nat_alt)
  moreover have "from_time b' \<le> end_time b'" using iv' act sl by (simp add: word_le_nat_alt)
  ultimately show ?thesis using mq mq' eq by (auto simp: time_in_range_def)
qed

theorem boundary_in_two_batches_witness:
  "time_in_range \<lparr>mq_table = ''MessageTable'', mq_from_time = from_time (sample_batch 0), mq_end_time = end_time (sample_batch 0), unroll_needed = False\<rparr> (end_time (sample_batch 0)) \<and>
   time_in_range \<lparr>mq_table = ''MessageTable'', mq_from_time = from_time (sample_batch 1), mq_end_time = end_time (sample_batch 1), unroll_needed = False\<rparr> (end_time (sample_batch 0))"
proof -
  have sl: "time_slice (sample_batch (int 0)) = 8388608"
    by (simp add: sample_batch_def init_batch_def compute_slice_def can_parallelize_query_def Let_def RowTimeInBits_def)
  show ?thesis
    using boundary_in_two_batches[OF sample_sane sample_batch_run[of "int 0"] sample_batch_run[of "int (Suc 0)"],
        of "\<lparr>mq_table = ''MessageTable'', mq_from_time = from_time (sample_batch 0), mq_end_time = end_time (sample_batch 0), unroll_needed = False\<rparr>"
          "\<lparr>mq_table = ''MessageTable'', mq_from_time = from_time (sample_batch 1), mq_end_time = end_time (sample_batch 1), unroll_needed = False\<rparr>"]
    unfolding sl by simp
qed

section \<open>Properties of the pipeline\<close>

lemma finished_iff: "finished s \<longleftrightarrow> (\<forall>i < length (phases s). phases s ! i = Finished)"
proof -
  have "(case p of Finished \<Rightarrow> True | _ \<Rightarrow> False) \<longleftrightarrow> p = Finished" for p :: "'a list phase" by (cases p) auto
  then show ?thesis by (simp add: finished_def list_all_length)
qed

definition phase_units :: "(nat \<Rightarrow> bool \<times> 'u list) \<Rightarrow> 'u list phase \<Rightarrow> 'u multiset" where
  "phase_units fetch p = (case p of Waiting r \<Rightarrow> mset (snd (fetch r)) | Responded r us \<Rightarrow> mset us | _ \<Rightarrow> {#})"

lemma phase_units_simps [simp]:
  "phase_units fetch Start = {#}" "phase_units fetch (Waiting r) = mset (snd (fetch r))"
  "phase_units fetch (Responded r us) = mset us" "phase_units fetch Finished = {#}"
  by (simp_all add: phase_units_def)

definition fetched :: "(nat \<Rightarrow> bool \<times> 'u list) \<Rightarrow> nat \<Rightarrow> 'u multiset" where
  "fetched fetch n = (\<Sum>r\<leftarrow>[0..<n]. mset (snd (fetch r)))"

text \<open>The invariant of the pipeline as long as no read has failed: what has been collected, answered or
  asked for is what the rows handed out so far contain; an instance stops only when the rows are
  exhausted.\<close>

definition pipe_inv :: "(nat \<Rightarrow> bool \<times> 'u list) \<Rightarrow> nat \<Rightarrow> nat \<Rightarrow> 'u fetch_state \<Rightarrow> bool" where
  "pipe_inv fetch nrows n s \<longleftrightarrow> length (phases s) = n \<and> length (collected s) = n \<and>
     (query_fetch_error s \<or>
      (\<Sum>c\<leftarrow>collected s. mset c) + (\<Sum>p\<leftarrow>phases s. phase_units fetch p) = fetched fetch (min (row_count s) nrows) \<and>
      (Finished \<in> set (phases s) \<longrightarrow> nrows \<le> row_count s))"

lemma fetched_Suc: "fetched fetch (min (Suc k) nrows) = fetched fetch (min k nrows) + (if k < nrows then mset (snd (fetch k)) else {#})"
  by (auto simp: fetched_def min_def not_less less_Suc_eq_le)

lemma QueryExec_inv:
  assumes inv: "pipe_inv fetch nrows n s" and i: "i < length (phases s)"
    and p: "phases s ! i = (case prev of None \<Rightarrow> Start | Some us \<Rightarrow> Responded r us)"
  shows "pipe_inv fetch nrows n (QueryExec nrows i prev s)"
proof (cases "query_fetch_error s")
  case True
  with inv show ?thesis by (simp add: pipe_inv_def QueryExec_def)
next
  case False
  let ?p' = "if row_count s < nrows then Waiting (row_count s) else Finished"
  let ?c' = "case prev of None \<Rightarrow> collected s | Some us \<Rightarrow> (collected s)[i := collected s ! i @ us]"
  let ?P = "\<Sum>p\<leftarrow>phases s. phase_units fetch p" and ?P' = "\<Sum>p\<leftarrow>(phases s)[i := ?p']. phase_units fetch p"
  let ?us = "case prev of None \<Rightarrow> {#} | Some us \<Rightarrow> mset us"
  from inv False have len: "length (phases s) = n" "length (collected s) = n"
    and sum: "(\<Sum>c\<leftarrow>collected s. mset c) + ?P = fetched fetch (min (row_count s) nrows)"
    and fin: "Finished \<in> set (phases s) \<longrightarrow> nrows \<le> row_count s" by (simp_all add: pipe_inv_def)
  have P: "?P' + ?us = ?P + (if row_count s < nrows then mset (snd (fetch (row_count s))) else {#})"
    using sum_list_map_update[OF i, of "phase_units fetch" ?p'] p
    by (auto split: option.splits)
  have C: "(\<Sum>c\<leftarrow>?c'. mset c) = (\<Sum>c\<leftarrow>collected s. mset c) + ?us"
  proof (cases prev)
    case (Some us)
    have "(\<Sum>c\<leftarrow>(collected s)[i := collected s ! i @ us]. mset c) + mset (collected s ! i) =
        (\<Sum>c\<leftarrow>collected s. mset c) + mset us + mset (collected s ! i)"
      using sum_list_map_update[of i "collected s" mset "collected s ! i @ us"] i len by (simp add: ac_simps)
    then show ?thesis using Some by simp
  qed simp
  have "(\<Sum>c\<leftarrow>?c'. mset c) + ?P' = (\<Sum>c\<leftarrow>collected s. mset c) + (?P' + ?us)"
    unfolding C by (simp only: ac_simps)
  also have "\<dots> = ((\<Sum>c\<leftarrow>collected s. mset c) + ?P) + (if row_count s < nrows then mset (snd (fetch (row_count s))) else {#})"
    unfolding P by (simp only: ac_simps)
  also have "\<dots> = fetched fetch (min (Suc (row_count s)) nrows)" unfolding sum fetched_Suc ..
  finally have "(\<Sum>c\<leftarrow>?c'. mset c) + ?P' = fetched fetch (min (Suc (row_count s)) nrows)" .
  moreover have "Finished \<in> set ((phases s)[i := ?p']) \<longrightarrow> nrows \<le> Suc (row_count s)"
    using fin set_update_subset_insert[of "phases s" i ?p'] by (auto split: if_splits)
  ultimately show ?thesis using False len
    by (simp add: pipe_inv_def QueryExec_def Let_def split: option.splits)
qed

lemma pipe_step_inv:
  assumes "pipe_step fetch nrows s s'" and "pipe_inv fetch nrows n s"
  shows "pipe_inv fetch nrows n s'"
  using assms
proof cases
  case (start i)
  with QueryExec_inv[OF assms(2), where i = i and prev = None] show ?thesis by simp
next
  case (respond i r failed us)
  have "set ((phases s)[i := Responded r us]) \<subseteq> insert (Responded r us) (set (phases s))"
    by (rule set_update_subset_insert)
  with respond assms(2) sum_list_map_update[of i "phases s" "phase_units fetch" "Responded r us"]
  show ?thesis by (auto simp: pipe_inv_def)
next
  case (next_row i r us)
  with QueryExec_inv[OF assms(2), where i = i and prev = "Some us" and r = r] show ?thesis by simp
qed

lemma pipe_reachable_inv:
  assumes "(pipe_step fetch nrows)\<^sup>*\<^sup>* (initial_fetch n) s"
  shows "pipe_inv fetch nrows n s"
  using assms
proof induction
  case base
  have "sum_list (replicate k {#}) = {#}" for k by (induction k) simp_all
  then show ?case by (auto simp: pipe_inv_def initial_fetch_def fetched_def)
qed (rule pipe_step_inv)

text \<open>
  C8: the pipeline reads every row exactly once. However the instances and the responses interleave, when
  all instances have finished and no read has failed, the sorted result contains exactly the units of all
  rows, each as often as the rows contain it; with units of one width it is a valid input of the set
  operations.\<close>

theorem pipeline_reads_every_row_once:
  assumes reach: "(pipe_step fetch nrows)\<^sup>*\<^sup>* (initial_fetch n) s" and n: "0 < n"
    and fin: "finished s" and ok: "\<not> query_fetch_error s" and w: "\<And>r u. u \<in> set (snd (fetch r)) \<Longrightarrow> length (info u) = width"
  shows "mset (fst (WPCompleteCb ret_code s)) = fetched fetch nrows \<and> where_input width (fst (WPCompleteCb ret_code s)) \<and>
         snd (WPCompleteCb ret_code s) = ret_code"
proof -
  from pipe_reachable_inv[OF reach] ok have len: "length (phases s) = n"
    and sum: "(\<Sum>c\<leftarrow>collected s. mset c) + (\<Sum>p\<leftarrow>phases s. phase_units fetch p) = fetched fetch (min (row_count s) nrows)"
    and stop: "Finished \<in> set (phases s) \<longrightarrow> nrows \<le> row_count s" by (simp_all add: pipe_inv_def)
  have all: "p = Finished" if "p \<in> set (phases s)" for p
    using fin that by (cases p) (auto simp: finished_def list_all_iff)
  have "phases s ! 0 \<in> set (phases s)" using n len by (intro nth_mem) simp
  with all stop have "nrows \<le> row_count s" by metis
  moreover have "(\<Sum>p\<leftarrow>phases s. phase_units fetch p) = {#}"
  proof -
    have "(\<Sum>p\<leftarrow>ps. phase_units fetch p) = {#}" if "\<forall>p \<in> set ps. p = Finished" for ps
      using that by (induction ps) auto
    with all show ?thesis by blast
  qed
  moreover have "(\<Sum>c\<leftarrow>collected s. mset c) = mset (QueryMerge s)"
    by (simp add: QueryMerge_def mset_concat)
  ultimately have m: "mset (QueryMerge s) = fetched fetch nrows" using sum by (simp add: min_absorb2)
  have "set_mset (fetched fetch k) \<subseteq> units_of_width width" for k
    using w by (induction k) (auto simp: fetched_def units_of_width_def)
  then have "set (QueryMerge s) \<subseteq> units_of_width width" by (metis m set_mset_mset)
  then have "where_input width (std_sort query_result_unit_lt (QueryMerge s))"
    by (simp add: where_input_iff unit_order.sorted_std_sort)
  then show ?thesis using m ok by (simp add: WPCompleteCb_def)
qed

inductive_cases pipe_stepE: "pipe_step fetch nrows s s'"

definition sample_row_unit :: "nat query_result_unit_t" where
  "sample_row_unit = \<lparr>timestamp = 3, info = [1]\<rparr>"

definition sample_fetched :: "nat query_result_unit_t fetch_state" where
  "sample_fetched = \<lparr>row_count = 2, query_fetch_error = False, phases = [Finished], collected = [[sample_row_unit]]\<rparr>"

lemma sample_pipeline_run: "(pipe_step (\<lambda>r. (False, [sample_row_unit])) 1)\<^sup>*\<^sup>* (initial_fetch 1) sample_fetched"
proof -
  let ?f = "\<lambda>r :: nat. (False, [sample_row_unit])"
  let ?s1 = "QueryExec 1 0 None (initial_fetch 1) :: nat query_result_unit_t fetch_state"
  let ?s2 = "?s1\<lparr>phases := (phases ?s1)[0 := Responded 0 [sample_row_unit]], query_fetch_error := query_fetch_error ?s1 \<or> False\<rparr>"
  have "pipe_step ?f 1 (initial_fetch 1) ?s1" by (rule pipe_step.start) (simp_all add: initial_fetch_def)
  moreover have "pipe_step ?f 1 ?s1 ?s2"
    by (rule pipe_step.respond) (simp_all add: initial_fetch_def QueryExec_def)
  moreover have "pipe_step ?f 1 ?s2 (QueryExec 1 0 (Some [sample_row_unit]) ?s2)"
    by (rule pipe_step.next_row[where r = 0]) (simp_all add: initial_fetch_def QueryExec_def)
  moreover have "QueryExec 1 0 (Some [sample_row_unit]) ?s2 = sample_fetched"
    by (simp add: initial_fetch_def QueryExec_def sample_fetched_def numeral_2_eq_2)
  ultimately show ?thesis by (metis (no_types, lifting) rtranclp.rtrancl_refl rtranclp.rtrancl_into_rtrancl)
qed

theorem pipeline_reads_every_row_once_witness:
  "mset (fst (WPCompleteCb True sample_fetched)) = fetched (\<lambda>r. (False, [sample_row_unit])) 1 \<and>
   where_input 1 (fst (WPCompleteCb True sample_fetched))"
  using pipeline_reads_every_row_once[OF sample_pipeline_run, of 1 True]
  by (simp add: sample_fetched_def finished_def sample_row_unit_def)

text \<open>The number of steps a pipeline can still take.\<close>

definition phase_weight :: "'u list phase \<Rightarrow> nat" where
  "phase_weight p = (case p of Start \<Rightarrow> 1 | Waiting r \<Rightarrow> 2 | Responded r us \<Rightarrow> 1 | Finished \<Rightarrow> 0)"

lemma phase_weight_simps [simp]:
  "phase_weight Start = 1" "phase_weight (Waiting r) = 2" "phase_weight (Responded r us) = 1" "phase_weight Finished = 0"
  by (simp_all add: phase_weight_def)

definition steps_left :: "nat \<Rightarrow> 'u fetch_state \<Rightarrow> nat" where
  "steps_left nrows s = (\<Sum>p\<leftarrow>phases s. phase_weight p) + 3 * (nrows - row_count s)"

lemma QueryExec_steps_left:
  fixes s :: "'u fetch_state"
  assumes "i < length (phases s)" and "phase_weight (phases s ! i) = 1"
  shows "steps_left nrows (QueryExec nrows i prev s) < steps_left nrows s"
proof -
  let ?p = "if row_count s < nrows then Waiting (row_count s) else Finished :: 'u list phase"
  have "(\<Sum>p\<leftarrow>(phases s)[i := ?p]. phase_weight p) + 1 = (\<Sum>p\<leftarrow>phases s. phase_weight p) + phase_weight ?p"
    using sum_list_map_update[OF assms(1), of phase_weight ?p] assms(2) by simp
  moreover have "(\<Sum>p\<leftarrow>(phases s)[i := Finished]. phase_weight p) + 1 = (\<Sum>p\<leftarrow>phases s. phase_weight p)"
    using sum_list_map_update[OF assms(1), of phase_weight Finished] assms(2) by simp
  ultimately show ?thesis
    by (cases "query_fetch_error s") (auto simp: steps_left_def QueryExec_def Let_def split: if_splits)
qed

text \<open>
  C28: the pipeline always comes to an end. Until every instance has finished some step is possible, and
  every step, in whatever order they are taken and whether or not reads fail, decreases the bound of
  one step per instance plus three per row.\<close>

theorem pipeline_progress:
  "(\<not> finished s \<longrightarrow> (\<exists>s'. pipe_step fetch nrows s s')) \<and>
   (pipe_step fetch nrows s s' \<longrightarrow> steps_left nrows s' < steps_left nrows s) \<and>
   steps_left nrows (initial_fetch n :: 'u fetch_state) = n + 3 * nrows"
proof (intro conjI impI)
  assume "\<not> finished s"
  then obtain i where i: "i < length (phases s)" "phases s ! i \<noteq> Finished"
    by (auto simp: finished_iff)
  show "\<exists>s'. pipe_step fetch nrows s s'"
  proof (cases "phases s ! i")
    case (Waiting r)
    with i show ?thesis using pipe_step.respond[of i s r fetch "fst (fetch r)" "snd (fetch r)"] by auto
  qed (use i pipe_step.start[of i s] pipe_step.next_row[of i s] in auto)
next
  assume "pipe_step fetch nrows s s'"
  then show "steps_left nrows s' < steps_left nrows s"
  proof cases
    case (start i)
    then show ?thesis using QueryExec_steps_left[of i s] by simp
  next
    case (respond i r failed us)
    then show ?thesis using sum_list_map_update[of i "phases s" phase_weight "Responded r us"]
      by (simp add: steps_left_def)
  next
    case (next_row i r us)
    then show ?thesis using QueryExec_steps_left[of i s] by simp
  qed
next
  have "sum_list (replicate k (1 :: nat)) = k" for k by (induction k) simp_all
  then show "steps_left nrows (initial_fetch n :: 'u fetch_state) = n + 3 * nrows"
    by (simp add: steps_left_def initial_fetch_def)
qed

theorem pipeline_progress_witness:
  "\<exists>s'. pipe_step (\<lambda>r. (False, [sample_row_unit])) 1 (initial_fetch 1) s'"
proof -
  have "\<not> finished (initial_fetch 1 :: nat query_result_unit_t fetch_state)"
    by (simp add: finished_def initial_fetch_def)
  with pipeline_progress[of "initial_fetch 1" "\<lambda>r. (False, [sample_row_unit])" 1] show ?thesis by blast
qed

text \<open>
  Secondary-index values carry the row's T2. \<open>PipelineCb\<close> rewrites each index value to
  \<open>T2:value\<close>, leaving columns, operators, order and the values that start with a wildcard alone.\<close>

theorem prefix_where_vec_spec:
  assumes "prefix_where_vec to_string (k # rest) wv = Ret wv'" and "i < length wv" and "wv ! i = (c, op, v)"
  shows "length wv' = length wv \<and>
     wv' ! i = (c, op, if starts_with (to_string v) ''%'' then v else DbString (to_string k @ '':'' @ to_string v))"
  using assms by (auto simp: prefix_where_vec_def vec_at_def Let_def)

theorem prefix_where_vec_spec_witness:
  "\<exists>w. prefix_where_vec (\<lambda>v. case v of DbU32 n \<Rightarrow> show_nat (unat n) | DbString s \<Rightarrow> s | _ \<Rightarrow> []) [DbU32 178, DbU8 0]
     [(''column3'', DB_EQ, DbString ''b1s1'' :: nat DbDataValue)] = Ret w \<and>
   w ! 0 = (''column3'', DB_EQ, DbString ''178:b1s1'')"
proof -
  let ?ts = "\<lambda>v :: nat DbDataValue. case v of DbU32 n \<Rightarrow> show_nat (unat n) | DbString s \<Rightarrow> s | _ \<Rightarrow> []"
  let ?wv = "[(''column3'', DB_EQ, DbString ''b1s1'')] :: nat WhereIndexInfo list"
  have n: "show_nat 178 = ''178''" by code_simp
  obtain w where w: "prefix_where_vec ?ts [DbU32 178, DbU8 0] ?wv = Ret w" by (simp add: prefix_where_vec_def vec_at_def)
  from prefix_where_vec_spec[OF w, of 0] w n show ?thesis by (auto simp: starts_with_def)
qed

end
