(* ===== verification/Db_Handler.thy ===== *)
theory Db_Handler
  imports Db_Query Json
begin

unbundle bit_operations_syntax

text \<open>
  \<open>db_handler.cc\<close> and \<open>db_handler.h\<close>: what the collector writes to the column store. Messages
  (\<open>MessageTableInsert\<close>), object values (\<open>ObjectTableInsert\<close>), statistics samples
  (\<open>StatTableInsertTtl\<close>, \<open>StatTableWrite\<close>) and the table of field names
  (\<open>FieldNamesTableInsert\<close>, \<open>CanRecordDataForT2\<close>) are functions on the state of the handler; the
  rows handed to \<open>Db_AddColumn\<close> are recorded in it. The store, the generators of uuids and partition
  numbers and the JSON writer are outside the repository and enter as arguments.
\<close>

section \<open>Values\<close>

text \<open>\<open>DbHandler::Var\<close>: a constructor fills one field and leaves the others at their defaults, so a
  value is its type with that field. A \<open>std::map\<close> is its entries in key order.\<close>

datatype 'd Var = VInvalid | VUint64 u64 | VString string | VDouble 'd | VList "string list" | VMap "(string \<times> string) list"

type_synonym 'd AttribMap = "(string \<times> 'd Var) list"
type_synonym 'd DbTagMap = "(string \<times> 'd Var \<times> 'd AttribMap) list"

text \<open>The member \<open>str\<close>, empty for the other types.\<close>

definition var_str :: "'d Var \<Rightarrow> string" where
  "var_str v = (case v of VString s \<Rightarrow> s | _ \<Rightarrow> '''')"

fun join :: "string \<Rightarrow> string list \<Rightarrow> string" where
  "join sep [] = ''''"
| "join sep [x] = x"
| "join sep (x # y # zs) = x @ sep @ join sep (y # zs)"

definition show_Var :: "('d \<Rightarrow> string) \<Rightarrow> 'd Var \<Rightarrow> string" where
  "show_Var showd v =
     (case v of VString s \<Rightarrow> s | VUint64 n \<Rightarrow> show_nat (unat n) | VDouble d \<Rightarrow> showd d
      | VList xs \<Rightarrow> join ''; '' xs
      | VMap m \<Rightarrow> concat (map (\<lambda>(k, x). ''{'' @ k @ '':'' @ x @ ''}, '') m)
      | VInvalid \<Rightarrow> ''Invalid type: 0'')"

text \<open>\<open>std::multimap::insert\<close>: behind the entries with the same key.\<close>

fun multimap_insert :: "'k::linorder \<Rightarrow> 'v \<Rightarrow> ('k \<times> 'v) list \<Rightarrow> ('k \<times> 'v) list" where
  "multimap_insert k v [] = [(k, v)]"
| "multimap_insert k v ((k', v') # m) = (if k < k' then (k, v) # (k', v') # m else (k', v') # multimap_insert k v m)"

definition PrependT2 :: "u32 \<Rightarrow> string \<Rightarrow> string" where
  "PrependT2 t2 s = show_nat (unat t2) @ '':'' @ s"

section \<open>The handler\<close>

text \<open>One \<open>GenDb::ColList\<close>; every write of the handler has exactly one column.\<close>

record 'd ColList =
  cl_cfname :: string
  cl_rowkey :: "'d DbDataValue list"
  cl_name :: "'d DbDataValue list"
  cl_value :: "'d DbDataValue list"
  cl_ttl :: int

text \<open>
  The state: the two static variables of the field-name cache, the flags, the time-to-live table, the
  numbers of uuids and partition numbers drawn so far, the columns handed to the store and the updates of
  \<open>stable_stats_\<close> (name and whether the write failed).
\<close>

record 'd DbHandler =
  field_cache_index :: u32
  field_cache_set :: "string set"
  disable_all_writes :: bool
  disable_statistics_writes :: bool
  disable_messages_writes :: bool
  handler_ttl_map :: "ttl_type \<rightharpoonup> u64"
  collector_name :: string
  uuids_drawn :: nat
  partitions_drawn :: nat
  written :: "'d ColList list"
  stable_stats :: "(string \<times> bool) list"

record 'd db_env =
  umn_gen :: "nat \<Rightarrow> u8 list"
  gen_partition_no :: "nat \<Rightarrow> u8"
  name_uuid :: "string \<Rightarrow> u8 list"
  stale_uuid :: "u8 list"
  db_add_column :: "'d ColList \<Rightarrow> bool"
  json_writer :: "'d json \<Rightarrow> string"
  db_show_double :: "'d \<Rightarrow> string"
  parse_ip :: "string \<Rightarrow> (bool \<times> u8 list) option"

definition GetTtlFromMap :: "(ttl_type \<rightharpoonup> u64) \<Rightarrow> ttl_type \<Rightarrow> u64" where
  "GetTtlFromMap m t = (case m t of Some h \<Rightarrow> h * 3600 | None \<Rightarrow> 0)"

definition GetTtlInHourFromMap :: "(ttl_type \<rightharpoonup> u64) \<Rightarrow> ttl_type \<Rightarrow> u64" where
  "GetTtlInHourFromMap m t = (case m t of Some h \<Rightarrow> h | None \<Rightarrow> 0)"

text \<open>\<open>int ttl = GetTtl(type)\<close> keeps the low 32 bits.\<close>

definition GetTtl :: "'d DbHandler \<Rightarrow> ttl_type \<Rightarrow> int" where
  "GetTtl h t = sint (ucast (GetTtlFromMap (handler_ttl_map h) t) :: u32)"

definition InsertIntoDb :: "'d db_env \<Rightarrow> 'd ColList \<Rightarrow> 'd DbHandler \<Rightarrow> bool \<times> 'd DbHandler" where
  "InsertIntoDb env cl h =
     (if disable_all_writes h then (True, h) else (db_add_column env cl, h\<lparr>written := written h @ [cl]\<rparr>))"

section \<open>Field names\<close>

definition CanRecordDataForT2 :: "u32 \<Rightarrow> string \<Rightarrow> 'd DbHandler \<Rightarrow> bool \<times> 'd DbHandler" where
  "CanRecordDataForT2 t2 fc_entry h =
     (let cacheindex = drop_bit 5 t2
      in if cacheindex > field_cache_index h
         then (True, h\<lparr>field_cache_index := cacheindex, field_cache_set := {fc_entry}\<rparr>)
         else if cacheindex = field_cache_index h \<and> fc_entry \<notin> field_cache_set h
         then (True, h\<lparr>field_cache_set := insert fc_entry (field_cache_set h)\<rparr>)
         else (False, h))"

section \<open>Statistics samples\<close>

text \<open>One attribute of a sample; \<open>SetString\<close> gets a C string. An attribute without a type is left out.\<close>

definition attrib_member :: "string \<times> 'd Var \<Rightarrow> (string \<times> 'd json) option" where
  "attrib_member a =
     (let (n, v) = a
      in case v of
           VString s \<Rightarrow> Some (c_str (n @ ''|s''), JString (c_str s))
         | VUint64 k \<Rightarrow> Some (c_str (n @ ''|n''), JInt (uint k))
         | VDouble d \<Rightarrow> Some (c_str (n @ ''|d''), JDouble d)
         | VList xs \<Rightarrow> Some (c_str (n @ ''|a''), JArray (map (JString \<circ> c_str) xs))
         | VMap m \<Rightarrow> Some (c_str (n @ ''|m''), JObject (map (\<lambda>(k, x). (c_str k, JString (c_str x))) m))
         | VInvalid \<Rightarrow> None)"

definition sample_document :: "'d AttribMap \<Rightarrow> 'd json" where
  "sample_document attribs = JObject (List.map_filter attrib_member attribs)"

text \<open>The uuid of a sample: drawn from the generator, or a function of the value for a field name; the
  variable is not initialised when a field name comes without a value.\<close>

definition sample_uuid :: "'d db_env \<Rightarrow> string \<Rightarrow> 'd AttribMap \<Rightarrow> 'd DbHandler \<Rightarrow> u8 list \<times> 'd DbHandler" where
  "sample_uuid env statName attribs h =
     (if statName \<noteq> ''FieldNames'' then (umn_gen env (uuids_drawn h), h\<lparr>uuids_drawn := Suc (uuids_drawn h)\<rparr>)
      else (case map_of attribs ''fields.value'' of Some (VString s) \<Rightarrow> name_uuid env (c_str s) | _ \<Rightarrow> stale_uuid env, h))"

text \<open>\<open>djb_hash\<close> of \<open>db_handler.cc\<close>; \<open>char\<close> is signed.\<close>

definition tag_hash :: "string \<Rightarrow> u32" where
  "tag_hash s = foldl (\<lambda>h c. (push_bit 5 h + h) + (let n = of_char c in if n < 128 then word_of_int n else word_of_int (n - 256))) 5381 s"

record tag_acc =
  ta_name :: string
  ta_source :: string
  ta_key :: string
  ta_proxy :: string
  ta_tags :: "string list list"

definition new_tag_acc :: tag_acc where
  "new_tag_acc = \<lparr>ta_name = '''', ta_source = '''', ta_key = '''', ta_proxy = '''', ta_tags = replicate 4 []\<rparr>"

definition push_tag :: "string \<Rightarrow> string \<Rightarrow> tag_acc \<Rightarrow> tag_acc" where
  "push_tag nm val acc =
     (let idx = unat (tag_hash nm) mod 4
      in acc\<lparr>ta_tags := (ta_tags acc)[idx := ta_tags acc ! idx @ [nm @ ''='' @ val]]\<rparr>)"

definition type_tags :: "'d db_env \<Rightarrow> string \<Rightarrow> 'd Var \<Rightarrow> tag_acc \<Rightarrow> tag_acc" where
  "type_tags env nm v acc =
     (case v of
        VList xs \<Rightarrow> foldl (\<lambda>a e. push_tag nm e a) acc xs
      | VMap m \<Rightarrow> foldl (\<lambda>a (k, x). push_tag (nm @ ''.'' @ k) x a) acc m
      | VInvalid \<Rightarrow> acc
      | _ \<Rightarrow> push_tag nm (show_Var (db_show_double env) v) acc)"

text \<open>The four columns of their own.\<close>

definition own_column :: "string \<Rightarrow> 'd Var \<Rightarrow> tag_acc \<Rightarrow> tag_acc option" where
  "own_column nm v acc =
     (if nm = ''name'' then Some (acc\<lparr>ta_name := var_str v\<rparr>)
      else if nm = ''Source'' then Some (acc\<lparr>ta_source := var_str v\<rparr>)
      else if ends_with nm ''__key'' then Some (acc\<lparr>ta_key := var_str v\<rparr>)
      else if ends_with nm ''proxy'' then Some (acc\<lparr>ta_proxy := var_str v\<rparr>)
      else None)"

text \<open>A second-level tag is pushed before the \<open>switch\<close> on its type and again inside it.\<close>

definition fill_suffix :: "'d db_env \<Rightarrow> tag_acc \<Rightarrow> string \<times> 'd Var \<Rightarrow> tag_acc" where
  "fill_suffix env acc sv =
     (let (nm, v) = sv
      in case own_column nm v acc of
           Some a \<Rightarrow> a
         | None \<Rightarrow> type_tags env nm v (push_tag nm (show_Var (db_show_double env) v) acc))"

text \<open>A first-level tag without a type skips its second level.\<close>

definition fill_tag :: "'d db_env \<Rightarrow> tag_acc \<Rightarrow> string \<times> 'd Var \<times> 'd AttribMap \<Rightarrow> tag_acc" where
  "fill_tag env acc t =
     (let (nm, v, amap) = t
      in case own_column nm v acc of
           Some a \<Rightarrow> foldl (fill_suffix env) a amap
         | None \<Rightarrow> if v = VInvalid then acc else foldl (fill_suffix env) (type_tags env nm v acc) amap)"

definition StatTableWrite ::
    "'d db_env \<Rightarrow> u32 \<Rightarrow> string \<Rightarrow> string \<Rightarrow> tag_acc \<Rightarrow> u32 \<Rightarrow> u8 list \<Rightarrow> string \<Rightarrow> int \<Rightarrow> 'd DbHandler \<Rightarrow> bool \<times> 'd DbHandler" where
  "StatTableWrite env t2 statName statAttr acc t1 unm line ttl h =
     (let cl = \<lparr>cl_cfname = STATS_TABLE,
                cl_rowkey = [DbU32 t2, DbU8 0, DbString statName, DbString statAttr],
                cl_name = [DbString (ta_name acc), DbU32 t1, DbUuid unm, DbString (PrependT2 t2 (ta_source acc)),
                           DbString (PrependT2 t2 (ta_key acc)), DbString (PrependT2 t2 (ta_proxy acc))]
                          @ map (\<lambda>i. DbString (PrependT2 t2 (join '';'' (ta_tags acc ! i)))) [0, 1, 2, 3],
                cl_value = [DbString line], cl_ttl = ttl\<rparr>;
          (ok, h1) = InsertIntoDb env cl h
      in (ok, h1\<lparr>stable_stats := stable_stats h1 @ [(statName @ '':'' @ statAttr, \<not> ok)]\<rparr>))"

text \<open>\<open>StatTableInsertTtl\<close>, with the insertion of field names it calls as an argument; the code does not
  call it for the table of field names itself.\<close>

type_synonym 'd field_hook = "string \<Rightarrow> string \<Rightarrow> string \<Rightarrow> 'd DbHandler \<Rightarrow> 'd DbHandler"

text \<open>The values of the string tags are recorded as field names.\<close>

definition record_tag_names :: "'d field_hook \<Rightarrow> bool \<Rightarrow> string \<Rightarrow> 'd DbTagMap \<Rightarrow> 'd DbHandler \<Rightarrow> 'd DbHandler" where
  "record_tag_names field_names record_names tablename attribs_tag h =
     foldl (\<lambda>g (nm, v, amap).
       case v of VString s \<Rightarrow> if record_names then field_names tablename ('':'' @ nm) s g else g | _ \<Rightarrow> g) h attribs_tag"

definition stat_table_insert ::
    "'d field_hook \<Rightarrow> 'd db_env \<Rightarrow> u64 \<Rightarrow> string \<Rightarrow> string \<Rightarrow> 'd DbTagMap \<Rightarrow> 'd AttribMap \<Rightarrow> int \<Rightarrow> 'd DbHandler \<Rightarrow> 'd DbHandler" where
  "stat_table_insert field_names env ts statName statAttr attribs_tag attribs ttl h =
     (let (unm, h1) = sample_uuid env statName attribs h;
          line = c_str (json_writer env (sample_document attribs));
          tablename = ''StatTable.'' @ statName @ ''.'' @ statAttr;
          record_names = (statName \<noteq> ''FieldNames'');
          h2 = (if record_names then field_names ''STAT:'' tablename tablename h1 else h1);
          h3 = record_tag_names field_names record_names tablename attribs_tag h2;
          acc = foldl (fill_tag env) new_tag_acc attribs_tag
      in snd (StatTableWrite env (t2_of ts) statName statAttr acc (t1_of ts) unm line ttl h3))"

definition FieldNamesTableInsert ::
    "'d db_env \<Rightarrow> u64 \<Rightarrow> int \<Rightarrow> 'd field_hook" where
  "FieldNamesTableInsert env ts ttl table_prefix field_name field_val h =
     (let table_name = table_prefix @ field_name;
          (record_it, h1) = CanRecordDataForT2 (t2_of ts) (table_name @ '':'' @ field_val) h
      in if \<not> record_it then h1
         else stat_table_insert (\<lambda>_ _ _ g. g) env ts ''FieldNames'' ''fields''
           (multimap_insert ''Source'' (VString (collector_name h1), []) (multimap_insert ''name'' (VString table_name, []) []))
           (map_insert ''Source'' (VString (collector_name h1))
             (map_insert ''fields.value'' (VString field_val) (map_insert ''name'' (VString table_name) []))) ttl h1)"

definition StatTableInsertTtl ::
    "'d db_env \<Rightarrow> u64 \<Rightarrow> string \<Rightarrow> string \<Rightarrow> 'd DbTagMap \<Rightarrow> 'd AttribMap \<Rightarrow> int \<Rightarrow> 'd DbHandler \<Rightarrow> 'd DbHandler" where
  "StatTableInsertTtl env ts statName statAttr attribs_tag attribs ttl h =
     stat_table_insert (FieldNamesTableInsert env ts ttl) env ts statName statAttr attribs_tag attribs ttl h"

definition StatTableInsert ::
    "'d db_env \<Rightarrow> u64 \<Rightarrow> string \<Rightarrow> string \<Rightarrow> 'd DbTagMap \<Rightarrow> 'd AttribMap \<Rightarrow> 'd DbHandler \<Rightarrow> 'd DbHandler" where
  "StatTableInsert env ts statName statAttr attribs_tag attribs h =
     (if disable_all_writes h \<or> disable_statistics_writes h then h
      else StatTableInsertTtl env ts statName statAttr attribs_tag attribs (GetTtl h STATSDATA_TTL) h)"

section \<open>Messages and objects\<close>

text \<open>The header of a message, with the optional fields as options; the numbers of the message types are
  defined by the sandesh library and enter as \<open>stype_num\<close>.\<close>

datatype SandeshType = ST_SYSTEM | ST_OBJECT | ST_UVE | ST_SYSLOG | ST_FLOW | ST_SESSION | ST_TRACE | ST_ALARM | ST_REQUEST

record SandeshHeader =
  hdr_Timestamp :: u64
  hdr_Source :: string
  hdr_Module :: string
  hdr_Category :: string
  hdr_Type :: SandeshType
  hdr_Level :: int
  hdr_NodeType :: string
  hdr_InstanceId :: string
  hdr_SequenceNum :: int
  hdr_Pid :: "int option"
  hdr_IPAddress :: "string option"
  hdr_Hints :: int
  hdr_Context :: "string option"

record VizMsg =
  msg_header :: SandeshHeader
  msg_type :: string
  msg_text :: string
  msg_unm :: "u8 list"
  msg_size :: u64

definition AllowMessageTableInsert :: "'d DbHandler \<Rightarrow> SandeshHeader \<Rightarrow> bool" where
  "AllowMessageTableInsert h hdr \<longleftrightarrow>
     \<not> disable_messages_writes h \<and> \<not> disable_all_writes h \<and> hdr_Type hdr \<noteq> ST_FLOW \<and> hdr_Type hdr \<noteq> ST_SESSION"

definition message_ttl :: "'d DbHandler \<Rightarrow> VizMsg \<Rightarrow> int" where
  "message_ttl h vmsg = (if msg_type vmsg = ''VncApiConfigLog'' then GetTtl h CONFIGAUDIT_TTL else GetTtl h GLOBAL_TTL)"

text \<open>At most six object names, then blanks.\<close>

definition object_name_columns :: "u32 \<Rightarrow> string list \<Rightarrow> 'd DbDataValue list" where
  "object_name_columns t2 names =
     map (\<lambda>n. DbString (PrependT2 t2 n)) (take 6 names) @ replicate (6 - length names) DbBlank"

definition message_columns :: "'d db_env \<Rightarrow> (SandeshType \<Rightarrow> u8) \<Rightarrow> string list \<Rightarrow> VizMsg \<Rightarrow> 'd DbDataValue list" where
  "message_columns env stype_num object_names vmsg =
     (let hdr = msg_header vmsg; t2 = t2_of (hdr_Timestamp hdr)
      in [DbU32 (t1_of (hdr_Timestamp hdr)), DbUuid (msg_unm vmsg),
          DbString (PrependT2 t2 (hdr_Source hdr)), DbString (PrependT2 t2 (msg_type vmsg)), DbString (PrependT2 t2 (hdr_Module hdr))]
         @ object_name_columns t2 object_names
         @ [case hdr_IPAddress hdr of None \<Rightarrow> DbBlank
              | Some s \<Rightarrow> (case parse_ip env s of None \<Rightarrow> DbBlank | Some (v6, bytes) \<Rightarrow> DbInet v6 bytes),
            case hdr_Pid hdr of None \<Rightarrow> DbBlank | Some p \<Rightarrow> DbU32 (word_of_int p),
            DbString (hdr_Category hdr), DbU32 (word_of_int (hdr_Level hdr)), DbString (hdr_NodeType hdr),
            DbString (hdr_InstanceId hdr), DbU32 (word_of_int (hdr_SequenceNum hdr)), DbU8 (stype_num (hdr_Type hdr))])"

definition MessageTableOnlyInsert ::
    "'d db_env \<Rightarrow> (SandeshType \<Rightarrow> u8) \<Rightarrow> VizMsg \<Rightarrow> string list \<Rightarrow> 'd DbHandler \<Rightarrow> 'd DbHandler" where
  "MessageTableOnlyInsert env stype_num vmsg object_names h =
     (let cl = \<lparr>cl_cfname = COLLECTOR_GLOBAL_TABLE,
                cl_rowkey = [DbU32 (t2_of (hdr_Timestamp (msg_header vmsg))), DbU8 (gen_partition_no env (partitions_drawn h))],
                cl_name = message_columns env stype_num object_names vmsg,
                cl_value = [DbString (msg_text vmsg)], cl_ttl = message_ttl h vmsg\<rparr>
      in snd (InsertIntoDb env cl (h\<lparr>partitions_drawn := Suc (partitions_drawn h)\<rparr>)))"

definition MessageTableInsert ::
    "'d db_env \<Rightarrow> (SandeshType \<Rightarrow> u8) \<Rightarrow> VizMsg \<Rightarrow> string list \<Rightarrow> 'd DbHandler \<Rightarrow> 'd DbHandler" where
  "MessageTableInsert env stype_num vmsg object_names h =
     (let hdr = msg_header vmsg; field = FieldNamesTableInsert env (hdr_Timestamp hdr) (GetTtl h GLOBAL_TTL) MESSAGE_TABLE
      in if \<not> AllowMessageTableInsert h hdr then h
         else let h1 = MessageTableOnlyInsert env stype_num vmsg object_names h
              in if hdr_Type hdr = ST_SYSLOG \<or> hdr_Type hdr = ST_SYSTEM then
                   (let h2 = field '':Source'' (hdr_Source hdr) (field '':ModuleId'' (hdr_Module hdr) (field '':Messagetype'' (msg_type vmsg) h1))
                    in if hdr_Category hdr \<noteq> '''' then field '':Category'' (hdr_Category hdr) h2 else h2)
                 else h1)"

text \<open>A failed write of the object value leaves out the field names.\<close>

definition ObjectTableInsert ::
    "'d db_env \<Rightarrow> string \<Rightarrow> string \<Rightarrow> u64 \<Rightarrow> VizMsg \<Rightarrow> 'd DbHandler \<Rightarrow> 'd DbHandler" where
  "ObjectTableInsert env table objectkey ts vmsg h =
     (if disable_messages_writes h \<or> disable_all_writes h then h
      else let ttl = message_ttl h vmsg; field = FieldNamesTableInsert env ts ttl;
               (ok, h1) = InsertIntoDb env
                 \<lparr>cl_cfname = OBJECT_VALUE_TABLE, cl_rowkey = [DbU32 (t2_of ts), DbString table],
                  cl_name = [DbU32 (t1_of ts)], cl_value = [DbString objectkey], cl_ttl = ttl\<rparr> h
           in if \<not> ok then h1
              else field ''OBJECT:'' table table
                    (field table '':Source'' (hdr_Source (msg_header vmsg))
                      (field table '':ModuleId'' (hdr_Module (msg_header vmsg))
                        (field table '':Messagetype'' (msg_type vmsg) (field table '':ObjectId'' objectkey h1)))))"

section \<open>Underlay flow samples\<close>

record UFlowSample =
  uf_pifindex :: u64
  uf_sip :: string
  uf_dip :: string
  uf_sport :: u16
  uf_dport :: u16
  uf_protocol :: u16
  uf_flowtype :: string

definition underlay_attribs :: "string \<Rightarrow> UFlowSample \<Rightarrow> 'd AttribMap" where
  "underlay_attribs name f =
     foldl (\<lambda>m (k, v). map_insert k v m) []
       [(''name'', VString name), (''flow.pifindex'', VUint64 (uf_pifindex f)), (''flow.sip'', VString (uf_sip f)),
        (''flow.dip'', VString (uf_dip f)), (''flow.sport'', VUint64 (ucast (uf_sport f))),
        (''flow.dport'', VUint64 (ucast (uf_dport f))), (''flow.protocol'', VUint64 (ucast (uf_protocol f))),
        (''flow.flowtype'', VString (uf_flowtype f))]"

definition underlay_tags :: "string \<Rightarrow> UFlowSample \<Rightarrow> 'd DbTagMap" where
  "underlay_tags name f =
     foldl (\<lambda>m (k, v). multimap_insert k v m) []
       [(''name'', VString name, [(''flow.pifindex'', VUint64 (uf_pifindex f))]), (''flow.sip'', VString (uf_sip f), []),
        (''flow.dip'', VString (uf_dip f), []),
        (''flow.protocol'', VUint64 (ucast (uf_protocol f)), [(''flow.sport'', VUint64 (ucast (uf_sport f)))]),
        (''flow.protocol'', VUint64 (ucast (uf_protocol f)), [(''flow.dport'', VUint64 (ucast (uf_dport f)))])]"

definition UnderlayFlowSampleInsert :: "'d db_env \<Rightarrow> string \<Rightarrow> UFlowSample list \<Rightarrow> u64 \<Rightarrow> 'd DbHandler \<Rightarrow> 'd DbHandler" where
  "UnderlayFlowSampleInsert env name flows ts h =
     foldl (\<lambda>g f. StatTableInsert env ts ''UFlowData'' ''flow'' (underlay_tags name f) (underlay_attribs name f) g) h flows"

section \<open>What the operations append\<close>

text \<open>Every operation only appends to the writes; the field names it records are rows of the statistics
  table. \<open>appends P h h'\<close>: the writes of \<open>h'\<close> are those of \<open>h\<close> with rows satisfying \<open>P\<close> behind.\<close>

definition appends :: "('d ColList \<Rightarrow> bool) \<Rightarrow> 'd DbHandler \<Rightarrow> 'd DbHandler \<Rightarrow> bool" where
  "appends P h h' \<longleftrightarrow> (\<exists>more. written h' = written h @ more \<and> list_all P more)"

abbreviation stats_row :: "'d ColList \<Rightarrow> bool" where
  "stats_row cl \<equiv> cl_cfname cl = STATS_TABLE"

lemma appends_refl [simp]: "appends P h h"
  by (simp add: appends_def)

lemma appends_trans: "appends P a b \<Longrightarrow> appends P b c \<Longrightarrow> appends P a c"
  by (fastforce simp: appends_def)

lemma appends_same_written: "written h' = written h \<Longrightarrow> appends P h h'"
  by (simp add: appends_def)

lemma appends_foldl: "(\<And>g x. appends P g (f g x)) \<Longrightarrow> appends P h (foldl f h xs)"
  by (induction xs arbitrary: h) (auto intro: appends_trans)

lemma CanRecordDataForT2_written: "written (snd (CanRecordDataForT2 t2 e h)) = written h"
  by (simp add: CanRecordDataForT2_def Let_def)

lemma StatTableWrite_appends: "appends stats_row h (snd (StatTableWrite env t2 sn sa acc t1 unm line ttl h))"
  by (auto simp: appends_def StatTableWrite_def InsertIntoDb_def Let_def)

lemma record_tag_names_off [simp]: "record_tag_names hook False tab tags h = h"
  unfolding record_tag_names_def
proof (induction tags arbitrary: h)
  case (Cons t tags)
  then show ?case by (cases t; cases "fst (snd t)") simp_all
qed simp

lemma record_tag_names_appends:
  "(\<And>p f v g. appends stats_row g (hook p f v g)) \<Longrightarrow> appends stats_row h (record_tag_names hook b tab tags h)"
  unfolding record_tag_names_def by (rule appends_foldl) (auto split: prod.splits Var.splits)

lemma stat_table_insert_appends:
  assumes "\<And>p f v g. appends stats_row g (hook p f v g)"
  shows "appends stats_row h (stat_table_insert hook env ts sn sa tags attribs ttl h)"
proof -
  obtain unm h1 where u: "sample_uuid env sn attribs h = (unm, h1)" by (cases "sample_uuid env sn attribs h")
  then have "written h1 = written h" by (auto simp: sample_uuid_def split: if_splits)
  then have 1: "appends stats_row h h1" by (rule appends_same_written)
  have 2: "appends stats_row h1 (if sn \<noteq> ''FieldNames'' then hook a b c h1 else h1)" for a b c
    using assms by simp
  have 3: "appends stats_row g (record_tag_names hook b a tags g)" for a b g by (rule record_tag_names_appends) (rule assms)
  show ?thesis unfolding stat_table_insert_def u Let_def prod.case
    by (rule appends_trans[OF 1 appends_trans[OF 2 appends_trans[OF 3 StatTableWrite_appends]]])
qed

lemma FieldNamesTableInsert_appends: "appends stats_row h (FieldNamesTableInsert env ts ttl p f v h)"
proof -
  obtain r h1 where c: "CanRecordDataForT2 (t2_of ts) ((p @ f) @ '':'' @ v) h = (r, h1)" by force
  then have "written h1 = written h" using CanRecordDataForT2_written[of "t2_of ts" "(p @ f) @ '':'' @ v" h] by simp
  then have "appends stats_row h h1" by (rule appends_same_written)
  moreover have "appends stats_row h1 (stat_table_insert (\<lambda>_ _ _ g. g) env ts sn sa tags attribs ttl h1)" for sn sa tags attribs
    by (rule stat_table_insert_appends) simp
  ultimately show ?thesis unfolding FieldNamesTableInsert_def Let_def c prod.case
    by (simp del: multimap_insert.simps map_insert.simps) (blast intro: appends_trans)
qed

lemma StatTableInsertTtl_appends: "appends stats_row h (StatTableInsertTtl env ts sn sa tags attribs ttl h)"
  unfolding StatTableInsertTtl_def by (rule stat_table_insert_appends) (rule FieldNamesTableInsert_appends)

lemma appends_field: "appends stats_row h g \<Longrightarrow> appends stats_row h (FieldNamesTableInsert env ts ttl p f v g)"
  by (erule appends_trans) (rule FieldNamesTableInsert_appends)

abbreviation other_rows :: "'d DbHandler \<Rightarrow> 'd ColList list" where
  "other_rows db \<equiv> filter (\<lambda>r. \<not> stats_row r) (written db)"

lemma appends_other_rows: "appends stats_row h h' \<Longrightarrow> other_rows h' = other_rows h"
  by (auto simp: appends_def list_all_iff)

text \<open>No operation changes the configuration of the handler.\<close>

definition handler_config :: "'d DbHandler \<Rightarrow> bool \<times> bool \<times> bool \<times> (ttl_type \<rightharpoonup> u64) \<times> string" where
  "handler_config h = (disable_all_writes h, disable_statistics_writes h, disable_messages_writes h, handler_ttl_map h, collector_name h)"

lemma handler_config_foldl: "(\<And>g x. handler_config (f g x) = handler_config g) \<Longrightarrow> handler_config (foldl f h xs) = handler_config h"
  by (induction xs arbitrary: h) simp_all

lemma CanRecordDataForT2_config: "handler_config (snd (CanRecordDataForT2 t2 e h)) = handler_config h"
  by (simp add: CanRecordDataForT2_def Let_def handler_config_def)

lemma InsertIntoDb_config: "handler_config (snd (InsertIntoDb env cl h)) = handler_config h"
  by (simp add: InsertIntoDb_def handler_config_def)

lemma StatTableWrite_config: "handler_config (snd (StatTableWrite env t2 sn sa acc t1 unm line ttl h)) = handler_config h"
  by (auto simp: StatTableWrite_def InsertIntoDb_def handler_config_def Let_def)

lemma stat_table_insert_config:
  assumes "\<And>p f v g. handler_config (hook p f v g) = handler_config g"
  shows "handler_config (stat_table_insert hook env ts sn sa tags attribs ttl h) = handler_config h"
proof -
  obtain unm h1 where u: "sample_uuid env sn attribs h = (unm, h1)" by (cases "sample_uuid env sn attribs h")
  then have "handler_config h1 = handler_config h" by (auto simp: sample_uuid_def handler_config_def split: if_splits)
  moreover have "handler_config (record_tag_names hook b a tags g) = handler_config g" for a b g
    unfolding record_tag_names_def
    by (rule handler_config_foldl) (auto simp: assms split: prod.splits Var.splits)
  ultimately show ?thesis unfolding stat_table_insert_def u Let_def prod.case by (simp add: StatTableWrite_config assms)
qed

lemma FieldNamesTableInsert_config: "handler_config (FieldNamesTableInsert env ts ttl p f v h) = handler_config h"
proof -
  obtain r h1 where c: "CanRecordDataForT2 (t2_of ts) ((p @ f) @ '':'' @ v) h = (r, h1)" by force
  then have "handler_config h1 = handler_config h" using CanRecordDataForT2_config[of "t2_of ts" "(p @ f) @ '':'' @ v" h] by simp
  then show ?thesis unfolding FieldNamesTableInsert_def Let_def c prod.case
    by (simp del: multimap_insert.simps map_insert.simps add: stat_table_insert_config)
qed

lemma StatTableInsert_config: "handler_config (StatTableInsert env ts sn sa tags attribs h) = handler_config h"
  by (simp add: StatTableInsert_def StatTableInsertTtl_def stat_table_insert_config FieldNamesTableInsert_config)

lemma StatTableInsert_appends: "appends stats_row h (StatTableInsert env ts sn sa tags attribs h)"
  by (simp add: StatTableInsert_def StatTableInsertTtl_appends)

text \<open>A step that only adds statistics.\<close>

definition adds_stats :: "'d DbHandler \<Rightarrow> 'd DbHandler \<Rightarrow> bool" where
  "adds_stats h h' \<longleftrightarrow> appends stats_row h h' \<and> handler_config h' = handler_config h"

lemma adds_stats_refl [simp]: "adds_stats h h"
  by (simp add: adds_stats_def)

lemma adds_stats_trans: "adds_stats a b \<Longrightarrow> adds_stats b c \<Longrightarrow> adds_stats a c"
  by (auto simp: adds_stats_def intro: appends_trans)

lemma adds_stats_other_rows: "adds_stats h h' \<Longrightarrow> other_rows h' = other_rows h"
  unfolding adds_stats_def using appends_other_rows by blast

lemma adds_stats_foldl: "(\<And>g x. adds_stats g (f g x)) \<Longrightarrow> adds_stats h (foldl f h xs)"
  by (induction xs arbitrary: h) (auto intro: adds_stats_trans)

lemma StatTableInsert_adds_stats: "adds_stats h (StatTableInsert env ts sn sa tags attribs h)"
  by (simp add: adds_stats_def StatTableInsert_appends StatTableInsert_config)

definition object_row :: "u64 \<Rightarrow> int \<Rightarrow> string \<times> string \<Rightarrow> 'd ColList" where
  "object_row ts ttl kv = \<lparr>cl_cfname = OBJECT_VALUE_TABLE, cl_rowkey = [DbU32 (t2_of ts), DbString (fst kv)],
     cl_name = [DbU32 (t1_of ts)], cl_value = [DbString (snd kv)], cl_ttl = ttl\<rparr>"

lemma ObjectTableInsert_config: "handler_config (ObjectTableInsert env table key ts vmsg h) = handler_config h"
  by (simp add: ObjectTableInsert_def Let_def case_prod_unfold FieldNamesTableInsert_config InsertIntoDb_config)

lemma ObjectTableInsert_rows:
  assumes "\<not> disable_messages_writes h" and "\<not> disable_all_writes h"
  shows "\<exists>more. written (ObjectTableInsert env table key ts vmsg h) = written h @ object_row ts (message_ttl h vmsg) (table, key) # more \<and>
    list_all stats_row more"
proof -
  let ?h1 = "h\<lparr>written := written h @ [object_row ts (message_ttl h vmsg) (table, key)]\<rparr>"
  have "appends stats_row ?h1 (ObjectTableInsert env table key ts vmsg h)"
    using assms by (auto simp: ObjectTableInsert_def InsertIntoDb_def Let_def object_row_def intro!: appends_field)
  then show ?thesis by (auto simp: appends_def)
qed

text \<open>The row \<open>MessageTableOnlyInsert\<close> hands to the store.\<close>

definition message_write :: "'d db_env \<Rightarrow> (SandeshType \<Rightarrow> u8) \<Rightarrow> VizMsg \<Rightarrow> string list \<Rightarrow> 'd DbHandler \<Rightarrow> 'd ColList" where
  "message_write env sn vmsg names h =
     \<lparr>cl_cfname = COLLECTOR_GLOBAL_TABLE,
      cl_rowkey = [DbU32 (t2_of (hdr_Timestamp (msg_header vmsg))), DbU8 (gen_partition_no env (partitions_drawn h))],
      cl_name = message_columns env sn names vmsg, cl_value = [DbString (msg_text vmsg)], cl_ttl = message_ttl h vmsg\<rparr>"

lemma MessageTableInsert_writes:
  assumes "AllowMessageTableInsert h (msg_header vmsg)"
  shows "\<exists>more. written (MessageTableInsert env sn vmsg names h) = written h @ message_write env sn vmsg names h # more \<and>
     list_all stats_row more"
proof -
  let ?h1 = "MessageTableOnlyInsert env sn vmsg names h"
  have w: "written ?h1 = written h @ [message_write env sn vmsg names h]"
    using assms by (simp add: MessageTableOnlyInsert_def InsertIntoDb_def AllowMessageTableInsert_def message_write_def)
  have "appends stats_row ?h1 (MessageTableInsert env sn vmsg names h)"
    using assms by (auto simp: MessageTableInsert_def Let_def intro!: appends_field)
  with w show ?thesis by (auto simp: appends_def)
qed

section \<open>The cache of field names\<close>

text \<open>A sequence of requests, each a T2 and an entry, and what is recorded of it: the period of the cache
  (32 rows) with the entry.\<close>

abbreviation cache_period :: "u32 \<Rightarrow> u32" where "cache_period t2 \<equiv> drop_bit 5 t2"

fun record_run :: "(u32 \<times> string) list \<Rightarrow> 'd DbHandler \<Rightarrow> (u32 \<times> string) list \<times> 'd DbHandler" where
  "record_run [] h = ([], h)"
| "record_run ((t2, e) # rs) h =
     (let (b, h1) = CanRecordDataForT2 t2 e h; (xs, h2) = record_run rs h1
      in (if b then (cache_period t2, e) # xs else xs, h2))"

lemma record_run_append:
  "record_run (rs @ [(t2, e)]) h =
     (let (xs, h1) = record_run rs h; (b, h2) = CanRecordDataForT2 t2 e h1
      in (if b then xs @ [(cache_period t2, e)] else xs, h2))"
proof (induction rs arbitrary: h)
  case (Cons r rs)
  then show ?case by (cases r) (simp add: Let_def split_beta)
qed (simp add: split_beta)

definition newest_so_far :: "(u32 \<times> string) list \<Rightarrow> (u32 \<times> string) set" where
  "newest_so_far rs = {(cache_period t2, e) | pre t2 e post.
     rs = pre @ (t2, e) # post \<and> (\<forall>x \<in> set pre. cache_period (fst x) \<le> cache_period t2)}"

lemma newest_so_far_snoc:
  "newest_so_far (rs @ [(t2, e)]) =
     newest_so_far rs \<union> (if \<forall>x \<in> set rs. cache_period (fst x) \<le> cache_period t2 then {(cache_period t2, e)} else {})"
  (is "?L = ?R")
proof (intro equalityI subsetI)
  fix x assume "x \<in> ?L"
  then obtain pre u f post where x: "x = (cache_period u, f)" and d: "rs @ [(t2, e)] = pre @ (u, f) # post"
    and P: "\<forall>y \<in> set pre. cache_period (fst y) \<le> cache_period u" unfolding newest_so_far_def by blast
  show "x \<in> ?R"
  proof (cases post rule: rev_cases)
    case Nil
    then show ?thesis using x d P by auto
  next
    case (snoc post' z)
    then have "rs = pre @ (u, f) # post'" using d by simp
    then show ?thesis using x P unfolding newest_so_far_def by blast
  qed
next
  fix x assume "x \<in> ?R"
  then consider "x \<in> newest_so_far rs" | "\<forall>y \<in> set rs. cache_period (fst y) \<le> cache_period t2" "x = (cache_period t2, e)"
    by (auto split: if_splits)
  then show "x \<in> ?L"
  proof cases
    case 1
    then obtain pre u f post where "x = (cache_period u, f)" "rs @ [(t2, e)] = pre @ (u, f) # (post @ [(t2, e)])"
      "\<forall>y \<in> set pre. cache_period (fst y) \<le> cache_period u" unfolding newest_so_far_def by auto
    then show ?thesis unfolding newest_so_far_def by blast
  next
    case 2
    then show ?thesis unfolding newest_so_far_def by blast
  qed
qed

lemma record_run_state:
  assumes "field_cache_index h = 0" "field_cache_set h = {}" "record_run rs h = (xs, h')"
  shows "distinct xs \<and> set xs = newest_so_far rs \<and> (\<forall>r \<in> set rs. cache_period (fst r) \<le> field_cache_index h') \<and>
     (field_cache_index h' = 0 \<or> field_cache_index h' \<in> (cache_period \<circ> fst) ` set rs) \<and>
     (\<forall>x \<in> set xs. fst x \<le> field_cache_index h') \<and> field_cache_set h' = {e. (field_cache_index h', e) \<in> set xs}"
  using assms(3)
proof (induction rs arbitrary: xs h' rule: rev_induct)
  case Nil
  then show ?case using assms(1,2) by (simp add: newest_so_far_def)
next
  case (snoc r rs)
  obtain t2 e where r: "r = (t2, e)" by force
  obtain ys h1 where run: "record_run rs h = (ys, h1)" by force
  note IH = snoc.IH[OF run]
  have newest: "(\<forall>x \<in> set rs. cache_period (fst x) \<le> cache_period t2) \<longleftrightarrow> field_cache_index h1 \<le> cache_period t2"
    using IH by fastforce
  have step: "xs = (if fst (CanRecordDataForT2 t2 e h1) then ys @ [(cache_period t2, e)] else ys)" "h' = snd (CanRecordDataForT2 t2 e h1)"
    using snoc.prems run by (auto simp: r record_run_append split_beta)
  consider (newer) "field_cache_index h1 < cache_period t2" | (same) "field_cache_index h1 = cache_period t2" "e \<notin> field_cache_set h1"
    | (seen) "field_cache_index h1 = cache_period t2" "e \<in> field_cache_set h1" | (late) "cache_period t2 < field_cache_index h1"
    by fastforce
  then show ?case
  proof cases
    case newer
    then have st: "xs = ys @ [(cache_period t2, e)]" "h' = h1\<lparr>field_cache_index := cache_period t2, field_cache_set := {e}\<rparr>"
      using step by (simp_all add: CanRecordDataForT2_def Let_def)
    have new: "(cache_period t2, f) \<notin> set ys" for f using IH newer by fastforce
    show ?thesis unfolding r newest_so_far_snoc newest st using IH newer new by (auto intro: order.trans less_imp_le)
  next
    case same
    then have st: "xs = ys @ [(cache_period t2, e)]" "h' = h1\<lparr>field_cache_set := insert e (field_cache_set h1)\<rparr>"
      using step by (simp_all add: CanRecordDataForT2_def Let_def)
    show ?thesis unfolding r newest_so_far_snoc newest st using IH same by auto
  next
    case seen
    then have st: "xs = ys" "h' = h1" using step by (simp_all add: CanRecordDataForT2_def Let_def)
    show ?thesis unfolding r newest_so_far_snoc newest st using IH seen by auto
  next
    case late
    then have st: "xs = ys" "h' = h1" using step by (auto simp: CanRecordDataForT2_def Let_def)
    show ?thesis unfolding r newest_so_far_snoc newest st using IH late by auto
  qed
qed

text \<open>
  The comments of \<open>FieldNamesTableInsert\<close> and \<open>CanRecordDataForT2\<close> speak of two caches, for the newest period and the
  one before, and of ignoring what is older than both: so an entry is to be recorded when no entry before it is more
  than one period newer. \<open>one_late\<close> are the entries that arrive when the newest period is the one after theirs.
\<close>

definition two_periods :: "(u32 \<times> string) list \<Rightarrow> (u32 \<times> string) set" where
  "two_periods rs = {(cache_period t2, e) | t2 e before later. rs = before @ (t2, e) # later \<and> (\<forall>r \<in> set before. cache_period (fst r) \<le> cache_period t2 + 1)}"

definition one_late :: "(u32 \<times> string) list \<Rightarrow> (u32 \<times> string) set" where
  "one_late rs = {(cache_period t2, e) | t2 e before later. rs = before @ (t2, e) # later \<and>
     (\<forall>r \<in> set before. cache_period (fst r) \<le> cache_period t2 + 1) \<and> (\<exists>r \<in> set before. cache_period (fst r) = cache_period t2 + 1)}"

lemma next_period:
  "uint (cache_period t2 + 1) = uint (cache_period t2) + 1"
proof -
  have "uint (cache_period t2) = uint t2 div 32" by (simp add: drop_bit_eq_div uint_div_distrib)
  also have "\<dots> < 2 ^ 27" using uint_lt2p[of t2] by simp
  finally show ?thesis by (simp add: uint_plus_if_size word_size)
qed

lemma two_periods_split: "two_periods rs = newest_so_far rs \<union> one_late rs"
proof (intro equalityI subsetI)
  have next_up: "a \<le> cache_period t2 + 1 \<longleftrightarrow> a \<le> cache_period t2 \<or> a = cache_period t2 + 1" for a t2
    by (auto simp: word_le_def word_uint_eq_iff next_period)
  fix x
  {
    assume "x \<in> two_periods rs"
    then obtain t2 e before later where x: "x = (cache_period t2, e)" "rs = before @ (t2, e) # later"
      and b: "\<forall>r \<in> set before. cache_period (fst r) \<le> cache_period t2 + 1" unfolding two_periods_def by blast
    show "x \<in> newest_so_far rs \<union> one_late rs"
    proof (cases "\<exists>r \<in> set before. cache_period (fst r) = cache_period t2 + 1")
      case True
      then have "x \<in> one_late rs" unfolding one_late_def using x b by blast
      then show ?thesis by simp
    next
      case False
      then have "\<forall>r \<in> set before. cache_period (fst r) \<le> cache_period t2" using b next_up by blast
      then have "x \<in> newest_so_far rs" unfolding newest_so_far_def using x by blast
      then show ?thesis by simp
    qed
  }
  assume "x \<in> newest_so_far rs \<union> one_late rs"
  then obtain t2 e before later where "x = (cache_period t2, e)" "rs = before @ (t2, e) # later"
    "\<forall>r \<in> set before. cache_period (fst r) \<le> cache_period t2 + 1"
    unfolding newest_so_far_def one_late_def using next_up by blast
  then show "x \<in> two_periods rs" unfolding two_periods_def by blast
qed

text \<open>
  C37: The field names recorded are exactly, and once each, those whose period (32 rows) was the newest
  seen when they came in; repetitions within the period are not recorded again. This is less than the comments
  promise: of what is to be recorded when the newest period and the one before are kept, everything that arrives
  one period late is left out, unless it was recorded when its period was the newest.
\<close>

theorem field_names_recorded_once:
  assumes "field_cache_index h = 0" and "field_cache_set h = {}" and "record_run rs h = (xs, h')"
  shows "distinct xs \<and> set xs = newest_so_far rs \<and> two_periods rs = set xs \<union> one_late rs"
  using record_run_state[OF assms] two_periods_split[of rs] by blast

definition empty_handler :: "nat DbHandler" where
  "empty_handler = \<lparr>field_cache_index = 0, field_cache_set = {}, disable_all_writes = False, disable_statistics_writes = False,
     disable_messages_writes = False, handler_ttl_map = [GLOBAL_TTL \<mapsto> 48, STATSDATA_TTL \<mapsto> 168], collector_name = ''c1'',
     uuids_drawn = 0, partitions_drawn = 0, written = [], stable_stats = []\<rparr>"

theorem field_names_recorded_once_witness:
  "\<exists>xs h'. record_run [(64, ''a''), (70, ''a''), (40, ''b''), (65, ''c'')] empty_handler = (xs, h') \<and> xs = [(2, ''a''), (2, ''c'')] \<and>
     (1, ''b'') \<in> two_periods [(64, ''a''), (70, ''a''), (40, ''b''), (65, ''c'')] - set xs"
proof -
  let ?rs = "[(64, ''a''), (70, ''a''), (40, ''b''), (65, ''c'')] :: (u32 \<times> string) list"
  obtain xs h' where run: "record_run ?rs empty_handler = (xs, h')" by force
  have xs: "xs = [(2, ''a''), (2, ''c'')]"
    using run by (simp add: CanRecordDataForT2_def empty_handler_def Let_def)
  have "(cache_period 40, ''b'') \<in> one_late ?rs"
    unfolding one_late_def
    by (intro CollectI exI[of _ 40] exI[of _ "''b''"] exI[of _ "[(64, ''a''), (70, ''a'')]"] exI[of _ "[(65, ''c'')]"]) simp
  moreover have "two_periods ?rs = set xs \<union> one_late ?rs"
    using field_names_recorded_once[of empty_handler ?rs xs h'] run by (simp add: empty_handler_def)
  ultimately have "(1, ''b'') \<in> two_periods ?rs" by simp
  with run xs show ?thesis by auto
qed

end
