(* ===== verification/Select_Query.thy ===== *)
theory Select_Query
  imports Stats_Select Db_Query
begin

text \<open>
  \<open>select.cc\<close>: the SELECT clause. The constructor reads the selected fields from the request, checks
  them against the schema of the table and sets up the aggregation; \<open>process_query\<close> turns the WHERE
  results into rows. Modelled are the constructor and the branches for statistics tables, for the table
  of object names and for message and object logs; the branch for session and flow tables is not.
  Schema data of \<open>viz.sandesh\<close> and the JSON parser are arguments.
\<close>

section \<open>The clause\<close>

datatype agg_op_t = OP_RAW | OP_SUM
datatype stat_type_t = PKT_STATS | BYTE_STATS

record SelectQuery =
  select_column_fields :: "string list"
  agg_stats :: "(agg_op_t \<times> stat_type_t) list"
  provide_timeseries :: bool
  granularity :: u32
  sel_cfname :: string
  sel_unroll_needed :: bool
  sel_stats :: "StatsSelect option"
  fs_query_type :: u8

record select_ctx =
  sc_table :: string
  sc_tables :: "vtable list"
  sc_additional_select :: "string list"

definition session_json_fields :: "string list" where
  "session_json_fields =
     [''remote_ip'', ''client_port'', ''other_vrouter_ip'', ''underlay_proto'', ''forward_flow_uuid'',
      ''forward_setup_time'', ''forward_teardown_time'', ''forward_action'', ''forward_sg_rule_uuid'',
      ''forward_nw_ave_uuid'', ''forward_underlay_source_port'', ''forward_drop_reason'',
      ''forward_teardown_bytes'', ''forward_teardown_pkts'', ''reverse_flow_uuid'', ''reverse_setup_time'',
      ''reverse_teardown_time'', ''reverse_action'', ''reverse_sg_rule_uuid'', ''reverse_nw_ave_uuid'',
      ''reverse_underlay_source_port'', ''reverse_drop_reason'', ''reverse_teardown_bytes'',
      ''reverse_teardown_pkts'', ''sourceip'', ''destip'', ''dport'', ''sport'', ''UuidKey'', ''setup_time'',
      ''teardown_time'', ''agg-bytes'', ''agg-pkts'', ''action'', ''sg_rule_uuid'', ''nw_ace_uuid'',
      ''underlay_source_port'', ''drop_reason'']"

definition select_cfname :: "string \<Rightarrow> string" where
  "select_cfname table =
     (if is_message_table_query table \<or> is_object_table_query table then COLLECTOR_GLOBAL_TABLE
      else if table = FLOW_TABLE \<or> table = OBJECT_VALUE_TABLE then table
      else '''')"

fun is_valid_select_field :: "vtable list \<Rightarrow> string \<Rightarrow> string \<Rightarrow> bool" where
  "is_valid_select_field [] table f = True"
| "is_valid_select_field (t # ts) table f =
     (if tab_name t = table then list_ex (\<lambda>c. col_name c = f) (tab_columns t)
      else is_valid_select_field ts table f)"

definition init_select :: "string \<Rightarrow> SelectQuery" where
  "init_select table = \<lparr>select_column_fields = [], agg_stats = [], provide_timeseries = False, granularity = 0,
     sel_cfname = select_cfname table, sel_unroll_needed = False, sel_stats = None, fs_query_type = 0\<rparr>"

subsection \<open>Statistics and session tables\<close>

record stats_scan =
  scan_query :: SelectQuery
  uuid_key_selected :: bool
  reverse_uuid_key_selected :: bool
  session_class_selected :: bool
  session_count_selected :: bool

definition push_field :: "string \<Rightarrow> stats_scan \<Rightarrow> stats_scan" where
  "push_field f s = s\<lparr>scan_query := (scan_query s)\<lparr>select_column_fields := select_column_fields (scan_query s) @ [f]\<rparr>\<rparr>"

definition sum_of :: "string \<Rightarrow> string" where
  "sum_of f = ''SUM('' @ f @ '')''"

definition scan_stats_column :: "stats_scan \<Rightarrow> string \<Rightarrow> stats_scan" where
  "scan_stats_column s field =
     push_field (if field \<in> {''forward_teardown_bytes'', ''forward_teardown_pkts'', ''reverse_teardown_bytes'', ''reverse_teardown_pkts''}
                 then sum_of field else field)
       (s\<lparr>uuid_key_selected := uuid_key_selected s \<or> field = ''forward_flow_uuid'',
          reverse_uuid_key_selected := reverse_uuid_key_selected s \<or> field = ''reverse_flow_uuid''\<rparr>)"

definition session_field_ok :: "select_ctx \<Rightarrow> string \<Rightarrow> bool" where
  "session_field_ok ctx field \<longleftrightarrow>
     (is_session_query (sc_table ctx) \<longrightarrow>
       (if field = STAT_TIME_FIELD \<or> starts_with field STAT_TIMEBIN_FIELD then sc_table ctx = SESSION_SERIES_TABLE
        else is_valid_select_field (sc_tables ctx) (sc_table ctx) field))"

definition scan_stats_field :: "select_ctx \<Rightarrow> stats_scan \<Rightarrow> 'd json \<Rightarrow> stats_scan checked" where
  "scan_stats_field ctx s v =
     bind_checked (GetString v) (\<lambda>field.
     bind_checked
       (if field = ''session_class_id'' then
          bind_checked (ensure (sc_table ctx = SESSION_SERIES_TABLE) EINVAL) (\<lambda>_. Done (s\<lparr>session_class_selected := True\<rparr>))
        else if field = ''sample_count'' then
          bind_checked (ensure (sc_table ctx = SESSION_SERIES_TABLE) EINVAL) (\<lambda>_. Done (s\<lparr>session_count_selected := True\<rparr>))
        else Done (scan_stats_column s field)) (\<lambda>s1.
     bind_checked (ensure (session_field_ok ctx field) EINVAL) (\<lambda>_.
       Done (s1\<lparr>scan_query := (scan_query s1)\<lparr>sel_unroll_needed := sel_unroll_needed (scan_query s1) \<or> field \<in> set session_json_fields\<rparr>\<rparr>))))"

definition add_class_count :: "bool \<Rightarrow> string \<Rightarrow> SelectQuery \<Rightarrow> SelectQuery checked" where
  "add_class_count selected kw q =
     (if selected then
        (case select_column_fields q of [] \<Rightarrow> Fail EINVAL
         | f # _ \<Rightarrow> Done (q\<lparr>select_column_fields := select_column_fields q @ [kw @ ''('' @ f @ '')'']\<rparr>))
      else Done q)"

definition with_stats :: "SelectQuery \<Rightarrow> SelectQuery checked" where
  "with_stats q =
     bind_checked (of_outcome (new_StatsSelect (select_column_fields q))) (\<lambda>st.
     bind_checked (ensure (ss_status st) EINVAL) (\<lambda>_. Done (q\<lparr>sel_stats := Some st\<rparr>)))"

definition add_record_uuids :: "select_ctx \<Rightarrow> stats_scan \<Rightarrow> SelectQuery \<Rightarrow> SelectQuery" where
  "add_record_uuids ctx s q =
     (if sc_table ctx = SESSION_RECORD_TABLE then
        q\<lparr>select_column_fields := select_column_fields q
             @ (if uuid_key_selected s then [] else [''forward_flow_uuid''])
             @ (if reverse_uuid_key_selected s then [] else [''reverse_flow_uuid'']),
          sel_unroll_needed := True\<rparr>
      else q)"

definition select_stats_fields :: "select_ctx \<Rightarrow> 'd json list \<Rightarrow> SelectQuery checked" where
  "select_stats_fields ctx fs =
     bind_checked (foldl_checked (scan_stats_field ctx)
       \<lparr>scan_query = init_select (sc_table ctx), uuid_key_selected = False, reverse_uuid_key_selected = False,
        session_class_selected = False, session_count_selected = False\<rparr> fs) (\<lambda>s.
     bind_checked (add_class_count (session_class_selected s) ''CLASS'' (scan_query s)) (\<lambda>q1.
     bind_checked (add_class_count (session_count_selected s) ''COUNT'' q1) (\<lambda>q2.
       with_stats (add_record_uuids ctx s q2))))"

subsection \<open>Other tables\<close>

definition flow_tuple_names :: "string list" where
  "flow_tuple_names = [''vrouter'', ''sourcevn'', ''sourceip'', ''destvn'', ''destip'', ''protocol'', ''sport'', ''dport'', ''direction_ing'']"

definition is_flow_tuple_specified :: "SelectQuery \<Rightarrow> bool" where
  "is_flow_tuple_specified q \<longleftrightarrow> list_ex (\<lambda>f. get_query_string f \<in> set flow_tuple_names) (select_column_fields q)"

definition FS_T :: u8 where "FS_T = 1"
definition FS_TS :: u8 where "FS_TS = 2"
definition FS_FLOW_TUPLE :: u8 where "FS_FLOW_TUPLE = 4"
definition FS_STATS :: u8 where "FS_STATS = 8"

text \<open>The loop over \<open>agg_stats\<close>: \<open>prev\<close> is \<open>stats_op\<close>, \<open>None\<close> for \<open>AGG_OP_INVALID\<close>.\<close>

fun fs_stats_loop :: "(agg_op_t \<times> stat_type_t) list \<Rightarrow> agg_op_t option \<Rightarrow> u8 \<Rightarrow> u8" where
  "fs_stats_loop [] prev t = t"
| "fs_stats_loop ((OP_RAW, _) # as) prev t =
     (if t AND FS_TS \<noteq> 0 \<or> prev = Some OP_SUM then 0 else fs_stats_loop as (Some OP_RAW) (t OR FS_T))"
| "fs_stats_loop ((OP_SUM, _) # as) prev t =
     (if t AND FS_T \<noteq> 0 \<or> prev = Some OP_RAW then 0 else fs_stats_loop as (Some OP_SUM) t)"

definition evaluate_fs_query_type :: "SelectQuery \<Rightarrow> u8" where
  "evaluate_fs_query_type q =
     (let t1 = (if provide_timeseries q then (if granularity q \<noteq> 0 then fs_query_type q OR FS_TS else fs_query_type q OR FS_T)
                else fs_query_type q);
          t2 = (if is_flow_tuple_specified q then t1 OR FS_FLOW_TUPLE else t1)
      in if agg_stats q \<noteq> [] then fs_stats_loop (agg_stats q) None (t2 OR FS_STATS) else t2)"

record flow_scan =
  flow_query :: SelectQuery
  flow_class_selected :: bool
  uuid_selected :: bool

definition push_flow_field :: "string \<Rightarrow> flow_scan \<Rightarrow> flow_scan" where
  "push_flow_field f s = s\<lparr>flow_query := (flow_query s)\<lparr>select_column_fields := select_column_fields (flow_query s) @ [f]\<rparr>\<rparr>"

definition push_agg :: "agg_op_t \<Rightarrow> stat_type_t \<Rightarrow> flow_scan \<Rightarrow> flow_scan" where
  "push_agg op st s = s\<lparr>flow_query := (flow_query s)\<lparr>agg_stats := agg_stats (flow_query s) @ [(op, st)]\<rparr>\<rparr>"

definition scan_other_field :: "select_ctx \<Rightarrow> int \<Rightarrow> flow_scan \<Rightarrow> string \<Rightarrow> flow_scan checked" where
  "scan_other_field ctx direction s f =
     bind_checked (ensure (is_valid_select_field (sc_tables ctx) (sc_table ctx) f) EINVAL) (\<lambda>_.
       let s1 = push_flow_field (if f = ''agg-packets'' \<or> f = ''agg-bytes'' then sum_of f else get_column_name f) s;
           unroll = (\<not> (direction = 1 \<and> f = ''sourceip'' \<or> direction = 0 \<and> f = ''destip'') \<and> f \<in> set session_json_fields)
       in Done (s1\<lparr>uuid_selected := uuid_selected s1 \<or> f = ''UuidKey'',
                   flow_query := (flow_query s1)\<lparr>sel_unroll_needed := sel_unroll_needed (flow_query s1) \<or> unroll\<rparr>\<rparr>))"

definition set_timeseries :: "u32 \<Rightarrow> flow_scan \<Rightarrow> flow_scan" where
  "set_timeseries g s = s\<lparr>flow_query := (flow_query s)\<lparr>provide_timeseries := True, granularity := g\<rparr>\<rparr>"

definition scan_flow_field :: "select_ctx \<Rightarrow> int \<Rightarrow> flow_scan \<Rightarrow> 'd json \<Rightarrow> flow_scan checked" where
  "scan_flow_field ctx direction s v =
     bind_checked (ensure (IsString v) EBADMSG) (\<lambda>_.
     bind_checked (GetString v) (\<lambda>f.
       let table = sc_table ctx
       in if f = ''T'' then
            bind_checked (ensure (is_flow_query table \<or> is_stat_table_query table) EINVAL)
              (\<lambda>_. Done (push_flow_field f (set_timeseries (granularity (flow_query s)) s)))
          else if starts_with f ''T='' then
            bind_checked (ensure (table = FLOW_SERIES_TABLE \<or> is_stat_table_query table) EINVAL)
              (\<lambda>_. Done (push_flow_field f (set_timeseries (word_of_int (atoi (drop 2 f)) * 1000000) s)))
          else if f = ''packets'' then
            bind_checked (ensure (is_flow_query table) EINVAL) (\<lambda>_. Done (push_flow_field f (push_agg OP_RAW PKT_STATS s)))
          else if f = ''bytes'' then
            bind_checked (ensure (is_flow_query table) EINVAL) (\<lambda>_. Done (push_flow_field f (push_agg OP_RAW BYTE_STATS s)))
          else if f = ''SUM(packets)'' then
            bind_checked (ensure (table = FLOW_SERIES_TABLE) EINVAL) (\<lambda>_. Done (push_flow_field f (push_agg OP_SUM PKT_STATS s)))
          else if f = ''SUM(bytes)'' then
            bind_checked (ensure (table = FLOW_SERIES_TABLE) EINVAL) (\<lambda>_. Done (push_flow_field f (push_agg OP_SUM BYTE_STATS s)))
          else if f = ''flow_class_id'' then
            bind_checked (ensure (table = FLOW_SERIES_TABLE) EINVAL) (\<lambda>_. Done (s\<lparr>flow_class_selected := True\<rparr>))
          else if f = ''flow_count'' then Fail EINVAL
          else scan_other_field ctx direction s f))"

definition add_flow_class :: "flow_scan \<Rightarrow> SelectQuery \<Rightarrow> SelectQuery checked" where
  "add_flow_class s q =
     (if flow_class_selected s then
        (case select_column_fields q of [] \<Rightarrow> Crash
         | f # _ \<Rightarrow> Done (q\<lparr>select_column_fields := select_column_fields q @ [''CLASS('' @ f @ '')'']\<rparr>))
      else Done q)"

definition finish_flow :: "select_ctx \<Rightarrow> flow_scan \<Rightarrow> SelectQuery \<Rightarrow> SelectQuery checked" where
  "finish_flow ctx s q =
     (let q1 = (if sc_table ctx = FLOW_TABLE \<and> \<not> uuid_selected s
                then q\<lparr>select_column_fields := select_column_fields q @ [''UuidKey''], sel_unroll_needed := True\<rparr> else q)
      in if is_flow_query (sc_table ctx)
         then with_stats (q1\<lparr>select_column_fields := select_column_fields q1 @ sc_additional_select ctx\<rparr>)
         else Done q1)"

definition select_other_fields :: "select_ctx \<Rightarrow> int \<Rightarrow> 'd json list \<Rightarrow> SelectQuery checked" where
  "select_other_fields ctx direction fs =
     bind_checked (foldl_checked (scan_flow_field ctx direction)
       \<lparr>flow_query = init_select (sc_table ctx), flow_class_selected = False, uuid_selected = False\<rparr> fs) (\<lambda>s.
     bind_checked
       (if sc_table ctx = FLOW_SERIES_TABLE then
          (let t = evaluate_fs_query_type (flow_query s)
           in if t = 0 then Fail EINVAL else Done ((flow_query s)\<lparr>fs_query_type := t\<rparr>))
        else Done (flow_query s)) (\<lambda>q.
     bind_checked (add_flow_class s q) (finish_flow ctx s)))"

text \<open>The constructor: \<open>json_api_data\<close> is the request, \<open>parse\<close> the JSON parser. An \<open>int\<close> the stream
  extraction cannot read becomes 0.\<close>

definition new_SelectQuery :: "(string \<Rightarrow> 'd json) \<Rightarrow> select_ctx \<Rightarrow> (string \<rightharpoonup> string) \<Rightarrow> SelectQuery checked" where
  "new_SelectQuery parse ctx json_api_data =
     (case json_api_data ''select_fields'' of
        None \<Rightarrow> Fail EBADMSG
      | Some text \<Rightarrow>
          bind_checked (member (parse (''{ '' @ [CHR 0x22] @ ''select'' @ [CHR 0x22] @ '' : '' @ text @ '' }'')) ''select'') (\<lambda>v.
          bind_checked (ensure (IsArray v) EBADMSG) (\<lambda>_.
          bind_checked (elements v) (\<lambda>fs.
            let direction = (case json_api_data ''dir'' of None \<Rightarrow> 1 | Some d \<Rightarrow> istream_int d)
            in if is_stat_table_query (sc_table ctx) \<or> is_session_query (sc_table ctx)
               then select_stats_fields ctx fs
               else select_other_fields ctx direction fs))))"

definition ObjectIdQuery :: "SelectQuery \<Rightarrow> bool" where
  "ObjectIdQuery q \<longleftrightarrow> select_column_fields q = [''ObjectId'']"

section \<open>Statistics rows\<close>

definition query_result_size_limit :: nat where "query_result_size_limit = 25000000"

definition get_cstr :: "'d json \<Rightarrow> string outcome" where
  "get_cstr v = (case v of JString s \<Rightarrow> Ret (c_str s) | _ \<Rightarrow> Abort)"

definition join_with :: "string \<Rightarrow> string list \<Rightarrow> string" where
  "join_with sep xs = concat (map (\<lambda>(i, x). (if i = 0 then [] else sep) @ x) (enumerate 0 xs))"

definition quote :: "string \<Rightarrow> string" where
  "quote s = [CHR 0x22] @ s @ [CHR 0x22]"

text \<open>One member of a sample: the last character of its name is the type, the two last ones are not part
  of the attribute's name.\<close>

definition stat_name :: "string \<Rightarrow> string" where
  "stat_name fvname = (if length fvname < 2 then fvname else take (length fvname - 2) fvname)"

definition map_entries :: "string \<Rightarrow> (string \<times> string) list \<Rightarrow> ('d, 't, 'c) StatEntry list" where
  "map_entries name kvs =
     map (\<lambda>(k, v). (name @ ''.'' @ k, SString v)) kvs
     @ [(name, SString (''{'' @ join_with '', '' (map (\<lambda>(k, v). quote k @ '':'' @ quote v) kvs) @ ''}''))]"

definition stat_entries :: "('d, 't, 'c) agg_ext \<Rightarrow> string \<times> 'd json \<Rightarrow> ('d, 't, 'c) StatEntry list outcome" where
  "stat_entries ext e =
     (let fvname = c_str (fst e); v = snd e; name = stat_name fvname
      in if fvname = [] then Abort
         else if last fvname = CHR ''s'' then bind_outcome (get_cstr v) (\<lambda>s. Ret [(name, SString s)])
         else if last fvname = CHR ''n'' then
           (case v of JInt i \<Rightarrow> if 0 \<le> i \<and> i < 2 ^ 64 then Ret [(name, SUint64 (word_of_int i))] else Abort | _ \<Rightarrow> Abort)
         else if last fvname = CHR ''d'' then
           (case v of JDouble d \<Rightarrow> Ret [(name, SDouble d)] | JInt i \<Rightarrow> Ret [(name, SDouble (double_of_int ext i))] | _ \<Rightarrow> Abort)
         else if last fvname = CHR ''a'' then
           (case v of JArray xs \<Rightarrow> bind_outcome (map_outcome get_cstr xs) (\<lambda>ss. Ret [(name, SString (join_with ''; '' ss))])
            | _ \<Rightarrow> Abort)
         else if last fvname = CHR ''m'' then
           (case v of JObject ms \<Rightarrow>
              bind_outcome (map_outcome (\<lambda>(k, x). bind_outcome (get_cstr x) (\<lambda>s. Ret (c_str k, s))) ms)
                (\<lambda>kvs. Ret (map_entries name kvs))
            | _ \<Rightarrow> Abort)
         else Abort)"

definition sample_attribs :: "('d, 't, 'c) agg_ext \<Rightarrow> 'd json \<Rightarrow> ('d, 't, 'c) StatEntry list outcome" where
  "sample_attribs ext d =
     (case d of JObject ms \<Rightarrow> bind_outcome (map_outcome (stat_entries ext) ms) (\<lambda>es. Ret (concat es)) | _ \<Rightarrow> Abort)"

text \<open>One unit of the WHERE result; a sample that is not valid JSON is skipped.\<close>

definition select_stats_row ::
    "('d, 't, 'c) agg_ext \<Rightarrow> (string \<Rightarrow> 'd json option) \<Rightarrow> StatsSelect \<Rightarrow> ('d, 't, 'c) MapBufT \<Rightarrow>
     'd DbDataValue query_result_unit_t \<Rightarrow> ('d, 't, 'c) MapBufT outcome" where
  "select_stats_row ext parse st out r =
     bind_outcome (get_stattable_info r) (\<lambda>(json, u).
       case parse (c_str json) of
         None \<Rightarrow> Ret out
       | Some d \<Rightarrow> bind_outcome (sample_attribs ext d) (\<lambda>attribs.
           bind_outcome (LoadRow ext st u (timestamp r) attribs out) (\<lambda>(b, out'). Ret out')))"

definition select_stats_query ::
    "('d, 't, 'c) agg_ext \<Rightarrow> (string \<Rightarrow> 'd json option) \<Rightarrow> SelectQuery \<Rightarrow> 'd DbDataValue WhereResultT \<Rightarrow>
     ('d, 't, 'c) MapBufT checked" where
  "select_stats_query ext parse q units =
     (case sel_stats q of
        None \<Rightarrow> Crash
      | Some st \<Rightarrow> if length units > query_result_size_limit then Fail EIO
                   else of_outcome (foldl_outcome (select_stats_row ext parse st) [] units))"

section \<open>Object names\<close>

definition object_value_t2s :: "u64 \<Rightarrow> u64 \<Rightarrow> u32 list" where
  "object_value_t2s f e = map of_nat [unat (t2_of f)..<unat (t2_of e)]"

definition object_value_keys :: "string \<Rightarrow> u64 \<Rightarrow> u64 \<Rightarrow> 'd rowkey list" where
  "object_value_keys object_value_key f e = map (\<lambda>t2. [DbU32 t2, DbString object_value_key]) (object_value_t2s f e)"

fun object_value_cols :: "bool \<Rightarrow> bool \<Rightarrow> u32 \<Rightarrow> u32 \<Rightarrow> 'd column list \<Rightarrow> string list outcome" where
  "object_value_cols is_first is_last t1_start t1_end [] = Ret []"
| "object_value_cols is_first is_last t1_start t1_end (c # cs) =
     bind_outcome (if is_first \<or> is_last then bind_outcome (vec_at (fst c) 0) get_u32 else Ret 0) (\<lambda>t1.
       if is_first \<and> t1 < t1_start then object_value_cols is_first is_last t1_start t1_end cs
       else if is_last \<and> t1 > t1_end then Ret []
       else bind_outcome (bind_outcome (vec_at (snd c) 0) get_string) (\<lambda>v.
              bind_outcome (object_value_cols is_first is_last t1_start t1_end cs) (\<lambda>vs. Ret (v # vs))))"

definition object_value_rows :: "u64 \<Rightarrow> u64 \<Rightarrow> 'd column list list \<Rightarrow> string list list outcome" where
  "object_value_rows f e rows =
     map_outcome (\<lambda>(i, cols). object_value_cols (i = 0) (Suc i = length rows) (t1_of f) (t1_of e) cols) (enumerate 0 rows)"

definition select_object_values ::
    "('d rowkey list \<Rightarrow> 'd column list list option) \<Rightarrow> string \<Rightarrow> u64 \<Rightarrow> u64 \<Rightarrow> OutRowT list checked" where
  "select_object_values Db_GetMultiRow object_value_key f e =
     (case Db_GetMultiRow (object_value_keys object_value_key f e) of
        None \<Rightarrow> Fail EIO
      | Some rows \<Rightarrow>
          bind_checked (of_outcome (object_value_rows f e rows)) (\<lambda>vs.
            Done (map (\<lambda>v. [''ObjectId'' \<mapsto> v]) (sort (remdups (concat vs))))))"

section \<open>Messages and object logs\<close>

record msg_ext =
  sandesh_system :: u32
  sandesh_object :: u32
  sandesh_uve :: u32
  sandesh_alarm :: u32

definition strip_to_colon :: "string \<Rightarrow> string" where
  "strip_to_colon s = drop (case find_char CHR '':'' s of None \<Rightarrow> 0 | Some i \<Rightarrow> Suc i) s"

definition get_query_column_value ::
    "msg_schema \<Rightarrow> ('d DbDataValue \<Rightarrow> string) \<Rightarrow> string \<Rightarrow> 'd DbDataValue list \<Rightarrow> nat \<Rightarrow> string \<Rightarrow>
     (string \<times> 'd DbDataValue \<times> string) outcome" where
  "get_query_column_value sch to_string table cells index object_id =
     bind_outcome (MsgTableIndexToColumn sch index) (\<lambda>columnN.
     bind_outcome (MsgTableColumnToQueryColumn sch columnN) (\<lambda>query_column.
     bind_outcome (vec_at cells index) (\<lambda>v.
       if v = DbBlank then Ret (query_column, v, object_id)
       else bind_outcome (MsgTableIndexToIndexType sch index) (\<lambda>indexed.
         if \<not> indexed then Ret (query_column, v, object_id)
         else let s = strip_to_colon (to_string v)
              in if starts_with query_column ''ObjectTypeName''
                 then (let s' = strip_to_colon s
                       in Ret (query_column, DbString s', if starts_with s table then s' else object_id))
                 else Ret (query_column, DbString s, object_id)))))"

definition add_result_column ::
    "msg_schema \<Rightarrow> ('d DbDataValue \<Rightarrow> string) \<Rightarrow> string \<Rightarrow> 'd DbDataValue query_result_unit_t \<Rightarrow>
     (string \<rightharpoonup> 'd DbDataValue) \<times> string \<Rightarrow> nat \<Rightarrow> ((string \<rightharpoonup> 'd DbDataValue) \<times> string) outcome" where
  "add_result_column sch to_string table r st i =
     bind_outcome (get_query_column_value sch to_string table (info r) i (snd st)) (\<lambda>(qc, v, oid).
       let v' = (if qc = ''MessageTS'' then DbU64 (timestamp r) else v)
       in Ret (if fst st qc = None then (fst st)(qc \<mapsto> v') else fst st, oid))"

definition log_kind :: "msg_ext \<Rightarrow> u32 \<Rightarrow> string option" where
  "log_kind x t = (if t = sandesh_system x then Some ''SystemLog''
                   else if t \<in> {sandesh_object x, sandesh_uve x, sandesh_alarm x} then Some ''ObjectLog'' else None)"

text \<open>\<open>None\<close> is a \<open>false\<close> return: the row is of no interest.\<close>

definition object_select_param ::
    "msg_ext \<Rightarrow> string list \<Rightarrow> string \<Rightarrow> (string \<rightharpoonup> 'd DbDataValue) \<Rightarrow> string \<Rightarrow> OutRowT \<Rightarrow> OutRowT option outcome" where
  "object_select_param x sel_fields sel_field col_res object_id cmap =
     (case col_res ''Type'' of
        Some (DbU32 t) \<Rightarrow>
          (case log_kind x t of
             None \<Rightarrow> Ret None
           | Some sandesh_type \<Rightarrow>
               if sel_field = sandesh_type then
                 (case col_res ''Xmlmessage'' of
                    Some (DbString xml) \<Rightarrow> Ret (Some (if cmap sel_field = None then cmap(sel_field \<mapsto> xml) else cmap))
                  | _ \<Rightarrow> Abort)
               else if sel_field = ''ObjectId'' then
                 Ret (Some (if cmap sel_field = None then cmap(sel_field \<mapsto> object_id) else cmap))
               else if sandesh_type \<in> set sel_fields then
                 Ret (Some (if cmap sel_field = None then cmap(sel_field \<mapsto> '''') else cmap))
               else Ret None)
      | _ \<Rightarrow> Abort)"

definition uuid_bytes :: "u8 list \<Rightarrow> string" where
  "uuid_bytes u = map (\<lambda>b. char_of (unat b)) u"

fun select_columns ::
    "msg_ext \<Rightarrow> ('d DbDataValue \<Rightarrow> string) \<Rightarrow> string \<Rightarrow> string list \<Rightarrow> (string \<rightharpoonup> 'd DbDataValue) \<Rightarrow> string \<Rightarrow>
     string list \<Rightarrow> OutRowT \<Rightarrow> OutRowT option outcome" where
  "select_columns x to_string table sel_fields col_res object_id [] cmap = Ret (Some cmap)"
| "select_columns x to_string table sel_fields col_res object_id (f # fs) cmap =
     (case col_res f of
        None \<Rightarrow>
          if is_object_table_query table then
            bind_outcome (object_select_param x sel_fields f col_res object_id cmap) (\<lambda>res.
              case res of None \<Rightarrow> Ret None
              | Some cmap' \<Rightarrow> select_columns x to_string table sel_fields col_res object_id fs cmap')
          else select_columns x to_string table sel_fields col_res object_id fs
                 (if cmap f = None then cmap(f \<mapsto> '''') else cmap)
      | Some v \<Rightarrow>
          bind_outcome (if f = ''UuidKey'' then bind_outcome (get_uuid_value v) (\<lambda>u. Ret (uuid_bytes u)) else Ret (to_string v)) (\<lambda>s.
            select_columns x to_string table sel_fields col_res object_id fs
              (if cmap f = None then cmap(f \<mapsto> s) else cmap)))"

definition row_object_id :: "('d DbDataValue \<Rightarrow> string) \<Rightarrow> string \<Rightarrow> (string \<rightharpoonup> 'd DbDataValue) \<Rightarrow> string \<Rightarrow> string outcome" where
  "row_object_id to_string table col_res object_id =
     (if \<not> is_object_table_query table then Ret object_id
      else case col_res ''UuidKey'' of
             Some (DbUuid u) \<Rightarrow>
               (if object_id \<noteq> [] then Ret object_id
                else case col_res ''ObjectTypeName1'' of Some v \<Rightarrow> Ret (to_string v) | None \<Rightarrow> Abort)
           | _ \<Rightarrow> Abort)"

definition select_message_row ::
    "msg_ext \<Rightarrow> msg_schema \<Rightarrow> ('d DbDataValue \<Rightarrow> string) \<Rightarrow> string \<Rightarrow> string list \<Rightarrow> 'd DbDataValue query_result_unit_t \<Rightarrow> OutRowT option outcome" where
  "select_message_row x sch to_string table sel_fields r =
     bind_outcome (foldl_outcome (add_result_column sch to_string table r) (Map.empty, []) [0..<length (info r)]) (\<lambda>(col_res, oid).
     bind_outcome (row_object_id to_string table col_res oid) (\<lambda>object_id.
       select_columns x to_string table sel_fields col_res object_id sel_fields Map.empty))"

definition select_messages ::
    "msg_ext \<Rightarrow> msg_schema \<Rightarrow> ('d DbDataValue \<Rightarrow> string) \<Rightarrow> string \<Rightarrow> SelectQuery \<Rightarrow> 'd DbDataValue WhereResultT \<Rightarrow> OutRowT list checked" where
  "select_messages x sch to_string table q units =
     (if length units > query_result_size_limit then Fail EIO
      else bind_checked (of_outcome (map_outcome (select_message_row x sch to_string table (select_column_fields q)) units))
             (\<lambda>rows. Done (concat (map (\<lambda>r. case r of None \<Rightarrow> [] | Some cmap \<Rightarrow> [cmap]) rows))))"

section \<open>Properties of the clause\<close>

lemma foldl_checked_mono:
  assumes "\<And>s x s'. f s x = Done s' \<Longrightarrow> R s s'" and "\<And>s. R s s" and "\<And>a b c. R a b \<Longrightarrow> R b c \<Longrightarrow> R a c"
    and "foldl_checked f s xs = Done t"
  shows "R s t"
  using assms(4)
proof (induction xs arbitrary: s)
  case (Cons x xs)
  then obtain s' where "f s x = Done s'" "foldl_checked f s' xs = Done t" by auto
  with Cons.IH assms(1,3) show ?case by blast
qed (use assms(2) in simp)

lemma with_stats_Done:
  "with_stats q = Done q' \<longleftrightarrow>
     (\<exists>st. new_StatsSelect (select_column_fields q) = Ret st \<and> ss_status st \<and> q' = q\<lparr>sel_stats := Some st\<rparr>)"
  by (auto simp: with_stats_def of_outcome_def split: outcome.splits)

lemma add_class_count_Done:
  "add_class_count b kw q = Done q' \<Longrightarrow>
     set (select_column_fields q) \<subseteq> set (select_column_fields q') \<and> sel_unroll_needed q' = sel_unroll_needed q"
  by (auto simp: add_class_count_def split: if_splits list.splits)

definition uuids_scanned :: "stats_scan \<Rightarrow> bool" where
  "uuids_scanned s \<longleftrightarrow>
     (uuid_key_selected s \<longrightarrow> ''forward_flow_uuid'' \<in> set (select_column_fields (scan_query s))) \<and>
     (reverse_uuid_key_selected s \<longrightarrow> ''reverse_flow_uuid'' \<in> set (select_column_fields (scan_query s)))"

lemma scan_stats_column_uuids: "uuids_scanned s \<Longrightarrow> uuids_scanned (scan_stats_column s f)"
  by (cases "f = ''forward_flow_uuid''"; cases "f = ''reverse_flow_uuid''")
    (auto simp: uuids_scanned_def scan_stats_column_def push_field_def)

lemma uuids_scanned_cong [simp]:
  "uuids_scanned (s\<lparr>session_class_selected := b\<rparr>) = uuids_scanned s"
  "uuids_scanned (s\<lparr>session_count_selected := b\<rparr>) = uuids_scanned s"
  "uuids_scanned (s\<lparr>scan_query := (scan_query s)\<lparr>sel_unroll_needed := b\<rparr>\<rparr>) = uuids_scanned s"
  by (simp_all add: uuids_scanned_def)

lemma scan_stats_field_uuids:
  assumes "scan_stats_field ctx s v = Done s'" and "uuids_scanned s"
  shows "uuids_scanned s'"
proof -
  from assms(1) obtain f s1 where
    c: "(if f = ''session_class_id'' then
           bind_checked (ensure (sc_table ctx = SESSION_SERIES_TABLE) EINVAL) (\<lambda>_. Done (s\<lparr>session_class_selected := True\<rparr>))
         else if f = ''sample_count'' then
           bind_checked (ensure (sc_table ctx = SESSION_SERIES_TABLE) EINVAL) (\<lambda>_. Done (s\<lparr>session_count_selected := True\<rparr>))
         else Done (scan_stats_column s f)) = Done s1"
    and s': "s' = s1\<lparr>scan_query := (scan_query s1)\<lparr>sel_unroll_needed := sel_unroll_needed (scan_query s1) \<or> f \<in> set session_json_fields\<rparr>\<rparr>"
    unfolding scan_stats_field_def bind_checked_Done_iff by blast
  from c have s1: "s1 = s\<lparr>session_class_selected := True\<rparr> \<or> s1 = s\<lparr>session_count_selected := True\<rparr> \<or> s1 = scan_stats_column s f"
    by (auto split: if_splits)
  from s1 assms(2) scan_stats_column_uuids have "uuids_scanned s1" by auto
  then show ?thesis by (simp add: s')
qed

text \<open>
  Session records are always unrolled and identified. A successfully parsed query on the session
  record table selects both flow UUIDs, whether the request lists them or not, unrolls the sessions and
  has an aggregation set up for exactly the columns it selects.\<close>

theorem session_record_selects_uuids:
  assumes t: "sc_table ctx = SESSION_RECORD_TABLE" and run: "select_stats_fields ctx fs = Done q"
  shows "sel_unroll_needed q \<and> ''forward_flow_uuid'' \<in> set (select_column_fields q) \<and>
         ''reverse_flow_uuid'' \<in> set (select_column_fields q) \<and>
         (\<exists>st. sel_stats q = Some st \<and> new_StatsSelect (select_column_fields q) = Ret st \<and> ss_status st)"
proof -
  from run obtain s q1 q2 where
    scan: "foldl_checked (scan_stats_field ctx)
       \<lparr>scan_query = init_select (sc_table ctx), uuid_key_selected = False, reverse_uuid_key_selected = False,
        session_class_selected = False, session_count_selected = False\<rparr> fs = Done s"
    and c: "add_class_count (session_class_selected s) ''CLASS'' (scan_query s) = Done q1"
      "add_class_count (session_count_selected s) ''COUNT'' q1 = Done q2"
    and w: "with_stats (add_record_uuids ctx s q2) = Done q"
    by (auto simp: select_stats_fields_def)
  have inv: "uuids_scanned s"
    by (rule foldl_checked_inv[where P = uuids_scanned, OF _ scan]) (rule scan_stats_field_uuids, simp_all add: uuids_scanned_def)
  from add_class_count_Done[OF c(1)] add_class_count_Done[OF c(2)]
  have sub: "set (select_column_fields (scan_query s)) \<subseteq> set (select_column_fields q2)" by auto
  from w obtain st where "new_StatsSelect (select_column_fields (add_record_uuids ctx s q2)) = Ret st" "ss_status st"
    "q = (add_record_uuids ctx s q2)\<lparr>sel_stats := Some st\<rparr>" by (auto simp: with_stats_Done)
  with inv sub t show ?thesis by (auto simp: add_record_uuids_def uuids_scanned_def)
qed

definition sample_select_ctx :: "string \<Rightarrow> select_ctx" where
  "sample_select_ctx t = \<lparr>sc_table = t, sc_tables = [], sc_additional_select = []\<rparr>"

theorem session_record_selects_uuids_witness:
  "\<exists>q. select_stats_fields (sample_select_ctx SESSION_RECORD_TABLE) [JString ''vn'' :: nat json] = Done q \<and>
       ''forward_flow_uuid'' \<in> set (select_column_fields q)"
proof -
  have "\<exists>q. select_stats_fields (sample_select_ctx SESSION_RECORD_TABLE) [JString ''vn'' :: nat json] = Done q"
    by (simp add: select_stats_fields_def scan_stats_field_def sample_select_ctx_def session_field_ok_def
      is_session_query_def scan_stats_column_def push_field_def add_class_count_def add_record_uuids_def init_select_def
      with_stats_def new_StatsSelect_def starts_with_def ParseAgg_def add_agg_field_def of_outcome_def)
  then obtain q where q: "select_stats_fields (sample_select_ctx SESSION_RECORD_TABLE) [JString ''vn'' :: nat json] = Done q" ..
  have t: "sc_table (sample_select_ctx SESSION_RECORD_TABLE) = SESSION_RECORD_TABLE" by (simp add: sample_select_ctx_def)
  from session_record_selects_uuids[OF t q] q show ?thesis by blast
qed

lemma fs_stats_loop_mixed:
  "\<lbrakk>prev = Some OP_RAW; OP_SUM \<in> fst ` set as\<rbrakk> \<Longrightarrow> fs_stats_loop as prev t = 0"
  "\<lbrakk>prev = Some OP_SUM; OP_RAW \<in> fst ` set as\<rbrakk> \<Longrightarrow> fs_stats_loop as prev t = 0"
  by (induction as prev t rule: fs_stats_loop.induct) auto

lemma fs_stats_loop_both:
  "\<lbrakk>OP_RAW \<in> fst ` set as; OP_SUM \<in> fst ` set as\<rbrakk> \<Longrightarrow> fs_stats_loop as prev t = 0"
proof (cases as)
  case (Cons a as')
  assume "OP_RAW \<in> fst ` set as" "OP_SUM \<in> fst ` set as"
  then show ?thesis using Cons fs_stats_loop_mixed[of _ as'] by (cases a; cases "fst a") auto
qed simp

lemma fs_flag_bits: "w AND FS_TS \<noteq> 0 \<longleftrightarrow> bit w 1" "w AND FS_T \<noteq> 0 \<longleftrightarrow> bit w 0" for w :: u8
  using and_exp_eq_0_iff_not_bit[of w 1] and_exp_eq_0_iff_not_bit[of w 0] by (simp_all add: FS_TS_def FS_T_def)

lemma fs_stats_loop_ts:
  "\<lbrakk>bit t 1; OP_RAW \<in> fst ` set as\<rbrakk> \<Longrightarrow> fs_stats_loop as prev t = 0"
  by (induction as prev t rule: fs_stats_loop.induct) (auto simp: fs_flag_bits)

lemma fs_stats_loop_t:
  "\<lbrakk>bit t 0; OP_SUM \<in> fst ` set as\<rbrakk> \<Longrightarrow> fs_stats_loop as prev t = 0"
  by (induction as prev t rule: fs_stats_loop.induct) (auto simp: fs_flag_bits bit_or_iff)

text \<open>
  Flow series queries do not mix resolutions. A flow series query is rejected when it asks for raw
  and summed counters together, for raw counters per time bin, or for summed counters per raw time.\<close>

theorem flow_series_rejects_mixed:
  assumes "OP_RAW \<in> fst ` set (agg_stats q) \<and> OP_SUM \<in> fst ` set (agg_stats q) \<or>
           OP_RAW \<in> fst ` set (agg_stats q) \<and> provide_timeseries q \<and> granularity q \<noteq> 0 \<or>
           OP_SUM \<in> fst ` set (agg_stats q) \<and> provide_timeseries q \<and> granularity q = 0"
  shows "evaluate_fs_query_type q = 0"
proof -
  have ne: "agg_stats q \<noteq> []" using assms by auto
  have bits: "bit (2 :: u8) (Suc 0)" "bit (1 :: u8) 0" by (simp_all add: bit_Suc)
  from assms consider "OP_RAW \<in> fst ` set (agg_stats q)" "OP_SUM \<in> fst ` set (agg_stats q)"
    | "OP_RAW \<in> fst ` set (agg_stats q)" "provide_timeseries q" "granularity q \<noteq> 0"
    | "OP_SUM \<in> fst ` set (agg_stats q)" "provide_timeseries q" "granularity q = 0" by blast
  then show ?thesis
  proof cases
    case 1
    then show ?thesis using ne by (simp add: evaluate_fs_query_type_def Let_def fs_stats_loop_both)
  next
    case 2
    then show ?thesis using ne bits
      by (simp add: evaluate_fs_query_type_def Let_def fs_stats_loop_ts bit_or_iff FS_TS_def)
  next
    case 3
    then show ?thesis using ne bits
      by (simp add: evaluate_fs_query_type_def Let_def fs_stats_loop_t bit_or_iff FS_T_def)
  qed
qed

theorem flow_series_rejects_mixed_witness:
  "evaluate_fs_query_type ((init_select FLOW_SERIES_TABLE)\<lparr>agg_stats := [(OP_RAW, PKT_STATS), (OP_SUM, BYTE_STATS)]\<rparr>) = 0"
  by (rule flow_series_rejects_mixed) simp

section \<open>Properties of the rows\<close>

text \<open>The loaded rows of a list of units: the valid samples with their attributes.\<close>

definition loaded_of :: "('d, 't, 'c) agg_ext \<Rightarrow> (string \<Rightarrow> 'd json option) \<Rightarrow> 'd DbDataValue query_result_unit_t \<Rightarrow> ('d, 't, 'c) loaded list" where
  "loaded_of ext parse r =
     (case the_ret (get_stattable_info r) of (json, u) \<Rightarrow>
        (case parse (c_str json) of None \<Rightarrow> [] | Some d \<Rightarrow> [(u, timestamp r, the_ret (sample_attribs ext d))]))"

lemma select_stats_row_loads:
  assumes "select_stats_row ext parse st out r = Ret out'"
  shows "load_rows ext st (loaded_of ext parse r) out = Ret out'"
proof -
  from assms obtain json u where i: "get_stattable_info r = Ret (json, u)"
    and rest: "(case parse (c_str json) of None \<Rightarrow> Ret out | Some d \<Rightarrow> bind_outcome (sample_attribs ext d) (\<lambda>attribs.
           bind_outcome (LoadRow ext st u (timestamp r) attribs out) (\<lambda>(b, out'). Ret out'))) = Ret out'"
    by (auto simp: select_stats_row_def bind_outcome_Ret_iff)
  show ?thesis
  proof (cases "parse (c_str json)")
    case None
    with rest show ?thesis by (simp add: loaded_of_def i load_rows_def)
  next
    case (Some d)
    with rest obtain a where "sample_attribs ext d = Ret a"
      "bind_outcome (LoadRow ext st u (timestamp r) a out) (\<lambda>(b, out'). Ret out') = Ret out'"
      by (auto simp: bind_outcome_Ret_iff)
    then show ?thesis by (simp add: loaded_of_def i Some load_rows_def load_row_def)
  qed
qed

lemma select_stats_loads:
  "foldl_outcome (select_stats_row ext parse st) out units = Ret out' \<Longrightarrow>
     load_rows ext st (concat (map (loaded_of ext parse) units)) out = Ret out'"
proof (induction units arbitrary: out)
  case (Cons r units)
  then obtain o1 where o1: "select_stats_row ext parse st out r = Ret o1"
    and rest: "foldl_outcome (select_stats_row ext parse st) o1 units = Ret out'" by (auto simp: bind_outcome_Ret_iff)
  from select_stats_row_loads[OF o1] Cons.IH[OF rest] show ?case
    by (simp add: load_rows_def foldl_outcome_append)
qed (simp add: load_rows_def)

text \<open>
  A statistics query counts its samples. The COUNT column of a statistics query, summed over the
  output rows of a group, is the number of valid samples of the WHERE result that belong to the group:
  from the stored samples to the output no sample is lost or counted twice.\<close>

theorem stats_query_counts_samples:
  assumes "select_stats_query ext parse q units = Done out" and "sel_stats q = Some st" and "ss_status st"
    and "count_field st \<noteq> []"
  shows "group_total (AGG_COUNT, count_field st) u out =
         of_nat (length (filter (\<lambda>r. row_uniks st r = u) (concat (map (loaded_of ext parse) units))))"
proof -
  let ?rows = "concat (map (loaded_of ext parse) units)"
  from assms(1,2) have "foldl_outcome (select_stats_row ext parse st) [] units = Ret out"
    by (auto simp: select_stats_query_def of_outcome_def split: if_splits outcome.splits)
  from load_rows_total[where k = "(AGG_COUNT, count_field st)" and f = "\<lambda>_. 1" and u = u, OF _ assms(3) _ select_stats_loads[OF this]]
  have "group_total (AGG_COUNT, count_field st) u out = (\<Sum>r\<leftarrow>?rows. if row_uniks st r = u then 1 else 0)"
    using build_narows_facts(2)[OF _ assms(4)] by auto
  also have "\<dots> = of_nat (length (filter (\<lambda>r. row_uniks st r = u) ?rows))"
    by (rule sum_list_indicator)
  finally show ?thesis .
qed

text \<open>
  Names logged in the last row period are not found. The table of object names is read for the row
  periods from the one of the start up to, but not including, the one of the end: when both times lie
  in the same period, nothing is read and the query returns no name at all.\<close>

theorem object_names_last_period_missed:
  "t2_of e \<notin> set (object_value_t2s f e) \<and>
   (t2_of f = t2_of e \<longrightarrow> Db_GetMultiRow [] = Some [] \<longrightarrow> select_object_values Db_GetMultiRow key f e = Done [])"
proof -
  have "unat (t2_of e) < 2 ^ 32" using unsigned_less[of "t2_of e"] by simp
  have "t2_of e \<notin> of_nat ` {unat (t2_of f)..<unat (t2_of e)}"
  proof
    assume "t2_of e \<in> of_nat ` {unat (t2_of f)..<unat (t2_of e)}"
    then obtain n where n: "t2_of e = of_nat n" "n < unat (t2_of e)" by auto
    with \<open>unat (t2_of e) < 2 ^ 32\<close> have "unat (of_nat n :: u32) = n" by (intro unat_u32) linarith
    with n show False by simp
  qed
  then show ?thesis
    by (simp add: object_value_t2s_def select_object_values_def object_value_keys_def object_value_rows_def of_outcome_def)
qed

theorem object_names_last_period_missed_witness:
  "select_object_values (\<lambda>keys :: nat rowkey list. Some (map (\<lambda>k. []) keys)) ''ObjectVNTable'' 1000 2000 = Done []"
proof -
  have "t2_of 1000 = t2_of 2000" by (simp add: t2_of_def RowTimeInBits_def drop_bit_eq_div)
  with object_names_last_period_missed[of 2000 1000 "\<lambda>keys :: nat rowkey list. Some (map (\<lambda>k. []) keys)" "''ObjectVNTable''"]
  show ?thesis by simp
qed

definition sample_stat_query :: SelectQuery where
  "sample_stat_query = (init_select ''StatTable.a.b'')\<lparr>sel_stats := Some sample_select\<rparr>"

definition sample_stat_units :: "nat DbDataValue WhereResultT" where
  "sample_stat_units = [\<lparr>timestamp = 5, info = [DbString ''j1'', DbUuid []]\<rparr>, \<lparr>timestamp = 6, info = [DbString ''bad'', DbUuid []]\<rparr>]"

definition sample_json :: "string \<Rightarrow> nat json option" where
  "sample_json s = (if s = ''j1'' then Some (JObject [(''name|s'', JString ''a''), (''x|n'', JInt 3)]) else None)"

theorem stats_query_counts_samples_witness:
  "\<exists>out. select_stats_query sample_agg sample_json sample_stat_query sample_stat_units = Done out \<and>
     group_total (AGG_COUNT, ''x'') [(''name'', SString ''a'')] out = 1"
proof -
  let ?out = "[([SUint64 218], [(''name'', SString ''a'')], [((AGG_SUM, ''x''), SUint64 3), ((AGG_COUNT, ''x''), SUint64 1)])]
    :: (nat, unit, unit) MapBufT"
  have st: "sel_stats sample_stat_query = Some sample_select" "ss_status sample_select" "count_field sample_select = ''x''"
    by (simp_all add: sample_stat_query_def sample_select_def)
  have a: "sample_attribs sample_agg (JObject [(''name|s'', JString ''a''), (''x|n'', JInt 3)])
      = Ret [(''name'', SString ''a''), (''x'', SUint64 3)]"
    by (simp add: sample_attribs_def stat_entries_def stat_name_def get_cstr_def c_str_def Let_def)
  have l: "LoadRow sample_agg sample_select [] 5 [(''name'', SString ''a''), (''x'', SUint64 3)] [] = Ret (True, ?out)"
    by code_simp
  have c: "concat (map (loaded_of sample_agg sample_json) sample_stat_units) = [([], 5, [(''name'', SString ''a''), (''x'', SUint64 3)])]"
    using a by (simp add: loaded_of_def sample_stat_units_def get_stattable_info_def sample_json_def c_str_def)
  have run: "select_stats_query sample_agg sample_json sample_stat_query sample_stat_units = Done ?out"
    using a l st by (simp add: select_stats_query_def query_result_size_limit_def sample_stat_units_def of_outcome_def
      select_stats_row_def get_stattable_info_def sample_json_def c_str_def)
  have "row_uniks sample_select ([], 5, [(''name'', SString ''a''), (''x'', SUint64 3)]) = [(''name'', SString ''a'' :: (nat, unit, unit) SubVal)]"
    by code_simp
  with stats_query_counts_samples[OF run st(1,2), of "[(''name'', SString ''a'')]"] st(3) c run show ?thesis by auto
qed

lemma select_columns_dom:
  "select_columns x to_string table sel_fields col_res oid fs cmap = Ret (Some row) \<Longrightarrow> dom row = dom cmap \<union> set fs"
proof (induction fs arbitrary: cmap)
  case (Cons f fs)
  have ins: "dom (if c f = None then c(f \<mapsto> s) else c) = insert f (dom c)" for c :: OutRowT and s by auto
  have param: "dom cmap' = insert f (dom cmap)"
    if "object_select_param x sel_fields f col_res oid cmap = Ret (Some cmap')" for cmap'
    using that ins by (auto simp: object_select_param_def Let_def split: option.splits DbDataValue.splits if_splits)
  show ?case
  proof (cases "col_res f")
    case None
    show ?thesis
    proof (cases "is_object_table_query table")
      case True
      with None Cons.prems obtain cmap' where "object_select_param x sel_fields f col_res oid cmap = Ret (Some cmap')"
        "select_columns x to_string table sel_fields col_res oid fs cmap' = Ret (Some row)"
        by (auto simp: bind_outcome_Ret_iff split: option.splits)
      with Cons.IH param show ?thesis by auto
    next
      case False
      with None Cons.prems Cons.IH ins show ?thesis by auto
    qed
  next
    case (Some v)
    with Cons.prems obtain s where "select_columns x to_string table sel_fields col_res oid fs
        (if cmap f = None then cmap(f \<mapsto> s) else cmap) = Ret (Some row)"
      by (auto simp: bind_outcome_Ret_iff simp del: fun_upd_apply)
    with Cons.IH ins show ?thesis by auto
  qed
qed simp

text \<open>
  The rows of a message or object query have exactly the selected columns. Whatever columns the
  store returned, a row that is output has a value for every selected column and no other column.\<close>

theorem message_rows_have_selected_columns:
  assumes "select_messages x sch to_string table q units = Done rows" and "row \<in> set rows"
  shows "dom row = set (select_column_fields q)"
proof -
  from assms obtain rs where rs: "map_outcome (select_message_row x sch to_string table (select_column_fields q)) units = Ret rs"
    and rows: "rows = concat (map (\<lambda>r. case r of None \<Rightarrow> [] | Some cmap \<Rightarrow> [cmap]) rs)"
    by (auto simp: select_messages_def of_outcome_def split: if_splits outcome.splits)
  have mem: "map_outcome f us = Ret vs \<Longrightarrow> v \<in> set vs \<Longrightarrow> \<exists>u \<in> set us. f u = Ret v" for f :: "'b \<Rightarrow> 'e outcome" and us vs v
    by (induction us arbitrary: vs) (auto simp: bind_outcome_Ret_iff)
  from assms(2) rows have "Some row \<in> set rs" by (auto split: option.splits)
  from mem[OF rs this] obtain u where "select_message_row x sch to_string table (select_column_fields q) u = Ret (Some row)" by blast
  then show ?thesis by (auto simp: select_message_row_def bind_outcome_Ret_iff dest: select_columns_dom)
qed

text \<open>
  Index values survive the round trip. The value \<open>PipelineCb\<close> matches against, the T2 of the row and
  a colon in front of the value, is what the writers store; stripping up to the first colon when a row
  is selected gives the value back, colons of its own included.\<close>

lemma index_value_roundtrip:
  "strip_to_colon (show_nat t2 @ '':'' @ v) = v"
proof -
  have "CHR '':'' \<notin> set (show_nat t2)"
    using show_nat_digits[of t2] by (auto simp: list_all_iff is_digit_def)
  then have "find_char CHR '':'' (show_nat t2 @ CHR '':'' # v) = Some (length (show_nat t2))" by (rule find_char_append)
  then show ?thesis by (simp add: strip_to_colon_def)
qed

text \<open>
  Two selectable columns are never unrolled. The list that decides whether sessions are unrolled
  spells \<open>forward_nw_ace_uuid\<close> and \<open>agg-packets\<close> differently from the schema, so a query that selects
  only these does not unroll the sessions that hold them.\<close>

theorem misspelt_columns_not_unrolled:
  "\<exists>q. select_stats_fields (sample_select_ctx SESSION_SERIES_TABLE) [JString ''forward_nw_ace_uuid'' :: 'd json] = Done q \<and>
     \<not> sel_unroll_needed q \<and>
     (\<exists>q'. select_other_fields (sample_select_ctx FLOW_SERIES_TABLE) 1 [JString ''sourcevn'' :: 'd json, JString ''agg-packets''] = Done q' \<and>
           \<not> sel_unroll_needed q')"
  by (simp add: select_stats_fields_def scan_stats_field_def sample_select_ctx_def session_field_ok_def
      is_session_query_def scan_stats_column_def push_field_def add_class_count_def add_record_uuids_def init_select_def
      with_stats_def new_StatsSelect_def starts_with_def ParseAgg_def agg_arm_def substr_from_def add_agg_field_def of_outcome_def session_json_fields_def
      blank_select_def select_other_fields_def scan_flow_field_def scan_other_field_def push_flow_field_def sum_of_def Let_def
      evaluate_fs_query_type_def is_flow_tuple_specified_def flow_tuple_names_def get_query_string_def query_string_to_column_name_def
      FS_FLOW_TUPLE_def add_flow_class_def finish_flow_def is_flow_query_def)

definition sample_schema :: msg_schema where
  "sample_schema = \<lparr>columns = [''column3''], index_types = [True], query_column_to_column = [''Source'' \<mapsto> ''column3''],
     column_to_query_column = [''column3'' \<mapsto> ''Source'']\<rparr>"

theorem message_rows_have_selected_columns_witness:
  "\<exists>row. select_messages \<lparr>sandesh_system = 1, sandesh_object = 2, sandesh_uve = 3, sandesh_alarm = 4\<rparr> sample_schema
     (\<lambda>v. case v of DbString s \<Rightarrow> s | _ \<Rightarrow> []) MESSAGE_TABLE ((init_select MESSAGE_TABLE)\<lparr>select_column_fields := [''Source'']\<rparr>)
     [\<lparr>timestamp = 7, info = [DbString ''178:b1s1'' :: nat DbDataValue]\<rparr>] = Done [row] \<and> dom row = {''Source''}"
proof -
  let ?x = "\<lparr>sandesh_system = 1, sandesh_object = 2, sandesh_uve = 3, sandesh_alarm = 4\<rparr>"
  let ?ts = "\<lambda>v :: nat DbDataValue. case v of DbString s \<Rightarrow> s | _ \<Rightarrow> []"
  let ?q = "(init_select MESSAGE_TABLE)\<lparr>select_column_fields := [''Source'']\<rparr>"
  let ?us = "[\<lparr>timestamp = 7, info = [DbString ''178:b1s1'']\<rparr>] :: nat DbDataValue WhereResultT"
  have "\<exists>row. select_messages ?x sample_schema ?ts MESSAGE_TABLE ?q ?us = Done [row]"
    by (simp add: select_messages_def query_result_size_limit_def of_outcome_def select_message_row_def sample_schema_def
      add_result_column_def get_query_column_value_def MsgTableIndexToColumn_def MsgTableColumnToQueryColumn_def
      MsgTableIndexToIndexType_def vec_at_def row_object_id_def is_object_table_query_def starts_with_def Let_def)
  then obtain row where r: "select_messages ?x sample_schema ?ts MESSAGE_TABLE ?q ?us = Done [row]" ..
  from message_rows_have_selected_columns[OF r, of row] r show ?thesis by auto
qed

end
