(* ===== verification/Where_Query.thy ===== *)
theory Where_Query
  imports Db_Query Post_Processing
begin

text \<open>
  \<open>where_query.cc\<close>: the WHERE clause. The constructor reads the clause, a disjunction of conjunctions of
  match terms, and creates the database queries (\<open>DbQueryUnit\<close>) that answer it; \<open>subquery_processed\<close>
  combines their results. The JSON parser, \<open>strtod\<close> and the printing of doubles, the validity of a
  regular expression, \<open>GenDb::DbDataValueToString\<close> and the schema of the virtual tables are arguments.
\<close>

section \<open>Environment\<close>

record 'd where_env =
  we_table :: string
  we_tables :: "vtable list"
  we_stats :: "StatsQuery option"
  we_parse :: "string \<Rightarrow> 'd json"
  we_show_double :: "'d \<Rightarrow> string"
  we_strtod :: "string \<Rightarrow> 'd"
  we_to_string :: "'d DbDataValue \<Rightarrow> string"
  we_regex_valid :: "string \<Rightarrow> bool"
  we_table_schema :: "string option"
  we_moduleid :: string
  we_old_data :: bool
  we_uninit :: u16

type_synonym 'd where_info_vec = "'d WhereIndexInfo list"

text \<open>\<open>index_column_to_column\<close> of the three table schemas in \<open>viz.sandesh\<close>.\<close>

definition message_index_columns :: "(string \<times> string) list" where
  "message_index_columns =
     [(''Source'', ''column3''), (''Messagetype'', ''column4''), (''ModuleId'', ''column5''),
      (''ObjectTypeName1'', ''column6''), (''ObjectTypeName2'', ''column7''), (''ObjectTypeName3'', ''column8''),
      (''ObjectTypeName4'', ''column9''), (''ObjectTypeName5'', ''column10''), (''ObjectTypeName6'', ''column11'')]"

definition session_index_columns :: "(string \<times> string) list" where
  "session_index_columns =
     [(''deployment'', ''column5''), (''tier'', ''column6''), (''application'', ''column7''), (''site'', ''column8''),
      (''labels'', ''column9''), (''custom_tags'', ''column10''), (''remote_deployment'', ''column11''),
      (''remote_tier'', ''column12''), (''remote_application'', ''column13''), (''remote_site'', ''column14''),
      (''remote_labels'', ''column15''), (''remote_custom_tags'', ''column16''), (''remote_prefix'', ''column17''),
      (''security_policy_rule'', ''column18''), (''vmi'', ''column19''), (''local_ip'', ''column20''),
      (''vn'', ''column21''), (''remote_vn'', ''column22'')]"

definition stats_index_columns :: "(string \<times> string) list" where
  "stats_index_columns =
     [(''name'', ''column3''), (''Source'', ''column4''), (''__key'', ''column5''), (''proxy'', ''column5''),
      (''tags0'', ''column7''), (''tags1'', ''column8''), (''tags2'', ''column9''), (''tags3'', ''column10'')]"

definition query_column_to_cass_column :: "string \<Rightarrow> string \<Rightarrow> string checked" where
  "query_column_to_cass_column table c =
     (let look = (\<lambda>m. Done (case map_of m c of Some k \<Rightarrow> k | None \<Rightarrow> ''''))
      in if is_message_table_query table \<or> is_object_table_query table then look message_index_columns
         else if is_session_query table \<or> is_flow_query table then look session_index_columns
         else if is_stat_table_query table then look stats_index_columns
         else Crash)"

text \<open>\<open>populate_where_vec\<close>: the result \<open>None\<close> is \<open>return false\<close>.\<close>

definition populate_where_vec ::
    "string \<Rightarrow> 'd where_info_vec \<Rightarrow> string \<Rightarrow> gendb_op \<Rightarrow> string \<Rightarrow> 'd where_info_vec option checked" where
  "populate_where_vec table wv query_col db_op val =
     bind_checked (query_column_to_cass_column table query_col) (\<lambda>columnN.
       if columnN = '''' then Done None
       else let v = (if db_op = DB_LIKE then val @ ''%'' else val)
            in if v = ''%'' then Done (Some wv) else Done (Some (wv @ [(columnN, db_op, DbString v)])))"

text \<open>\<open>QE_INVALIDARG_ERROR(populate_where_vec(...))\<close>.\<close>

definition add_where :: "string \<Rightarrow> string \<Rightarrow> gendb_op \<Rightarrow> string \<Rightarrow> 'd where_info_vec \<Rightarrow> 'd where_info_vec checked" where
  "add_where table query_col db_op val wv =
     bind_checked (populate_where_vec table wv query_col db_op val)
       (\<lambda>r. case r of None \<Rightarrow> Fail EINVAL | Some w \<Rightarrow> Done w)"

section \<open>Terms over statistics tables\<close>

text \<open>The two functions \<open>ToDbDataValue\<close>: by the JSON type of the value, and by the type of the column.\<close>

definition json_to_DbDataValue :: "'d json \<Rightarrow> 'd DbDataValue" where
  "json_to_DbDataValue v =
     (case v of JString s \<Rightarrow> DbString s
      | JInt i \<Rightarrow> if IsUint v \<or> IsInt v then DbU64 (word_of_int i) else DbBlank
      | JDouble d \<Rightarrow> DbDouble d
      | _ \<Rightarrow> DbBlank)"

definition ToDbDataValue :: "(string \<Rightarrow> 'd) \<Rightarrow> string \<Rightarrow> VarType \<Rightarrow> 'd DbDataValue" where
  "ToDbDataValue strtod v desc =
     (case desc of VT_STRING \<Rightarrow> DbString v | VT_MAP_ELEM \<Rightarrow> DbString v | VT_LIST \<Rightarrow> DbString v
      | VT_UINT64 \<Rightarrow> DbU64 (strtoul v) | VT_DOUBLE \<Rightarrow> DbDouble (strtod v) | _ \<Rightarrow> DbBlank)"

definition ToDbDataType :: "string \<Rightarrow> VarType" where
  "ToDbDataType v =
     (if v = ''int'' then VT_UINT64 else if v = ''string'' then VT_STRING else if v = ''uuid'' then VT_UUID
      else if v = ''double'' then VT_DOUBLE else if v = ''map'' then VT_MAP_ELEM
      else if v = ''set'' \<or> v = ''list'' then VT_LIST else VT_BLANK)"

definition where_get_column_desc :: "(string \<rightharpoonup> column_t) \<Rightarrow> string \<Rightarrow> column_t" where
  "where_get_column_desc schema pname =
     (case schema pname of
        Some d \<Rightarrow> d
      | None \<Rightarrow>
          let stem = (case find_last_char CHR ''.'' pname of None \<Rightarrow> pname | Some pos \<Rightarrow> take pos pname)
          in case schema (stem @ ''.*'') of Some d \<Rightarrow> d | None \<Rightarrow> blank_column)"

text \<open>The table schema a query may carry: \<open>None\<close> is \<open>return false\<close>.\<close>

definition schema_entry :: "'d json \<Rightarrow> (string \<times> column_t) option checked" where
  "schema_entry e =
     bind_checked (HasMembers e [''name'', ''datatype'', ''index'', ''suffixes'']) (\<lambda>has.
       if \<not> has then Done None else
       bind_checked (member e ''name'') (\<lambda>n.
       bind_checked (member e ''datatype'') (\<lambda>dt.
       bind_checked (member e ''index'') (\<lambda>ix.
       bind_checked (member e ''suffixes'') (\<lambda>sx.
       bind_checked (GetString dt) (\<lambda>vstr.
       bind_checked (GetBool ix) (\<lambda>b.
       bind_checked (if IsArray sx then bind_checked (elements sx) (map_checked GetString) else Done []) (\<lambda>sfx.
       bind_checked (GetString n) (\<lambda>nm.
         Done (Some (nm, \<lparr>cd_datatype = ToDbDataType vstr, cd_index = b, cd_output = False,
                          cd_suffixes = sort (remdups sfx)\<rparr>)))))))))))"

fun read_schema :: "'d json list \<Rightarrow> (string \<rightharpoonup> column_t) \<Rightarrow> (string \<rightharpoonup> column_t) option checked" where
  "read_schema [] s = Done (Some s)"
| "read_schema (e # es) s =
     bind_checked (schema_entry e) (\<lambda>r. case r of None \<Rightarrow> Done None
       | Some (n, d) \<Rightarrow> read_schema es (s(n \<mapsto> d)))"

record 'd stat_term =
  st_pname :: string
  st_pop :: match_op
  st_pval :: "'d DbDataValue"
  st_pval2 :: "'d DbDataValue"
  st_sname :: string
  st_sop :: match_op
  st_sval :: "'d DbDataValue"
  st_sval2 :: "'d DbDataValue"

abbreviation no_op :: match_op where "no_op \<equiv> OTHER_OP 0"

text \<open>An optional member: a missing one is the null value.\<close>

definition member_or_null :: "'d json \<Rightarrow> string \<Rightarrow> 'd json checked" where
  "member_or_null v k = bind_checked (HasMember v k) (\<lambda>b. if b then member v k else Done JNull)"

abbreviation fail_unless :: "bool \<Rightarrow> 'a option checked \<Rightarrow> 'a option checked" where
  "fail_unless c k \<equiv> (if c then k else Done None)"

text \<open>The prefix of a term: name, value, second value and operator.\<close>

definition parse_stat_prefix :: "'d json \<Rightarrow> (string \<times> 'd json \<times> 'd json \<times> match_op) option checked" where
  "parse_stat_prefix t =
     bind_checked (HasMember t ''name'') (\<lambda>hn. fail_unless hn (
     bind_checked (member t ''name'') (\<lambda>n. fail_unless (IsString n) (
     bind_checked (GetString n) (\<lambda>pname.
     bind_checked (member t ''value'') (\<lambda>v. fail_unless (IsString v \<or> IsNumber v) (
     bind_checked (member_or_null t ''value2'') (\<lambda>v2.
     bind_checked (HasMember t ''op'') (\<lambda>ho. fail_unless ho (
     bind_checked (member t ''op'') (\<lambda>p. fail_unless (IsNumber p) (
     bind_checked (GetInt p) (\<lambda>i. Done (Some (pname, v, v2, match_op_of_int i)))))))))))))))"

text \<open>The suffix object: its value, second value, operator and name.\<close>

fun IsNull :: "'d json \<Rightarrow> bool" where
  "IsNull JNull = True" | "IsNull _ = False"

definition parse_stat_suffix :: "match_op \<Rightarrow> 'd json \<Rightarrow> 'd json \<Rightarrow> ('d json \<times> 'd json \<times> match_op \<times> string) option checked" where
  "parse_stat_suffix pop v2 s =
     fail_unless (pop = EQUAL) (fail_unless (IsNull v2) (
     bind_checked (HasMember s ''value'') (\<lambda>hv. fail_unless hv (
     bind_checked (member s ''value'') (\<lambda>sv. fail_unless (IsString sv \<or> IsNumber sv) (
     bind_checked (member_or_null s ''value2'') (\<lambda>sv2.
     bind_checked (HasMember s ''op'') (\<lambda>ho. fail_unless ho (
     bind_checked (member s ''op'') (\<lambda>p. fail_unless (IsNumber p) (
     bind_checked (GetInt p) (\<lambda>i.
     bind_checked (HasMember s ''name'') (\<lambda>hn. fail_unless hn (
     bind_checked (member s ''name'') (\<lambda>n. fail_unless (IsString n) (
     bind_checked (GetString n) (\<lambda>sname. Done (Some (sv, sv2, match_op_of_int i, sname)))))))))))))))))))"

text \<open>The description of the columns the query may use: the static schema, or the one it carries.
  A query that carries an empty schema is not checked further.\<close>

datatype schema_result = NoSchema | BadSchema | Schema "string \<rightharpoonup> column_t"

definition query_schema :: "'d where_env \<Rightarrow> StatsQuery \<Rightarrow> schema_result checked" where
  "query_schema env q =
     (if sq_is_static q then Done (Schema Map.empty)
      else case we_table_schema env of
        None \<Rightarrow> Done (Schema Map.empty)
      | Some text \<Rightarrow>
          bind_checked (member (we_parse env (''{ '' @ [CHR 0x22] @ ''schema'' @ [CHR 0x22] @ '' : '' @ text @ '' }'')) ''schema'') (\<lambda>v.
          bind_checked (elements v) (\<lambda>es.
            if es = [] then Done NoSchema
            else bind_checked (read_schema es Map.empty) (\<lambda>r. Done (case r of None \<Rightarrow> BadSchema | Some s \<Rightarrow> Schema s)))))"

definition column_desc :: "StatsQuery \<Rightarrow> (string \<rightharpoonup> column_t) \<Rightarrow> string \<Rightarrow> column_t" where
  "column_desc q s n = (if sq_is_static q then stats_get_column_desc q n else where_get_column_desc s n)"

text \<open>The suffix of a term against the schema: \<open>srval\<close> and \<open>srval2\<close> are the texts of its values.\<close>

definition typed_suffix ::
    "(string \<Rightarrow> 'd) \<Rightarrow> (string \<Rightarrow> column_t) \<Rightarrow> column_t \<Rightarrow> string \<Rightarrow> string \<Rightarrow> 'd stat_term \<Rightarrow> 'd stat_term option checked" where
  "typed_suffix strtod desc c srval srval2 t =
     (if cd_suffixes c = [] then
        fail_unless (st_sname t = '''' \<and> st_sop t = no_op \<and> srval = '''' \<and> srval2 = '''') (Done (Some t))
      else if st_sname t = '''' then
        (let sn = hd (cd_suffixes c)
         in case cd_datatype (desc sn) of
              VT_STRING \<Rightarrow> Done (Some (t\<lparr>st_sname := sn, st_sval := DbString ''''\<rparr>))
            | VT_UINT64 \<Rightarrow> Done (Some (t\<lparr>st_sname := sn, st_sval := DbU64 0\<rparr>))
            | _ \<Rightarrow> Crash)
      else fail_unless (st_sname t \<in> set (cd_suffixes c))
        (let dt = cd_datatype (desc (st_sname t))
         in if dt = VT_STRING \<or> dt = VT_UINT64
            then Done (Some (t\<lparr>st_sval := ToDbDataValue strtod srval dt,
                               st_sval2 := if srval2 \<noteq> '''' then ToDbDataValue strtod srval2 dt else st_sval2 t\<rparr>))
            else Crash))"

definition typed_stat_term ::
    "'d where_env \<Rightarrow> (string \<Rightarrow> column_t) \<Rightarrow> 'd json \<Rightarrow> 'd json \<Rightarrow> string \<Rightarrow> string \<Rightarrow> 'd stat_term \<Rightarrow> 'd stat_term option checked" where
  "typed_stat_term env desc v v2 srval srval2 t =
     (let c = desc (st_pname t); dt = cd_datatype c; txt = value_text (we_show_double env)
      in fail_unless (dt \<noteq> VT_BLANK \<and> cd_index c \<and> \<not> (dt = VT_LIST \<and> st_pop t \<noteq> CONTAINS))
           (typed_suffix (we_strtod env) desc c srval srval2
              (t\<lparr>st_pval := ToDbDataValue (we_strtod env) (txt v) dt,
                 st_pval2 := if \<not> IsNull v2 then ToDbDataValue (we_strtod env) (txt v2) dt else st_pval2 t\<rparr>)))"

text \<open>The term as the request writes it: the prefix values, the texts of the suffix values, and the
  parts with their values converted by JSON type.\<close>

definition raw_stat_term :: "('d \<Rightarrow> string) \<Rightarrow> 'd json \<Rightarrow> ('d json \<times> 'd json \<times> string \<times> string \<times> 'd stat_term) option checked" where
  "raw_stat_term showd t =
     bind_checked (parse_stat_prefix t) (\<lambda>r. case r of None \<Rightarrow> Done None | Some (pname, v, v2, pop) \<Rightarrow>
       (let t0 = \<lparr>st_pname = pname, st_pop = pop, st_pval = json_to_DbDataValue v, st_pval2 = json_to_DbDataValue v2,
                  st_sname = '''', st_sop = no_op, st_sval = DbBlank, st_sval2 = DbBlank\<rparr>
        in bind_checked (HasMember t ''suffix'') (\<lambda>hs.
           if \<not> hs then Done (Some (v, v2, '''', '''', t0)) else
           bind_checked (member t ''suffix'') (\<lambda>s.
           if \<not> IsObject s then Done (Some (v, v2, '''', '''', t0)) else
           bind_checked (parse_stat_suffix pop v2 s) (\<lambda>x. Done (map_option (\<lambda>(sv, sv2, sop, sname).
             (v, v2, value_text showd sv, value_text showd sv2,
              t0\<lparr>st_sname := sname, st_sop := sop, st_sval := json_to_DbDataValue sv, st_sval2 := json_to_DbDataValue sv2\<rparr>)) x))))))"

definition StatTermParse :: "'d where_env \<Rightarrow> 'd json \<Rightarrow> 'd stat_term option checked" where
  "StatTermParse env t =
     (case we_stats env of None \<Rightarrow> Crash | Some q \<Rightarrow>
      if \<not> is_stat_table_query (we_table env) then Crash else
      bind_checked (raw_stat_term (we_show_double env) t) (\<lambda>r. case r of None \<Rightarrow> Done None | Some (v, v2, srval, srval2, t1) \<Rightarrow>
      bind_checked (query_schema env q) (\<lambda>sch. case sch of
          NoSchema \<Rightarrow> Done (Some t1)
        | BadSchema \<Rightarrow> Done None
        | Schema s \<Rightarrow> typed_stat_term env (column_desc q s) v v2 srval srval2 t1)))"

text \<open>\<open>StatSlicer\<close>: the range of clustering keys a term stands for.\<close>

fun is_string_value :: "'d DbDataValue \<Rightarrow> bool" where
  "is_string_value (DbString _) = True" | "is_string_value _ = False"

definition StatSlicer ::
    "'d DbQueryUnit \<Rightarrow> match_op \<Rightarrow> 'd DbDataValue \<Rightarrow> 'd DbDataValue \<Rightarrow> 'd DbQueryUnit option" where
  "StatSlicer q op v v2 =
     (if is_string_value v \<and> op \<noteq> EQUAL \<and> op \<noteq> PREFIX \<or> \<not> is_string_value v \<and> op \<noteq> EQUAL \<and> op \<noteq> IN_RANGE
      then None
      else Some (q\<lparr>cr_start := cr_start q @ [v],
                   cr_finish := cr_finish q @
                     [case (op, v) of (PREFIX, DbString s) \<Rightarrow> DbString (s @ [CHR 0x7F]) | (IN_RANGE, _) \<Rightarrow> v2 | _ \<Rightarrow> v]\<rparr>))"

definition stat_index_table :: "bool \<Rightarrow> 'd DbDataValue \<Rightarrow> 'd DbDataValue \<Rightarrow> string option" where
  "stat_index_table twotag pval sval =
     (if \<not> twotag then
        (case pval of DbString _ \<Rightarrow> Some ''StatsTableByStrTagV3'' | DbU64 _ \<Rightarrow> Some ''StatsTableByU64TagV3''
         | DbDouble _ \<Rightarrow> Some ''StatsTableByDblTagV3'' | _ \<Rightarrow> None)
      else
        (case (pval, sval) of (DbString _, DbString _) \<Rightarrow> Some ''StatsTableByStrStrTagV3''
         | (DbString _, DbU64 _) \<Rightarrow> Some ''StatsTableByStrU64TagV3''
         | (DbU64 _, DbString _) \<Rightarrow> Some ''StatsTableByU64StrTagV3''
         | (DbU64 _, DbU64 _) \<Rightarrow> Some ''StatsTableByU64U64TagV3''
         | _ \<Rightarrow> None))"

text \<open>The result is the returned flag and the unit, when one was created; a unit created before a
  failing \<open>StatSlicer\<close> stays among the sub-queries.\<close>

definition StatTermProcess :: "'d where_env \<Rightarrow> 'd json \<Rightarrow> (bool \<times> 'd DbQueryUnit option) checked" where
  "StatTermProcess env t =
     bind_checked (StatTermParse env t) (\<lambda>r. Done (case r of None \<Rightarrow> (False, None) | Some st \<Rightarrow>
       (let twotag = \<not> (st_sop st = no_op \<and> st_sname st = '''')
        in case stat_index_table twotag (st_pval st) (st_sval st) of None \<Rightarrow> (False, None) | Some cf \<Rightarrow>
          (let (tstr, astr) = GetStatTableAttrName (we_table env);
               q = new_DbQueryUnit\<lparr>cfname := cf,
                 row_key_suffix := [DbString tstr, DbString astr, DbString (st_pname st)] @ (if twotag then [DbString (st_sname st)] else [])\<rparr>;
               res = (\<lambda>x. case x of None \<Rightarrow> (False, Some q) | Some q' \<Rightarrow> (True, Some q'))
           in if twotag then
                (if st_sop st = no_op then
                   (case StatSlicer q (st_pop st) (st_pval st) (st_pval2 st) of None \<Rightarrow> (False, Some q)
                    | Some q1 \<Rightarrow>
                        (case st_sval st of
                           DbString _ \<Rightarrow> (True, Some (q1\<lparr>cr_start := cr_start q1 @ [DbString ''''], cr_finish := cr_finish q1 @ [DbString [CHR 0x7F]]\<rparr>))
                         | _ \<Rightarrow> (True, Some (q1\<lparr>cr_start := cr_start q1 @ [DbU64 0], cr_finish := cr_finish q1 @ [DbU64 (-1)]\<rparr>))))
                 else if st_pop st \<noteq> EQUAL then (False, Some q)
                 else (let q1 = q\<lparr>cr_start := [st_pval st], cr_finish := [st_pval st]\<rparr>
                       in case StatSlicer q1 (st_sop st) (st_sval st) (st_sval2 st) of
                            None \<Rightarrow> (False, Some q1) | Some q2 \<Rightarrow> (True, Some q2)))
              else res (StatSlicer q (st_pop st) (st_pval st) (st_pval2 st))))))"

section \<open>Lists of index conditions\<close>

text \<open>The maximum is kept in a \<open>uint16_t\<close>.\<close>

definition max_len16 :: "'a list list \<Rightarrow> nat" where
  "max_len16 vs = foldl (\<lambda>m v. if m < length v then length v mod 2 ^ 16 else m) 0 vs"

definition nth_terms :: "nat \<Rightarrow> 'a list list \<Rightarrow> 'a list" where
  "nth_terms i vs = concat (map (\<lambda>v. if i < length v then [v ! i] else []) vs)"

definition populate_stats_where_vec_list :: "'a list \<Rightarrow> 'a list list \<Rightarrow> 'a list list" where
  "populate_stats_where_vec_list where_vec_stats where_vec_tags_stats =
     (let max_tags = max_len16 where_vec_tags_stats
      in if max_tags = 0 then [where_vec_stats]
         else map (\<lambda>i. where_vec_stats @ nth_terms i where_vec_tags_stats) [0..<max_tags])"

definition populate_session_where_vec_list :: "'a list \<Rightarrow> 'a list \<Rightarrow> 'a list \<Rightarrow> 'a list \<Rightarrow> 'a list \<Rightarrow> 'a list list" where
  "populate_session_where_vec_list rest_where_vec labels_vec remote_labels_vec custom_tags_vec remote_custom_tags_vec =
     (let max_random_attr =
            max (max (max (length labels_vec) (length remote_labels_vec)) (length custom_tags_vec))
              (length remote_custom_tags_vec) mod 2 ^ 16
      in if max_random_attr = 0 then [rest_where_vec]
         else map (\<lambda>i. rest_where_vec @ nth_terms i [labels_vec, remote_labels_vec, custom_tags_vec, remote_custom_tags_vec])
                [0..<max_random_attr])"

text \<open>\<open>djb_hash\<close> in 32-bit arithmetic; \<open>char\<close> is signed.\<close>

definition signed_char :: "char \<Rightarrow> int" where
  "signed_char c = (let n = of_char c in if n < 128 then n else n - 256)"

definition djb_hash :: "string \<Rightarrow> u32" where
  "djb_hash s = foldl (\<lambda>h c. (push_bit 5 h + h) + word_of_int (signed_char c)) 5381 s"

definition tags_index :: "string \<Rightarrow> nat" where
  "tags_index name = unat (djb_hash name) mod 4"

section \<open>The clause\<close>

record 'd WhereQuery =
  sub_queries :: "'d DbQueryUnit list"
  wterms :: nat
  w_filter_list :: "filter_match_t list list"
  additional_select :: "string list"
  w_filter_qe_logs :: bool

text \<open>The locals of one OR term; \<open>ot_qe_logs\<close> is false once a term has cleared the main query's
  \<open>filter_qe_logs\<close>.\<close>

record 'd or_term =
  ot_msg :: "'d where_info_vec"
  ot_qe_logs :: bool
  ot_proto :: "(match_op \<times> u16 \<times> u16) option"
  ot_sport :: "(match_op \<times> u16 \<times> u16) option"
  ot_dport :: "(match_op \<times> u16 \<times> u16) option"
  ot_svn :: "(match_op \<times> string) option"
  ot_dvn :: "(match_op \<times> string) option"
  ot_sip :: "(match_op \<times> string) option"
  ot_dip :: "(match_op \<times> string) option"
  ot_name :: "(match_op \<times> 'd DbDataValue) option"
  object_id_specified :: bool
  ot_labels :: "'d where_info_vec"
  ot_remote_labels :: "'d where_info_vec"
  ot_custom_tags :: "'d where_info_vec"
  ot_remote_custom_tags :: "'d where_info_vec"
  ot_session_rest :: "'d where_info_vec"
  ot_stats :: "'d where_info_vec"
  ot_tags :: "'d where_info_vec list"
  ot_filter_and :: "filter_match_t list"
  ot_additional :: "string list"
  ot_units :: "'d DbQueryUnit list"

definition new_or_term :: "'d or_term" where
  "new_or_term = \<lparr>ot_msg = [], ot_qe_logs = True, ot_proto = None, ot_sport = None, ot_dport = None,
     ot_svn = None, ot_dvn = None, ot_sip = None, ot_dip = None, ot_name = None, object_id_specified = False,
     ot_labels = [], ot_remote_labels = [], ot_custom_tags = [], ot_remote_custom_tags = [], ot_session_rest = [],
     ot_stats = [], ot_tags = replicate 4 [], ot_filter_and = [], ot_additional = [], ot_units = []\<rparr>"

definition new_message_unit :: "'d where_info_vec \<Rightarrow> 'd DbQueryUnit" where
  "new_message_unit wv = new_DbQueryUnit\<lparr>cfname := COLLECTOR_GLOBAL_TABLE, t_only_row := True, t_only_col := True, where_vec := wv\<rparr>"

text \<open>\<open>std::istringstream(value) >> x\<close> into an uninitialised 16-bit variable: a text of white space only
  leaves it as it was.\<close>

definition read_u16 :: "'d where_env \<Rightarrow> string \<Rightarrow> u16" where
  "read_u16 env s = (if list_all is_space s then we_uninit env else istream_u16 s)"

definition comparator :: "match_op \<Rightarrow> gendb_op" where
  "comparator op = (if op = PREFIX then DB_LIKE else DB_EQ)"

subsection \<open>Message and object tables\<close>

definition message_term :: "'d where_env \<Rightarrow> string \<Rightarrow> match_op \<Rightarrow> string \<Rightarrow> 'd or_term \<Rightarrow> 'd or_term checked" where
  "message_term env name op val ot =
     (let isStat = is_stat_table_query (we_table env);
          indexed = (\<lambda>col v o1.
            bind_checked (ensure (op = EQUAL \<or> op = PREFIX) EINVAL) (\<lambda>_.
            bind_checked (add_where (we_table env) col (get_gendb_op_from_op op) v (ot_msg o1)) (\<lambda>wv. Done (o1\<lparr>ot_msg := wv\<rparr>))))
      in bind_checked (if name = ''Source'' \<and> \<not> isStat then indexed name val ot else Done ot) (\<lambda>o1.
         bind_checked (if name = ''ModuleId'' \<and> \<not> isStat then
             bind_checked (indexed name val o1) (\<lambda>o2. Done (if val = we_moduleid env then o2\<lparr>ot_qe_logs := False\<rparr> else o2))
           else Done o1) (\<lambda>o3.
         bind_checked (if name = ''Messagetype'' \<and> \<not> isStat then indexed name val o3 else Done o3) (\<lambda>o4.
           if name = ''ObjectId'' then
             bind_checked (indexed ''ObjectTypeName1'' (we_table env @ '':'' @ val) o4) (\<lambda>o5. Done (o5\<lparr>object_id_specified := True\<rparr>))
           else Done o4))))"

definition object_type_columns :: "string list" where
  "object_type_columns = map (\<lambda>i. ''ObjectTypeName'' @ show_nat i) [2..<7]"

text \<open>\<open>handle_object_type_value\<close>: the unit of the term and the units it adds, one for every further
  column that may hold an object. The replaced entry is the first condition on column 1; the access is
  undefined when there is none.\<close>

definition handle_object_type_value :: "string \<Rightarrow> bool \<Rightarrow> 'd where_info_vec \<Rightarrow> ('d where_info_vec \<times> 'd DbQueryUnit list) checked" where
  "handle_object_type_value table specified wv =
     (if is_object_table_query table then
        bind_checked (query_column_to_cass_column table ''ObjectTypeName1'') (\<lambda>column1.
        bind_checked (ensure (column1 \<noteq> '''') EINVAL) (\<lambda>_.
        bind_checked (if specified then Done wv
                      else add_where table ''ObjectTypeName1'' (get_gendb_op_from_op PREFIX) (table @ '':'') wv) (\<lambda>wv1.
          let index = length (takeWhile (\<lambda>w. fst w \<noteq> column1) wv1)
          in bind_checked (map_checked (\<lambda>col.
               if index < length wv1 then
                 bind_checked (query_column_to_cass_column table col) (\<lambda>columnN.
                   Done (new_message_unit (wv1[index := (columnN, snd (wv1 ! index))])))
               else Crash) object_type_columns) (\<lambda>us. Done (wv1, us)))))
      else Done (wv, []))"

subsection \<open>Session tables\<close>

definition port_term :: "'d where_env \<Rightarrow> match_op \<Rightarrow> string \<Rightarrow> string \<Rightarrow> (match_op \<times> u16 \<times> u16) checked" where
  "port_term env op val val2 =
     (let v = read_u16 env val
      in if op = IN_RANGE then Done (op, v, read_u16 env val2)
         else bind_checked (ensure (op = EQUAL) EINVAL) (\<lambda>_. Done (op, v, 0)))"

definition session_term :: "'d where_env \<Rightarrow> string \<Rightarrow> match_op \<Rightarrow> string \<Rightarrow> string \<Rightarrow> 'd or_term \<Rightarrow> 'd or_term checked" where
  "session_term env name op val val2 ot =
     (let contains = (\<lambda>wv. bind_checked (ensure (op = CONTAINS) EINVAL) (\<lambda>_. add_where (we_table env) name DB_LIKE (''%'' @ val) wv))
      in if name = ''protocol'' then bind_checked (port_term env op val val2) (\<lambda>p. Done (ot\<lparr>ot_proto := Some p\<rparr>))
         else if name = ''server_port'' then bind_checked (port_term env op val val2) (\<lambda>p. Done (ot\<lparr>ot_sport := Some p\<rparr>))
         else if name = ''labels'' then bind_checked (contains (ot_labels ot)) (\<lambda>w. Done (ot\<lparr>ot_labels := w\<rparr>))
         else if name = ''remote_labels'' then bind_checked (contains (ot_remote_labels ot)) (\<lambda>w. Done (ot\<lparr>ot_remote_labels := w\<rparr>))
         else if name = ''custom_tags'' then bind_checked (contains (ot_custom_tags ot)) (\<lambda>w. Done (ot\<lparr>ot_custom_tags := w\<rparr>))
         else if name = ''remote_custom_tags'' then bind_checked (contains (ot_remote_custom_tags ot)) (\<lambda>w. Done (ot\<lparr>ot_remote_custom_tags := w\<rparr>))
         else bind_checked (add_where (we_table env) name (comparator op) val (ot_session_rest ot)) (\<lambda>w. Done (ot\<lparr>ot_session_rest := w\<rparr>)))"

text \<open>One bound of the clustering key: an equality, a range, or nothing to add for another operator.\<close>

definition key_range :: "match_op \<times> u16 \<times> u16 \<Rightarrow> 'd DbQueryUnit \<Rightarrow> 'd DbQueryUnit" where
  "key_range p q =
     (let (op, v, v2) = p
      in q\<lparr>cr_start := cr_start q @ [DbU16 v],
           cr_finish := cr_finish q @ (if op = EQUAL then [DbU16 v] else if op = IN_RANGE then [DbU16 v2] else [])\<rparr>)"

definition proto_range :: "(match_op \<times> u16 \<times> u16) option \<Rightarrow> 'd DbQueryUnit \<Rightarrow> 'd DbQueryUnit" where
  "proto_range proto q =
     (case proto of Some p \<Rightarrow> key_range p q
      | None \<Rightarrow> q\<lparr>cr_start := cr_start q @ [DbU16 0], cr_finish := cr_finish q @ [DbU16 0xffff]\<rparr>)"

definition port_range :: "bool \<Rightarrow> (match_op \<times> u16 \<times> u16) option \<Rightarrow> 'd DbQueryUnit \<Rightarrow> 'd DbQueryUnit checked" where
  "port_range proto_match port q =
     (case port of
        Some p \<Rightarrow> bind_checked (ensure proto_match EINVAL) (\<lambda>_. Done (key_range p q))
      | None \<Rightarrow> Done (q\<lparr>cr_finish := cr_finish q @ [DbU16 0xffff]\<rparr>))"

definition session_units :: "u8 \<Rightarrow> u8 \<Rightarrow> 'd or_term \<Rightarrow> 'd DbQueryUnit list checked" where
  "session_units is_si session_type ot =
     map_checked (\<lambda>wv.
       port_range (ot_proto ot \<noteq> None) (ot_sport ot)
         (proto_range (ot_proto ot) (new_DbQueryUnit\<lparr>cfname := SESSION_TABLE,
            row_key_suffix := [DbU8 is_si, DbU8 session_type], where_vec := wv\<rparr>)))
       (populate_session_where_vec_list (ot_session_rest ot) (ot_labels ot) (ot_remote_labels ot)
          (ot_custom_tags ot) (ot_remote_custom_tags ot))"

subsection \<open>Flow tables\<close>

definition where_filter :: "string \<Rightarrow> match_op \<Rightarrow> string \<Rightarrow> filter_match_t" where
  "where_filter name op val = \<lparr>fm_name = name, fm_value = val, fm_op = op, ignore_col_absence = False,
     match_e = (if op = REGEX_MATCH then val else '''')\<rparr>"

definition push_filter :: "filter_match_t \<Rightarrow> 'd or_term \<Rightarrow> 'd or_term" where
  "push_filter f ot = ot\<lparr>ot_filter_and := ot_filter_and ot @ [f], ot_additional := ot_additional ot @ [fm_name f]\<rparr>"

definition show_u16 :: "u16 \<Rightarrow> string" where "show_u16 w = show_nat (unat w)"

definition flow_term ::
    "'d where_env \<Rightarrow> int \<Rightarrow> string \<Rightarrow> match_op \<Rightarrow> string \<Rightarrow> string \<Rightarrow> 'd or_term \<Rightarrow> 'd or_term checked" where
  "flow_term env direction_ing name op val val2 ot =
     (if name = ''protocol'' then bind_checked (port_term env op val val2) (\<lambda>p. Done (ot\<lparr>ot_proto := Some p\<rparr>))
      else if name = ''sourcevn'' then bind_checked (ensure (op = EQUAL \<or> op = PREFIX) EINVAL) (\<lambda>_. Done (ot\<lparr>ot_svn := Some (op, val)\<rparr>))
      else if name = ''destvn'' then bind_checked (ensure (op = EQUAL \<or> op = PREFIX) EINVAL) (\<lambda>_. Done (ot\<lparr>ot_dvn := Some (op, val)\<rparr>))
      else if name = ''sourceip'' then
        bind_checked (ensure (op = IN_RANGE \<or> op = EQUAL) EINVAL) (\<lambda>_.
          Done (let o1 = ot\<lparr>ot_sip := Some (op, val)\<rparr>
                in if direction_ing = 0 then push_filter (where_filter ''sourceip'' op val) o1 else o1))
      else if name = ''destip'' then
        bind_checked (ensure (op = IN_RANGE \<or> op = EQUAL) EINVAL) (\<lambda>_.
          Done (let o1 = ot\<lparr>ot_dip := Some (op, val)\<rparr>
                in if direction_ing = 1 then push_filter (where_filter ''destip'' op val) o1 else o1))
      else if name = ''sport'' then
        bind_checked (port_term env op val val2) (\<lambda>p.
          Done (push_filter (where_filter ''sport'' op (show_u16 (fst (snd p)))) (ot\<lparr>ot_sport := Some p\<rparr>)))
      else if name = ''dport'' then
        bind_checked (port_term env op val val2) (\<lambda>p.
          Done (push_filter (where_filter ''dport'' op (show_u16 (fst (snd p)))) (ot\<lparr>ot_dport := Some p\<rparr>)))
      else if name = ''vrouter'' then
        bind_checked (ensure (op = EQUAL \<or> op = PREFIX) EINVAL) (\<lambda>_.
          if op = PREFIX then
            (if we_regex_valid env val then Done (push_filter (where_filter ''vrouter'' REGEX_MATCH val) ot) else Crash)
          else Done (push_filter (where_filter ''vrouter'' op val) ot))
      else Done ot)"

text \<open>The value a unit takes for the given direction: the first for egress (0), the second for ingress (1).\<close>

definition by_direction :: "int \<Rightarrow> 'a option \<Rightarrow> 'a option \<Rightarrow> 'a option" where
  "by_direction d a b = (if d = 0 then a else if d = 1 then b else None)"

definition flow_cond :: "string \<Rightarrow> string \<Rightarrow> (match_op \<times> string) option \<Rightarrow> 'd where_info_vec \<Rightarrow> 'd where_info_vec checked" where
  "flow_cond table col m wv = (case m of None \<Rightarrow> Done wv | Some (op, v) \<Rightarrow> add_where table col (comparator op) v wv)"

text \<open>The unit for the client and for the server sessions: \<open>port\<close> is the port on the server side.\<close>

definition flow_unit :: "'d where_env \<Rightarrow> int \<Rightarrow> u8 \<Rightarrow> (match_op \<times> u16 \<times> u16) option \<Rightarrow> 'd or_term \<Rightarrow> 'd DbQueryUnit checked" where
  "flow_unit env d session_type port ot =
     bind_checked (port_range (ot_proto ot \<noteq> None) port
        (proto_range (ot_proto ot) (new_DbQueryUnit\<lparr>cfname := SESSION_TABLE, row_key_suffix := [DbU8 session_type]\<rparr>))) (\<lambda>q.
     bind_checked (flow_cond (we_table env) ''local_ip'' (by_direction d (ot_dip ot) (ot_sip ot)) []) (\<lambda>w1.
     bind_checked (flow_cond (we_table env) ''vn'' (by_direction d (ot_dvn ot) (ot_svn ot)) w1) (\<lambda>w2.
     bind_checked (flow_cond (we_table env) ''remote_vn'' (by_direction d (ot_svn ot) (ot_dvn ot)) w2) (\<lambda>w3.
       Done (q\<lparr>where_vec := w3\<rparr>)))))"

definition SERVER_SESSION :: u8 where "SERVER_SESSION = 0"
definition CLIENT_SESSION :: u8 where "CLIENT_SESSION = 1"

definition flow_units :: "'d where_env \<Rightarrow> int \<Rightarrow> 'd or_term \<Rightarrow> 'd DbQueryUnit list checked" where
  "flow_units env d ot =
     bind_checked (flow_unit env d CLIENT_SESSION (by_direction d (ot_sport ot) (ot_dport ot)) ot) (\<lambda>c.
     bind_checked (flow_unit env d SERVER_SESSION (by_direction d (ot_dport ot) (ot_sport ot)) ot) (\<lambda>s.
       Done [c, s]))"

subsection \<open>Statistics tables\<close>

definition add_tag :: "'d where_env \<Rightarrow> string \<Rightarrow> 'd DbDataValue \<Rightarrow> 'd or_term \<Rightarrow> 'd or_term checked" where
  "add_tag env name v ot =
     (let idx = tags_index name;
          pv = DbString (''%'' @ name @ ''='' @ we_to_string env v)
      in bind_checked (add_where (we_table env) (''tags'' @ show_nat idx) DB_LIKE (we_to_string env pv) (ot_tags ot ! idx))
           (\<lambda>w. Done (ot\<lparr>ot_tags := (ot_tags ot)[idx := w]\<rparr>)))"

definition is_key_or_proxy :: "string \<Rightarrow> bool" where
  "is_key_or_proxy n \<longleftrightarrow> ends_with n ''__key'' \<or> ends_with n ''proxy''"

definition rename_key_proxy :: "string \<Rightarrow> string" where
  "rename_key_proxy n =
     (let n1 = (if ends_with n ''__key'' then ''__key'' else n)
      in if ends_with n1 ''proxy'' then ''proxy'' else n1)"

text \<open>The prefix of the term; the result has the name as it is left for the suffix.\<close>

definition stat_prefix :: "'d where_env \<Rightarrow> 'd stat_term \<Rightarrow> 'd or_term \<Rightarrow> (string \<times> 'd or_term) checked" where
  "stat_prefix env st ot =
     (let pname = st_pname st; pop = st_pop st; s = we_to_string env (st_pval st)
      in if pname = ''name'' then Done (pname, ot\<lparr>ot_name := Some (pop, st_pval st)\<rparr>)
         else if pname = ''Source'' \<or> is_key_or_proxy pname then
           (let pname1 = rename_key_proxy pname
            in bind_checked (ensure (pop = EQUAL \<or> pop = PREFIX) EINVAL) (\<lambda>_.
               bind_checked
                 (if pop = EQUAL then add_where (we_table env) pname1 DB_EQ s (ot_stats ot)
                  else if s \<noteq> '''' then add_where (we_table env) pname1 DB_LIKE s (ot_stats ot)
                  else Done (ot_stats ot)) (\<lambda>w. Done (pname1, ot\<lparr>ot_stats := w\<rparr>))))
         else bind_checked (add_tag env pname (st_pval st) ot) (\<lambda>o1. Done (pname, o1)))"

text \<open>The suffix: the tests for the key and proxy columns look at the prefix name.\<close>

definition stat_suffix :: "'d where_env \<Rightarrow> string \<Rightarrow> 'd stat_term \<Rightarrow> 'd or_term \<Rightarrow> 'd or_term checked" where
  "stat_suffix env pname st ot =
     (let sname = st_sname st; sop = st_sop st
      in if sop = no_op then Done ot
         else if sname = ''name'' then Done (ot\<lparr>ot_name := Some (sop, st_sval st)\<rparr>)
         else if sname = ''Source'' \<or> is_key_or_proxy pname then
           bind_checked (ensure (sop = EQUAL \<or> sop = PREFIX) EINVAL) (\<lambda>_.
           bind_checked (add_where (we_table env) sname (if sop = EQUAL then DB_EQ else DB_LIKE)
                           (we_to_string env (st_sval st)) (ot_stats ot)) (\<lambda>w. Done (ot\<lparr>ot_stats := w\<rparr>)))
         else bind_checked (ensure (sop = EQUAL \<or> sop = PREFIX) EINVAL) (\<lambda>_. add_tag env sname (st_sval st) ot))"

definition stat_where_term :: "'d where_env \<Rightarrow> 'd json \<Rightarrow> 'd or_term \<Rightarrow> 'd or_term checked" where
  "stat_where_term env t ot =
     bind_checked (if we_old_data env then
         bind_checked (StatTermProcess env t) (\<lambda>(res, u).
           Done (case u of None \<Rightarrow> ot | Some q \<Rightarrow> ot\<lparr>ot_units := ot_units ot @ [q]\<rparr>))
       else Done ot) (\<lambda>o1.
     bind_checked (StatTermParse env t) (\<lambda>r. case r of None \<Rightarrow> Fail EINVAL | Some st \<Rightarrow>
     bind_checked (stat_prefix env st o1) (\<lambda>(pname, o2).
     bind_checked (stat_suffix env pname st o2) (\<lambda>o3. Done (o3\<lparr>object_id_specified := True\<rparr>)))))"

definition stat_units :: "'d where_env \<Rightarrow> 'd or_term \<Rightarrow> 'd DbQueryUnit list checked" where
  "stat_units env ot =
     map_checked (\<lambda>wv.
       let (tstr, astr) = GetStatTableAttrName (we_table env);
           q = new_DbQueryUnit\<lparr>cfname := STATS_TABLE, row_key_suffix := [DbString tstr, DbString astr], where_vec := wv\<rparr>
       in case ot_name ot of
            None \<Rightarrow> Done (q\<lparr>cr_start := [DbString ''''], cr_finish := [DbString [CHR 0x7F]]\<rparr>)
          | Some (op, v) \<Rightarrow>
              if op = EQUAL then Done (q\<lparr>cr_start := [v], cr_finish := [v]\<rparr>)
              else if op = PREFIX then Done (q\<lparr>cr_start := [v], cr_finish := [DbString (we_to_string env v @ [CHR 0x7F])]\<rparr>)
              else Fail EINVAL)
       (populate_stats_where_vec_list (ot_stats ot) (ot_tags ot))"

subsection \<open>The constructor\<close>

definition where_term :: "'d where_env \<Rightarrow> int \<Rightarrow> 'd or_term \<Rightarrow> 'd json \<Rightarrow> 'd or_term checked" where
  "where_term env direction ot t =
     bind_checked (HasMembers t [''name'', ''value'', ''op'']) (\<lambda>has.
     bind_checked (ensure has EBADMSG) (\<lambda>_.
     bind_checked (member t ''name'') (\<lambda>n.
     bind_checked (member t ''value'') (\<lambda>v.
     bind_checked (member t ''op'') (\<lambda>p.
     bind_checked (ensure (IsString n) EINVAL) (\<lambda>_.
     bind_checked (ensure (IsString v \<or> IsNumber v) EINVAL) (\<lambda>_.
     bind_checked (ensure (IsNumber p) EINVAL) (\<lambda>_.
     bind_checked (GetString n) (\<lambda>name0.
     bind_checked (ensure (is_valid_where_field (we_tables env) (we_table env) (we_stats env) name0) EINVAL) (\<lambda>_.
     bind_checked (GetInt p) (\<lambda>i.
       (let val = value_text (we_show_double env) v; op = match_op_of_int i; name = get_column_name name0; table = we_table env
        in bind_checked (if op = IN_RANGE then
               bind_checked (HasMember t ''value2'') (\<lambda>h. bind_checked (ensure h EBADMSG) (\<lambda>_.
                 bind_checked (member t ''value2'') (\<lambda>v2. Done (value_text (we_show_double env) v2))))
             else Done '''') (\<lambda>val2.
           bind_checked (message_term env name op val ot) (\<lambda>o1.
           bind_checked
             (if is_session_query table then session_term env name op val val2 o1
              else if is_flow_query table then flow_term env direction name op val val2 o1
              else Done o1) (\<lambda>o2.
             if is_stat_table_query table then stat_where_term env t o2 else Done o2)))))))))))))))"

text \<open>What one OR term adds: its units, in the order the code creates them, and its filter.\<close>

definition or_term_units :: "'d where_env \<Rightarrow> u8 \<Rightarrow> u8 \<Rightarrow> int \<Rightarrow> 'd or_term \<Rightarrow> 'd DbQueryUnit list checked" where
  "or_term_units env session_type is_si direction ot =
     (let table = we_table env; is_msg = is_message_table_query table \<or> is_object_table_query table
      in bind_checked (if is_stat_table_query table then stat_units env ot else Done []) (\<lambda>us1.
         bind_checked (if is_msg then
             bind_checked (handle_object_type_value table (object_id_specified ot) (ot_msg ot)) (\<lambda>(wv, us). Done (new_message_unit wv # us))
           else Done []) (\<lambda>us2.
         bind_checked (if is_session_query table then session_units is_si session_type ot
           else if is_flow_query table then flow_units env direction ot
           else Done []) (\<lambda>us3. Done (ot_units ot @ us1 @ us2 @ us3)))))"

definition where_or_node :: "'d where_env \<Rightarrow> u8 \<Rightarrow> u8 \<Rightarrow> int \<Rightarrow> 'd WhereQuery \<Rightarrow> 'd json list \<Rightarrow> 'd WhereQuery checked" where
  "where_or_node env session_type is_si direction w ts =
     bind_checked (foldl_checked (where_term env direction) new_or_term ts) (\<lambda>ot.
     bind_checked (or_term_units env session_type is_si direction ot) (\<lambda>us.
       Done (w\<lparr>sub_queries := sub_queries w @ us,
               w_filter_list := w_filter_list w @
                 (if is_flow_query (we_table env) \<and> ot_filter_and ot \<noteq> [] then [ot_filter_and ot] else []),
               additional_select := additional_select w @ ot_additional ot,
               w_filter_qe_logs := w_filter_qe_logs w \<and> ot_qe_logs ot\<rparr>)))"

fun where_or_loop :: "'d where_env \<Rightarrow> u8 \<Rightarrow> u8 \<Rightarrow> int \<Rightarrow> int \<Rightarrow> int \<Rightarrow> 'd json list \<Rightarrow> 'd WhereQuery \<Rightarrow> 'd WhereQuery checked" where
  "where_or_loop env session_type is_si direction or_number i [] w = Done w"
| "where_or_loop env session_type is_si direction or_number i (n # ns) w =
     bind_checked (ensure (IsArray n) EBADMSG) (\<lambda>_.
     bind_checked (elements n) (\<lambda>ts.
     bind_checked (ensure (ts \<noteq> []) EINVAL) (\<lambda>_.
     bind_checked (if or_number \<noteq> -1 \<and> or_number \<noteq> i then Done w else where_or_node env session_type is_si direction w ts) (\<lambda>w1.
       where_or_loop env session_type is_si direction or_number (i + 1) ns w1))))"

text \<open>\<open>where *\<close>: no clause in the request.\<close>

definition session_key_unit :: "u8 \<Rightarrow> u8 \<Rightarrow> 'd DbQueryUnit" where
  "session_key_unit is_si session_type = new_DbQueryUnit\<lparr>cfname := SESSION_TABLE,
     row_key_suffix := [DbU8 is_si, DbU8 session_type], cr_start := [DbU16 0], cr_finish := [DbU16 0xffff, DbU16 0xffff]\<rparr>"

definition where_star_units :: "string \<Rightarrow> u8 \<Rightarrow> u8 \<Rightarrow> 'd DbQueryUnit list checked" where
  "where_star_units table session_type is_si =
     (if is_message_table_query table then Done [new_message_unit []]
      else if table = FLOW_TABLE \<or> table = FLOW_SERIES_TABLE then
        Done [session_key_unit is_si SERVER_SESSION, session_key_unit is_si CLIENT_SESSION]
      else if is_session_query table then Done [session_key_unit is_si session_type]
      else if is_object_table_query table then
        bind_checked (handle_object_type_value table False []) (\<lambda>(wv, us). Done (new_message_unit wv # us))
      else Done [new_DbQueryUnit])"

definition new_WhereQuery ::
    "'d where_env \<Rightarrow> string \<Rightarrow> int \<Rightarrow> int \<Rightarrow> int \<Rightarrow> int \<Rightarrow> bool \<Rightarrow> 'd WhereQuery checked" where
  "new_WhereQuery env where_json_string session_type is_si direction or_number qe_logs =
     (let w = \<lparr>sub_queries = [], wterms = 0, w_filter_list = [], additional_select = [], w_filter_qe_logs = qe_logs\<rparr>;
          st = word_of_int session_type; si = word_of_int is_si
      in if where_json_string = '''' then
           bind_checked (where_star_units (we_table env) st si) (\<lambda>us.
             Done (w\<lparr>sub_queries := us, wterms := if or_number = -1 then 1 else 0\<rparr>))
         else
           bind_checked (member (we_parse env (''{ '' @ [CHR 0x22] @ ''where'' @ [CHR 0x22] @ '' : '' @ where_json_string @ '' }'')) ''where'') (\<lambda>v.
           bind_checked (ensure (IsArray v) EBADMSG) (\<lambda>_.
           bind_checked (elements v) (\<lambda>ns.
             where_or_loop env st si direction or_number 0 ns (w\<lparr>wterms := if or_number = -1 then length ns else 0\<rparr>)))))"

section \<open>Combining the results\<close>

text \<open>
  \<open>subquery_processed\<close> is called once for every sub-query, in the order in which they complete; the
  callback \<open>where_query_cb_\<close> is called with the combined result when the last one has arrived. A
  completion is the column family of the sub-query, its sorted result and whether it succeeded.
\<close>

type_synonym 'v completion = "string \<times> 'v WhereResultT \<times> bool"

record 'v where_run =
  wr_inp :: "'v WhereResultT list"
  wr_inp_new_data :: "'v WhereResultT list"
  wr_error :: bool

definition combine_results :: "string \<Rightarrow> 'v::linorder WhereResultT list \<Rightarrow> 'v WhereResultT list \<Rightarrow> 'v WhereResultT outcome" where
  "combine_results table inp inp_new_data =
     (if is_message_table_query table \<or> is_object_table_query table \<or> is_flow_query table then op_or inp
      else if is_stat_table_query table then
        bind_outcome (if inp \<noteq> [] then bind_outcome (op_and inp) (\<lambda>r. Ret [r]) else Ret []) (\<lambda>old.
        bind_outcome (op_and inp_new_data) (\<lambda>new. op_or (old @ [new])))
      else op_and inp)"

definition record_completion :: "'v where_run \<Rightarrow> 'v completion \<Rightarrow> 'v where_run" where
  "record_completion st c =
     (let (cf, res, ok) = c;
          st1 = (if cf = OBJECT_TABLE then st\<lparr>wr_inp := res # wr_inp st\<rparr>
                 else if cf = STATS_TABLE then st\<lparr>wr_inp_new_data := wr_inp_new_data st @ [res]\<rparr>
                 else st\<lparr>wr_inp := wr_inp st @ [res]\<rparr>)
      in st1\<lparr>wr_error := wr_error st1 \<or> \<not> ok\<rparr>)"

definition subquery_processed ::
    "string \<Rightarrow> nat \<Rightarrow> 'v::linorder where_run \<Rightarrow> 'v completion \<Rightarrow> ('v where_run \<times> 'v WhereResultT option) outcome" where
  "subquery_processed table num_sub_queries st c =
     (let st1 = record_completion st c
      in if num_sub_queries \<noteq> length (wr_inp st1) + length (wr_inp_new_data st1) then Ret (st1, None)
         else if wr_error st1 then Ret (st1, Some [])
         else bind_outcome (combine_results table (wr_inp st1) (wr_inp_new_data st1)) (\<lambda>r. Ret (st1, Some r)))"

definition initial_run :: "'v where_run" where
  "initial_run = \<lparr>wr_inp = [], wr_inp_new_data = [], wr_error = False\<rparr>"

text \<open>All completions in turn: the last state and the results passed to the callback.\<close>

definition deliver :: "string \<Rightarrow> nat \<Rightarrow> 'v::linorder where_run \<times> 'v WhereResultT list \<Rightarrow> 'v completion \<Rightarrow> ('v where_run \<times> 'v WhereResultT list) outcome" where
  "deliver table n s c = bind_outcome (subquery_processed table n (fst s) c)
     (\<lambda>(st, cb). Ret (st, snd s @ (case cb of None \<Rightarrow> [] | Some r \<Rightarrow> [r])))"

definition completions :: "string \<Rightarrow> 'v::linorder completion list \<Rightarrow> ('v where_run \<times> 'v WhereResultT list) outcome" where
  "completions table cs = foldl_outcome (deliver table (length cs)) (initial_run, []) cs"

section \<open>Properties of the combination\<close>

definition old_results :: "'v completion list \<Rightarrow> 'v WhereResultT set" where
  "old_results cs = (fst \<circ> snd) ` {c \<in> set cs. fst c \<noteq> STATS_TABLE}"

definition new_results :: "'v completion list \<Rightarrow> 'v WhereResultT set" where
  "new_results cs = (fst \<circ> snd) ` {c \<in> set cs. fst c = STATS_TABLE}"

lemma results_simps [simp]:
  "old_results [] = {}" "new_results [] = {}"
  "old_results (c # cs) = (if fst c = STATS_TABLE then {} else {fst (snd c)}) \<union> old_results cs"
  "new_results (c # cs) = (if fst c = STATS_TABLE then {fst (snd c)} else {}) \<union> new_results cs"
  by (auto simp: old_results_def new_results_def)

lemma record_completion_step:
  "length (wr_inp (record_completion st c)) + length (wr_inp_new_data (record_completion st c)) =
     Suc (length (wr_inp st) + length (wr_inp_new_data st))"
  "set (wr_inp (record_completion st c)) = set (wr_inp st) \<union> old_results [c]"
  "set (wr_inp_new_data (record_completion st c)) = set (wr_inp_new_data st) \<union> new_results [c]"
  "wr_error (record_completion st c) \<longleftrightarrow> wr_error st \<or> \<not> snd (snd c)"
  by (simp_all add: record_completion_def split_beta Let_def)

lemma recorded_length:
  "length (wr_inp (foldl record_completion st cs)) + length (wr_inp_new_data (foldl record_completion st cs)) =
     length (wr_inp st) + length (wr_inp_new_data st) + length cs"
  by (induction cs arbitrary: st) (simp_all add: record_completion_step(1))

lemma recorded_results:
  "set (wr_inp (foldl record_completion st cs)) = set (wr_inp st) \<union> old_results cs \<and>
   set (wr_inp_new_data (foldl record_completion st cs)) = set (wr_inp_new_data st) \<union> new_results cs"
  by (induction cs arbitrary: st) (simp_all add: record_completion_step(2,3) Un_assoc del: Un_insert_left Un_insert_right)

lemma recorded_error:
  "wr_error (foldl record_completion st cs) \<longleftrightarrow> wr_error st \<or> (\<exists>c \<in> set cs. \<not> snd (snd c))"
  by (induction cs arbitrary: st) (simp_all add: record_completion_step(4))

lemma deliver_waits:
  "length (wr_inp (fst s)) + length (wr_inp_new_data (fst s)) + length cs < n \<Longrightarrow>
     foldl_outcome (deliver table n) s cs = Ret (foldl record_completion (fst s) cs, snd s)"
proof (induction cs arbitrary: s)
  case (Cons c cs)
  let ?st = "record_completion (fst s) c"
  have len: "length (wr_inp ?st) + length (wr_inp_new_data ?st) = length (wr_inp (fst s)) + length (wr_inp_new_data (fst s)) + 1"
    using record_completion_step(1)[of "fst s" c] by simp
  then have "deliver table n s c = Ret (?st, snd s)"
    using Cons.prems by (simp add: deliver_def subquery_processed_def Let_def)
  then show ?case using Cons.IH[of "(?st, snd s)"] Cons.prems len by simp
qed simp

lemma completions_eq:
  assumes "cs \<noteq> []"
  shows "completions table cs =
    (let st = foldl record_completion initial_run cs
     in if wr_error st then Ret (st, [[]])
        else bind_outcome (combine_results table (wr_inp st) (wr_inp_new_data st)) (\<lambda>r. Ret (st, [r])))"
proof -
  from assms obtain ds d where cs: "cs = ds @ [d]" by (metis rev_exhaust)
  have waits: "foldl_outcome (deliver table (length cs)) (initial_run, []) ds = Ret (foldl record_completion initial_run ds, [])"
    using deliver_waits[of "(initial_run, [])" ds "length cs"] by (simp add: cs initial_run_def)
  have "length (wr_inp (foldl record_completion initial_run cs)) + length (wr_inp_new_data (foldl record_completion initial_run cs)) = length cs"
    using recorded_length[of initial_run cs] by (simp add: initial_run_def)
  then show ?thesis using waits
    by (simp add: completions_def cs foldl_outcome_append deliver_def subquery_processed_def Let_def bind_outcome_assoc)
qed

definition delivered :: "string \<Rightarrow> 'v::linorder completion list \<Rightarrow> 'v WhereResultT list outcome" where
  "delivered table cs = bind_outcome (completions table cs) (\<lambda>(st, rs). Ret rs)"

lemma delivered_eq:
  assumes "cs \<noteq> []"
  shows "delivered table cs =
    (if \<exists>c \<in> set cs. \<not> snd (snd c) then Ret [[]]
     else let st = foldl record_completion initial_run cs
          in bind_outcome (combine_results table (wr_inp st) (wr_inp_new_data st)) (\<lambda>r. Ret [r]))"
  using recorded_error[of initial_run cs]
  by (simp add: delivered_def completions_eq[OF assms] Let_def bind_outcome_assoc initial_run_def)

lemma initial_recorded:
  "set (wr_inp (foldl record_completion initial_run cs)) = old_results cs"
  "set (wr_inp_new_data (foldl record_completion initial_run cs)) = new_results cs"
  using recorded_results[of initial_run cs] by (simp_all add: initial_run_def)

lemma results_width:
  assumes "\<forall>c \<in> set cs. where_input n (fst (snd c))"
  shows "list_all (where_input n) (wr_inp (foldl record_completion initial_run cs))"
    and "list_all (where_input n) (wr_inp_new_data (foldl record_completion initial_run cs))"
  using assms by (auto simp: list_all_iff initial_recorded old_results_def new_results_def)

lemma combine_results_cong:
  assumes "list_all (where_input n) a" "list_all (where_input n) b" "set a = set a'" "set b = set b'"
  shows "combine_results table a b = combine_results table a' b'"
proof -
  have "a = [] \<longleftrightarrow> a' = []" using assms(3) by auto
  then show ?thesis
    using op_or_set_cong[OF assms(1,3)] op_and_set_cong[OF assms(1,3)] op_and_set_cong[OF assms(2,4)]
    by (simp add: combine_results_def)
qed

text \<open>
  C3: the result of a WHERE clause does not depend on the order in which its database queries
  complete: any permutation of the completions delivers the same result, for every kind of table and
  with failed queries among them.
\<close>

theorem where_result_order_independent:
  assumes "mset cs = mset ds" and "\<forall>c \<in> set cs. where_input n (fst (snd c))"
  shows "delivered table cs = delivered table ds"
proof (cases "cs = []")
  case False
  have s: "set cs = set ds" and ds: "ds \<noteq> []" using assms(1) False by (auto dest: mset_eq_setD)
  have "old_results cs = old_results ds" "new_results cs = new_results ds"
    by (simp_all add: old_results_def new_results_def s)
  then have "combine_results table (wr_inp (foldl record_completion initial_run cs)) (wr_inp_new_data (foldl record_completion initial_run cs)) =
      combine_results table (wr_inp (foldl record_completion initial_run ds)) (wr_inp_new_data (foldl record_completion initial_run ds))"
    by (intro combine_results_cong[OF results_width[OF assms(2)]]) (simp_all add: initial_recorded)
  then show ?thesis by (simp add: delivered_eq[OF False] delivered_eq[OF ds] s Let_def)
qed (use assms in simp)

definition where_spec :: "string \<Rightarrow> 'v completion list \<Rightarrow> 'v query_result_unit_t set" where
  "where_spec table cs =
     (if is_message_table_query table \<or> is_object_table_query table \<or> is_flow_query table then \<Union> (set ` old_results cs)
      else if is_stat_table_query table then
        (if old_results cs = {} then {} else \<Inter> (set ` old_results cs)) \<union> \<Inter> (set ` new_results cs)
      else \<Inter> (set ` old_results cs))"

lemma combine_results_spec:
  assumes w: "list_all (where_input n) a" "list_all (where_input n) b"
    and ne: "if is_stat_table_query table then b \<noteq> [] else a \<noteq> []"
  shows "\<exists>r. combine_results table a b = Ret r \<and> where_input n r \<and>
    set r = (if is_message_table_query table \<or> is_object_table_query table \<or> is_flow_query table then \<Union> (set ` set a)
      else if is_stat_table_query table then (if a = [] then {} else \<Inter> (set ` set a)) \<union> \<Inter> (set ` set b)
      else \<Inter> (set ` set a))"
proof (cases "is_stat_table_query table")
  case True
  then have k: "\<not> is_message_table_query table" "\<not> is_object_table_query table" "\<not> is_flow_query table"
    by (auto simp: table_defs)
  obtain new where new: "op_and b = Ret new" "where_input n new" "set new = \<Inter> (set ` set b)"
    using op_and_Ret[of b n] w(2) ne True by auto
  show ?thesis
  proof (cases "a = []")
    case True
    then show ?thesis using op_or_Ret[of "[new]" n] new k \<open>is_stat_table_query table\<close> by (auto simp: combine_results_def)
  next
    case False
    then obtain old where old: "op_and a = Ret old" "where_input n old" "set old = \<Inter> (set ` set a)"
      using op_and_Ret[of a n] w(1) by auto
    show ?thesis using op_or_Ret[of "[old, new]" n] new old False k \<open>is_stat_table_query table\<close>
      by (auto simp: combine_results_def)
  qed
next
  case False
  then show ?thesis using op_or_Ret[of a n] op_and_Ret[of a n] w(1) ne by (auto simp: combine_results_def)
qed

text \<open>
  C14: once every database query of the clause has completed without an error, the callback is called
  exactly once, with the sorted union of the results for message, object and flow tables, their
  intersection for session tables, and for statistics tables the intersection over the current table
  united with the intersection over the older index tables.
\<close>

theorem where_result_meets_spec:
  assumes "\<forall>c \<in> set cs. snd (snd c) \<and> where_input n (fst (snd c))"
    and "if is_stat_table_query table then new_results cs \<noteq> {} else old_results cs \<noteq> {}"
  shows "\<exists>r. delivered table cs = Ret [r] \<and> where_input n r \<and> set r = where_spec table cs"
proof -
  have ne: "cs \<noteq> []" using assms(2) by (auto split: if_splits)
  let ?st = "foldl record_completion initial_run cs"
  have w: "\<forall>c \<in> set cs. where_input n (fst (snd c))" and ok: "\<not> (\<exists>c \<in> set cs. \<not> snd (snd c))" using assms(1) by auto
  have "\<exists>r. combine_results table (wr_inp ?st) (wr_inp_new_data ?st) = Ret r \<and> where_input n r \<and> set r = where_spec table cs"
  proof -
    have ne': "if is_stat_table_query table then wr_inp_new_data ?st \<noteq> [] else wr_inp ?st \<noteq> []"
      using assms(2) by (metis initial_recorded set_empty)
    have e: "(wr_inp ?st = []) = (old_results cs = {})" by (metis initial_recorded(1) set_empty)
    show ?thesis using combine_results_spec[OF results_width[OF w] ne'] unfolding where_spec_def initial_recorded e .
  qed
  then show ?thesis using ok by (auto simp: delivered_eq[OF ne])
qed

text \<open>
  When one of the database queries fails, the callback is still called exactly once, after the
  last completion, with an empty result.
\<close>

theorem where_failure_reported_once:
  assumes "c \<in> set cs" and "\<not> snd (snd c)"
  shows "delivered table cs = Ret [[]]"
proof -
  have "cs \<noteq> []" using assms(1) by auto
  then show ?thesis using assms by (auto simp: delivered_eq)
qed

definition sample_completion :: "string \<Rightarrow> bool \<Rightarrow> u64 \<Rightarrow> nat completion" where
  "sample_completion cf ok t = (cf, [\<lparr>timestamp = t, info = [1]\<rparr>], ok)"

theorem where_result_order_independent_witness:
  "delivered ''MessageTable'' [sample_completion ''MessageTablev2'' True 3, sample_completion ''MessageTablev2'' True 5] =
   delivered ''MessageTable'' [sample_completion ''MessageTablev2'' True 5, sample_completion ''MessageTablev2'' True 3]"
  by (rule where_result_order_independent[where n = 1]) (simp_all add: sample_completion_def where_input_def)

theorem where_result_meets_spec_witness:
  "\<exists>r. delivered ''StatTable.a.b'' [sample_completion ''StatsTableV4'' True 3, sample_completion ''Old'' True 5] = Ret [r] \<and>
     where_input 1 r \<and> set r = where_spec ''StatTable.a.b'' [sample_completion ''StatsTableV4'' True 3, sample_completion ''Old'' True 5]"
  by (rule where_result_meets_spec) (simp_all add: sample_completion_def where_input_def table_defs)

theorem where_failure_reported_once_witness:
  "delivered ''MessageTable'' [sample_completion ''MessageTablev2'' True 3, sample_completion ''MessageTablev2'' False 5] = Ret [[]]"
  by (rule where_failure_reported_once[of "sample_completion ''MessageTablev2'' False 5"]) (simp_all add: sample_completion_def)

section \<open>Properties of the clause\<close>

lemma max_len16_foldl:
  assumes "m < 2 ^ 16" "\<forall>v \<in> set vs. length v < 2 ^ 16"
  shows "foldl (\<lambda>m v. if m < length v then length v mod 2 ^ 16 else m) m vs = Max (insert m (length ` set vs))"
  using assms
proof (induction vs arbitrary: m)
  case (Cons v vs)
  have "(if m < length v then length v mod 2 ^ 16 else m) = max m (length v)" using Cons.prems by (simp add: max_def)
  moreover have "max m (length v) < 2 ^ 16" using Cons.prems by simp
  ultimately have "foldl (\<lambda>m v. if m < length v then length v mod 2 ^ 16 else m) m (v # vs) = Max (insert (max m (length v)) (length ` set vs))"
    using Cons.IH[of "max m (length v)"] Cons.prems(2) by simp
  also have "\<dots> = Max (insert m (length ` set (v # vs)))"
    by (cases "vs = []") (simp_all add: insert_commute max.assoc Max_insert)
  finally show ?case .
qed simp

lemma max_len16_max:
  "\<forall>v \<in> set vs. length v < 2 ^ 16 \<Longrightarrow> max_len16 vs = Max (insert 0 (length ` set vs))"
  unfolding max_len16_def by (rule max_len16_foldl) simp_all

lemma nth_terms_set: "set (nth_terms i vs) = {v ! i | v. v \<in> set vs \<and> i < length v}"
  by (auto simp: nth_terms_def split: if_splits)

lemma nth_terms_cover:
  assumes "\<forall>v \<in> set vs. length v \<le> m"
  shows "(\<Union>i<m. set (nth_terms i vs)) = \<Union> (set ` set vs)"
proof (rule set_eqI)
  fix c
  have "c \<in> (\<Union>i<m. set (nth_terms i vs)) \<longleftrightarrow> (\<exists>v \<in> set vs. \<exists>i<length v. i < m \<and> c = v ! i)"
    by (auto simp: nth_terms_set)
  also have "\<dots> \<longleftrightarrow> (\<exists>v \<in> set vs. \<exists>i<length v. c = v ! i)"
    using assms by (meson order_less_le_trans)
  also have "\<dots> \<longleftrightarrow> c \<in> \<Union> (set ` set vs)" by (auto simp: in_set_conv_nth)
  finally show "c \<in> (\<Union>i<m. set (nth_terms i vs)) \<longleftrightarrow> c \<in> \<Union> (set ` set vs)" .
qed

lemma stats_where_vec_list_conditions:
  assumes "\<forall>v \<in> set tags. length v < 2 ^ 16"
  shows "\<Union> (set ` set (populate_stats_where_vec_list base tags)) = set base \<union> \<Union> (set ` set tags)"
proof -
  let ?m = "max_len16 tags"
  have m: "?m = Max (insert 0 (length ` set tags))" using max_len16_max[OF assms] .
  have le: "\<forall>v \<in> set tags. length v \<le> ?m" by (simp add: m)
  show ?thesis
  proof (cases "?m = 0")
    case True
    then have "\<forall>v \<in> set tags. v = []" using le by simp
    with True show ?thesis by (auto simp: populate_stats_where_vec_list_def)
  next
    case False
    then have "{0..<?m} \<noteq> {}" by simp
    then show ?thesis using nth_terms_cover[OF le] False
      by (simp add: populate_stats_where_vec_list_def image_image atLeast0LessThan flip: UN_Un_distrib)
  qed
qed

lemma session_list_is_stats_list:
  assumes "\<forall>v \<in> {a, b, c, d}. length v < 2 ^ 16"
  shows "populate_session_where_vec_list base a b c d = populate_stats_where_vec_list base [a, b, c, d]"
proof -
  have "max_len16 [a, b, c, d] = max (max (max (length a) (length b)) (length c)) (length d) mod 2 ^ 16"
    using assms by (simp add: max_len16_max max.assoc)
  then show ?thesis by (simp add: populate_session_where_vec_list_def populate_stats_where_vec_list_def)
qed

text \<open>
  C30: the index conditions of a session or statistics clause are spread over several database queries,
  whose results are intersected; together they ask for exactly the conditions of the clause: a row
  satisfies every query's conditions if and only if it satisfies the plain conditions and all label or
  tag conditions.
\<close>

theorem index_conditions_conjoined:
  assumes "\<forall>v \<in> set tags \<union> {a, b, c, d}. length v < 2 ^ 16"
  shows "((\<forall>wv \<in> set (populate_stats_where_vec_list base tags). \<forall>x \<in> set wv. P x) \<longleftrightarrow>
      (\<forall>x \<in> set base \<union> \<Union> (set ` set tags). P x)) \<and>
    ((\<forall>wv \<in> set (populate_session_where_vec_list base a b c d). \<forall>x \<in> set wv. P x) \<longleftrightarrow>
      (\<forall>x \<in> set base \<union> set a \<union> set b \<union> set c \<union> set d. P x))"
proof -
  have t: "\<forall>v \<in> set tags. length v < 2 ^ 16" and s: "\<forall>v \<in> {a, b, c, d}. length v < 2 ^ 16" using assms by auto
  have all: "(\<forall>wv \<in> W. \<forall>x \<in> set wv. P x) \<longleftrightarrow> (\<forall>x \<in> \<Union> (set ` W). P x)" for W by auto
  show ?thesis unfolding all session_list_is_stats_list[OF s]
    using stats_where_vec_list_conditions[OF t, of base] stats_where_vec_list_conditions[of "[a, b, c, d]" base] s
    by (simp add: Un_assoc)
qed

theorem index_conditions_conjoined_witness:
  "list_all (list_all (\<lambda>x. x < (9 :: nat))) (populate_stats_where_vec_list [1] [[2, 3], [4]]) \<and>
   list_all (list_all (\<lambda>x. x < (9 :: nat))) (populate_session_where_vec_list [1] [2] [] [3, 4] [])"
  using index_conditions_conjoined[of "[[2, 3], [4]]" "[2]" "[]" "[3, 4]" "[]" "[1]" "\<lambda>x. x < (9 :: nat)"] by (simp add: list_all_iff)

lemma partitions_Cons: "\<exists>ps. partitions = 0 # ps"
  unfolding partitions_def PARTITION_MIN_def by (subst upt_conv_Cons) simp_all

text \<open>
  A flow query without a WHERE clause reads every row of the server sessions twice: the suffix of
  its row key holds the service-instance flag besides the session type, and the enumeration of row keys
  takes every element of the suffix for a session type.
\<close>

theorem flow_star_reads_rows_twice:
  assumes "is_flow_query (we_table env)" and "mq_table mq = we_table env"
  shows "\<exists>w. new_WhereQuery env '''' session_type 0 direction or_number qe_logs = Done w \<and>
    sub_queries w \<noteq> [] \<and> \<not> distinct (keys_of_t2 mq (hd (sub_queries w)) t2)"
proof -
  have t: "we_table env = FLOW_TABLE \<or> we_table env = FLOW_SERIES_TABLE" "\<not> is_message_table_query (we_table env)"
      "\<not> is_stat_table_query (we_table env)"
    using assms(1) by (auto simp: table_defs)
  obtain ps where ps: "partitions = 0 # ps" using partitions_Cons by auto
  have "\<not> distinct (keys_of_t2 mq (session_key_unit 0 SERVER_SESSION) t2)"
    using assms by (simp add: ps keys_of_t2_def session_key_unit_def SERVER_SESSION_def new_DbQueryUnit_def Let_def)
  then show ?thesis using t by (auto simp: new_WhereQuery_def where_star_units_def Let_def)
qed

text \<open>An environment for concrete evaluations: doubles are natural numbers, the parser knows one text.\<close>

definition sample_where_env :: "string \<Rightarrow> StatsQuery option \<Rightarrow> nat json \<Rightarrow> nat where_env" where
  "sample_where_env table stats doc = \<lparr>we_table = table, we_tables = [], we_stats = stats,
     we_parse = (\<lambda>_. JObject [(''where'', doc)]), we_show_double = show_nat, we_strtod = (\<lambda>s. unat (strtoul s)),
     we_to_string = (\<lambda>v. case v of DbString s \<Rightarrow> s | DbU64 n \<Rightarrow> show_nat (unat n) | DbDouble d \<Rightarrow> show_nat d | _ \<Rightarrow> ''''),
     we_regex_valid = (\<lambda>_. True), we_table_schema = None, we_moduleid = ''contrail-query-engine'',
     we_old_data = False, we_uninit = 0\<rparr>"

definition sample_main_query :: "string \<Rightarrow> main_query" where
  "sample_main_query table = \<lparr>mq_table = table, mq_from_time = 0, mq_end_time = 0, unroll_needed = False\<rparr>"

theorem flow_star_reads_rows_twice_witness:
  "\<exists>w. new_WhereQuery (sample_where_env ''FlowRecordTable'' None JNull) '''' 0 0 1 (-1) True = Done w \<and>
     sub_queries w \<noteq> [] \<and> \<not> distinct (keys_of_t2 (sample_main_query ''FlowRecordTable'') (hd (sub_queries w)) 7)"
  by (rule flow_star_reads_rows_twice) (simp_all add: sample_where_env_def sample_main_query_def is_flow_query_def)

subsection \<open>Types of statistics terms\<close>

text \<open>The alternative of \<open>DbDataValue\<close> a column type is read as.\<close>

fun value_of_type :: "VarType \<Rightarrow> 'd DbDataValue \<Rightarrow> bool" where
  "value_of_type VT_UINT64 (DbU64 _) = True"
| "value_of_type VT_DOUBLE (DbDouble _) = True"
| "value_of_type VT_STRING (DbString _) = True"
| "value_of_type VT_MAP_ELEM (DbString _) = True"
| "value_of_type VT_LIST (DbString _) = True"
| "value_of_type VT_UUID DbBlank = True"
| "value_of_type _ _ = False"

lemma ToDbDataValue_typed:
  "dt \<notin> {VT_BLANK, VT_TDIGEST, VT_CENTROID} \<Longrightarrow> value_of_type dt (ToDbDataValue strtod v dt)"
  by (cases dt) (simp_all add: ToDbDataValue_def)

lemma typed_suffix_result:
  assumes "typed_suffix strtod desc c srval srval2 t = Done (Some st)"
  shows "st_pname st = st_pname t \<and> st_pop st = st_pop t \<and> st_pval st = st_pval t \<and> st_pval2 st = st_pval2 t \<and>
    (if cd_suffixes c = [] then st_sname st = '''' \<and> st_sop st = no_op
     else st_sname st \<in> set (cd_suffixes c) \<and> value_of_type (cd_datatype (desc (st_sname st))) (st_sval st))"
proof (cases "cd_suffixes c = []")
  case True
  then show ?thesis using assms by (auto simp: typed_suffix_def split: if_splits)
next
  case ne: False
  show ?thesis
  proof (cases "st_sname t = ''''")
    case True
    then show ?thesis using assms ne
      by (auto simp: typed_suffix_def Let_def split: VarType.splits)
  next
    case False
    then show ?thesis using assms ne
      by (auto simp: typed_suffix_def Let_def intro!: ToDbDataValue_typed split: if_splits)
  qed
qed

text \<open>
  C31: a term over a table with a fixed schema is typed by it: whenever it is accepted, the column it
  names is indexed, its value has the alternative the column's type asks for, and it has a suffix exactly
  when the column has suffixes, one of them, with a value of its type.
\<close>

theorem stat_term_typed:
  assumes "StatTermParse env t = Done (Some st)" and "we_stats env = Some q" and "sq_is_static q"
    and "\<forall>c. cd_datatype (stats_get_column_desc q c) \<notin> {VT_TDIGEST, VT_CENTROID}"
  shows "let c = stats_get_column_desc q (st_pname st)
     in cd_index c \<and> value_of_type (cd_datatype c) (st_pval st) \<and>
        (if cd_suffixes c = [] then st_sname st = '''' \<and> st_sop st = no_op
         else st_sname st \<in> set (cd_suffixes c) \<and>
           value_of_type (cd_datatype (stats_get_column_desc q (st_sname st))) (st_sval st))"
proof -
  from assms(1-3) obtain v v2 srval srval2 t1 where
    "typed_stat_term env (column_desc q Map.empty) v v2 srval srval2 t1 = Done (Some st)"
    by (auto simp: StatTermParse_def query_schema_def Let_def split: if_splits option.splits prod.splits)
  then obtain t2 where t2: "typed_suffix (we_strtod env) (column_desc q Map.empty) (column_desc q Map.empty (st_pname t1)) srval srval2 t2 = Done (Some st)"
      "st_pname t2 = st_pname t1" "cd_index (column_desc q Map.empty (st_pname t1))"
      "cd_datatype (column_desc q Map.empty (st_pname t1)) \<noteq> VT_BLANK"
      "st_pval t2 = ToDbDataValue (we_strtod env) (value_text (we_show_double env) v) (cd_datatype (column_desc q Map.empty (st_pname t1)))"
    by (auto simp: typed_stat_term_def Let_def split: if_splits)
  have d: "column_desc q Map.empty = stats_get_column_desc q" using assms(3) by (simp add: column_desc_def fun_eq_iff)
  show ?thesis using typed_suffix_result[OF t2(1)] t2(2-5) assms(4) unfolding d
    by (auto simp: Let_def intro!: ToDbDataValue_typed)
qed

definition sample_stats :: StatsQuery where
  "sample_stats = \<lparr>sq_type = ''Test'', sq_attr = ''st'', sq_is_static = True,
     sq_schema = [''name'' \<mapsto> \<lparr>cd_datatype = VT_STRING, cd_index = True, cd_output = True, cd_suffixes = [''st.i1'']\<rparr>,
                  ''st.i1'' \<mapsto> \<lparr>cd_datatype = VT_UINT64, cd_index = True, cd_output = True, cd_suffixes = []\<rparr>]\<rparr>"

definition sample_stat_json :: "nat json" where
  "sample_stat_json = JObject [(''name'', JString ''name''), (''value'', JString ''vr1''), (''op'', JInt 1)]"

lemmas stat_parse_simps = StatTermParse_def raw_stat_term_def parse_stat_prefix_def member_or_null_def query_schema_def typed_stat_term_def
  typed_suffix_def column_desc_def stats_get_column_desc_def Let_def match_op_of_int_def value_text_def
  json_to_DbDataValue_def ToDbDataValue_def table_defs

lemma sample_stat_parse:
  "StatTermParse (sample_where_env ''StatTable.Test.st'' (Some sample_stats) JNull) sample_stat_json =
     Done (Some \<lparr>st_pname = ''name'', st_pop = EQUAL, st_pval = DbString ''vr1'', st_pval2 = DbBlank,
       st_sname = ''st.i1'', st_sop = no_op, st_sval = DbU64 0, st_sval2 = DbBlank\<rparr>)"
  by (simp add: stat_parse_simps sample_stat_json_def sample_stats_def sample_where_env_def)

theorem stat_term_typed_witness:
  "cd_index (stats_get_column_desc sample_stats ''name'') \<and>
   value_of_type (cd_datatype (stats_get_column_desc sample_stats ''st.i1'')) (DbU64 0 :: nat DbDataValue)"
  using stat_term_typed[OF sample_stat_parse, of sample_stats]
  by (simp add: sample_where_env_def sample_stats_def stats_get_column_desc_def blank_column_def)

subsection \<open>The OR terms one by one\<close>

definition node_units :: "'d where_env \<Rightarrow> u8 \<Rightarrow> u8 \<Rightarrow> int \<Rightarrow> 'd json \<Rightarrow> 'd DbQueryUnit list checked" where
  "node_units env session_type is_si direction n =
     bind_checked (elements n) (\<lambda>ts.
     bind_checked (foldl_checked (where_term env direction) new_or_term ts) (or_term_units env session_type is_si direction))"

definition or_node_ok :: "'d json \<Rightarrow> bool" where
  "or_node_ok n \<longleftrightarrow> (case n of JArray ts \<Rightarrow> ts \<noteq> [] | _ \<Rightarrow> False)"

lemma or_node_okD: "or_node_ok n \<Longrightarrow> \<exists>ts. n = JArray ts \<and> ts \<noteq> []"
  by (cases n) (auto simp: or_node_ok_def)

lemma or_node_okI: "\<lbrakk>IsArray n; elements n = Done ts; ts \<noteq> []\<rbrakk> \<Longrightarrow> or_node_ok n"
  by (cases n) (auto simp: or_node_ok_def)

lemma where_or_node_run:
  assumes "where_or_node env st si d w ts = Done w'"
  shows "\<exists>us. node_units env st si d (JArray ts) = Done us \<and> sub_queries w' = sub_queries w @ us"
  using assms by (auto simp: where_or_node_def node_units_def)

lemma where_or_node_runs:
  assumes "node_units env st si d (JArray ts) = Done us"
  shows "\<exists>w'. where_or_node env st si d w ts = Done w' \<and> sub_queries w' = sub_queries w @ us"
proof -
  from assms obtain ot where "foldl_checked (where_term env d) new_or_term ts = Done ot" "or_term_units env st si d ot = Done us"
    by (auto simp: node_units_def)
  then show ?thesis unfolding where_or_node_def by (simp del: bind_checked_Done_iff)
qed

lemma where_or_loop_all:
  "where_or_loop env st si d (-1) i ns w = Done w' \<Longrightarrow>
     list_all or_node_ok ns \<and> (\<exists>uss. map_checked (node_units env st si d) ns = Done uss \<and> sub_queries w' = sub_queries w @ concat uss)"
proof (induction ns arbitrary: i w)
  case (Cons n ns)
  then obtain ts w1 where n: "IsArray n" "elements n = Done ts" "ts \<noteq> []" and w1: "where_or_node env st si d w ts = Done w1"
    and rest: "where_or_loop env st si d (-1) (i + 1) ns w1 = Done w'" by auto
  from n(1,2) have nn: "n = JArray ts" by (cases n) auto
  from where_or_node_run[OF w1] Cons.IH[OF rest] or_node_okI[OF n] nn show ?case by auto
qed simp

lemma where_or_loop_wterms: "where_or_loop env st si d k i ns w = Done w' \<Longrightarrow> wterms w' = wterms w"
  by (induction ns arbitrary: i w) (auto simp: where_or_node_def split: if_splits)

lemma where_or_loop_one:
  assumes "k \<noteq> -1"
  shows "\<lbrakk>list_all or_node_ok ns; map_checked (node_units env st si d) ns = Done uss\<rbrakk> \<Longrightarrow>
     \<exists>w'. where_or_loop env st si d k i ns w = Done w' \<and>
       sub_queries w' = sub_queries w @ (if i \<le> k \<and> k < i + int (length ns) then uss ! nat (k - i) else [])"
proof (induction ns arbitrary: i w uss)
  case (Cons n ns)
  then obtain ts us uss' where n: "n = JArray ts" "ts \<noteq> []" and us: "node_units env st si d n = Done us"
    and uss: "uss = us # uss'" "map_checked (node_units env st si d) ns = Done uss'"
    using or_node_okD[of n] by auto
  from Cons.prems(1) have ok: "list_all or_node_ok ns" by simp
  show ?case
  proof (cases "k = i")
    case True
    from where_or_node_runs[OF us[unfolded n(1)], of w] obtain w1 where
      w1: "where_or_node env st si d w ts = Done w1" "sub_queries w1 = sub_queries w @ us" by auto
    from Cons.IH[OF ok uss(2), of "i + 1" w1] w1 n uss(1) True show ?thesis by auto
  next
    case False
    have "uss ! nat (k - i) = uss' ! nat (k - (i + 1))" if "i < k"
    proof -
      have "nat (k - i) = Suc (nat (k - (i + 1)))" using that by simp
      then show ?thesis using uss(1) by simp
    qed
    with Cons.IH[OF ok uss(2), of "i + 1" w] n assms False show ?thesis by auto
  qed
qed auto

text \<open>
  The OR terms of a clause are executed separately, one run per term. Whenever the clause is accepted
  when the query is prepared, every single run accepts its term, and the database queries of the runs,
  one after the other, are exactly those of the whole clause.
\<close>

theorem or_terms_cover_clause:
  assumes "new_WhereQuery env s st si d (-1) q = Done w"
  shows "\<exists>ws. length ws = wterms w \<and> (\<forall>i < wterms w. new_WhereQuery env s st si d (int i) q = Done (ws ! i)) \<and>
    concat (map sub_queries ws) = sub_queries w"
proof (cases "s = ''''")
  case True
  with assms obtain us where us: "where_star_units (we_table env) (word_of_int st) (word_of_int si) = Done us" "sub_queries w = us" "wterms w = 1"
    by (auto simp: new_WhereQuery_def Let_def)
  then show ?thesis using True by (intro exI[of _ "[w\<lparr>wterms := 0, w_filter_list := [], additional_select := [], w_filter_qe_logs := q\<rparr>]"])
    (simp add: new_WhereQuery_def Let_def)
next
  case False
  let ?w = "\<lparr>sub_queries = [], wterms = 0, w_filter_list = [], additional_select = [], w_filter_qe_logs = q\<rparr>"
  let ?doc = "we_parse env (''{ '' @ [CHR 0x22] @ ''where'' @ [CHR 0x22] @ '' : '' @ s @ '' }'')"
  from assms False obtain v ns where v: "member ?doc ''where'' = Done v" "IsArray v" "elements v = Done ns"
    and run: "where_or_loop env (word_of_int st) (word_of_int si) d (-1) 0 ns (?w\<lparr>wterms := length ns\<rparr>) = Done w"
    by (auto simp: new_WhereQuery_def Let_def)
  have wt: "wterms w = length ns" using where_or_loop_wterms[OF run] by simp
  from where_or_loop_all[OF run] obtain uss where ok: "list_all or_node_ok ns"
    and uss: "map_checked (node_units env (word_of_int st) (word_of_int si) d) ns = Done uss" and w: "sub_queries w = concat uss" by auto
  have len: "length uss = length ns" using map_checked_length[OF uss] .
  have "\<exists>w'. new_WhereQuery env s st si d (int i) q = Done w' \<and> sub_queries w' = uss ! i" if "i < length ns" for i
    using where_or_loop_one[OF _ ok uss, of "int i" 0 ?w] that v False by (auto simp: new_WhereQuery_def Let_def)
  then obtain f where f: "\<And>i. i < length ns \<Longrightarrow> new_WhereQuery env s st si d (int i) q = Done (f i) \<and> sub_queries (f i) = uss ! i"
    by metis
  have "map sub_queries (map f [0..<length ns]) = uss" using f len by (intro nth_equalityI) simp_all
  then show ?thesis using f wt w by (intro exI[of _ "map f [0..<length ns]"]) simp
qed

definition sample_clause :: "nat json" where
  "sample_clause = JArray [JArray [JObject [(''name'', JString ''Source''), (''value'', JString ''a''), (''op'', JInt 1)]],
     JArray [JObject [(''name'', JString ''Messagetype''), (''value'', JString ''b''), (''op'', JInt 7)]]]"

lemmas where_eval_simps = new_WhereQuery_def where_or_node_def where_term_def message_term_def add_where_def
  populate_where_vec_def query_column_to_cass_column_def message_index_columns_def or_term_units_def
  handle_object_type_value_def match_op_of_int_def value_text_def get_gendb_op_from_op_def Let_def

lemma sample_clause_prepared:
  "new_WhereQuery (sample_where_env ''MessageTable'' None sample_clause) ''[]'' 0 0 1 (-1) True =
     Done \<lparr>sub_queries = [new_message_unit [(''column3'', DB_EQ, DbString ''a'')], new_message_unit [(''column4'', DB_LIKE, DbString ''b%'')]],
       wterms = 2, w_filter_list = [], additional_select = [], w_filter_qe_logs = True\<rparr>"
  by (simp add: where_eval_simps sample_where_env_def sample_clause_def table_defs new_or_term_def del: bind_checked_Done_iff)

theorem or_terms_cover_clause_witness:
  "\<exists>ws. length ws = 2 \<and>
     (\<forall>i < 2. new_WhereQuery (sample_where_env ''MessageTable'' None sample_clause) ''[]'' 0 0 1 (int i) True = Done (ws ! i)) \<and>
     concat (map sub_queries ws) =
       [new_message_unit [(''column3'', DB_EQ, DbString ''a'')], new_message_unit [(''column4'', DB_LIKE, DbString ''b%'')]]"
  using or_terms_cover_clause[OF sample_clause_prepared] by simp

subsection \<open>Object tables\<close>

definition object_columns :: "string list" where
  "object_columns = [''column6'', ''column7'', ''column8'', ''column9'', ''column10'', ''column11'']"

lemma object_type_columns_eq:
  "object_type_columns = [''ObjectTypeName2'', ''ObjectTypeName3'', ''ObjectTypeName4'', ''ObjectTypeName5'', ''ObjectTypeName6'']"
  by (simp add: object_type_columns_def upt_rec_numeral show_nat.simps) code_simp

lemma takeWhile_before: "\<forall>x \<in> set as. P x \<Longrightarrow> \<not> P b \<Longrightarrow> length (takeWhile P (as @ b # bs)) = length as"
  by simp

text \<open>
  Over an object table the units of one OR term ask for the object in any of the six columns that may
  hold it: some unit's conditions hold of a row if and only if all other conditions of the term hold and
  the condition on the object holds for one of the columns. Without an object in the clause the condition
  is the prefix \<open>table:\<close>.
\<close>

theorem object_units_any_column:
  assumes "is_object_table_query table"
    and "(if specified then wv else wv @ [(''column6'', DB_LIKE, DbString (table @ '':%''))]) = as @ (''column6'', op, v) # bs"
    and "''column6'' \<notin> fst ` set as"
  shows "\<exists>wv1 us. handle_object_type_value table specified wv = Done (wv1, us) \<and>
    ((\<exists>q \<in> set (new_message_unit wv1 # us). \<forall>c \<in> set (where_vec q). P c) \<longleftrightarrow>
     (\<forall>c \<in> set as \<union> set bs. P c) \<and> (\<exists>col \<in> set object_columns. P (col, op, v)))"
proof -
  let ?wv = "as @ (''column6'', op, v) # bs"
  have nm: "\<not> is_message_table_query table" using assms(1) by (simp add: table_defs)
  have added: "(if specified then Done wv else add_where table ''ObjectTypeName1'' (get_gendb_op_from_op PREFIX) (table @ '':'') wv) = Done ?wv"
    using assms by (simp add: add_where_def populate_where_vec_def query_column_to_cass_column_def message_index_columns_def
        get_gendb_op_from_op_def Let_def del: bind_checked_Done_iff split: if_splits)
  have idx: "length (takeWhile (\<lambda>w. fst w \<noteq> ''column6'') ?wv) = length as"
    by (rule takeWhile_before) (use assms(3) in \<open>force simp: image_iff\<close>)+
  define us where "us = map (\<lambda>col. new_message_unit (as @ (col, op, v) # bs) :: 'a DbQueryUnit) (tl object_columns)"
  have "handle_object_type_value table specified wv = Done (?wv, us)"
    unfolding handle_object_type_value_def added
    using assms(1) idx
    by (simp add: query_column_to_cass_column_def message_index_columns_def object_type_columns_eq us_def object_columns_def
        Let_def del: bind_checked_Done_iff)
  moreover have "(\<exists>q \<in> set (new_message_unit ?wv # us). \<forall>c \<in> set (where_vec q). P c) \<longleftrightarrow>
     (\<forall>c \<in> set as \<union> set bs. P c) \<and> (\<exists>col \<in> set object_columns. P (col, op, v))"
    by (auto simp: us_def object_columns_def new_message_unit_def)
  ultimately show ?thesis by blast
qed

theorem object_units_any_column_witness:
  "\<exists>wv1 us. handle_object_type_value ''ObjectVNTable'' False [(''column3'', DB_EQ, DbString ''h'' :: nat DbDataValue)] = Done (wv1, us) \<and>
    ((\<exists>q \<in> set (new_message_unit wv1 # us). \<forall>c \<in> set (where_vec q). fst c \<in> {''column3'', ''column8''}) \<longleftrightarrow>
     (\<forall>c \<in> set [(''column3'', DB_EQ, DbString ''h'')] \<union> set ([] :: nat where_info_vec). fst c \<in> {''column3'', ''column8''}) \<and>
     (\<exists>col \<in> set object_columns. col \<in> {''column3'', ''column8''}))"
  using object_units_any_column[of "''ObjectVNTable''" False "[(''column3'', DB_EQ, DbString ''h'')]"
      "[(''column3'', DB_EQ, DbString ''h'')]" DB_LIKE "DbString ''ObjectVNTable:%''" "[] :: nat where_info_vec"
      "\<lambda>c. fst c \<in> {''column3'', ''column8''}"]
  by (simp add: table_defs)

subsection \<open>Starting the sub-queries\<close>

text \<open>\<open>WhereQuery::process_query\<close>: the sub-queries are started in turn, up to the first that fails;
  \<open>starts\<close> are the results of their \<open>process_query\<close>. The result is the status and how many were
  started.\<close>

fun start_sub_queries :: "query_status_t \<Rightarrow> query_status_t list \<Rightarrow> query_status_t \<times> nat" where
  "start_sub_queries st [] = (st, 0)"
| "start_sub_queries st (x # xs) =
     (if x = QUERY_FAILURE then (x, 1) else let (r, n) = start_sub_queries x xs in (r, Suc n))"

definition where_process_query :: "qe_errno option \<Rightarrow> string \<Rightarrow> query_status_t list \<Rightarrow> query_status_t \<times> nat" where
  "where_process_query status_details table starts =
     (if status_details \<noteq> None then (QUERY_FAILURE, 0)
      else if table = OBJECT_VALUE_TABLE then (QUERY_SUCCESS, 0)
      else start_sub_queries QUERY_PROCESSING_NOT_STARTED starts)"

lemma start_sub_queries_all:
  "QUERY_FAILURE \<notin> set starts \<Longrightarrow> snd (start_sub_queries st starts) = length starts \<and>
     (st \<noteq> QUERY_FAILURE \<longrightarrow> fst (start_sub_queries st starts) \<noteq> QUERY_FAILURE)"
  by (induction starts arbitrary: st) (simp, force simp: split_beta Let_def)

lemma where_process_query_success:
  assumes "fst (where_process_query None table starts) \<noteq> QUERY_FAILURE" "table \<noteq> OBJECT_VALUE_TABLE"
  shows "snd (where_process_query None table starts) = length starts"
proof -
  have "QUERY_FAILURE \<in> set starts \<Longrightarrow> fst (start_sub_queries st starts) = QUERY_FAILURE" for st
    by (induction starts arbitrary: st) (simp, force simp: split_beta Let_def)
  then show ?thesis using assms start_sub_queries_all by (auto simp: where_process_query_def)
qed

text \<open>A range of addresses in a flow clause: the database condition is an equality with the lower end.\<close>

lemma flow_ip_range_is_equality:
  "is_flow_query table \<Longrightarrow> flow_cond table ''local_ip'' (Some (IN_RANGE, v)) [] = Done (if v = ''%'' then [] else [(''column20'', DB_EQ, DbString v)])"
  by (auto simp: flow_cond_def comparator_def add_where_def populate_where_vec_def query_column_to_cass_column_def
      session_index_columns_def table_defs simp del: bind_checked_Done_iff)

end
