(* ===== verification/Written_Read.thy ===== *)
theory Written_Read
  imports Db_Handler Select_Query Where_Query
begin

text \<open>
  The collector and the query engine together: what \<open>db_handler.cc\<close> writes is what \<open>db_query.cc\<close>
  asks for and \<open>select.cc\<close> returns. Between them is the column store. What the theorems assume of it is
  the behaviour \<open>DbQueryUnit::message_table_query_get_row\<close> documents: the clustering columns of a row
  come back as its name and the others in ascending order of their column names.
\<close>

section \<open>Messages\<close>

text \<open>The schema of the message table in \<open>viz.sandesh\<close>.\<close>

definition message_column_names :: "(string \<times> string) list" where
  "message_column_names =
     [(''key'', ''MessageTS''), (''key2'', ''Partition''), (''column1'', ''T1''), (''column2'', ''UuidKey''), (''column3'', ''Source''),
      (''column4'', ''Messagetype''), (''column5'', ''ModuleId''), (''column6'', ''ObjectTypeName1''), (''column7'', ''ObjectTypeName2''),
      (''column8'', ''ObjectTypeName3''), (''column9'', ''ObjectTypeName4''), (''column10'', ''ObjectTypeName5''),
      (''column11'', ''ObjectTypeName6''), (''column12'', ''IPAddress''), (''column13'', ''Pid''), (''column14'', ''Category''),
      (''column15'', ''Level''), (''column16'', ''NodeType''), (''column17'', ''InstanceId''), (''column18'', ''SequenceNum''),
      (''column19'', ''Type''), (''value'', ''Xmlmessage'')]"

definition message_schema :: msg_schema where
  "message_schema = \<lparr>columns = map fst message_column_names,
     index_types = replicate 4 False @ replicate 9 True @ replicate 9 False,
     query_column_to_column = map_of (map (\<lambda>(c, q). (q, c)) message_column_names),
     column_to_query_column = map_of message_column_names\<rparr>"

text \<open>What the store returns for the cells of a row: in ascending order of the column names, with the
  integers as the driver delivers them.\<close>

definition ascending_by_name :: "string list \<Rightarrow> 'v list \<Rightarrow> 'v list" where
  "ascending_by_name names cells = map snd (sort_key fst (zip names cells))"

definition delivers :: "('d DbDataValue \<Rightarrow> 'd DbDataValue) \<Rightarrow> string list \<Rightarrow> nat \<Rightarrow> 'd ColList \<Rightarrow> 'd column \<Rightarrow> bool" where
  "delivers fmt names n cl col \<longleftrightarrow>
     fst col = map fmt (take n (cl_name cl)) \<and>
     snd col = ascending_by_name (drop n names) (map fmt (drop n (cl_name cl) @ cl_value cl))"

text \<open>\<open>message_table_order\<close> undoes the order of the column names.\<close>

lemma sort_message_names:
  "sort (map fst (drop 4 message_column_names)) = map ((!) (map fst (drop 4 message_column_names))) [7..<17] @ map ((!) (map fst (drop 4 message_column_names))) [0..<7] @ [''value'']"
  by code_simp

lemma sort_key_zip:
  assumes "length names = length cells" "distinct names" "sort names = map ((!) names) p" "distinct p" "set p = {..<length names}"
  shows "map snd (sort_key fst (zip names cells)) = map ((!) cells) p"
proof -
  have len: "length p = length names" using assms(4,5) distinct_card[of p] by simp
  let ?ys = "map (\<lambda>i. (names ! i, cells ! i)) p"
  have "distinct ?ys"
    using assms by (auto simp: distinct_map inj_on_def nth_eq_iff_index_eq)
  moreover have "distinct (zip names cells)" using assms(2) by (rule distinct_zipI1)
  moreover have "set ?ys = set (zip names cells)"
    using assms(1,5) by (auto simp: set_zip)
  ultimately have "mset ?ys = mset (zip names cells)" using set_eq_iff_mset_eq_distinct by blast
  moreover have "map fst ?ys = sort names" using assms(3) by (simp add: comp_def)
  then have "sorted (map fst ?ys)" by (metis sorted_sort)
  moreover have "inj_on fst (set (zip names cells))"
    using assms(2) by (auto simp: inj_on_def set_zip nth_eq_iff_index_eq)
  ultimately have "sort_key fst (zip names cells) = ?ys"
    by (intro sort_key_inj_key_eq) simp_all
  then show ?thesis by (simp add: comp_def)
qed

lemma map_outcome_vec_at:
  "\<forall>i \<in> set is. i < length xs \<Longrightarrow> map_outcome (vec_at xs) is = Ret (map ((!) xs) is)"
  by (induction "is") (simp_all add: vec_at_def)

definition delivery_order :: "nat list" where
  "delivery_order = [7..<17] @ [0..<7] @ [17]"

lemma delivery_length: "length delivery_order = 18"
  by (simp add: delivery_order_def)

lemma delivery_set: "set delivery_order = {..<18}"
proof
  show "{..<18} \<subseteq> set delivery_order"
  proof
    fix x :: nat assume "x \<in> {..<18}"
    then consider "x < 7" | "7 \<le> x" "x < 17" | "x = 17" by fastforce
    then show "x \<in> set delivery_order" by cases (auto simp: delivery_order_def simp del: upt_Suc upt_rec_numeral)
  qed
qed (auto simp: delivery_order_def)

lemma ascending_message_cells:
  assumes "length cells = 18"
  shows "ascending_by_name (drop 2 (map fst (drop 2 message_column_names))) cells = map ((!) cells) delivery_order"
proof -
  let ?names = "map fst (drop 4 message_column_names)"
  have names: "drop 2 (map fst (drop 2 message_column_names)) = ?names" by (simp add: message_column_names_def)
  have sorted: "sort ?names = map ((!) ?names) delivery_order"
    unfolding sort_message_names delivery_order_def by (simp add: message_column_names_def)
  have "distinct ?names" "length ?names = 18" by (simp_all add: message_column_names_def)
  moreover have "distinct delivery_order" by (simp add: delivery_order_def)
  ultimately show ?thesis unfolding names ascending_by_name_def using assms sorted delivery_set
    by (intro sort_key_zip) simp_all
qed

lemma delivery_then_table_order: "map ((!) delivery_order) message_table_order = [0..<18]"
  by code_simp

lemma message_row_cells:
  assumes "delivers fmt (map fst (drop 2 message_column_names)) 2 cl col"
    and "length (cl_name cl) = 19" "length (cl_value cl) = 1" "length key = 2"
  shows "message_table_query_get_row key col = Ret (key @ map fmt (cl_name cl @ cl_value cl))"
proof -
  let ?cells = "map fmt (drop 2 (cl_name cl) @ cl_value cl)"
  have cells: "length ?cells = 18" using assms(2,3) by simp
  have fst_col: "fst col = map fmt (take 2 (cl_name cl))" and snd_col: "snd col = map ((!) ?cells) delivery_order"
    using assms(1) ascending_message_cells[OF cells] by (simp_all add: delivers_def del: map_append)
  have len: "length (snd col) = 18" unfolding snd_col by (simp add: delivery_length)
  have order: "\<forall>i \<in> set message_table_order. i < 18" by (simp add: message_table_order_def)
  have "map ((!) (snd col)) message_table_order = map ((!) ?cells) (map ((!) delivery_order) message_table_order)"
    unfolding snd_col using order delivery_length by simp
  also have "\<dots> = ?cells" unfolding delivery_then_table_order using cells map_nth[of ?cells] by (simp del: map_append)
  finally have "map_outcome (vec_at (snd col)) message_table_order = Ret ?cells"
    using map_outcome_vec_at[of message_table_order "snd col"] order len by simp
  moreover have "map_outcome (vec_at key) [0, 1] = Ret key"
    using assms(4) map_outcome_vec_at[of "[0, 1]" key] by (cases key; cases "tl key") auto
  moreover have "length (fst col) = 2" using fst_col assms(2) by simp
  then have "map_outcome (vec_at (fst col)) [0, 1] = Ret (fst col)"
    using map_outcome_vec_at[of "[0, 1]" "fst col"] by (cases "fst col"; cases "tl (fst col)") auto
  moreover have "fst col @ ?cells = map fmt (cl_name cl @ cl_value cl)"
    unfolding fst_col map_append[symmetric] append.assoc[symmetric] append_take_drop_id ..
  ultimately show ?thesis by (simp add: message_table_query_get_row_def del: map_append map_outcome.simps)
qed

lemma length_message_columns: "length (message_columns env sn names vmsg) = 19"
  by (simp add: message_columns_def object_name_columns_def Let_def min_def)

lemma message_keys:
  "set (keys_of_t2 mq (new_message_unit wv) t2) = {[DbU32 t2, DbU8 p] | p. p \<in> set partitions}"
  if "mq_table mq = MESSAGE_TABLE"
  using that by (auto simp: keys_of_t2_def new_message_unit_def new_DbQueryUnit_def is_stat_table_query_def is_flow_query_def
      is_session_query_def starts_with_def Let_def)

lemma message_row_read:
  assumes "mq_table mq = MESSAGE_TABLE" "time_in_range mq ts" "ts < 2 ^ 55"
    and "delivers fmt (map fst (drop 2 message_column_names)) 2 cl col"
    and "length (cl_name cl) = 19" "length (cl_value cl) = 1" "cl_rowkey cl = [DbU32 (t2_of ts), DbU8 p]"
    and "cl_name cl ! 0 = DbU32 (t1_of ts)" "fmt (DbU32 (t1_of ts)) = DbU32 (t1_of ts)"
  shows "cb mq (new_message_unit wv) (cl_rowkey cl) (Some [col]) =
    Ret (False, [\<lparr>timestamp = ts, info = cl_rowkey cl @ map fmt (cl_name cl @ cl_value cl)\<rparr>])"
proof -
  let ?q = "new_message_unit wv"
  have tables: "\<not> is_stat_table_query (mq_table mq)" "\<not> is_session_query (mq_table mq)" "\<not> is_flow_query (mq_table mq)"
    using assms(1) by (simp_all add: is_stat_table_query_def is_flow_query_def is_session_query_def starts_with_def)
  have q: "t_only_col ?q" by (simp add: new_message_unit_def)
  have row: "message_table_query_get_row (cl_rowkey cl) col = Ret (cl_rowkey cl @ map fmt (cl_name cl @ cl_value cl))"
    using message_row_cells[OF assms(4,5,6)] assms(7) by simp
  have names: "length (fst col) = 2" "fst col ! 0 = DbU32 (t1_of ts)"
    using assms(4,5,8,9) by (simp_all add: delivers_def)
  then have "column_t1 mq ?q col = Ret (t1_of ts)"
    using tables q by (simp add: column_t1_def vec_at_end_def get_u32_def)
  moreover have "column_info mq ?q (cl_rowkey cl) 0 0 col = Ret (cl_rowkey cl @ map fmt (cl_name cl @ cl_value cl))"
    using tables q row by (simp add: column_info_def)
  ultimately have "add_column mq ?q (cl_rowkey cl) (t2_of ts) 0 0 [] col =
      Ret [\<lparr>timestamp = ts, info = cl_rowkey cl @ map fmt (cl_name cl @ cl_value cl)\<rparr>]"
    using assms(2) timestamp_from_parts[OF assms(3)] by (simp add: add_column_def)
  then show ?thesis using tables assms(7) by (simp add: cb_def vec_at_def get_u32_def)
qed

subsection \<open>From the cells to the row of the answer\<close>

definition cell_value :: "('d DbDataValue \<Rightarrow> string) \<Rightarrow> nat \<Rightarrow> 'd DbDataValue \<Rightarrow> 'd DbDataValue" where
  "cell_value to_string i v =
     (if v = DbBlank \<or> i < 4 \<or> 13 \<le> i then v
      else if 7 \<le> i then DbString (strip_to_colon (strip_to_colon (to_string v)))
      else DbString (strip_to_colon (to_string v)))"

lemma message_schema_lookup:
  assumes "i < 22"
  shows "MsgTableIndexToColumn message_schema i = Ret (fst (message_column_names ! i))"
    "MsgTableColumnToQueryColumn message_schema (fst (message_column_names ! i)) = Ret (snd (message_column_names ! i))"
    "MsgTableIndexToIndexType message_schema i = Ret (4 \<le> i \<and> i < 13)"
    "starts_with (snd (message_column_names ! i)) ''ObjectTypeName'' \<longleftrightarrow> 7 \<le> i \<and> i < 13"
proof -
  have len: "length message_column_names = 22" by (simp add: message_column_names_def)
  have dist: "distinct (map fst message_column_names)" by (simp add: message_column_names_def)
  show "MsgTableIndexToColumn message_schema i = Ret (fst (message_column_names ! i))"
    using assms len by (simp add: MsgTableIndexToColumn_def message_schema_def)
  show "MsgTableColumnToQueryColumn message_schema (fst (message_column_names ! i)) = Ret (snd (message_column_names ! i))"
    using map_of_is_SomeI[OF dist, of "fst (message_column_names ! i)" "snd (message_column_names ! i)"] assms len
    by (simp add: MsgTableColumnToQueryColumn_def message_schema_def)
  show "MsgTableIndexToIndexType message_schema i = Ret (4 \<le> i \<and> i < 13)"
    using assms by (auto simp: MsgTableIndexToIndexType_def message_schema_def nth_append)
  have all: "\<forall>j \<in> set [0..<22]. starts_with (snd (message_column_names ! j)) ''ObjectTypeName'' \<longleftrightarrow> 7 \<le> j \<and> j < 13"
    by code_simp
  show "starts_with (snd (message_column_names ! i)) ''ObjectTypeName'' \<longleftrightarrow> 7 \<le> i \<and> i < 13"
    using all assms by simp
qed

lemma get_message_column_value:
  assumes "i < 22" "length cells = 22"
  shows "\<exists>oid'. get_query_column_value message_schema to_string table cells i oid =
    Ret (snd (message_column_names ! i), cell_value to_string i (cells ! i), oid')"
  using assms by (auto simp: get_query_column_value_def message_schema_lookup vec_at_def cell_value_def Let_def not_less)

lemma query_columns_distinct: "i < 22 \<Longrightarrow> j < 22 \<Longrightarrow> snd (message_column_names ! i) = snd (message_column_names ! j) \<longleftrightarrow> i = j"
proof -
  assume "i < 22" "j < 22"
  moreover have "distinct (map snd message_column_names)" "length message_column_names = 22" by (simp_all add: message_column_names_def)
  ultimately show ?thesis using nth_eq_iff_index_eq[of "map snd message_column_names" i j] by simp
qed

lemma query_column_MessageTS: "i < 22 \<Longrightarrow> snd (message_column_names ! i) = ''MessageTS'' \<longleftrightarrow> i = 0"
  using query_columns_distinct[of i 0] by (simp add: message_column_names_def)

text \<open>Every cell of the row ends up under the query column of its position.\<close>

lemma message_columns_collected:
  assumes "length (info r) = 22" "n \<le> 22"
  shows "\<exists>m oid. foldl_outcome (add_result_column message_schema to_string table r) (Map.empty, []) [0..<n] = Ret (m, oid) \<and>
    dom m = (\<lambda>i. snd (message_column_names ! i)) ` {..<n} \<and>
    (\<forall>i<n. m (snd (message_column_names ! i)) = Some (if i = 0 then DbU64 (timestamp r) else cell_value to_string i (info r ! i)))"
  using assms(2)
proof (induction n)
  case (Suc n)
  then obtain m oid where IH: "foldl_outcome (add_result_column message_schema to_string table r) (Map.empty, []) [0..<n] = Ret (m, oid)"
    "dom m = (\<lambda>i. snd (message_column_names ! i)) ` {..<n}"
    "\<forall>i<n. m (snd (message_column_names ! i)) = Some (if i = 0 then DbU64 (timestamp r) else cell_value to_string i (info r ! i))"
    by auto
  let ?qc = "snd (message_column_names ! n)"
  have fresh: "m ?qc = None"
  proof -
    have "?qc \<noteq> snd (message_column_names ! i)" if "i < n" for i
      using Suc.prems query_columns_distinct[of n i] that by simp
    then have "?qc \<notin> dom m" unfolding IH(2) by blast
    then show ?thesis by blast
  qed
  obtain oid' where g: "get_query_column_value message_schema to_string table (info r) n oid = Ret (?qc, cell_value to_string n (info r ! n), oid')"
    using get_message_column_value[of n "info r"] assms(1) Suc.prems by (metis Suc_le_lessD)
  have "add_result_column message_schema to_string table r (m, oid) n =
      Ret (m(?qc \<mapsto> if n = 0 then DbU64 (timestamp r) else cell_value to_string n (info r ! n)), oid')"
    using g fresh query_column_MessageTS[of n] Suc.prems by (simp add: add_result_column_def Let_def)
  then have run: "foldl_outcome (add_result_column message_schema to_string table r) (Map.empty, []) [0..<Suc n] =
      Ret (m(?qc \<mapsto> if n = 0 then DbU64 (timestamp r) else cell_value to_string n (info r ! n)), oid')"
    using IH(1) by (simp add: foldl_outcome_append)
  have "(m(?qc \<mapsto> v)) (snd (message_column_names ! i)) = (if i = n then Some v else m (snd (message_column_names ! i)))" if "i < Suc n" for i v
    using query_columns_distinct[of i n] that Suc.prems by auto
  moreover have "dom (m(?qc \<mapsto> v)) = (\<lambda>i. snd (message_column_names ! i)) ` {..<Suc n}" for v
    by (simp add: IH(2) lessThan_Suc)
  ultimately show ?case using run IH(3)
    by (intro exI[of _ "m(?qc \<mapsto> if n = 0 then DbU64 (timestamp r) else cell_value to_string n (info r ! n))"] exI[of _ oid'])
      (simp del: fun_upd_apply)
qed simp

lemma selected_plain_columns:
  assumes "\<not> is_object_table_query table" "\<forall>f \<in> set fs. f \<noteq> ''UuidKey'' \<and> m f = Some (v f)" "\<forall>f \<in> set fs. c f = None \<or> c f = Some (to_string (v f))"
  shows "\<exists>row. select_columns x to_string table sel m oid fs c = Ret (Some row) \<and> (\<forall>f \<in> set fs. row f = Some (to_string (v f))) \<and>
    (\<forall>f. c f \<noteq> None \<longrightarrow> row f = c f)"
  using assms(2,3)
proof (induction fs arbitrary: c)
  case (Cons f fs)
  let ?c = "if c f = None then c(f \<mapsto> to_string (v f)) else c"
  have f: "m f = Some (v f)" "f \<noteq> ''UuidKey''" "c f = None \<or> c f = Some (to_string (v f))" using Cons.prems by auto
  have "\<forall>g \<in> set fs. ?c g = None \<or> ?c g = Some (to_string (v g))" using Cons.prems(2) f(3) by auto
  from Cons.IH[OF _ this] Cons.prems(1) obtain row where
    row: "select_columns x to_string table sel m oid fs ?c = Ret (Some row)" "\<forall>g \<in> set fs. row g = Some (to_string (v g))"
      "\<forall>g. ?c g \<noteq> None \<longrightarrow> row g = ?c g" by auto
  have "row f = Some (to_string (v f))" using row(3) f(3) by (metis fun_upd_same option.distinct(1))
  moreover have "c g \<noteq> None \<Longrightarrow> row g = c g" for g using row(3) by (cases "c f = None") (force split: if_splits)+
  ultimately show ?case using row(1,2) f by (auto simp: select_columns.simps simp del: fun_upd_apply)
qed simp

text \<open>The columns of a message the answer repeats as they were sent.\<close>

definition sent_columns :: "VizMsg \<Rightarrow> (string \<times> string) list" where
  "sent_columns vmsg =
     [(''Source'', hdr_Source (msg_header vmsg)), (''Messagetype'', msg_type vmsg), (''ModuleId'', hdr_Module (msg_header vmsg)),
      (''Category'', hdr_Category (msg_header vmsg)), (''NodeType'', hdr_NodeType (msg_header vmsg)),
      (''InstanceId'', hdr_InstanceId (msg_header vmsg)), (''Xmlmessage'', msg_text vmsg)]"

lemma length_object_name_columns [simp]: "length (object_name_columns t2 names) = 6"
  by (simp add: object_name_columns_def min_def)

lemma sent_cells:
  assumes "\<forall>n. fmt (DbU32 n) = DbU32 n" "\<forall>s. fmt (DbString s) = DbString s" "\<forall>s. to_string (DbString s) = s"
    and "cells = cl_rowkey (message_write env sn vmsg names h) @
           map fmt (cl_name (message_write env sn vmsg names h) @ cl_value (message_write env sn vmsg names h))"
  shows "length cells = 22" "\<forall>(f, s) \<in> set (sent_columns vmsg). \<exists>i. 0 < i \<and> i < 22 \<and> snd (message_column_names ! i) = f \<and>
    cell_value to_string i (cells ! i) = DbString s"
proof -
  let ?t2 = "t2_of (hdr_Timestamp (msg_header vmsg))"
  show "length cells = 22" unfolding assms(4) by (simp add: message_write_def length_message_columns)
  have "strip_to_colon (PrependT2 t s) = s" for t s
    using index_value_roundtrip[of "unat t" s] by (simp add: PrependT2_def)
  then have cells: "cell_value to_string 4 (cells ! 4) = DbString (hdr_Source (msg_header vmsg))"
    "cell_value to_string 5 (cells ! 5) = DbString (msg_type vmsg)"
    "cell_value to_string 6 (cells ! 6) = DbString (hdr_Module (msg_header vmsg))"
    "cell_value to_string 15 (cells ! 15) = DbString (hdr_Category (msg_header vmsg))"
    "cell_value to_string 17 (cells ! 17) = DbString (hdr_NodeType (msg_header vmsg))"
    "cell_value to_string 18 (cells ! 18) = DbString (hdr_InstanceId (msg_header vmsg))"
    "cell_value to_string 21 (cells ! 21) = DbString (msg_text vmsg)"
    unfolding assms(4) using assms(1-3)
    by (simp_all add: message_write_def message_columns_def cell_value_def Let_def nth_append)
  have names: "snd (message_column_names ! 4) = ''Source''" "snd (message_column_names ! 5) = ''Messagetype''"
    "snd (message_column_names ! 6) = ''ModuleId''" "snd (message_column_names ! 15) = ''Category''" "snd (message_column_names ! 17) = ''NodeType''"
    "snd (message_column_names ! 18) = ''InstanceId''" "snd (message_column_names ! 21) = ''Xmlmessage''"
    by (simp_all add: message_column_names_def)
  have found: "\<exists>i. 0 < i \<and> i < 22 \<and> snd (message_column_names ! i) = f \<and> cell_value to_string i (cells ! i) = DbString s"
    if "0 < i" "i < 22" "snd (message_column_names ! i) = f" "cell_value to_string i (cells ! i) = DbString s" for i f s
    using that by blast
  show "\<forall>(f, s) \<in> set (sent_columns vmsg). \<exists>i. 0 < i \<and> i < 22 \<and> snd (message_column_names ! i) = f \<and>
    cell_value to_string i (cells ! i) = DbString s"
    unfolding sent_columns_def using found[OF _ _ names(1) cells(1)] found[OF _ _ names(2) cells(2)] found[OF _ _ names(3) cells(3)]
      found[OF _ _ names(4) cells(4)] found[OF _ _ names(5) cells(5)] found[OF _ _ names(6) cells(6)] found[OF _ _ names(7) cells(7)] by simp
qed

text \<open>
  C1: a message the collector accepts is returned by a message query over its time. The row it writes lies
  under one of the keys the query asks for; read back by the store it gives one unit with the message's
  timestamp; and the row of the answer has the source, type, module, category, node type, instance and text
  exactly as they were sent. The other rows the insertion writes are field names.\<close>

theorem message_sent_is_returned:
  assumes "AllowMessageTableInsert h (msg_header vmsg)" and "gen_partition_no env (partitions_drawn h) \<in> set partitions"
    and "mq_table mq = MESSAGE_TABLE" and "mq_end_time mq < 2 ^ 55 - 2 ^ 23" and "time_in_range mq (hdr_Timestamp (msg_header vmsg))"
    and fmt: "\<forall>n. fmt (DbU32 n) = DbU32 n" "\<forall>s. fmt (DbString s) = DbString s" "\<forall>s. to_string (DbString s) = s"
    and "delivers fmt (map fst (drop 2 message_column_names)) 2 (message_write env sn vmsg names h) col"
  shows "\<exists>more keys unit row.
    written (MessageTableInsert env sn vmsg names h) = written h @ message_write env sn vmsg names h # more \<and> list_all stats_row more \<and>
    populate_row_keys mq (new_message_unit wv) = Some (set_column_range mq (new_message_unit wv), keys) \<and>
    cl_rowkey (message_write env sn vmsg names h) \<in> set keys \<and>
    cb mq (new_message_unit wv) (cl_rowkey (message_write env sn vmsg names h)) (Some [col]) = Ret (False, [unit]) \<and>
    timestamp unit = hdr_Timestamp (msg_header vmsg) \<and>
    select_message_row x message_schema to_string MESSAGE_TABLE (map fst (sent_columns vmsg)) unit = Ret (Some row) \<and>
    (\<forall>(f, s) \<in> set (sent_columns vmsg). row f = Some s)"
proof -
  let ?ts = "hdr_Timestamp (msg_header vmsg)" and ?cl = "message_write env sn vmsg names h"
  let ?cells = "cl_rowkey ?cl @ map fmt (cl_name ?cl @ cl_value ?cl)"
  let ?unit = "\<lparr>timestamp = ?ts, info = ?cells\<rparr>"
  have small: "?ts < 2 ^ 55" using assms(4,5) by (auto simp: time_in_range_def word_less_nat_alt word_le_nat_alt not_less)
  obtain more where more: "written (MessageTableInsert env sn vmsg names h) = written h @ ?cl # more" "list_all stats_row more"
    using MessageTableInsert_writes[OF assms(1)] by blast
  from populate_row_keys_set[OF assms(4), of "new_message_unit wv"] obtain keys where
    keys: "populate_row_keys mq (new_message_unit wv) = Some (set_column_range mq (new_message_unit wv), keys)"
    and all: "\<forall>ts. time_in_range mq ts \<longrightarrow> set (keys_of_t2 mq (new_message_unit wv) (t2_of ts)) \<subseteq> set keys"
    by (elim exE conjE)
  have sub: "set (keys_of_t2 mq (new_message_unit wv) (t2_of ?ts)) \<subseteq> set keys" using all assms(5) by simp
  have "cl_rowkey ?cl \<in> set keys"
    using sub assms(2) unfolding message_keys[OF assms(3)] by (auto simp: message_write_def)
  moreover have "cb mq (new_message_unit wv) (cl_rowkey ?cl) (Some [col]) = Ret (False, [?unit])"
  proof (rule message_row_read[OF assms(3,5) small assms(9)])
    show "length (cl_name ?cl) = 19" "length (cl_value ?cl) = 1"
      "cl_rowkey ?cl = [DbU32 (t2_of ?ts), DbU8 (gen_partition_no env (partitions_drawn h))]"
      by (simp_all add: message_write_def length_message_columns)
    show "cl_name ?cl ! 0 = DbU32 (t1_of ?ts)" by (simp add: message_write_def message_columns_def Let_def)
    show "fmt (DbU32 (t1_of ?ts)) = DbU32 (t1_of ?ts)" using fmt(1) by blast
  qed
  moreover have "\<exists>row. select_message_row x message_schema to_string MESSAGE_TABLE (map fst (sent_columns vmsg)) ?unit = Ret (Some row) \<and>
      (\<forall>(f, s) \<in> set (sent_columns vmsg). row f = Some s)"
  proof -
    note cells = sent_cells[OF fmt refl, where env = env and sn = sn and vmsg = vmsg and names = names and h = h]
    obtain m oid where m: "foldl_outcome (add_result_column message_schema to_string MESSAGE_TABLE ?unit) (Map.empty, []) [0..<22] = Ret (m, oid)"
      "\<forall>i<22. m (snd (message_column_names ! i)) = Some (if i = 0 then DbU64 ?ts else cell_value to_string i (?cells ! i))"
      using message_columns_collected[of ?unit 22 to_string MESSAGE_TABLE] cells(1) by auto
    have plain: "\<not> is_object_table_query MESSAGE_TABLE" by (simp add: is_object_table_query_def starts_with_def)
    have "m f = Some (DbString s)" if "(f, s) \<in> set (sent_columns vmsg)" for f s
      using cells(2) m(2) that by (smt (verit) case_prodD bot_nat_0.not_eq_extremum)
    then have v: "\<forall>f \<in> set (map fst (sent_columns vmsg)). f \<noteq> ''UuidKey'' \<and> m f = Some (DbString (the (map_of (sent_columns vmsg) f)))"
      by (simp add: sent_columns_def)
    have "\<exists>row. select_columns x to_string MESSAGE_TABLE (map fst (sent_columns vmsg)) m oid (map fst (sent_columns vmsg)) Map.empty = Ret (Some row) \<and>
        (\<forall>f \<in> set (map fst (sent_columns vmsg)). row f = Some (to_string (DbString (the (map_of (sent_columns vmsg) f)))))"
      using selected_plain_columns[OF plain v, of Map.empty to_string] by auto
    then show ?thesis using m(1) cells(1) plain fmt(3)
      by (auto simp: select_message_row_def row_object_id_def sent_columns_def)
  qed
  ultimately show ?thesis using more keys by (metis query_result_unit_t.select_convs(1))
qed

definition sample_db_env :: "nat db_env" where
  "sample_db_env = \<lparr>umn_gen = (\<lambda>n. [of_nat n]), gen_partition_no = (\<lambda>n. of_nat (n mod 9)), name_uuid = (\<lambda>s. [of_nat (length s)]), stale_uuid = [],
     db_add_column = (\<lambda>_. True), json_writer = (\<lambda>_. ''{}''), db_show_double = show_nat, parse_ip = (\<lambda>_. None)\<rparr>"

definition sample_msg :: VizMsg where
  "sample_msg = \<lparr>msg_header = \<lparr>hdr_Timestamp = 1500000000000000, hdr_Source = ''h1'', hdr_Module = ''m'', hdr_Category = ''c'', hdr_Type = ST_SYSTEM,
       hdr_Level = 6, hdr_NodeType = ''Compute'', hdr_InstanceId = ''0'', hdr_SequenceNum = 1, hdr_Pid = None, hdr_IPAddress = None, hdr_Hints = 0, hdr_Context = None\<rparr>,
     msg_type = ''T'', msg_text = ''<x/>'', msg_unm = [1], msg_size = 10\<rparr>"

definition sample_message_query :: main_query where
  "sample_message_query = \<lparr>mq_table = MESSAGE_TABLE, mq_from_time = 1400000000000000, mq_end_time = 1600000000000000, unroll_needed = False\<rparr>"

definition sample_to_string :: "nat DbDataValue \<Rightarrow> string" where
  "sample_to_string v = (case v of DbString s \<Rightarrow> s | _ \<Rightarrow> '''')"

theorem message_sent_is_returned_witness:
  "\<exists>col unit row. cb sample_message_query (new_message_unit []) [DbU32 (t2_of 1500000000000000), DbU8 0] (Some [col]) = Ret (False, [unit]) \<and>
     select_message_row \<lparr>sandesh_system = 1, sandesh_object = 2, sandesh_uve = 3, sandesh_alarm = 4\<rparr> message_schema sample_to_string MESSAGE_TABLE
       (map fst (sent_columns sample_msg)) unit = Ret (Some row) \<and> row ''Source'' = Some ''h1''"
proof -
  let ?cl = "message_write sample_db_env (\<lambda>_. 1) sample_msg [''o''] empty_handler"
  let ?col = "(take 2 (cl_name ?cl), ascending_by_name (drop 2 (map fst (drop 2 message_column_names))) (drop 2 (cl_name ?cl) @ cl_value ?cl))"
  have "delivers id (map fst (drop 2 message_column_names)) 2 ?cl ?col" by (simp add: delivers_def)
  moreover have "AllowMessageTableInsert empty_handler (msg_header sample_msg)"
    by (simp add: AllowMessageTableInsert_def empty_handler_def sample_msg_def)
  moreover have "gen_partition_no sample_db_env (partitions_drawn empty_handler) \<in> set partitions"
    by (simp add: sample_db_env_def empty_handler_def partitions_def PARTITION_MIN_def PARTITION_MAX_def del: upt_Suc) (rule image_eqI[of _ _ 0], simp_all)
  moreover have "mq_table sample_message_query = MESSAGE_TABLE" "mq_end_time sample_message_query < 2 ^ 55 - 2 ^ 23"
    "time_in_range sample_message_query (hdr_Timestamp (msg_header sample_msg))"
    by (simp_all add: sample_message_query_def time_in_range_def sample_msg_def)
  moreover have "\<forall>s. sample_to_string (DbString s) = s" by (simp add: sample_to_string_def)
  moreover have "cl_rowkey ?cl = [DbU32 (t2_of 1500000000000000), DbU8 0]"
    by (simp add: message_write_def sample_msg_def sample_db_env_def empty_handler_def)
  moreover have "(''Source'', ''h1'') \<in> set (sent_columns sample_msg)" by (simp add: sent_columns_def sample_msg_def)
  ultimately show ?thesis
    using message_sent_is_returned[of empty_handler sample_msg sample_db_env sample_message_query id sample_to_string "\<lambda>_. 1" "[''o'']" ?col "[]"
        "\<lparr>sandesh_system = 1, sandesh_object = 2, sandesh_uve = 3, sandesh_alarm = 4\<rparr>"]
    by (smt (verit) id_apply case_prodD)
qed

section \<open>Statistics samples\<close>

text \<open>What SELECT finds for an attribute of a sample.\<close>

definition attrib_entries :: "string \<times> 'd Var \<Rightarrow> ('d, 't, 'c) StatEntry list" where
  "attrib_entries a =
     (let (n, v) = a
      in case v of VString s \<Rightarrow> [(n, SString s)] | VUint64 k \<Rightarrow> [(n, SUint64 k)] | VDouble d \<Rightarrow> [(n, SDouble d)]
         | VList xs \<Rightarrow> [(n, SString (join ''; '' xs))] | VMap m \<Rightarrow> map_entries n m | VInvalid \<Rightarrow> [])"

fun nul_free :: "'d Var \<Rightarrow> bool" where
  "nul_free (VString s) \<longleftrightarrow> CHR 0x00 \<notin> set s"
| "nul_free (VList xs) \<longleftrightarrow> list_all (\<lambda>s. CHR 0x00 \<notin> set s) xs"
| "nul_free (VMap m) \<longleftrightarrow> list_all (\<lambda>(k, x). CHR 0x00 \<notin> set k \<and> CHR 0x00 \<notin> set x) m"
| "nul_free _ \<longleftrightarrow> True"

abbreviation nul_free_attribs :: "'d AttribMap \<Rightarrow> bool" where
  "nul_free_attribs attribs \<equiv> list_all (\<lambda>(n, v). CHR 0x00 \<notin> set n \<and> nul_free v) attribs"

lemma c_str_id: "CHR 0x00 \<notin> set s \<Longrightarrow> c_str s = s"
  by (auto simp: c_str_def takeWhile_eq_all_conv)

lemma join_later: "concat (map (\<lambda>(i, x). (if i = 0 then [] else sep) @ x) (enumerate (Suc n) zs)) = concat (map (\<lambda>z. sep @ z) zs)"
  by (induction zs arbitrary: n) simp_all

lemma join_with_Cons: "join_with sep (x # y # zs) = x @ sep @ join_with sep (y # zs)"
  by (simp add: join_with_def join_later)

lemma join_with_join: "join_with sep xs = join sep xs"
proof (induction sep xs rule: join.induct)
  case (3 sep x y zs)
  then show ?case by (simp add: join_with_Cons)
qed (simp_all add: join_with_def)

lemma map_outcome_map: "map_outcome f (map g xs) = map_outcome (f \<circ> g) xs"
  by (induction xs) simp_all

lemma map_outcome_Ret: "(\<And>x. x \<in> set xs \<Longrightarrow> f x = Ret (g x)) \<Longrightarrow> map_outcome f xs = Ret (map g xs)"
  by (induction xs) simp_all

lemma stat_entries_attrib:
  fixes v :: "'d Var"
  assumes "CHR 0x00 \<notin> set n" "nul_free v" "attrib_member (n, v) = Some e"
  shows "stat_entries ext e = Ret (attrib_entries (n, v))"
proof -
  have name: "c_str (n @ [CHR ''|'', c]) = n @ [CHR ''|'', c]" if "c \<noteq> CHR 0x00" for c
    using assms(1) that by (intro c_str_id) auto
  have stem: "stat_name (n @ [CHR ''|'', c]) = n" for c by (simp add: stat_name_def)
  show ?thesis
  proof (cases v)
    case (VMap m)
    have kv: "c_str (c_str (fst p)) = fst p \<and> c_str (c_str (snd p)) = snd p" if "p \<in> set m" for p
      using assms(2) VMap that by (cases p) (auto simp: list_all_iff c_str_id)
    have "map_outcome (\<lambda>(k, x). bind_outcome (get_cstr x) (\<lambda>s. Ret (c_str k, s))) (map (\<lambda>(k, x). (c_str k, JString (c_str x) :: 'd json)) m) = Ret (map id m)"
      unfolding map_outcome_map by (rule map_outcome_Ret, use kv in \<open>force simp: get_cstr_def split: prod.splits\<close>)
    then show ?thesis using assms(3) VMap
      by (auto simp: attrib_member_def stat_entries_def attrib_entries_def name stem Let_def)
  next
    case (VList xs)
    have "map_outcome (get_cstr :: 'd json \<Rightarrow> _) (map (JString \<circ> c_str) xs) = Ret (map id xs)"
      unfolding map_outcome_map by (rule map_outcome_Ret, use assms(2) VList in \<open>simp add: get_cstr_def list_all_iff c_str_id\<close>)
    then show ?thesis using assms(3) VList
      by (auto simp: attrib_member_def stat_entries_def attrib_entries_def name stem Let_def join_with_join)
  next
    case (VUint64 k)
    then show ?thesis using assms(3)
      by (auto simp: attrib_member_def stat_entries_def attrib_entries_def name stem Let_def intro: uint_lt2p[of k, simplified])
  qed (use assms(2,3) in \<open>auto simp: attrib_member_def stat_entries_def attrib_entries_def name stem Let_def get_cstr_def c_str_id\<close>)
qed

lemma sample_attribs_document:
  fixes ext :: "('d, 't, 'c) agg_ext"
  assumes "nul_free_attribs attribs"
  shows "sample_attribs ext (sample_document attribs) = Ret (concat (map attrib_entries attribs))"
proof -
  have "\<exists>es. map_outcome (stat_entries ext) (List.map_filter attrib_member attribs) = Ret es \<and> concat es = concat (map attrib_entries attribs)"
    using assms
  proof (induction attribs)
    case (Cons a attribs)
    then obtain es where es: "map_outcome (stat_entries ext) (List.map_filter attrib_member attribs) = Ret es"
      "concat es = concat (map attrib_entries attribs)" by auto
    obtain n v where a: "a = (n, v)" by force
    show ?case
    proof (cases "attrib_member a")
      case None
      then have "v = VInvalid" unfolding a by (auto simp: attrib_member_def split: Var.splits)
      then have "attrib_entries a = ([] :: (_, 't, 'c) StatEntry list)" unfolding a by (simp add: attrib_entries_def)
      then show ?thesis using es None by (simp add: map_filter_simps)
    next
      case (Some e)
      then have "stat_entries ext e = Ret (attrib_entries a)"
        using stat_entries_attrib[of n v e ext] Cons.prems unfolding a by simp
      then show ?thesis using es Some by (simp add: map_filter_simps)
    qed
  qed (simp add: map_filter_simps)
  then show ?thesis by (auto simp: sample_attribs_def sample_document_def)
qed

text \<open>The row of a sample and the unit that asks for it.\<close>

definition stat_unit :: "string \<Rightarrow> string \<Rightarrow> 'd where_info_vec \<Rightarrow> 'd DbQueryUnit" where
  "stat_unit statName statAttr wv =
     new_DbQueryUnit\<lparr>cfname := STATS_TABLE, row_key_suffix := [DbString statName, DbString statAttr], where_vec := wv\<rparr>"

lemma GetStatTableAttrName_parts:
  assumes "CHR ''.'' \<notin> set sn"
  shows "GetStatTableAttrName (''StatTable.'' @ sn @ ''.'' @ sa) = (sn, sa)"
proof -
  have "find_char CHR ''.'' (sn @ CHR ''.'' # sa) = Some (length sn)" using assms by (rule find_char_append)
  then show ?thesis by (simp add: GetStatTableAttrName_def find_char_from_def Let_def)
qed

lemma stat_keys:
  "is_stat_table_query (mq_table mq) \<Longrightarrow> keys_of_t2 mq (stat_unit sn sa wv) t2 = [[DbU32 t2, DbU8 0, DbString sn, DbString sa]]"
  by (auto simp: keys_of_t2_def stat_unit_def new_DbQueryUnit_def is_stat_table_query_def is_flow_query_def
      is_session_query_def starts_with_def Let_def)

definition stat_row :: "'d db_env \<Rightarrow> u64 \<Rightarrow> string \<Rightarrow> string \<Rightarrow> 'd DbTagMap \<Rightarrow> 'd AttribMap \<Rightarrow> int \<Rightarrow> u8 list \<Rightarrow> 'd ColList" where
  "stat_row env ts sn sa tags attribs ttl unm =
     (let acc = foldl (fill_tag env) new_tag_acc tags
      in \<lparr>cl_cfname = STATS_TABLE, cl_rowkey = [DbU32 (t2_of ts), DbU8 0, DbString sn, DbString sa],
          cl_name = [DbString (ta_name acc), DbU32 (t1_of ts), DbUuid unm, DbString (PrependT2 (t2_of ts) (ta_source acc)),
                     DbString (PrependT2 (t2_of ts) (ta_key acc)), DbString (PrependT2 (t2_of ts) (ta_proxy acc))]
                    @ map (\<lambda>i. DbString (PrependT2 (t2_of ts) (join '';'' (ta_tags acc ! i)))) [0, 1, 2, 3],
          cl_value = [DbString (c_str (json_writer env (sample_document attribs)))], cl_ttl = ttl\<rparr>)"

lemma disable_kept_field: "disable_all_writes (FieldNamesTableInsert env ts ttl p f v h) = disable_all_writes h"
  by (simp add: FieldNamesTableInsert_def CanRecordDataForT2_def stat_table_insert_def sample_uuid_def StatTableWrite_def InsertIntoDb_def
      Let_def split_beta)

lemma disable_kept_tags:
  "disable_all_writes (record_tag_names (FieldNamesTableInsert env ts ttl) b tab tags h) = disable_all_writes h"
  unfolding record_tag_names_def
proof (induction tags arbitrary: h)
  case (Cons t tags)
  then show ?case by (cases t; cases "fst (snd t)") (simp_all add: disable_kept_field)
qed simp

lemma StatTableInsertTtl_writes:
  assumes "\<not> disable_all_writes h" "sn \<noteq> ''FieldNames''"
  shows "\<exists>more. written (StatTableInsertTtl env ts sn sa tags attribs ttl h) =
    written h @ more @ [stat_row env ts sn sa tags attribs ttl (umn_gen env (uuids_drawn h))] \<and> list_all stats_row more"
proof -
  let ?h1 = "h\<lparr>uuids_drawn := Suc (uuids_drawn h)\<rparr>"
  let ?tab = "''StatTable.'' @ sn @ ''.'' @ sa"
  let ?h2 = "FieldNamesTableInsert env ts ttl ''STAT:'' ?tab ?tab ?h1"
  let ?h3 = "record_tag_names (FieldNamesTableInsert env ts ttl) True ?tab tags ?h2"
  have "appends stats_row ?h1 ?h3"
    by (rule appends_trans[OF FieldNamesTableInsert_appends record_tag_names_appends]) (rule FieldNamesTableInsert_appends)
  then obtain more where more: "written ?h3 = written h @ more" "list_all stats_row more" by (auto simp: appends_def)
  have en: "\<not> disable_all_writes ?h3" unfolding disable_kept_tags disable_kept_field using assms(1) by simp
  have u: "sample_uuid env sn attribs h = (umn_gen env (uuids_drawn h), ?h1)" using assms(2) by (simp add: sample_uuid_def)
  have sn: "(sn \<noteq> ''FieldNames'') = True" using assms(2) by simp
  have "written (StatTableInsertTtl env ts sn sa tags attribs ttl h) =
      written ?h3 @ [stat_row env ts sn sa tags attribs ttl (umn_gen env (uuids_drawn h))]"
    unfolding StatTableInsertTtl_def stat_table_insert_def u Let_def prod.case sn if_True StatTableWrite_def InsertIntoDb_def stat_row_def
    using en by simp
  then show ?thesis using more by auto
qed

definition stat_column_names :: "string list" where
  "stat_column_names = [''column1'', ''column2'', ''column3'', ''column4'', ''column5'', ''column6'', ''column7'', ''column8'', ''column9'', ''column10'', ''value'']"

lemma c_str_idem [simp]: "c_str (c_str s) = c_str s"
  by (simp add: c_str_def)

lemma ascending_stat_cells:
  assumes "length cells = 8"
  shows "ascending_by_name (drop 3 stat_column_names) cells = map ((!) cells) [6, 0, 1, 2, 3, 4, 5, 7]"
proof -
  have "sort (drop 3 stat_column_names) = map ((!) (drop 3 stat_column_names)) [6, 0, 1, 2, 3, 4, 5, 7]" by code_simp
  moreover have "length (drop 3 stat_column_names) = 8" "distinct (drop 3 stat_column_names)" by (simp_all add: stat_column_names_def)
  moreover have "set [6, 0, 1, 2, 3, 4, 5, 7] = {..<8 :: nat}" by (auto simp: lessThan_nat_numeral lessThan_Suc numeral_eq_Suc)
  ultimately show ?thesis unfolding ascending_by_name_def using assms by (intro sort_key_zip) simp_all
qed

lemma stat_row_read:
  fixes env :: "'d db_env"
  assumes cl: "cl = stat_row env ts sn sa tags attribs ttl unm"
    and "is_stat_table_query (mq_table mq)" "time_in_range mq ts" "ts < 2 ^ 55"
    and fmt: "\<forall>n. fmt (DbU32 n) = DbU32 n" "\<forall>s. fmt (DbString s) = DbString s" "\<forall>u. fmt (DbUuid u) = DbUuid u"
    and "delivers fmt stat_column_names 3 cl col"
  shows "cb mq (stat_unit sn sa wv) (cl_rowkey cl) (Some [col]) =
    Ret (False, [\<lparr>timestamp = ts, info = [DbString (c_str (json_writer env (sample_document attribs))), DbUuid unm]\<rparr>])"
proof -
  let ?q = "stat_unit sn sa wv :: 'd DbQueryUnit"
  let ?line = "c_str (json_writer env (sample_document attribs))"
  have tables: "\<not> is_session_query (mq_table mq)" "\<not> is_flow_query (mq_table mq)"
    using assms(2) by (auto simp: table_defs)
  have names: "cl_name cl = [cl_name cl ! 0, DbU32 (t1_of ts), DbUuid unm] @ drop 3 (cl_name cl)" "length (cl_name cl) = 10" "cl_value cl = [DbString ?line]"
    "cl_rowkey cl = [DbU32 (t2_of ts), DbU8 0, DbString sn, DbString sa]"
    by (simp_all add: cl stat_row_def Let_def)
  have "take 3 (cl_name cl) = [cl_name cl ! 0, DbU32 (t1_of ts), DbUuid unm]" by (subst names(1)) simp
  then have f: "fst col = [fmt (cl_name cl ! 0), DbU32 (t1_of ts), DbUuid unm]"
    using assms(8) fmt by (simp add: delivers_def)
  let ?cells = "map fmt (drop 3 (cl_name cl) @ cl_value cl)"
  have "length ?cells = 8" using names(2,3) by simp
  then have "snd col = map ((!) ?cells) [6, 0, 1, 2, 3, 4, 5, 7]"
    using assms(8) ascending_stat_cells[of ?cells] by (simp add: delivers_def del: map_append)
  moreover have "?cells ! 7 = DbString ?line" using names(2,3) fmt(2) by (simp add: nth_append)
  ultimately have s: "vec_at_end (snd col) 1 = Ret (DbString ?line)" by (simp add: vec_at_end_def)
  have "column_t1 mq ?q col = Ret (t1_of ts)"
    using assms(2) f by (simp add: column_t1_def vec_at_end_def get_u32_def)
  moreover have "column_info mq ?q (cl_rowkey cl) 0 0 col = Ret [DbString ?line, DbUuid unm]"
    using assms(2) f s by (simp add: column_info_def vec_at_end_def get_uuid_value_def get_string_def)
  ultimately have "add_column mq ?q (cl_rowkey cl) (t2_of ts) 0 0 [] col = Ret [\<lparr>timestamp = ts, info = [DbString ?line, DbUuid unm]\<rparr>]"
    using assms(3) timestamp_from_parts[OF assms(4)] by (simp add: add_column_def)
  then show ?thesis using tables names(4) by (simp add: cb_def vec_at_def get_u32_def)
qed

text \<open>
  C10: a statistics sample the collector accepts is loaded by a query over its table and time. Its row is
  written behind the field names of the sample, lies under the key the query asks for, gives one unit with
  the sample's timestamp, and SELECT loads it with the attributes the sample was sent with, each with its
  type, provided the JSON parser reads what the JSON writer wrote.\<close>

theorem stat_sample_is_returned:
  assumes "\<not> disable_all_writes h" and "\<not> disable_statistics_writes h" and "sn \<noteq> ''FieldNames''" and "CHR ''.'' \<notin> set sn"
    and "mq_table mq = ''StatTable.'' @ sn @ ''.'' @ sa" and "mq_end_time mq < 2 ^ 55 - 2 ^ 23" and "time_in_range mq ts"
    and fmt: "\<forall>n. fmt (DbU32 n) = DbU32 n" "\<forall>s. fmt (DbString s) = DbString s" "\<forall>u. fmt (DbUuid u) = DbUuid u"
    and "delivers fmt stat_column_names 3 (stat_row env ts sn sa tags attribs (GetTtl h STATSDATA_TTL) (umn_gen env (uuids_drawn h))) col"
    and "parse (c_str (json_writer env (sample_document attribs))) = Some (sample_document attribs)" and "nul_free_attribs attribs"
  shows "\<exists>more keys unit. let row = stat_row env ts sn sa tags attribs (GetTtl h STATSDATA_TTL) (umn_gen env (uuids_drawn h));
      q = (let (tstr, astr) = GetStatTableAttrName (mq_table mq) in stat_unit tstr astr wv) in
    written (StatTableInsert env ts sn sa tags attribs h) = written h @ more @ [row] \<and> list_all stats_row more \<and>
    populate_row_keys mq q = Some (set_column_range mq q, keys) \<and> cl_rowkey row \<in> set keys \<and>
    cb mq q (cl_rowkey row) (Some [col]) = Ret (False, [unit]) \<and> timestamp unit = ts \<and>
    select_stats_row ext parse st out unit =
      bind_outcome (LoadRow ext st (umn_gen env (uuids_drawn h)) ts (concat (map attrib_entries attribs)) out) (\<lambda>(b, out'). Ret out')"
proof -
  let ?ttl = "GetTtl h STATSDATA_TTL" and ?unm = "umn_gen env (uuids_drawn h)" and ?q = "stat_unit sn sa wv"
  let ?row = "stat_row env ts sn sa tags attribs ?ttl ?unm"
  let ?unit = "\<lparr>timestamp = ts, info = [DbString (c_str (json_writer env (sample_document attribs))), DbUuid ?unm]\<rparr>"
  have small: "ts < 2 ^ 55" using assms(6,7) by (auto simp: time_in_range_def word_less_nat_alt word_le_nat_alt not_less)
  have stat: "is_stat_table_query (mq_table mq)" using assms(5) by (simp add: table_defs)
  obtain more where more: "written (StatTableInsert env ts sn sa tags attribs h) = written h @ more @ [?row]" "list_all stats_row more"
    using StatTableInsertTtl_writes[OF assms(1,3), of env ts sa tags attribs ?ttl] assms(1,2) by (auto simp: StatTableInsert_def)
  from populate_row_keys_set[OF assms(6), of ?q] obtain keys where
    keys: "populate_row_keys mq ?q = Some (set_column_range mq ?q, keys)"
    and all: "\<forall>ts. time_in_range mq ts \<longrightarrow> set (keys_of_t2 mq ?q (t2_of ts)) \<subseteq> set keys"
    by (elim exE conjE)
  have key: "cl_rowkey ?row \<in> set keys" using all assms(7) unfolding stat_keys[OF stat] by (auto simp: stat_row_def Let_def)
  have cb: "cb mq ?q (cl_rowkey ?row) (Some [col]) = Ret (False, [?unit])" by (rule stat_row_read[OF refl stat assms(7) small fmt assms(11)])
  have sel: "select_stats_row ext parse st out ?unit =
      bind_outcome (LoadRow ext st ?unm ts (concat (map attrib_entries attribs)) out) (\<lambda>(b, out'). Ret out')"
    using assms(12) sample_attribs_document[OF assms(13), of ext] by (simp add: select_stats_row_def get_stattable_info_def)
  show ?thesis unfolding assms(5) GetStatTableAttrName_parts[OF assms(4)] Let_def prod.case
    by (intro exI[of _ more] exI[of _ keys] exI[of _ ?unit] conjI) (simp_all add: more keys key cb sel)
qed

definition sample_stat_query :: main_query where
  "sample_stat_query = \<lparr>mq_table = ''StatTable.S.a'', mq_from_time = 1400000000000000, mq_end_time = 1600000000000000, unroll_needed = False\<rparr>"

theorem stat_sample_is_returned_witness:
  "\<exists>col unit :: nat DbDataValue query_result_unit_t. cb sample_stat_query (stat_unit ''S'' ''a'' [])
     [DbU32 (t2_of 1500000000000000), DbU8 0, DbString ''S'', DbString ''a''] (Some [col]) = Ret (False, [unit]) \<and> timestamp unit = 1500000000000000"
proof -
  let ?row = "stat_row sample_db_env 1500000000000000 ''S'' ''a'' [(''t'', VString ''v'', [])] [(''x'', VUint64 3)]
    (GetTtl empty_handler STATSDATA_TTL) (umn_gen sample_db_env (uuids_drawn empty_handler))"
  let ?col = "(take 3 (cl_name ?row), ascending_by_name (drop 3 stat_column_names) (drop 3 (cl_name ?row) @ cl_value ?row))"
  have d: "delivers id stat_column_names 3 ?row ?col" by (simp add: delivers_def)
  have h: "\<not> disable_all_writes empty_handler" "\<not> disable_statistics_writes empty_handler" by (simp_all add: empty_handler_def)
  have q: "mq_table sample_stat_query = ''StatTable.'' @ ''S'' @ ''.'' @ ''a''" "mq_end_time sample_stat_query < 2 ^ 55 - 2 ^ 23"
    "time_in_range sample_stat_query 1500000000000000" by (simp_all add: sample_stat_query_def time_in_range_def)
  have "cl_rowkey ?row = [DbU32 (t2_of 1500000000000000), DbU8 0, DbString ''S'', DbString ''a'']" by (simp add: stat_row_def Let_def)
  moreover have "GetStatTableAttrName (mq_table sample_stat_query) = (''S'', ''a'')"
    unfolding q(1) by (rule GetStatTableAttrName_parts) simp
  ultimately show ?thesis
    using stat_sample_is_returned[OF h _ _ q, of id sample_db_env "[(''t'', VString ''v'', [])]" "[(''x'', VUint64 3)]" ?col
        "\<lambda>_. Some (sample_document [(''x'', VUint64 3)])" "[]" ext st out] d
    by (auto simp: Let_def)
qed

section \<open>Tags\<close>

lemma tag_hash_djb: "tag_hash s = djb_hash s"
  unfolding tag_hash_def djb_hash_def signed_char_def
  by (rule arg_cong[where f = "\<lambda>f. foldl f 5381 s"]) (auto simp: fun_eq_iff Let_def)

lemma join_contains: "x \<in> set xs \<Longrightarrow> \<exists>pre post. join sep xs = pre @ x @ post"
proof (induction sep xs rule: join.induct)
  case (3 sep y z zs)
  show ?case
  proof (cases "x = y")
    case True
    then show ?thesis by (metis append_Nil join.simps(3))
  next
    case False
    with 3 obtain pre post where "join sep (z # zs) = pre @ x @ post" by auto
    then show ?thesis by (metis append.assoc join.simps(3))
  qed
qed (auto intro: exI[of _ "[]"])

lemma fold_grows: "(\<And>a b. P a \<Longrightarrow> P (f a b)) \<Longrightarrow> P a \<Longrightarrow> P (foldl f a bs)"
  by (induction bs arbitrary: a) auto

text \<open>A tag, once in its column, stays there.\<close>

definition has_tag :: "nat \<Rightarrow> string \<Rightarrow> tag_acc \<Rightarrow> bool" where
  "has_tag i x acc \<longleftrightarrow> length (ta_tags acc) = 4 \<and> x \<in> set (ta_tags acc ! i)"

lemma has_tag_push: "has_tag i x acc \<Longrightarrow> has_tag i x (push_tag nm val acc)"
  by (auto simp: has_tag_def push_tag_def Let_def nth_list_update)

lemma has_tag_type: "has_tag i x acc \<Longrightarrow> has_tag i x (type_tags env nm v acc)"
  unfolding type_tags_def by (cases v) (auto simp: has_tag_push intro!: fold_grows[of "has_tag i x"] split: prod.splits)

lemma has_tag_own: "own_column nm v acc = Some a \<Longrightarrow> ta_tags a = ta_tags acc"
  by (auto simp: own_column_def split: if_splits)

lemma has_tag_suffix: "has_tag i x acc \<Longrightarrow> has_tag i x (fill_suffix env acc sv)"
  by (auto simp: fill_suffix_def split: prod.splits option.splits intro: has_tag_type has_tag_push)
    (auto dest!: has_tag_own simp: has_tag_def)

lemma has_tag_fill: "has_tag i x acc \<Longrightarrow> has_tag i x (fill_tag env acc t)"
  unfolding fill_tag_def
  by (auto split: prod.splits option.splits intro!: fold_grows[of "has_tag i x"] has_tag_suffix intro: has_tag_type)
    (auto dest!: has_tag_own simp: has_tag_def)

lemma tags_length: "length (ta_tags (foldl (fill_tag env) acc tags)) = 4" if "length (ta_tags acc) = 4"
proof -
  have push: "length (ta_tags (push_tag nm val a)) = length (ta_tags a)" for nm val a by (simp add: push_tag_def Let_def)
  have ty: "length (ta_tags a) = 4 \<Longrightarrow> length (ta_tags (type_tags env nm v a)) = 4" for nm v a
    unfolding type_tags_def by (cases v) (auto simp: push intro!: fold_grows[of "\<lambda>a. length (ta_tags a) = 4"] split: prod.splits)
  have suf: "length (ta_tags a) = 4 \<Longrightarrow> length (ta_tags (fill_suffix env a sv)) = 4" for a sv
    by (auto simp: fill_suffix_def ty push split: prod.splits option.splits dest: has_tag_own)
  have "length (ta_tags a) = 4 \<Longrightarrow> length (ta_tags (fill_tag env a t)) = 4" for a t
    unfolding fill_tag_def by (auto split: prod.splits option.splits intro!: fold_grows[of "\<lambda>a. length (ta_tags a) = 4"] suf ty dest: has_tag_own)
  then show ?thesis using that by (rule fold_grows)
qed

lemma written_tag:
  assumes "(nm, VString val, amap) \<in> set tags" "\<And>acc. own_column nm (VString val :: 'd Var) acc = None"
  shows "has_tag (tags_index nm) (nm @ ''='' @ val) (foldl (fill_tag (env :: 'd db_env)) new_tag_acc tags)"
proof -
  obtain as bs where tags: "tags = as @ (nm, VString val, amap) # bs" using assms(1) by (meson split_list)
  let ?a = "foldl (fill_tag env) new_tag_acc as"
  have len: "length (ta_tags ?a) = 4" by (rule tags_length) (simp add: new_tag_acc_def)
  have "tags_index nm < 4" by (simp add: tags_index_def)
  then have "has_tag (tags_index nm) (nm @ ''='' @ val) (push_tag nm val ?a)"
    using len by (simp add: has_tag_def push_tag_def Let_def tag_hash_djb tags_index_def)
  moreover have "fill_tag env a (nm, VString val, amap) = foldl (fill_suffix env) (push_tag nm val a) amap" for a
    using assms(2) by (simp add: fill_tag_def type_tags_def show_Var_def)
  ultimately have it: "has_tag (tags_index nm) (nm @ ''='' @ val) (fill_tag env ?a (nm, VString val, amap))"
    by (simp only:) (rule fold_grows[of "has_tag (tags_index nm) (nm @ ''='' @ val)"], rule has_tag_suffix)
  show ?thesis unfolding tags foldl_append foldl.simps
    by (rule fold_grows[of "has_tag (tags_index nm) (nm @ ''='' @ val)", OF has_tag_fill it])
qed

lemma show_small_nat: "show_nat 0 = ''0''" "show_nat (Suc 0) = ''1''" "show_nat 2 = ''2''" "show_nat 3 = ''3''"
  "show_nat 7 = ''7''" "show_nat 8 = ''8''" "show_nat 9 = ''9''" "show_nat 10 = ''10''"
  by code_simp+

text \<open>The condition a WHERE term puts on a tag, and the cell of the row it is evaluated on.\<close>

lemma tag_condition:
  assumes "is_stat_table_query (we_table wenv)" "\<forall>s. we_to_string wenv (DbString s) = s" "length (ot_tags ot) = 4"
  shows "\<exists>ot'. add_tag wenv nm (DbString v) ot = Done ot' \<and>
    (''column'' @ show_nat (7 + tags_index nm), DB_LIKE, DbString (''%'' @ nm @ ''='' @ v @ ''%'')) \<in> set (ot_tags ot' ! tags_index nm)"
proof -
  have t: "\<not> is_message_table_query (we_table wenv)" "\<not> is_object_table_query (we_table wenv)" "\<not> is_session_query (we_table wenv)" "\<not> is_flow_query (we_table wenv)"
    using assms(1) by (auto simp: table_defs)
  have "tags_index nm < 4" by (simp add: tags_index_def)
  then consider "tags_index nm = 0" | "tags_index nm = 1" | "tags_index nm = 2" | "tags_index nm = 3" by linarith
  then have look: "map_of stats_index_columns (''tags'' @ show_nat (tags_index nm)) = Some (''column'' @ show_nat (7 + tags_index nm))"
    by cases (simp_all add: stats_index_columns_def show_small_nat)
  show ?thesis using assms t look \<open>tags_index nm < 4\<close>
    by (simp add: add_tag_def add_where_def populate_where_vec_def query_column_to_cass_column_def Let_def del: bind_checked_Done_iff)
qed

lemma tag_cell:
  assumes "i < 4"
  shows "map_of (zip stat_column_names (cl_name (stat_row env ts sn sa tags attribs ttl unm))) (''column'' @ show_nat (7 + i)) =
    Some (DbString (PrependT2 (t2_of ts) (join '';'' (ta_tags (foldl (fill_tag env) new_tag_acc tags) ! i))))"
proof -
  from assms consider "i = 0" | "i = 1" | "i = 2" | "i = 3" by linarith
  then show ?thesis by cases (simp_all add: stat_column_names_def stat_row_def Let_def show_small_nat)
qed

text \<open>
  A WHERE term on a tag finds the samples that carry it. Whatever the operator, the term becomes the
  pattern \<open>%name=value%\<close> on the column the hash of the name selects, and the collector has put
  \<open>name=value\<close> into that column of the sample's row, whatever other tags the sample has. The pattern also
  fits a sample whose value only starts with the value asked for, so an EQUAL term returns these as well.\<close>

theorem tag_term_finds_samples:
  assumes "(nm, VString (v @ w), amap) \<in> set tags" and "nm \<noteq> ''name''" "nm \<noteq> ''Source''" "\<not> is_key_or_proxy nm"
    and "is_stat_table_query (we_table wenv)" "\<forall>s. we_to_string wenv (DbString s) = s" "length (ot_tags ot) = 4"
    and "st_pname st = nm" "st_pval st = DbString v"
  shows "\<exists>ot' c x pre post. stat_prefix wenv st ot = Done (nm, ot') \<and> (c, DB_LIKE, DbString (''%'' @ x @ ''%'')) \<in> set (ot_tags ot' ! tags_index nm) \<and>
    map_of (zip stat_column_names (cl_name (stat_row env ts sn sa tags attribs ttl unm))) c = Some (DbString (pre @ x @ post))"
proof -
  let ?tags = "ta_tags (foldl (fill_tag env) new_tag_acc tags)"
  obtain ot' where ot: "add_tag wenv nm (DbString v) ot = Done ot'"
    "(''column'' @ show_nat (7 + tags_index nm), DB_LIKE, DbString (''%'' @ nm @ ''='' @ v @ ''%'')) \<in> set (ot_tags ot' ! tags_index nm)"
    using tag_condition[OF assms(5-7)] by blast
  have "own_column nm (VString (v @ w) :: 'a Var) acc = None" for acc
    using assms(2-4) by (simp add: own_column_def is_key_or_proxy_def)
  then have "nm @ ''='' @ (v @ w) \<in> set (?tags ! tags_index nm)"
    using written_tag[OF assms(1)] by (auto simp: has_tag_def)
  then obtain pre post where "join '';'' (?tags ! tags_index nm) = pre @ (nm @ ''='' @ (v @ w)) @ post"
    using join_contains by blast
  then have "PrependT2 (t2_of ts) (join '';'' (?tags ! tags_index nm)) = PrependT2 (t2_of ts) pre @ (nm @ ''='' @ v) @ (w @ post)"
    by (simp add: PrependT2_def)
  moreover have "tags_index nm < 4" by (simp add: tags_index_def)
  moreover have "stat_prefix wenv st ot = Done (nm, ot')"
    using assms(2-4,8,9) ot(1) by (simp add: stat_prefix_def Let_def)
  moreover have "DbString (''%'' @ nm @ ''='' @ v @ ''%'') = DbString (''%'' @ (nm @ ''='' @ v) @ ''%'')" by simp
  ultimately show ?thesis using ot(2) tag_cell[of "tags_index nm" env ts sn sa tags attribs ttl unm] by metis
qed

theorem tag_term_finds_samples_witness:
  "\<exists>ot' c x pre post. stat_prefix (sample_where_env ''StatTable.S.a'' None JNull) \<lparr>st_pname = ''vm'', st_pop = EQUAL, st_pval = DbString ''v1'',
      st_pval2 = DbBlank, st_sname = '''', st_sop = no_op, st_sval = DbBlank, st_sval2 = DbBlank\<rparr> new_or_term = Done (''vm'', ot') \<and>
    (c, DB_LIKE, DbString (''%'' @ x @ ''%'')) \<in> set (ot_tags ot' ! tags_index ''vm'') \<and>
    map_of (zip stat_column_names (cl_name (stat_row sample_db_env 5 ''S'' ''a'' [(''vm'', VString ''v12'', [])] [] 0 []))) c = Some (DbString (pre @ x @ post))"
  by (rule tag_term_finds_samples[of "''vm''" "''v1''" "''2''" "[]"])
    (simp_all add: sample_where_env_def new_or_term_def is_key_or_proxy_def ends_with_def is_stat_table_query_def starts_with_def)


end
