(* ===== verification/Usrdef_Counters.thy ===== *)
theory Usrdef_Counters
  imports Json
begin

text \<open>
  \<open>usrdef_counters.cc\<close>: the table of user defined log statistics of the collector. The configuration is a
  list of names and regular expressions; every message text is searched for all of them
  (\<open>LineParser::SearchPattern\<close> of \<open>parser_util.cc\<close>) and a counter event is sent for those that occur. The
  regular expression library is an argument: which patterns it accepts, and its search.
\<close>

section \<open>State\<close>

text \<open>\<open>UserDefinedCounterData\<close>; \<open>regexp_\<close> is always compiled from \<open>regexp_str_\<close> and is looked up by it.\<close>

record UserDefinedCounterData =
  refreshed :: bool
  udc_name :: string
  regexp_str :: string

datatype udc_uve = UdcDeleted string | UdcEvent string

record UserDefinedCounters =
  udc_config :: "(string \<times> UserDefinedCounterData) list"
  udc_sent :: "udc_uve list"

text \<open>
  The regular expressions of boost: the patterns its constructor accepts (it throws on the others), and
  the search from a position of a text, which returns the ends of the match. The flag tells a search that
  continues an earlier one.
\<close>

record regex_lib =
  valid_regex :: "string \<Rightarrow> bool"
  regex_search :: "string \<Rightarrow> string \<Rightarrow> nat \<Rightarrow> bool \<Rightarrow> (nat \<times> nat) option"

section \<open>Configuration\<close>

definition SetPattern :: "regex_lib \<Rightarrow> string \<Rightarrow> UserDefinedCounterData \<Rightarrow> UserDefinedCounterData checked" where
  "SetPattern lib pat c = (if valid_regex lib pat then Done (c\<lparr>regexp_str := pat\<rparr>) else Crash)"

definition new_UserDefinedCounterData :: "regex_lib \<Rightarrow> string \<Rightarrow> string \<Rightarrow> UserDefinedCounterData checked" where
  "new_UserDefinedCounterData lib name pat = SetPattern lib pat \<lparr>refreshed = True, udc_name = name, regexp_str = ''''\<rparr>"

definition IsRefreshed :: "UserDefinedCounterData \<Rightarrow> bool \<times> UserDefinedCounterData" where
  "IsRefreshed c = (refreshed c, c\<lparr>refreshed := False\<rparr>)"

definition AddConfig :: "regex_lib \<Rightarrow> string \<Rightarrow> string \<Rightarrow> UserDefinedCounters \<Rightarrow> UserDefinedCounters checked" where
  "AddConfig lib name pattern u =
     (case map_of (udc_config u) name of
        Some c \<Rightarrow>
          bind_checked (if pattern = regexp_str c then Done c else SetPattern lib pattern c) (\<lambda>c'.
            Done (u\<lparr>udc_config := map_assign name (c'\<lparr>refreshed := True\<rparr>) (udc_config u)\<rparr>))
      | None \<Rightarrow>
          bind_checked (new_UserDefinedCounterData lib name pattern) (\<lambda>c.
            Done (u\<lparr>udc_config := map_insert name c (udc_config u)\<rparr>)))"

text \<open>The loop that drops what the last update did not mention and clears the marks of the rest.\<close>

fun erase_stale :: "(string \<times> UserDefinedCounterData) list \<Rightarrow> (string \<times> UserDefinedCounterData) list \<times> udc_uve list" where
  "erase_stale [] = ([], [])"
| "erase_stale ((n, c) # rest) =
     (let (fresh, c') = IsRefreshed c; (kept, sent) = erase_stale rest
      in if fresh then ((n, c') # kept, sent) else (kept, UdcDeleted n # sent))"

definition drop_stale :: "UserDefinedCounters \<Rightarrow> UserDefinedCounters" where
  "drop_stale u = (let (kept, sent) = erase_stale (udc_config u) in u\<lparr>udc_config := kept, udc_sent := udc_sent u @ sent\<rparr>)"

definition add_entry :: "regex_lib \<Rightarrow> UserDefinedCounters \<Rightarrow> 'd json \<Rightarrow> UserDefinedCounters checked" where
  "add_entry lib u v =
     (if \<not> IsObject v then Done u
      else bind_checked (HasMembers v [''name'', ''pattern'']) (\<lambda>ok.
        if \<not> ok then Done u
        else bind_checked (bind_checked (member v ''name'') GetString) (\<lambda>name.
             bind_checked (bind_checked (member v ''pattern'') GetString) (\<lambda>patrn.
               AddConfig lib (c_str name) (c_str patrn) u))))"

definition UDCHandler :: "regex_lib \<Rightarrow> 'd json \<Rightarrow> bool \<Rightarrow> UserDefinedCounters \<Rightarrow> UserDefinedCounters checked" where
  "UDCHandler lib jdoc add_change u =
     (if \<not> add_change \<or> \<not> IsObject jdoc then Done u
      else bind_checked (HasMember jdoc ''global_system_config'') (\<lambda>has.
        if \<not> has then Done u
        else bind_checked (member jdoc ''global_system_config'') (\<lambda>gsc.
          bind_checked (HasMember gsc ''user_defined_log_statistics'') (\<lambda>has.
            if \<not> has then Done (drop_stale u)
            else bind_checked (member gsc ''user_defined_log_statistics'') (\<lambda>stats.
              if \<not> IsObject stats then Done u
              else bind_checked (HasMember stats ''statlist'') (\<lambda>has.
                if \<not> has then Done u
                else bind_checked (member stats ''statlist'') (\<lambda>sl.
                  if \<not> IsArray sl then Done u
                  else bind_checked (elements sl) (\<lambda>vs.
                    bind_checked (foldl_checked (add_entry lib) u vs) (\<lambda>u'. Done (drop_stale u'))))))))))"

definition FindByName :: "string \<Rightarrow> UserDefinedCounters \<Rightarrow> bool" where
  "FindByName name u \<longleftrightarrow> map_of (udc_config u) name \<noteq> None"

definition GetUDCConfig :: "UserDefinedCounters \<Rightarrow> (string \<times> string) list" where
  "GetUDCConfig u = map (\<lambda>(_, c). (udc_name c, regexp_str c)) (udc_config u)"

section \<open>Matching\<close>

text \<open>\<open>LineParser::SearchPattern\<close> counts matches in an \<open>unsigned int\<close>; a search that does not return is \<open>None\<close>.\<close>

partial_function (option) search_loop ::
  "(string \<Rightarrow> nat \<Rightarrow> bool \<Rightarrow> (nat \<times> nat) option) \<Rightarrow> string \<Rightarrow> nat \<Rightarrow> bool \<Rightarrow> u32 \<Rightarrow> u32 option" where
  "search_loop search text start continued cnt =
     (case search text start continued of
        None \<Rightarrow> Some cnt
      | Some (_, e) \<Rightarrow> search_loop search text e True (cnt + 1))"

definition SearchPattern :: "regex_lib \<Rightarrow> string \<Rightarrow> string \<Rightarrow> u32 option" where
  "SearchPattern lib pat text = search_loop (regex_search lib pat) text 0 False 0"

fun match_filter_loop :: "regex_lib \<Rightarrow> string \<Rightarrow> (string \<times> UserDefinedCounterData) list \<Rightarrow> udc_uve list \<Rightarrow> string set \<Rightarrow> (udc_uve list \<times> string set) option" where
  "match_filter_loop lib text [] sent words = Some (sent, words)"
| "match_filter_loop lib text ((n, c) # rest) sent words =
     (case SearchPattern lib (regexp_str c) text of
        None \<Rightarrow> None
      | Some k \<Rightarrow> if k \<noteq> 0 then match_filter_loop lib text rest (sent @ [UdcEvent n]) (insert n words)
                  else match_filter_loop lib text rest sent words)"

definition MatchFilter :: "regex_lib \<Rightarrow> string \<Rightarrow> string set \<Rightarrow> UserDefinedCounters \<Rightarrow> (UserDefinedCounters \<times> string set) option" where
  "MatchFilter lib text words u =
     map_option (\<lambda>(sent, w). (u\<lparr>udc_sent := sent\<rparr>, w)) (match_filter_loop lib text (udc_config u) (udc_sent u) words)"

section \<open>The configuration follows the document\<close>

definition udc_inv :: "regex_lib \<Rightarrow> UserDefinedCounters \<Rightarrow> bool" where
  "udc_inv lib u \<longleftrightarrow> sorted_map (udc_config u) \<and>
     list_all (\<lambda>(n, c). udc_name c = n \<and> \<not> refreshed c \<and> valid_regex lib (regexp_str c)) (udc_config u)"

text \<open>The usable elements of a \<open>statlist\<close>, and the elements that do not make the handler crash.\<close>

fun entry_of :: "'d json \<Rightarrow> (string \<times> string) option" where
  "entry_of (JObject ms) =
     (case (map_of ms ''name'', map_of ms ''pattern'') of
        (Some (JString n), Some (JString p)) \<Rightarrow> Some (c_str n, c_str p)
      | _ \<Rightarrow> None)"
| "entry_of _ = None"

definition listed :: "'d json list \<Rightarrow> (string \<times> string) list" where
  "listed vs = List.map_filter entry_of vs"

fun good_entry :: "regex_lib \<Rightarrow> 'd json \<Rightarrow> bool" where
  "good_entry lib (JObject ms) \<longleftrightarrow>
     map_of ms ''name'' = None \<or> map_of ms ''pattern'' = None \<or>
     (case entry_of (JObject ms) of Some (_, p) \<Rightarrow> valid_regex lib p | None \<Rightarrow> False)"
| "good_entry lib _ \<longleftrightarrow> True"

lemma add_entry_good:
  assumes "good_entry lib v"
  shows "add_entry lib u v = (case entry_of v of Some (n, p) \<Rightarrow> AddConfig lib n p u | None \<Rightarrow> Done u)"
proof (cases v)
  case (JObject ms)
  with assms show ?thesis
    by (cases "map_of ms ''name''"; cases "map_of ms ''pattern''"; cases "the (map_of ms ''name'')"; cases "the (map_of ms ''pattern'')")
      (simp_all add: add_entry_def del: bind_checked_Done_iff)
qed (simp_all add: add_entry_def)

lemma good_entry_valid: "good_entry lib v \<Longrightarrow> entry_of v = Some (n, p) \<Longrightarrow> valid_regex lib p"
  by (cases v) (auto split: option.splits json.splits)

text \<open>The configuration while the entries of a document are added.\<close>

definition updating :: "(string \<times> UserDefinedCounterData) list \<Rightarrow> (string \<times> string) list \<Rightarrow> UserDefinedCounters \<Rightarrow> bool" where
  "updating cfg es u \<longleftrightarrow> sorted_map (udc_config u) \<and>
     (\<forall>n. map_of (udc_config u) n =
        (case map_of (rev es) n of Some p \<Rightarrow> Some \<lparr>refreshed = True, udc_name = n, regexp_str = p\<rparr> | None \<Rightarrow> map_of cfg n))"

lemma AddConfig_updating:
  assumes "updating cfg es u" and "valid_regex lib p" and "\<And>c. map_of cfg n = Some c \<Longrightarrow> udc_name c = n"
  shows "\<exists>u'. AddConfig lib n p u = Done u' \<and> updating cfg (es @ [(n, p)]) u' \<and> udc_sent u' = udc_sent u"
proof (cases "map_of (udc_config u) n")
  case None
  with assms(1,2) show ?thesis
    by (auto simp: AddConfig_def new_UserDefinedCounterData_def SetPattern_def updating_def sorted_map_insert map_of_insert)
next
  case (Some c)
  with assms(1,3) have "udc_name c = n" by (auto simp: updating_def split: option.splits)
  then have "c\<lparr>regexp_str := p, refreshed := True\<rparr> = \<lparr>refreshed = True, udc_name = n, regexp_str = p\<rparr>" by simp
  with Some assms(1,2) show ?thesis
    by (auto simp: AddConfig_def SetPattern_def updating_def sorted_map_assign map_of_assign)
qed

lemma entries_updating:
  assumes "updating cfg es u" and "list_all (good_entry lib) vs" and "\<And>n c. map_of cfg n = Some c \<Longrightarrow> udc_name c = n"
  shows "\<exists>u'. foldl_checked (add_entry lib) u vs = Done u' \<and> updating cfg (es @ listed vs) u' \<and> udc_sent u' = udc_sent u"
  using assms(1,2)
proof (induction vs arbitrary: es u)
  case (Cons v vs)
  show ?case
  proof (cases "entry_of v")
    case None
    with Cons show ?thesis by (simp add: add_entry_good listed_def)
  next
    case (Some e)
    obtain n p where e: "e = (n, p)" by (cases e)
    have "valid_regex lib p" using good_entry_valid[of lib v n p] Some Cons.prems(2) by (simp add: e)
    from AddConfig_updating[OF Cons.prems(1) this assms(3)] obtain u1 where
      u1: "AddConfig lib n p u = Done u1" "updating cfg (es @ [(n, p)]) u1" "udc_sent u1 = udc_sent u" by blast
    with Cons.IH[OF u1(2)] Cons.prems(2) Some show ?thesis
      by (simp add: add_entry_good listed_def e)
  qed
qed (simp add: listed_def)

lemma erase_stale_lookup:
  "distinct (map fst cfg) \<Longrightarrow> map_of (fst (erase_stale cfg)) n =
     (case map_of cfg n of Some c \<Rightarrow> if refreshed c then Some (c\<lparr>refreshed := False\<rparr>) else None | None \<Rightarrow> None)"
proof (induction cfg)
  case (Cons e cfg)
  obtain m c where e: "e = (m, c)" by (cases e)
  have "map_of cfg m = None" using Cons.prems by (simp add: e map_of_eq_None_iff)
  moreover obtain kept sent where "erase_stale cfg = (kept, sent)" by (cases "erase_stale cfg")
  ultimately show ?case using Cons by (auto simp: e IsRefreshed_def)
qed simp

lemma erase_stale_keys: "map fst (fst (erase_stale cfg)) = map fst (filter (refreshed \<circ> snd) cfg)"
  by (induction cfg rule: erase_stale.induct) (auto simp: IsRefreshed_def split: prod.splits)

lemma erase_stale_sent: "snd (erase_stale cfg) = map (UdcDeleted \<circ> fst) (filter (\<lambda>e. \<not> refreshed (snd e)) cfg)"
  by (induction cfg rule: erase_stale.induct) (auto simp: IsRefreshed_def split: prod.splits)

lemma drop_stale_updated:
  assumes upd: "updating cfg es u" and old: "sorted_map cfg" "\<And>n c. map_of cfg n = Some c \<Longrightarrow> \<not> refreshed c"
  shows "map_of (udc_config (drop_stale u)) n =
      map_option (\<lambda>p. \<lparr>refreshed = False, udc_name = n, regexp_str = p\<rparr>) (map_of (rev es) n)"
    and "sorted_map (udc_config (drop_stale u))"
    and "udc_sent (drop_stale u) = udc_sent u @ map UdcDeleted (filter (\<lambda>n. n \<notin> fst ` set es) (map fst cfg))"
proof -
  let ?new = "udc_config u"
  from upd have srt: "sorted_map ?new" by (simp add: updating_def)
  then have dist: "distinct (map fst ?new)" by (simp add: strict_sorted_iff)
  have fresh: "map_of ?new n = (case map_of (rev es) n of Some p \<Rightarrow> Some \<lparr>refreshed = True, udc_name = n, regexp_str = p\<rparr>
      | None \<Rightarrow> map_of cfg n)" for n using upd by (simp add: updating_def)
  show "map_of (udc_config (drop_stale u)) n =
      map_option (\<lambda>p. \<lparr>refreshed = False, udc_name = n, regexp_str = p\<rparr>) (map_of (rev es) n)"
    using erase_stale_lookup[OF dist, of n] fresh[of n] old(2)[of n]
    by (cases "map_of cfg n"; cases "map_of (rev es) n") (simp_all add: drop_stale_def case_prod_unfold Let_def)
  show "sorted_map (udc_config (drop_stale u))"
    using erase_stale_keys[of ?new] srt
    by (simp add: drop_stale_def case_prod_unfold Let_def sorted_wrt_map sorted_wrt_filter)
  have "map fst (filter (\<lambda>e. \<not> refreshed (snd e)) ?new) = filter (\<lambda>n. n \<notin> fst ` set es) (map fst cfg)"
  proof (rule strict_sorted_equal)
    show "sorted_wrt (<) (map fst (filter (\<lambda>e. \<not> refreshed (snd e)) ?new))"
      using srt by (simp add: sorted_wrt_map sorted_wrt_filter)
    show "sorted_wrt (<) (filter (\<lambda>n. n \<notin> fst ` set es) (map fst cfg))"
      using old(1) by (rule sorted_wrt_filter)
    have "n \<in> fst ` set (filter (\<lambda>e. \<not> refreshed (snd e)) ?new) \<longleftrightarrow> (\<exists>c. map_of ?new n = Some c \<and> \<not> refreshed c)" for n
      using dist by (force simp: map_of_eq_Some_iff)
    moreover have "(\<exists>c. map_of ?new n = Some c \<and> \<not> refreshed c) \<longleftrightarrow> n \<in> fst ` set cfg \<and> n \<notin> fst ` set es" for n
      using fresh[of n] old(2)[of n] map_of_eq_None_iff[of "rev es" n] map_of_eq_None_iff[of cfg n]
      by (cases "map_of cfg n"; cases "map_of (rev es) n") auto
    ultimately show "set (map fst (filter (\<lambda>e. \<not> refreshed (snd e)) ?new)) = set (filter (\<lambda>n. n \<notin> fst ` set es) (map fst cfg))"
      by auto
  qed
  then show "udc_sent (drop_stale u) = udc_sent u @ map UdcDeleted (filter (\<lambda>n. n \<notin> fst ` set es) (map fst cfg))"
    using erase_stale_sent[of ?new]
    by (simp add: drop_stale_def case_prod_unfold Let_def del: map_map flip: map_map)
qed

text \<open>The document asks for the entries \<open>vs\<close>; a configuration without the section asks for none.\<close>

fun asks_for :: "'d json \<Rightarrow> 'd json list \<Rightarrow> bool" where
  "asks_for (JObject ms) vs \<longleftrightarrow>
     (case map_of ms ''global_system_config'' of
        Some (JObject gsc) \<Rightarrow>
          (case map_of gsc ''user_defined_log_statistics'' of
             None \<Rightarrow> vs = []
           | Some (JObject st) \<Rightarrow> map_of st ''statlist'' = Some (JArray vs)
           | _ \<Rightarrow> False)
      | _ \<Rightarrow> False)"
| "asks_for _ _ \<longleftrightarrow> False"

lemma UDCHandler_asks:
  assumes "asks_for jdoc vs"
  shows "UDCHandler lib jdoc True u = bind_checked (foldl_checked (add_entry lib) u vs) (\<lambda>u'. Done (drop_stale u'))"
proof -
  from assms obtain ms gsc where jdoc: "jdoc = JObject ms" and gsc: "map_of ms ''global_system_config'' = Some (JObject gsc)"
    by (cases jdoc) (auto split: option.splits json.splits)
  show ?thesis
  proof (cases "map_of gsc ''user_defined_log_statistics''")
    case None
    with assms have "vs = []" by (simp add: jdoc gsc)
    with None show ?thesis by (simp add: UDCHandler_def jdoc gsc del: bind_checked_Done_iff)
  next
    case (Some v)
    with assms obtain st where "v = JObject st" "map_of st ''statlist'' = Some (JArray vs)"
      by (cases v) (auto simp: jdoc gsc)
    with Some show ?thesis by (simp add: UDCHandler_def jdoc gsc del: bind_checked_Done_iff)
  qed
qed

lemma udc_inv_lookup: "udc_inv lib u \<Longrightarrow> map_of (udc_config u) n = Some c \<Longrightarrow> udc_name c = n \<and> \<not> refreshed c \<and> valid_regex lib (regexp_str c)"
  by (drule map_of_SomeD) (auto simp: udc_inv_def list_all_iff)

lemma listed_valid: "list_all (good_entry lib) vs \<Longrightarrow> (n, p) \<in> set (listed vs) \<Longrightarrow> valid_regex lib p"
  by (induction vs) (auto simp: listed_def intro: good_entry_valid split: option.splits)

text \<open>
  C26: the table of counters follows the configuration document. After an update exactly the listed names are
  configured, each with the last pattern listed for it, whatever was configured before; a deletion is
  announced exactly for the names that have gone, in their order; and the invariant of the table (ordered,
  no mark of an earlier update left, patterns the library accepts) holds again.
\<close>

theorem config_follows_document:
  assumes "udc_inv lib u" and "asks_for jdoc vs" and "list_all (good_entry lib) vs"
  shows "\<exists>u'. UDCHandler lib jdoc True u = Done u' \<and> udc_inv lib u' \<and>
    map_of (udc_config u') = (\<lambda>n. map_option (\<lambda>p. \<lparr>refreshed = False, udc_name = n, regexp_str = p\<rparr>) (map_of (rev (listed vs)) n)) \<and>
    udc_sent u' = udc_sent u @ map UdcDeleted (filter (\<lambda>n. n \<notin> fst ` set (listed vs)) (map fst (udc_config u)))"
proof -
  note old = udc_inv_lookup[OF assms(1)]
  from assms(1) have srt: "sorted_map (udc_config u)" by (simp add: udc_inv_def)
  then have "updating (udc_config u) [] u" by (simp add: updating_def)
  from entries_updating[OF this assms(3)] old obtain u1 where
    u1: "foldl_checked (add_entry lib) u vs = Done u1" "updating (udc_config u) (listed vs) u1" "udc_sent u1 = udc_sent u"
    by auto
  note new = drop_stale_updated[OF u1(2) srt]
  have lookup: "map_of (udc_config (drop_stale u1)) n =
      map_option (\<lambda>p. \<lparr>refreshed = False, udc_name = n, regexp_str = p\<rparr>) (map_of (rev (listed vs)) n)" for n
    by (rule new(1)) (use old in blast)
  have srt': "sorted_map (udc_config (drop_stale u1))" by (rule new(2)) (use old in blast)
  have entry: "udc_name c = n \<and> \<not> refreshed c \<and> valid_regex lib (regexp_str c)" if "(n, c) \<in> set (udc_config (drop_stale u1))" for n c
  proof -
    from srt' that have "map_of (udc_config (drop_stale u1)) n = Some c" by (simp add: strict_sorted_iff)
    with lookup[of n] obtain p where "map_of (rev (listed vs)) n = Some p" "c = \<lparr>refreshed = False, udc_name = n, regexp_str = p\<rparr>"
      by (cases "map_of (rev (listed vs)) n") simp_all
    with listed_valid[OF assms(3), of n p] map_of_SomeD[of "rev (listed vs)" n p] show ?thesis by simp
  qed
  with srt' have "udc_inv lib (drop_stale u1)" by (auto simp: udc_inv_def list_all_iff)
  moreover have "udc_sent (drop_stale u1) = udc_sent u @ map UdcDeleted (filter (\<lambda>n. n \<notin> fst ` set (listed vs)) (map fst (udc_config u)))"
    using new(3) old u1(3) by simp
  ultimately show ?thesis using UDCHandler_asks[OF assms(2), of lib u] u1(1) lookup by auto
qed

theorem config_follows_document_witness:
  "\<exists>u'. UDCHandler \<lparr>valid_regex = (\<lambda>_. True), regex_search = (\<lambda>_ _ _ _. None)\<rparr>
      (JObject [(''global_system_config'', JObject [(''user_defined_log_statistics'', JObject [(''statlist'',
         JArray [JObject [(''name'', JString ''b''), (''pattern'', JString ''x'')], JNull :: nat json])])])]) True
      \<lparr>udc_config = [(''a'', \<lparr>refreshed = False, udc_name = ''a'', regexp_str = ''y''\<rparr>)], udc_sent = []\<rparr> = Done u' \<and>
    udc_sent u' = [UdcDeleted ''a''] \<and> map_of (udc_config u') ''b'' = Some \<lparr>refreshed = False, udc_name = ''b'', regexp_str = ''x''\<rparr>"
proof -
  let ?lib = "\<lparr>valid_regex = (\<lambda>_. True), regex_search = (\<lambda>_ _ _ _. None)\<rparr>"
  let ?u = "\<lparr>udc_config = [(''a'', \<lparr>refreshed = False, udc_name = ''a'', regexp_str = ''y''\<rparr>)], udc_sent = []\<rparr>"
  let ?vs = "[JObject [(''name'', JString ''b''), (''pattern'', JString ''x'')], JNull :: nat json]"
  let ?doc = "JObject [(''global_system_config'', JObject [(''user_defined_log_statistics'', JObject [(''statlist'', JArray ?vs)])])]"
  have "udc_inv ?lib ?u" by (simp add: udc_inv_def)
  moreover have "asks_for ?doc ?vs" by simp
  moreover have "list_all (good_entry ?lib) ?vs" by simp
  ultimately have "\<exists>u'. UDCHandler ?lib ?doc True ?u = Done u' \<and> udc_inv ?lib u' \<and>
    map_of (udc_config u') = (\<lambda>n. map_option (\<lambda>p. \<lparr>refreshed = False, udc_name = n, regexp_str = p\<rparr>) (map_of (rev (listed ?vs)) n)) \<and>
    udc_sent u' = udc_sent ?u @ map UdcDeleted (filter (\<lambda>n. n \<notin> fst ` set (listed ?vs)) (map fst (udc_config ?u)))"
    by (rule config_follows_document)
  then obtain u' where u': "UDCHandler ?lib ?doc True ?u = Done u'"
    "map_of (udc_config u') = (\<lambda>n. map_option (\<lambda>p. \<lparr>refreshed = False, udc_name = n, regexp_str = p\<rparr>) (map_of (rev (listed ?vs)) n))"
    "udc_sent u' = udc_sent ?u @ map UdcDeleted (filter (\<lambda>n. n \<notin> fst ` set (listed ?vs)) (map fst (udc_config ?u)))"
    by (elim exE conjE)
  have "listed ?vs = [(''b'', ''x'')]" by (simp add: listed_def c_str_def)
  with u' show ?thesis by (intro exI[of _ u']) simp
qed

section \<open>The search\<close>

text \<open>The matches a search finds one after the other: where the library says it ends, the next one begins.\<close>

fun match_ends :: "(string \<Rightarrow> nat \<Rightarrow> bool \<Rightarrow> (nat \<times> nat) option) \<Rightarrow> string \<Rightarrow> nat \<Rightarrow> bool \<Rightarrow> nat list \<Rightarrow> bool" where
  "match_ends search text start continued [] \<longleftrightarrow> search text start continued = None"
| "match_ends search text start continued (e # es) \<longleftrightarrow>
     (\<exists>b. search text start continued = Some (b, e)) \<and> match_ends search text e True es"

lemma search_loop_counts:
  "match_ends search text start continued es \<Longrightarrow> search_loop search text start continued cnt = Some (cnt + of_nat (length es))"
proof (induction es arbitrary: start continued cnt)
  case Nil
  then show ?case by (subst search_loop.simps) simp
next
  case (Cons e es)
  then show ?case by (subst search_loop.simps) (auto simp: ac_simps)
qed

lemma match_ends_exist:
  assumes "\<And>s c b e. s \<le> length text \<Longrightarrow> search text s c = Some (b, e) \<Longrightarrow> s < e \<and> e \<le> length text"
    and "start \<le> length text"
  shows "\<exists>es. match_ends search text start continued es \<and> length es \<le> length text - start"
  using assms(2)
proof (induction "length text - start" arbitrary: start continued rule: less_induct)
  case less
  show ?case
  proof (cases "search text start continued")
    case None
    then show ?thesis by (intro exI[of _ "[]"]) simp
  next
    case (Some m)
    obtain b e where m: "m = (b, e)" by (cases m)
    with assms(1)[of start continued b e] Some less.prems have e: "start < e" "e \<le> length text" by auto
    then have "length text - e < length text - start" by simp
    from less.hyps[OF this e(2), of True] obtain es where "match_ends search text e True es" "length es \<le> length text - e"
      by blast
    with Some m e show ?thesis by (intro exI[of _ "e # es"]) auto
  qed
qed

lemma search_loop_stuck:
  assumes "search text start True = Some (b, start)"
  shows "search_loop search text start True cnt = None"
proof (rule ccontr)
  assume "search_loop search text start True cnt \<noteq> None"
  then obtain r where run: "search_loop search text start True cnt = Some r" by blast
  have "search = search \<longrightarrow> text = text \<longrightarrow> True \<longrightarrow> start \<noteq> start"
  proof (rule search_loop.raw_induct[of "\<lambda>sr t s c k r. sr = search \<longrightarrow> t = text \<longrightarrow> c \<longrightarrow> s \<noteq> start", OF _ run])
    fix step sr t s c k r
    assume IH: "\<And>sr t s c k r. step sr t s c k = Some r \<Longrightarrow> sr = search \<longrightarrow> t = text \<longrightarrow> c \<longrightarrow> s \<noteq> start"
      and "(case sr t s c of None \<Rightarrow> Some k | Some (x, e) \<Rightarrow> step sr t e True (k + 1)) = Some r"
    with assms show "sr = search \<longrightarrow> t = text \<longrightarrow> c \<longrightarrow> s \<noteq> start"
      using IH[of search "text" start True "k + 1" r] by auto
  qed
  then show False by simp
qed

definition matches :: "regex_lib \<Rightarrow> string \<Rightarrow> string \<Rightarrow> bool" where
  "matches lib pat text \<longleftrightarrow> regex_search lib pat text 0 False \<noteq> None"

lemma match_ends_Nil_iff: "match_ends search text start c es \<Longrightarrow> es = [] \<longleftrightarrow> search text start c = None"
  by (cases es) auto

lemma SearchPattern_matches:
  assumes "\<And>s c b e. s \<le> length text \<Longrightarrow> regex_search lib pat text s c = Some (b, e) \<Longrightarrow> s < e \<and> e \<le> length text"
    and "length text < 2 ^ 32"
  shows "\<exists>k. SearchPattern lib pat text = Some k \<and> (k \<noteq> 0 \<longleftrightarrow> matches lib pat text)"
proof -
  have "\<exists>es. match_ends (regex_search lib pat) text 0 False es \<and> length es \<le> length text - 0"
    by (rule match_ends_exist) (use assms(1) in auto)
  then obtain es where es: "match_ends (regex_search lib pat) text 0 False es" "length es \<le> length text" by auto
  from search_loop_counts[OF es(1), of 0]
  have "SearchPattern lib pat text = Some (of_nat (length es))"
    by (simp add: SearchPattern_def)
  moreover have "length es < 2 ^ 32" using es(2) assms(2) by simp
  then have "(of_nat (length es) :: u32) \<noteq> 0 \<longleftrightarrow> es \<noteq> []"
    using nat_dvd_not_less[of "length es" "2 ^ 32"] by (auto simp: word_of_nat_eq_0_iff)
  ultimately show ?thesis using match_ends_Nil_iff[OF es(1)] by (auto simp: matches_def)
qed

text \<open>
  Every counter whose pattern occurs in a message is incremented once. With patterns that match at least
  one character wherever they are found (boost reports matches inside the text), filtering a text
  returns: it sends one event for each configured name whose pattern occurs, in the order of the names,
  and adds exactly these names to the words of the message.
\<close>

theorem match_filter_counts_once:
  assumes "length text < 2 ^ 32"
    and "\<forall>(n, c) \<in> set (udc_config u). \<forall>s k b e. s \<le> length text \<longrightarrow>
           regex_search lib (regexp_str c) text s k = Some (b, e) \<longrightarrow> s < e \<and> e \<le> length text"
  shows "\<exists>u' words'. MatchFilter lib text words u = Some (u', words') \<and> udc_config u' = udc_config u \<and>
    (let hit = map fst (filter (\<lambda>(_, c). matches lib (regexp_str c) text) (udc_config u))
     in udc_sent u' = udc_sent u @ map UdcEvent hit \<and> words' = words \<union> set hit)"
proof -
  have "match_filter_loop lib text cfg sent words =
      (let hit = map fst (filter (\<lambda>(_, c). matches lib (regexp_str c) text) cfg) in Some (sent @ map UdcEvent hit, words \<union> set hit))"
    if "\<forall>(n, c) \<in> set cfg. \<forall>s k b e. s \<le> length text \<longrightarrow>
           regex_search lib (regexp_str c) text s k = Some (b, e) \<longrightarrow> s < e \<and> e \<le> length text"
    for cfg sent words using that
  proof (induction cfg arbitrary: sent words)
    case (Cons e cfg)
    obtain n c where e: "e = (n, c)" by (cases e)
    have "\<exists>k. SearchPattern lib (regexp_str c) text = Some k \<and> (k \<noteq> 0 \<longleftrightarrow> matches lib (regexp_str c) text)"
      by (rule SearchPattern_matches[OF _ assms(1)]) (use Cons.prems in \<open>auto simp: e\<close>)
    then obtain k where "SearchPattern lib (regexp_str c) text = Some k" "k \<noteq> 0 \<longleftrightarrow> matches lib (regexp_str c) text" by blast
    with Cons.IH Cons.prems show ?case by (auto simp: e Let_def)
  qed simp
  from this[OF assms(2)] show ?thesis by (simp add: MatchFilter_def Let_def)
qed

text \<open>
  C39: a pattern that matches the empty string hangs the collector. When the library finds an empty match
  at the start of the text, and finds it there again, the search for further matches starts at the same
  place for ever: filtering any text with such a counter configured does not return.
\<close>

theorem empty_match_never_returns:
  assumes "(n, c) \<in> set (udc_config u)"
    and "regex_search lib (regexp_str c) text 0 False = Some (0, 0)" and "regex_search lib (regexp_str c) text 0 True = Some (0, 0)"
  shows "MatchFilter lib text words u = None"
proof -
  have "SearchPattern lib (regexp_str c) text = None"
    unfolding SearchPattern_def
    by (subst search_loop.simps) (simp add: assms(2) search_loop_stuck[where b = 0] assms(3))
  then have "match_filter_loop lib text cfg sent words = None" if "(n, c) \<in> set cfg" for cfg sent words
    using that by (induction cfg arbitrary: sent words) (auto split: option.splits)
  with assms(1) show ?thesis by (simp add: MatchFilter_def)
qed

text \<open>A concrete library: a pattern is found where the text begins with it.\<close>

definition literal_search :: "string \<Rightarrow> string \<Rightarrow> nat \<Rightarrow> bool \<Rightarrow> (nat \<times> nat) option" where
  "literal_search pat text start continued =
     map_option (\<lambda>i. (i, i + length pat)) (find (\<lambda>i. take (length pat) (drop i text) = pat) [start..<Suc (length text)])"

lemma literal_search_progress:
  assumes "pat \<noteq> ''''" and "literal_search pat text s k = Some (b, e)"
  shows "s < e \<and> e \<le> length text"
proof -
  from assms(2) obtain i where i: "find (\<lambda>i. take (length pat) (drop i text) = pat) [s..<Suc (length text)] = Some i" "e = i + length pat"
    by (auto simp: literal_search_def)
  then have "s \<le> i" "i \<le> length text" "take (length pat) (drop i text) = pat"
    by (auto simp: find_Some_iff nth_append split: if_splits)
  moreover from this(3) have "length pat \<le> length text - i" by (metis length_drop length_take min.cobounded1)
  moreover have "0 < length pat" using assms(1) by simp
  ultimately show ?thesis using i(2) by linarith
qed

theorem match_filter_counts_once_witness:
  "let lib = \<lparr>valid_regex = (\<lambda>_. True), regex_search = literal_search\<rparr>;
       u = \<lparr>udc_config = [(''a'', \<lparr>refreshed = False, udc_name = ''a'', regexp_str = ''up''\<rparr>)], udc_sent = []\<rparr>
   in \<exists>u'. MatchFilter lib ''link up'' {} u = Some (u', {''a''}) \<and> udc_sent u' = [UdcEvent ''a'']"
proof -
  let ?lib = "\<lparr>valid_regex = (\<lambda>_. True), regex_search = literal_search\<rparr>"
  let ?c = "\<lparr>refreshed = False, udc_name = ''a'', regexp_str = ''up''\<rparr>"
  let ?u = "\<lparr>udc_config = [(''a'', ?c)], udc_sent = []\<rparr>"
  have len: "length ''link up'' < 2 ^ 32" by simp
  have "\<forall>(n, c) \<in> set (udc_config ?u). \<forall>s k b e. s \<le> length ''link up'' \<longrightarrow>
      regex_search ?lib (regexp_str c) ''link up'' s k = Some (b, e) \<longrightarrow> s < e \<and> e \<le> length ''link up''"
    using literal_search_progress[of "''up''" "''link up''"] by (simp del: list.size)
  from match_filter_counts_once[OF len this, of "{}"] obtain u' w where
    u': "MatchFilter ?lib ''link up'' {} ?u = Some (u', w)"
      "udc_sent u' = udc_sent ?u @ map UdcEvent (map fst (filter (\<lambda>(_, c). matches ?lib (regexp_str c) ''link up'') (udc_config ?u)))"
      "w = {} \<union> set (map fst (filter (\<lambda>(_, c). matches ?lib (regexp_str c) ''link up'') (udc_config ?u)))"
    unfolding Let_def by (elim exE conjE)
  have "matches ?lib ''up'' ''link up''" by (simp add: matches_def literal_search_def upt_rec)
  with u' show ?thesis by (auto simp: Let_def)
qed

theorem empty_match_never_returns_witness:
  "MatchFilter \<lparr>valid_regex = (\<lambda>_. True), regex_search = literal_search\<rparr> ''x'' {}
     \<lparr>udc_config = [(''a'', \<lparr>refreshed = False, udc_name = ''a'', regexp_str = ''''\<rparr>)], udc_sent = []\<rparr> = None"
  by (rule empty_match_never_returns[of "''a''" "\<lparr>refreshed = False, udc_name = ''a'', regexp_str = ''''\<rparr>"])
    (simp_all add: literal_search_def)

end
