(* ===== verification/Stat_Walker.thy ===== *)
theory Stat_Walker
  imports Db_Handler
begin

text \<open>
  \<open>stat_walker.cc\<close>: the helper that turns a nested statistics structure into calls of
  \<open>StatTableInsert\<close>. The client pushes a node for every structure it enters and pops it when its children
  are done; a pop makes one call, with the tags of all nodes on the stack. The calls are recorded in the
  state of the walker; a failed \<open>VIZD_ASSERT\<close> is \<open>Abort\<close>.
\<close>

record 'd TagVal =
  tv_prefix :: "string \<times> 'd Var"
  tv_val :: "'d Var"

type_synonym 'd StatTagMap = "(string \<times> 'd TagVal) list"

record 'd StatNode =
  sn_name :: string
  sn_tags :: "'d StatTagMap"
  sn_attribs :: "'d AttribMap"

text \<open>The arguments of one call: attribute name, tags and attributes (timestamp and statistics name are
  those of the walker).\<close>

type_synonym 'd stat_call = "string \<times> 'd DbTagMap \<times> 'd AttribMap"

record 'd StatWalker =
  top_tags :: "'d StatTagMap"
  nodes :: "'d StatNode list"
  calls :: "'d stat_call list"

definition new_StatWalker :: "'d StatTagMap \<Rightarrow> 'd StatWalker" where
  "new_StatWalker tags = \<lparr>top_tags = tags, nodes = [], calls = []\<rparr>"

definition dotted :: "string \<Rightarrow> string \<Rightarrow> string" where
  "dotted prename name = (if prename = '''' then name else prename @ ''.'' @ name)"

definition prename :: "'d StatNode list \<Rightarrow> string" where
  "prename ns = foldl (\<lambda>p n. dotted p (sn_name n)) '''' ns"

fun qualify :: "string \<Rightarrow> (string \<times> 'v) list \<Rightarrow> (string \<times> 'v) list \<Rightarrow> (string \<times> 'v) list outcome" where
  "qualify pre [] m = Ret m"
| "qualify pre ((k, v) # kvs) m = (if CHR ''.'' \<in> set k then Abort else qualify pre kvs (map_insert (pre @ ''.'' @ k) v m))"

definition Push :: "string \<Rightarrow> 'd StatTagMap \<Rightarrow> 'd AttribMap \<Rightarrow> 'd StatWalker \<Rightarrow> 'd StatWalker outcome" where
  "Push name tags attribs w =
     (let pre = dotted (prename (nodes w)) name
      in bind_outcome (qualify pre tags []) (\<lambda>ts. bind_outcome (qualify pre attribs []) (\<lambda>as.
           Ret (w\<lparr>nodes := nodes w @ [\<lparr>sn_name = name, sn_tags = ts, sn_attribs = as\<rparr>]\<rparr>))))"

text \<open>\<open>find\<close> in the multimap and the update of what it found.\<close>

fun tag_update :: "string \<Rightarrow> ('a \<Rightarrow> 'a) \<Rightarrow> (string \<times> 'a) list \<Rightarrow> (string \<times> 'a) list" where
  "tag_update p f [] = []"
| "tag_update p f ((k, v) # m) = (if k = p then (k, f v) # m else (k, v) # tag_update p f m)"

definition FillTag :: "'d DbTagMap \<Rightarrow> string \<times> 'd TagVal \<Rightarrow> 'd DbTagMap" where
  "FillTag m t =
     (let (key, tv) = t;
          (pname, pval, sname, sval) =
            (if snd (tv_prefix tv) = VInvalid then (key, tv_val tv, '''', VInvalid)
             else (fst (tv_prefix tv), snd (tv_prefix tv), key, tv_val tv))
      in case map_of m pname of
           None \<Rightarrow> multimap_insert pname (pval, if sval \<noteq> VInvalid then [(sname, sval)] else []) m
         | Some _ \<Rightarrow> if sval \<noteq> VInvalid then tag_update pname (\<lambda>(v, amap). (v, map_insert sname sval amap)) m else m)"

text \<open>The tags as attributes: \<open>insert\<close> keeps what is there.\<close>

definition add_tag_attribs :: "'d AttribMap \<Rightarrow> string \<times> 'd Var \<times> 'd AttribMap \<Rightarrow> 'd AttribMap" where
  "add_tag_attribs attribs t =
     (let (k, v, amap) = t in foldl (\<lambda>a (k', v'). map_insert k' v' a) (map_insert k v attribs) amap)"

definition node_call :: "'d StatTagMap \<Rightarrow> 'd StatNode list \<Rightarrow> 'd stat_call" where
  "node_call tops ns =
     (let attribs_tag = foldl FillTag [] (tops @ concat (map sn_tags ns))
      in (prename ns, attribs_tag, foldl add_tag_attribs (sn_attribs (last ns)) attribs_tag))"

definition Pop :: "'d StatWalker \<Rightarrow> 'd StatWalker outcome" where
  "Pop w = (if nodes w = [] then Abort
            else Ret (w\<lparr>nodes := butlast (nodes w), calls := calls w @ [node_call (top_tags w) (nodes w)]\<rparr>))"

text \<open>The destructor asserts that everything pushed has been popped.\<close>

definition destroy_StatWalker :: "'d StatWalker \<Rightarrow> 'd stat_call list outcome" where
  "destroy_StatWalker w = (if nodes w = [] then Ret (calls w) else Abort)"

section \<open>Walking a structure\<close>

text \<open>A nested structure and the client's traversal of it.\<close>

datatype 'd stat_tree = StatTree string "'d StatTagMap" "'d AttribMap" "'d stat_tree list"

fun walk :: "'d stat_tree \<Rightarrow> 'd StatWalker \<Rightarrow> 'd StatWalker outcome"
and walks :: "'d stat_tree list \<Rightarrow> 'd StatWalker \<Rightarrow> 'd StatWalker outcome" where
  "walk (StatTree n tags attribs cs) w = bind_outcome (Push n tags attribs w) (\<lambda>w1. bind_outcome (walks cs w1) Pop)"
| "walks [] w = Ret w"
| "walks (t # ts) w = bind_outcome (walk t w) (walks ts)"

text \<open>What the walk is to report: for every node, children first, the path from the root, the tags of the
  nodes on the path and its own attributes, all with the path in front of their names.\<close>

definition on_path :: "string list \<Rightarrow> (string \<times> 'v) list \<Rightarrow> (string \<times> 'v) list" where
  "on_path path m = map (\<lambda>(k, v). (join ''.'' path @ ''.'' @ k, v)) m"

fun tree_calls :: "'d StatTagMap \<Rightarrow> string list \<Rightarrow> 'd stat_tree \<Rightarrow> 'd stat_call list"
and forest_calls :: "'d StatTagMap \<Rightarrow> string list \<Rightarrow> 'd stat_tree list \<Rightarrow> 'd stat_call list" where
  "tree_calls inherited path (StatTree n tags attribs cs) =
     (let here = path @ [n]; all_tags = inherited @ on_path here tags; merged = foldl FillTag [] all_tags
      in forest_calls all_tags here cs @ [(join ''.'' here, merged, foldl add_tag_attribs (on_path here attribs) merged)])"
| "forest_calls inherited path [] = []"
| "forest_calls inherited path (t # ts) = tree_calls inherited path t @ forest_calls inherited path ts"

fun good_tree :: "'d stat_tree \<Rightarrow> bool"
and good_forest :: "'d stat_tree list \<Rightarrow> bool" where
  "good_tree (StatTree n tags attribs cs) \<longleftrightarrow>
     n \<noteq> '''' \<and> list_all (\<lambda>(k, _). CHR ''.'' \<notin> set k) tags \<and> list_all (\<lambda>(k, _). CHR ''.'' \<notin> set k) attribs \<and>
     sorted_map tags \<and> sorted_map attribs \<and> good_forest cs"
| "good_forest [] \<longleftrightarrow> True"
| "good_forest (t # ts) \<longleftrightarrow> good_tree t \<and> good_forest ts"

section \<open>Qualified names\<close>

lemma map_insert_at_end: "sorted_map (m @ [(k, v)]) \<Longrightarrow> map_insert k v m = m @ [(k, v)]"
  by (induction k v m rule: map_insert.induct) auto

lemma prefix_less [simp]: "p @ xs < p @ ys \<longleftrightarrow> xs < (ys :: string)"
  by (induction p) auto

lemma sorted_map_qualified: "sorted_map m \<Longrightarrow> sorted_map (map (\<lambda>(k, v). (p @ k, v)) (m :: (string \<times> 'v) list))"
  by (simp add: sorted_wrt_map case_prod_unfold comp_def)

lemma qualify_appends:
  assumes "sorted_map (m @ map (\<lambda>(k, v). (pre @ ''.'' @ k, v)) kvs)" and "list_all (\<lambda>(k, _). CHR ''.'' \<notin> set k) kvs"
  shows "qualify pre kvs m = Ret (m @ map (\<lambda>(k, v). (pre @ ''.'' @ k, v)) kvs)"
  using assms
proof (induction kvs arbitrary: m)
  case (Cons kv kvs)
  obtain k v where kv: "kv = (k, v)" by (cases kv)
  let ?q = "pre @ ''.'' @ k"
  from Cons.prems(1) have "sorted_map (m @ [(?q, v)])" by (auto simp: kv sorted_wrt_append)
  then have ins: "map_insert ?q v m = m @ [(?q, v)]" by (rule map_insert_at_end)
  from Cons.prems have "CHR ''.'' \<notin> set k" "list_all (\<lambda>(k, _). CHR ''.'' \<notin> set k) kvs" by (auto simp: kv)
  with Cons.IH[of "m @ [(?q, v)]"] Cons.prems(1) ins show ?case by (simp add: kv)
qed simp

lemma qualify_good:
  assumes "sorted_map kvs" and "list_all (\<lambda>(k, _). CHR ''.'' \<notin> set k) kvs"
  shows "qualify (join ''.'' path) kvs [] = Ret (on_path path kvs)"
  using qualify_appends[of "[]" "join ''.'' path" kvs] sorted_map_qualified[OF assms(1), of "join ''.'' path @ ''.''"] assms(2)
  by (simp add: on_path_def)

lemma join_snoc: "join sep (xs @ [x]) = (if xs = [] then x else join sep xs @ sep @ x)"
  by (induction sep xs rule: join.induct) auto

lemma join_eq_Nil: "list_all (\<lambda>x. x \<noteq> '''') xs \<Longrightarrow> join ''.'' xs = '''' \<longleftrightarrow> xs = []"
  by (induction "''.''" xs rule: join.induct) auto

lemma prename_join:
  assumes "list_all (\<lambda>n. sn_name n \<noteq> '''') ns"
  shows "prename ns = join ''.'' (map sn_name ns)"
  using assms
proof (induction ns rule: rev_induct)
  case (snoc n ns)
  have "prename (ns @ [n]) = dotted (prename ns) (sn_name n)" by (simp add: prename_def)
  with snoc join_eq_Nil[of "map sn_name ns"] show ?case
    by (simp add: dotted_def join_snoc list_all_iff)
qed (simp add: prename_def)

section \<open>The walk reports the structure\<close>

lemma Push_good:
  assumes "good_tree (StatTree n tags attribs cs)" and "list_all (\<lambda>n. sn_name n \<noteq> '''') (nodes w)"
  shows "Push n tags attribs w = Ret (w\<lparr>nodes := nodes w @ [\<lparr>sn_name = n,
           sn_tags = on_path (map sn_name (nodes w) @ [n]) tags, sn_attribs = on_path (map sn_name (nodes w) @ [n]) attribs\<rparr>]\<rparr>)"
proof -
  let ?path = "map sn_name (nodes w) @ [n]"
  have "dotted (prename (nodes w)) n = join ''.'' ?path"
    using prename_join[OF assms(2)] join_eq_Nil[of "map sn_name (nodes w)"] assms(2)
    by (simp add: dotted_def join_snoc list_all_iff)
  with assms(1) show ?thesis by (simp add: Push_def Let_def qualify_good)
qed

lemma Pop_good:
  assumes "list_all (\<lambda>n. sn_name n \<noteq> '''') (ns @ [s])"
  shows "Pop (w\<lparr>nodes := ns @ [s], calls := cs\<rparr>) = Ret (w\<lparr>nodes := ns, calls := cs @
           [let tags = foldl FillTag [] (top_tags w @ concat (map sn_tags ns) @ sn_tags s)
            in (join ''.'' (map sn_name ns @ [sn_name s]), tags, foldl add_tag_attribs (sn_attribs s) tags)]\<rparr>)"
  using prename_join[OF assms] by (simp add: Pop_def node_call_def Let_def)

lemma walk_reports:
  fixes t :: "'d stat_tree" and ts :: "'d stat_tree list" and w :: "'d StatWalker"
  shows "good_tree t \<Longrightarrow> list_all (\<lambda>n. sn_name n \<noteq> '''') (nodes w) \<Longrightarrow>
           walk t w = Ret (w\<lparr>calls := calls w @
             tree_calls (top_tags w @ concat (map sn_tags (nodes w))) (map sn_name (nodes w)) t\<rparr>)"
    and "good_forest ts \<Longrightarrow> list_all (\<lambda>n. sn_name n \<noteq> '''') (nodes w) \<Longrightarrow>
           walks ts w = Ret (w\<lparr>calls := calls w @
             forest_calls (top_tags w @ concat (map sn_tags (nodes w))) (map sn_name (nodes w)) ts\<rparr>)"
proof (induction t w and ts w rule: walk_walks.induct)
  case (1 n tags attribs cs w)
  let ?path = "map sn_name (nodes w) @ [n]"
  let ?s = "\<lparr>sn_name = n, sn_tags = on_path ?path tags, sn_attribs = on_path ?path attribs\<rparr>"
  let ?w1 = "w\<lparr>nodes := nodes w @ [?s]\<rparr>"
  let ?tags = "top_tags w @ concat (map sn_tags (nodes w)) @ on_path ?path tags"
  note push = Push_good[OF 1(2,3)]
  have names: "list_all (\<lambda>n. sn_name n \<noteq> '''') (nodes w @ [?s])" using 1(2,3) by simp
  have "walks cs ?w1 = Ret (?w1\<lparr>calls := calls w @ forest_calls ?tags ?path cs\<rparr>)"
    using 1(1)[of ?w1] 1(2) names by simp
  then show ?case
    using push Pop_good[OF names, of "calls w @ forest_calls ?tags ?path cs" w] by (simp add: Let_def)
next
  case (3 t ts w)
  then show ?case by simp
qed simp

text \<open>
  The walk reports the structure. Pushing and popping the nodes of nested structures in the order of
  the traversal meets every assertion of the walker, its destructor included, and makes one call per node,
  children before their parent: with the path of names as the attribute name, the tags of the walker and
  of the nodes on the path, and the attributes of the node itself, each under its full name.
\<close>

theorem walk_reports_structure:
  assumes "good_forest ts"
  shows "bind_outcome (walks ts (new_StatWalker tops)) destroy_StatWalker = Ret (forest_calls tops [] ts)"
  using walk_reports(2)[OF assms, of "new_StatWalker tops"]
  by (simp add: new_StatWalker_def destroy_StatWalker_def)

theorem walk_reports_structure_witness:
  "bind_outcome (walks [StatTree ''vm'' [(''name'', \<lparr>tv_prefix = ('''', VInvalid), tv_val = VString ''v1''\<rparr>)] [(''cpu'', VUint64 7)]
      [StatTree ''disk'' [] [(''used'', VUint64 9)] []]] (new_StatWalker ([] :: nat StatTagMap))) destroy_StatWalker =
   Ret [(''vm.disk'', [(''vm.name'', VString ''v1'', [])], [(''vm.disk.used'', VUint64 9), (''vm.name'', VString ''v1'')]),
        (''vm'', [(''vm.name'', VString ''v1'', [])], [(''vm.cpu'', VUint64 7), (''vm.name'', VString ''v1'')])]"
proof -
  have "good_forest [StatTree ''vm'' [(''name'', \<lparr>tv_prefix = ('''', VInvalid), tv_val = VString ''v1''\<rparr>)] [(''cpu'', VUint64 7)]
      [StatTree ''disk'' [] [(''used'', VUint64 9)] []]]" by simp
  from walk_reports_structure[OF this, of "[] :: nat StatTagMap"] show ?thesis
    by (simp add: on_path_def FillTag_def add_tag_attribs_def Let_def)
qed

section \<open>Inherited tags\<close>

text \<open>What one tag contributes: the first-level name and value, and the second-level pair it may carry.\<close>

definition tag_primary :: "string \<times> 'd TagVal \<Rightarrow> string \<times> 'd Var" where
  "tag_primary t = (if snd (tv_prefix (snd t)) = VInvalid then (fst t, tv_val (snd t)) else tv_prefix (snd t))"

definition tag_secondary :: "string \<times> 'd TagVal \<Rightarrow> (string \<times> 'd Var) list" where
  "tag_secondary t = (if snd (tv_prefix (snd t)) = VInvalid \<or> tv_val (snd t) = VInvalid then [] else [(fst t, tv_val (snd t))])"

definition good_tag_map :: "'d DbTagMap \<Rightarrow> bool" where
  "good_tag_map m \<longleftrightarrow> sorted_map m \<and> list_all (\<lambda>(_, _, amap). sorted_map amap) m"

lemma map_of_multimap_insert:
  "map_of m k = None \<Longrightarrow> map_of (multimap_insert k v m) = (map_of m)(k \<mapsto> v)"
  by (induction k v m rule: multimap_insert.induct) (auto split: if_splits)

lemma set_multimap_insert [simp]: "set (multimap_insert k v m) = insert (k, v) (set m)"
  by (induction k v m rule: multimap_insert.induct) auto

lemma sorted_multimap_insert:
  "map_of m k = None \<Longrightarrow> sorted_map m \<Longrightarrow> sorted_map (multimap_insert k v m)"
  by (induction k v m rule: multimap_insert.induct) (auto split: if_splits)

lemma map_of_tag_update: "map_of (tag_update p f m) = (\<lambda>x. if x = p then map_option f (map_of m p) else map_of m x)"
  by (induction p f m rule: tag_update.induct) auto

lemma fst_tag_update [simp]: "map fst (tag_update p f m) = map fst m"
  by (induction p f m rule: tag_update.induct) auto

lemma FillTag_alt:
  "FillTag m t =
     (let (pname, pval) = tag_primary t
      in case map_of m pname of
           None \<Rightarrow> multimap_insert pname (pval, tag_secondary t) m
         | Some _ \<Rightarrow> tag_update pname (\<lambda>(v, amap). (v, foldl (\<lambda>a (k, v). map_insert k v a) amap (tag_secondary t))) m)"
proof -
  have upd: "tag_update p (\<lambda>(v, amap). (v, amap)) m = m" for p and m :: "'a DbTagMap"
    by (induction m) (auto split: if_splits)
  then have upd': "tag_update p id m = m" for p and m :: "'a DbTagMap"
    by (simp add: id_def case_prod_eta)
  show ?thesis
    by (auto simp: FillTag_def tag_primary_def tag_secondary_def Let_def upd upd' split: option.splits prod.splits)
qed

lemma good_tag_map_update:
  assumes "good_tag_map m"
  shows "good_tag_map (tag_update p (\<lambda>(v, amap). (v, foldl (\<lambda>a (k, v). map_insert k v a) amap kvs)) m)"
proof -
  have srt: "sorted_map amap \<Longrightarrow> sorted_map (foldl (\<lambda>a (k, v). map_insert k v a) amap kvs)" for amap :: "'a AttribMap"
    by (induction kvs arbitrary: amap) (auto simp: sorted_map_insert)
  have "list_all (\<lambda>(_, _, amap). sorted_map amap) (tag_update p (\<lambda>(v, amap). (v, foldl (\<lambda>a (k, v). map_insert k v a) amap kvs)) m)"
    if "list_all (\<lambda>(_, _, amap). sorted_map amap) m"
    using that by (induction m) (auto simp: srt)
  with assms show ?thesis by (simp add: good_tag_map_def)
qed

lemma FillTag_good: "good_tag_map m \<Longrightarrow> good_tag_map (FillTag m t)"
  using good_tag_map_update[of m "fst (tag_primary t)" "tag_secondary t"]
  by (auto simp: FillTag_alt good_tag_map_def Let_def list_all_iff sorted_multimap_insert tag_secondary_def
      split: option.splits prod.splits)

lemma map_of_FillTag:
  "map_of (FillTag m t) p =
     (if p = fst (tag_primary t)
      then Some (case map_of m p of None \<Rightarrow> (snd (tag_primary t), tag_secondary t)
                 | Some (v, amap) \<Rightarrow> (v, foldl (\<lambda>a (k, v). map_insert k v a) amap (tag_secondary t)))
      else map_of m p)"
  by (auto simp: FillTag_alt Let_def map_of_multimap_insert map_of_tag_update split: option.splits prod.splits)

lemma map_of_insert_all:
  "sorted_map m \<Longrightarrow> map_of (foldl (\<lambda>a (k, v). map_insert k v a) m kvs) x =
     (case map_of m x of Some v \<Rightarrow> Some v | None \<Rightarrow> map_of kvs x)"
  by (induction kvs arbitrary: m) (auto simp: sorted_map_insert map_of_insert split: option.splits)

lemma sorted_insert_all: "sorted_map m \<Longrightarrow> sorted_map (foldl (\<lambda>a (k, v). map_insert k v a) m kvs)"
  by (induction kvs arbitrary: m) (auto simp: sorted_map_insert)

lemma FillTags_good: "good_tag_map m \<Longrightarrow> good_tag_map (foldl FillTag m ts)"
  by (induction ts arbitrary: m) (auto simp: FillTag_good)

lemma primary_of_FillTags:
  "map_option fst (map_of (foldl FillTag m ts) p) =
     (case map_of m p of Some (v, _) \<Rightarrow> Some v | None \<Rightarrow> map_of (map tag_primary ts) p)"
proof (induction ts arbitrary: m)
  case (Cons t ts)
  obtain q v where "tag_primary t = (q, v)" by (cases "tag_primary t")
  with Cons[of "FillTag m t"] show ?case by (auto simp: map_of_FillTag split: option.splits)
qed (auto split: option.splits)

definition second_level :: "'d DbTagMap \<Rightarrow> string \<Rightarrow> string \<Rightarrow> 'd Var option" where
  "second_level m p s = (case map_of m p of Some (_, amap) \<Rightarrow> map_of amap s | None \<Rightarrow> None)"

lemma good_tag_map_sorted: "good_tag_map m \<Longrightarrow> map_of m p = Some (v, amap) \<Longrightarrow> sorted_map amap"
  by (drule map_of_SomeD) (auto simp: good_tag_map_def list_all_iff)

lemma secondary_of_FillTags:
  assumes "good_tag_map m"
  shows "second_level (foldl FillTag m ts) p s =
     (case second_level m p s of Some v \<Rightarrow> Some v
      | None \<Rightarrow> map_of (concat (map tag_secondary (filter (\<lambda>t. fst (tag_primary t) = p) ts))) s)"
  using assms
proof (induction ts arbitrary: m)
  case (Cons t ts)
  have "second_level (FillTag m t) p s =
      (case second_level m p s of Some v \<Rightarrow> Some v
       | None \<Rightarrow> if fst (tag_primary t) = p then map_of (tag_secondary t) s else None)"
    using good_tag_map_sorted[OF Cons.prems, of p]
    by (auto simp: second_level_def map_of_FillTag map_of_insert_all split: option.splits)
  with Cons.IH[OF FillTag_good[OF Cons.prems, of t]] show ?case
    by (auto simp: map_add_def split: option.splits)
qed (auto split: option.splits)

text \<open>The attributes after the tags have been added: insertion of all pairs in the order of the map.\<close>

definition tag_pairs :: "'d DbTagMap \<Rightarrow> (string \<times> 'd Var) list" where
  "tag_pairs m = concat (map (\<lambda>(k, v, amap). (k, v) # amap) m)"

lemma add_tag_attribs_pairs:
  "foldl add_tag_attribs a m = foldl (\<lambda>a (k, v). map_insert k v a) a (tag_pairs m)"
  by (induction m arbitrary: a) (auto simp: tag_pairs_def add_tag_attribs_def)

lemma tag_pairs_primary:
  assumes "\<And>k v amap. (k, v, amap) \<in> set m \<Longrightarrow> a \<notin> fst ` set amap"
  shows "map_of (tag_pairs m) a = map_option fst (map_of m a)"
  using assms
proof (induction m)
  case (Cons e m)
  obtain k v amap where e: "e = (k, v, amap)" by (cases e) auto
  from Cons.prems[of k v amap] have "map_of amap a = None" by (simp add: e map_of_eq_None_iff)
  with Cons.IH Cons.prems show ?case by (auto simp: e tag_pairs_def map_add_def split: option.splits)
qed (simp add: tag_pairs_def)

lemma FillTags_no_secondary:
  assumes "a \<notin> fst ` set (concat (map tag_secondary ts))" and "(k, v, amap) \<in> set (foldl FillTag [] ts)"
  shows "a \<notin> fst ` set amap"
proof -
  have good: "good_tag_map (foldl FillTag [] ts)" by (rule FillTags_good) (simp add: good_tag_map_def)
  then have "distinct (map fst (foldl FillTag [] ts))"
    by (auto simp: good_tag_map_def dest: strict_sorted_iff[THEN iffD1])
  with assms(2) have "map_of (foldl FillTag [] ts) k = Some (v, amap)" by (rule map_of_is_SomeI[rotated])
  then have "map_of amap a = second_level (foldl FillTag [] ts) k a" by (simp add: second_level_def)
  also have "\<dots> = map_of (concat (map tag_secondary (filter (\<lambda>t. fst (tag_primary t) = k) ts))) a"
    by (subst secondary_of_FillTags) (simp_all add: good_tag_map_def second_level_def)
  also have "\<dots> = None" using assms(1) by (force simp: map_of_eq_None_iff)
  finally show ?thesis by (simp add: map_of_eq_None_iff)
qed

text \<open>
  What a call inherits. Among the tags of the walker and of the nodes from the root to the current one,
  the first occurrence of a name decides: it gives a first-level tag its value and, below each first-level
  tag, a second-level tag its value. In the attributes of the call the node's own value wins over a tag of
  the same name, and a tag that is nobody's second-level tag appears with the first value it had.
\<close>

theorem outermost_tag_wins:
  assumes "node_call tops ns = (path, tags, attribs)"
    and "ts = tops @ concat (map sn_tags ns)" and "own = sn_attribs (last ns)" and "sorted_map own"
  shows "map_option fst (map_of tags p) = map_of (map tag_primary ts) p \<and>
    second_level tags p s = map_of (concat (map tag_secondary (filter (\<lambda>t. fst (tag_primary t) = p) ts))) s \<and>
    (map_of own p = Some v \<longrightarrow> map_of attribs p = Some v) \<and>
    (map_of own p = None \<longrightarrow> p \<notin> fst ` set (concat (map tag_secondary ts)) \<longrightarrow>
       map_of attribs p = map_of (map tag_primary ts) p)"
proof (intro conjI impI)
  from assms(1-3) have tags: "tags = foldl FillTag [] ts"
    and attribs: "attribs = foldl (\<lambda>a (k, v). map_insert k v a) own (tag_pairs tags)"
    by (auto simp: node_call_def Let_def add_tag_attribs_pairs)
  show prim: "map_option fst (map_of tags p) = map_of (map tag_primary ts) p"
    using primary_of_FillTags[of "[]" ts p] by (simp add: tags)
  show "second_level tags p s = map_of (concat (map tag_secondary (filter (\<lambda>t. fst (tag_primary t) = p) ts))) s"
    using secondary_of_FillTags[of "[]" ts p s] by (simp add: tags good_tag_map_def second_level_def)
  note lookup = map_of_insert_all[OF assms(4), of "tag_pairs tags" p, folded attribs]
  show "map_of own p = Some v \<Longrightarrow> map_of attribs p = Some v" by (simp add: lookup)
  assume "map_of own p = None" and "p \<notin> fst ` set (concat (map tag_secondary ts))"
  then have "map_of attribs p = map_option fst (map_of tags p)"
    using tag_pairs_primary[of tags p] FillTags_no_secondary[of p ts] by (simp add: lookup tags)
  with prim show "map_of attribs p = map_of (map tag_primary ts) p" by simp
qed

theorem outermost_tag_wins_witness:
  "map_option fst (map_of (fst (snd (node_call [(''name'', \<lparr>tv_prefix = ('''', VInvalid), tv_val = VString ''x''\<rparr>)]
     [\<lparr>sn_name = ''vm'', sn_tags = [(''name'', \<lparr>tv_prefix = ('''', VInvalid), tv_val = VUint64 1\<rparr>)], sn_attribs = []\<rparr>]))) ''name'')
   = Some (VString ''x'' :: nat Var)"
proof -
  let ?ns = "[\<lparr>sn_name = ''vm'', sn_tags = [(''name'', \<lparr>tv_prefix = ('''', VInvalid), tv_val = VUint64 1\<rparr>)], sn_attribs = []\<rparr>] :: nat StatNode list"
  let ?top = "[(''name'', \<lparr>tv_prefix = ('''', VInvalid), tv_val = VString ''x''\<rparr>)] :: nat StatTagMap"
  have "node_call ?top ?ns = (fst (node_call ?top ?ns), fst (snd (node_call ?top ?ns)), snd (snd (node_call ?top ?ns)))"
    by simp
  from outermost_tag_wins[OF this refl refl, of "''name''"] show ?thesis by (simp add: tag_primary_def)
qed

end
