(* ===== verification/Xml.thy ===== *)
theory Xml
  imports Prelude
begin

text \<open>
  The part of the pugixml interface the collector uses, on parsed documents. With the default parse options
  a document has elements and text nodes only. A handle that may be null is an \<open>option\<close>; on a null handle
  the accessors return the empty string or another null handle, as pugixml documents.
\<close>

datatype xml_node = XElement string "(string \<times> string) list" "xml_node list" | XText string

fun node_name :: "xml_node \<Rightarrow> string" where
  "node_name (XElement n _ _) = n" | "node_name (XText _) = ''''"

fun node_attributes :: "xml_node \<Rightarrow> (string \<times> string) list" where
  "node_attributes (XElement _ as _) = as" | "node_attributes (XText _) = []"

fun node_children :: "xml_node \<Rightarrow> xml_node list" where
  "node_children (XElement _ _ cs) = cs" | "node_children (XText _) = []"

text \<open>\<open>attribute(n).value()\<close>, empty when there is none, and \<open>!attribute(n).empty()\<close>.\<close>

definition attribute_value :: "xml_node \<Rightarrow> string \<Rightarrow> string" where
  "attribute_value x n = (case map_of (node_attributes x) n of Some v \<Rightarrow> v | None \<Rightarrow> '''')"

definition has_attribute :: "xml_node \<Rightarrow> string \<Rightarrow> bool" where
  "has_attribute x n \<longleftrightarrow> map_of (node_attributes x) n \<noteq> None"

fun is_element :: "xml_node \<Rightarrow> bool" where
  "is_element (XElement _ _ _) = True" | "is_element (XText _) = False"

fun text_value :: "xml_node \<Rightarrow> string option" where
  "text_value (XText s) = Some s" | "text_value (XElement _ _ _) = None"

text \<open>\<open>child_value()\<close>: the text of the first text child.\<close>

definition child_value :: "xml_node \<Rightarrow> string" where
  "child_value x = (case List.map_filter text_value (node_children x) of s # _ \<Rightarrow> s | [] \<Rightarrow> '''')"

definition child :: "xml_node \<Rightarrow> string \<Rightarrow> xml_node option" where
  "child x n = find (\<lambda>c. is_element c \<and> node_name c = n) (node_children x)"

definition first_child :: "xml_node \<Rightarrow> xml_node option" where
  "first_child x = (case node_children x of c # _ \<Rightarrow> Some c | [] \<Rightarrow> None)"

text \<open>Accessors on a handle that may be null.\<close>

definition on_node :: "(xml_node \<Rightarrow> 'a) \<Rightarrow> 'a \<Rightarrow> xml_node option \<Rightarrow> 'a" where
  "on_node f null x = (case x of None \<Rightarrow> null | Some n \<Rightarrow> f n)"

abbreviation ochild_value :: "xml_node option \<Rightarrow> string" where
  "ochild_value \<equiv> on_node child_value ''''"

abbreviation ochildren :: "xml_node option \<Rightarrow> xml_node list" where
  "ochildren \<equiv> on_node node_children []"

abbreviation oattribute :: "xml_node option \<Rightarrow> string \<Rightarrow> string" where
  "oattribute x n \<equiv> on_node (\<lambda>y. attribute_value y n) '''' x"

text \<open>\<open>find_node\<close>: the first node below, depth first, that satisfies the predicate.\<close>

fun find_node :: "(xml_node \<Rightarrow> bool) \<Rightarrow> xml_node \<Rightarrow> xml_node option"
and find_in :: "(xml_node \<Rightarrow> bool) \<Rightarrow> xml_node list \<Rightarrow> xml_node option" where
  "find_node p (XElement n as cs) = find_in p cs"
| "find_node p (XText s) = None"
| "find_in p [] = None"
| "find_in p (c # cs) =
     (if p c then Some c else case find_node p c of Some x \<Rightarrow> Some x | None \<Rightarrow> find_in p cs)"

text \<open>Iteration \<open>n = n.next_sibling().next_sibling()\<close> over keys and values: a key without a value has a null one.\<close>

fun key_value_nodes :: "xml_node list \<Rightarrow> (xml_node \<times> xml_node option) list" where
  "key_value_nodes [] = []"
| "key_value_nodes [k] = [(k, None)]"
| "key_value_nodes (k # v # rest) = (k, Some v) # key_value_nodes rest"

text \<open>The nodes below a node, in document order.\<close>

fun descendants :: "xml_node \<Rightarrow> xml_node list"
and descendants_of :: "xml_node list \<Rightarrow> xml_node list" where
  "descendants (XElement n as cs) = descendants_of cs"
| "descendants (XText s) = []"
| "descendants_of [] = []"
| "descendants_of (c # cs) = c # descendants c @ descendants_of cs"

lemma find_append: "find p (xs @ ys) = (case find p xs of Some x \<Rightarrow> Some x | None \<Rightarrow> find p ys)"
  by (induction xs) auto

lemma find_node_document_order:
  "find_node p x = find p (descendants x)" and "find_in p xs = find p (descendants_of xs)"
  by (induction p x and p xs rule: find_node_find_in.induct) (auto simp: find_append split: option.splits)

end
