(* ===== verification/Viz_Message.thy ===== *)
theory Viz_Message
  imports Db_Handler Xml "HOL-Library.Product_Lexorder"
begin

text \<open>
  \<open>viz_message.cc\<close>: the message counters the collector keeps per message type, per level and per both
  (\<open>VizMsgStatistics\<close>), and the lookup of a field in the XML of a message by a dotted name
  (\<open>RuleMsg::field_value\<close>). The names of the levels come from the sandesh library, \<open>level_to_string\<close>.
\<close>

section \<open>Message counters\<close>

record VizMsgStats =
  vs_messages :: u64
  vs_bytes :: u64
  vs_last_msg_timestamp :: u64

definition new_VizMsgStats :: VizMsgStats where
  "new_VizMsgStats = \<lparr>vs_messages = 0, vs_bytes = 0, vs_last_msg_timestamp = 0\<rparr>"

definition VizMsgStats_Update :: "VizMsg \<Rightarrow> VizMsgStats \<Rightarrow> VizMsgStats" where
  "VizMsgStats_Update vmsg s =
     s\<lparr>vs_messages := vs_messages s + 1, vs_bytes := vs_bytes s + msg_size vmsg,
       vs_last_msg_timestamp := hdr_Timestamp (msg_header vmsg)\<rparr>"

definition UpdateStats :: "'k::linorder \<Rightarrow> VizMsg \<Rightarrow> ('k \<times> VizMsgStats) list \<Rightarrow> ('k \<times> VizMsgStats) list" where
  "UpdateStats k vmsg t =
     (let t1 = (if map_of t k = None then map_insert k new_VizMsgStats t else t)
      in map_assign k (VizMsgStats_Update vmsg (the (map_of t1 k))) t1)"

record VizMsgStatistics =
  type_map :: "(string \<times> VizMsgStats) list"
  level_map :: "(string \<times> VizMsgStats) list"
  type_level_map :: "((string \<times> string) \<times> VizMsgStats) list"

definition new_VizMsgStatistics :: VizMsgStatistics where
  "new_VizMsgStatistics = \<lparr>type_map = [], level_map = [], type_level_map = []\<rparr>"

definition VizMsgStatistics_Update :: "(int \<Rightarrow> string) \<Rightarrow> VizMsg \<Rightarrow> VizMsgStatistics \<Rightarrow> VizMsgStatistics" where
  "VizMsgStatistics_Update level_to_string vmsg s =
     (let hdr = msg_header vmsg; level_str = level_to_string (hdr_Level hdr);
          s1 = s\<lparr>type_map := UpdateStats (msg_type vmsg) vmsg (type_map s)\<rparr>;
          s2 = (if hdr_Type hdr = ST_SYSTEM \<or> hdr_Type hdr = ST_SYSLOG
                then s1\<lparr>level_map := UpdateStats level_str vmsg (level_map s1)\<rparr> else s1)
      in s2\<lparr>type_level_map := UpdateStats (msg_type vmsg, level_str) vmsg (type_level_map s2)\<rparr>)"

text \<open>The three reports; the one by type and level starts a new interval.\<close>

definition Get_types :: "VizMsgStatistics \<Rightarrow> (string \<times> VizMsgStats) list" where
  "Get_types s = map (\<lambda>(k, v). (k, v)) (type_map s)"

definition Get_levels :: "VizMsgStatistics \<Rightarrow> (string \<times> VizMsgStats) list" where
  "Get_levels s = map (\<lambda>(k, v). (k, v)) (level_map s)"

definition Get_type_levels :: "VizMsgStatistics \<Rightarrow> (string \<times> string \<times> u64 \<times> u64) list \<times> VizMsgStatistics" where
  "Get_type_levels s =
     (map (\<lambda>(k, v). (fst k, snd k, vs_messages v, vs_bytes v)) (type_level_map s), s\<lparr>type_level_map := []\<rparr>)"

text \<open>What the counters of a group of messages are to be: their number, their bytes (both modulo 2^64)
  and the time of the latest one. There is no entry for an empty group.\<close>

definition summary :: "VizMsg list \<Rightarrow> VizMsgStats option" where
  "summary ms = (if ms = [] then None
     else Some \<lparr>vs_messages = of_nat (length ms), vs_bytes = sum_list (map msg_size ms),
                vs_last_msg_timestamp = hdr_Timestamp (msg_header (last ms))\<rparr>)"

definition counts :: "('k::linorder \<times> VizMsgStats) list \<Rightarrow> (VizMsg \<Rightarrow> 'k option) \<Rightarrow> VizMsg list \<Rightarrow> bool" where
  "counts t key ms \<longleftrightarrow> sorted_map t \<and> (\<forall>k. map_of t k = summary (filter (\<lambda>m. key m = Some k) ms))"

lemma summary_snoc:
  "summary (ms @ [m]) = Some (VizMsgStats_Update m (case summary ms of Some s \<Rightarrow> s | None \<Rightarrow> new_VizMsgStats))"
  by (simp add: summary_def VizMsgStats_Update_def new_VizMsgStats_def)

lemma UpdateStats_lookup:
  assumes "sorted_map t"
  shows "sorted_map (UpdateStats k vmsg t)"
    and "map_of (UpdateStats k vmsg t) =
           (map_of t)(k \<mapsto> VizMsgStats_Update vmsg (case map_of t k of Some s \<Rightarrow> s | None \<Rightarrow> new_VizMsgStats))"
  using assms
  by (auto simp: UpdateStats_def Let_def sorted_map_insert sorted_map_assign map_of_assign map_of_insert)

lemma counts_update: "counts t key ms \<Longrightarrow> key m = Some k \<Longrightarrow> counts (UpdateStats k m t) key (ms @ [m])"
  using UpdateStats_lookup[of t k m]
  by (auto simp: counts_def summary_snoc)

lemma counts_skip: "counts t key ms \<Longrightarrow> key m = None \<Longrightarrow> counts t key (ms @ [m])"
  by (simp add: counts_def)

lemma counts_empty: "counts [] key []"
  by (simp add: counts_def summary_def)

text \<open>A history of the counters: messages and reports of the last interval.\<close>

datatype stat_event = Counted VizMsg | Reported

fun stat_step :: "(int \<Rightarrow> string) \<Rightarrow> VizMsgStatistics \<Rightarrow> stat_event \<Rightarrow> VizMsgStatistics" where
  "stat_step lts s (Counted m) = VizMsgStatistics_Update lts m s"
| "stat_step lts s Reported = snd (Get_type_levels s)"

fun all_messages :: "stat_event list \<Rightarrow> VizMsg list" where
  "all_messages [] = []"
| "all_messages (Counted m # es) = m # all_messages es"
| "all_messages (Reported # es) = all_messages es"

definition since_report :: "stat_event list \<Rightarrow> VizMsg list" where
  "since_report es = all_messages (rev (takeWhile (\<lambda>e. e \<noteq> Reported) (rev es)))"

lemma all_messages_append [simp]: "all_messages (xs @ ys) = all_messages xs @ all_messages ys"
  by (induction xs rule: all_messages.induct) auto

lemma since_report_snoc [simp]:
  "since_report (es @ [Counted m]) = since_report es @ [m]" "since_report (es @ [Reported]) = []" "since_report [] = []"
  by (simp_all add: since_report_def)

definition level_key :: "(int \<Rightarrow> string) \<Rightarrow> VizMsg \<Rightarrow> string option" where
  "level_key lts m = (if hdr_Type (msg_header m) \<in> {ST_SYSTEM, ST_SYSLOG} then Some (lts (hdr_Level (msg_header m))) else None)"

text \<open>
  C34: the counters are exact. After any sequence of messages and reports, the counters by type and by level
  are those of all messages (by level only of system logs and syslog), and the counters by type and
  level those of the messages since the last report: numbers and bytes modulo 2^64, the time of the
  latest message, and no entry for a group without messages.
\<close>

theorem message_counters_exact:
  "let s = foldl (stat_step lts) new_VizMsgStatistics es in
     counts (type_map s) (\<lambda>m. Some (msg_type m)) (all_messages es) \<and>
     counts (level_map s) (level_key lts) (all_messages es) \<and>
     counts (type_level_map s) (\<lambda>m. Some (msg_type m, lts (hdr_Level (msg_header m)))) (since_report es)"
proof (induction es rule: rev_induct)
  case Nil
  show ?case by (simp add: new_VizMsgStatistics_def counts_empty)
next
  case (snoc e es)
  show ?case
  proof (cases e)
    case Reported
    with snoc show ?thesis by (simp add: Let_def Get_type_levels_def counts_empty)
  next
    case (Counted m)
    have "counts (level_map (VizMsgStatistics_Update lts m s)) (level_key lts) (ms @ [m])"
      if "counts (level_map s) (level_key lts) ms" for s ms
      using that by (auto simp: VizMsgStatistics_Update_def Let_def level_key_def intro: counts_update counts_skip)
    with snoc Counted show ?thesis
      by (auto simp: Let_def VizMsgStatistics_Update_def intro!: counts_update)
  qed
qed

section \<open>Fields of a message\<close>

text \<open>\<open>field_value\<close>: type and value of the field, \<open>None\<close> for the return value \<open>-1\<close>. Every name is looked up
  anywhere below the node reached so far; on the way only structures are entered.\<close>

function field_value_recur :: "string \<Rightarrow> xml_node \<Rightarrow> (string \<times> string) option" where
  "field_value_recur field_id doc =
     (case find_char CHR ''.'' field_id of
        Some dotpos \<Rightarrow>
          (case find_node (\<lambda>n. node_name n = take dotpos field_id) doc of
             None \<Rightarrow> None
           | Some node \<Rightarrow>
               if \<not> starts_with (attribute_value node ''type'') ''struct'' then None
               else field_value_recur (drop (Suc dotpos) field_id) node)
      | None \<Rightarrow>
          (case find_node (\<lambda>n. node_name n = field_id) doc of
             None \<Rightarrow> None
           | Some node \<Rightarrow> Some (attribute_value node ''type'', child_value node)))"
  by pat_completeness auto
termination
  by (relation "measure (\<lambda>(f, _). length f)") (auto dest!: find_char_Some)

declare field_value_recur.simps [simp del]

definition field_value :: "string \<Rightarrow> xml_node \<Rightarrow> (string \<times> string) option" where
  "field_value field_id message_node = field_value_recur field_id message_node"

end
