(* ===== verification/Db_Drop.thy ===== *)
theory Db_Drop
  imports Viz_Message
begin

text \<open>
  \<open>db_handler.cc\<close>: which messages the collector drops before writing them. There are three drop levels, set
  by the queue of the session, by the disk usage and by the pending compaction tasks of the database; the
  latter two follow water marks. The water mark library is an argument: for the marks set and an old and a
  new value it gives the marks whose callbacks it runs. Levels are the numbers of the sandesh library, a
  greater number being less severe.
\<close>

record WaterMarks =
  high_marks :: "(u32 \<times> int) list"
  low_marks :: "(u32 \<times> int) list"

record DropState =
  drop_level :: int
  use_db_write_options :: bool
  disk_usage_percentage :: u32
  disk_usage_percentage_drop_level :: int
  disk_usage_marks :: WaterMarks
  pending_compaction_tasks :: u32
  pending_compaction_tasks_drop_level :: int
  compaction_marks :: WaterMarks
  dropped_msg_stats :: VizMsgStatistics

type_synonym process_water_marks = "WaterMarks \<Rightarrow> u32 \<Rightarrow> u32 \<Rightarrow> (u32 \<times> int) list"

section \<open>Drop levels\<close>

definition SetDiskUsagePercentageDropLevel :: "int \<Rightarrow> DropState \<Rightarrow> DropState" where
  "SetDiskUsagePercentageDropLevel level d = d\<lparr>disk_usage_percentage_drop_level := level\<rparr>"

definition SetDiskUsagePercentage :: "u32 \<Rightarrow> DropState \<Rightarrow> DropState" where
  "SetDiskUsagePercentage v d = d\<lparr>disk_usage_percentage := v\<rparr>"

definition SetDiskUsagePercentageHighWaterMark :: "u32 \<Rightarrow> int \<Rightarrow> DropState \<Rightarrow> DropState" where
  "SetDiskUsagePercentageHighWaterMark v level d =
     d\<lparr>disk_usage_marks := disk_usage_marks d\<lparr>high_marks := high_marks (disk_usage_marks d) @ [(v, level)]\<rparr>\<rparr>"

definition SetDiskUsagePercentageLowWaterMark :: "u32 \<Rightarrow> int \<Rightarrow> DropState \<Rightarrow> DropState" where
  "SetDiskUsagePercentageLowWaterMark v level d =
     d\<lparr>disk_usage_marks := disk_usage_marks d\<lparr>low_marks := low_marks (disk_usage_marks d) @ [(v, level)]\<rparr>\<rparr>"

definition ProcessDiskUsagePercentage :: "process_water_marks \<Rightarrow> u32 \<Rightarrow> DropState \<Rightarrow> DropState" where
  "ProcessDiskUsagePercentage process v d =
     foldl (\<lambda>e (_, level). SetDiskUsagePercentageDropLevel level e) d (process (disk_usage_marks d) v (disk_usage_percentage d))"

definition SetPendingCompactionTasksDropLevel :: "int \<Rightarrow> DropState \<Rightarrow> DropState" where
  "SetPendingCompactionTasksDropLevel level d = d\<lparr>pending_compaction_tasks_drop_level := level\<rparr>"

definition SetPendingCompactionTasks :: "u32 \<Rightarrow> DropState \<Rightarrow> DropState" where
  "SetPendingCompactionTasks v d = d\<lparr>pending_compaction_tasks := v\<rparr>"

definition SetPendingCompactionTasksHighWaterMark :: "u32 \<Rightarrow> int \<Rightarrow> DropState \<Rightarrow> DropState" where
  "SetPendingCompactionTasksHighWaterMark v level d =
     d\<lparr>compaction_marks := compaction_marks d\<lparr>high_marks := high_marks (compaction_marks d) @ [(v, level)]\<rparr>\<rparr>"

definition SetPendingCompactionTasksLowWaterMark :: "u32 \<Rightarrow> int \<Rightarrow> DropState \<Rightarrow> DropState" where
  "SetPendingCompactionTasksLowWaterMark v level d =
     d\<lparr>compaction_marks := compaction_marks d\<lparr>low_marks := low_marks (compaction_marks d) @ [(v, level)]\<rparr>\<rparr>"

definition ProcessPendingCompactionTasks :: "process_water_marks \<Rightarrow> u32 \<Rightarrow> DropState \<Rightarrow> DropState" where
  "ProcessPendingCompactionTasks process v d =
     foldl (\<lambda>e (_, level). SetPendingCompactionTasksDropLevel level e) d
       (process (compaction_marks d) v (pending_compaction_tasks d))"

definition SetDropLevel :: "int \<Rightarrow> DropState \<Rightarrow> DropState" where
  "SetDropLevel level d = (if drop_level d \<noteq> level then d\<lparr>drop_level := level\<rparr> else d)"

text \<open>The options of the constructor: three high and three low marks for each, and the level of the lowest.\<close>

record DbWriteOptions =
  opt_disk_high :: "u32 list"
  opt_disk_low :: "u32 list"
  opt_compaction_high :: "u32 list"
  opt_compaction_low :: "u32 list"
  opt_high_level :: "int list"
  opt_low_level :: "int list"

definition init_water_marks :: "DbWriteOptions \<Rightarrow> DropState \<Rightarrow> DropState" where
  "init_water_marks opt d =
     (if \<not> use_db_write_options d then d
      else let d1 = foldl (\<lambda>e i. SetDiskUsagePercentageLowWaterMark (opt_disk_low opt ! i) (opt_low_level opt ! i)
                 (SetDiskUsagePercentageHighWaterMark (opt_disk_high opt ! i) (opt_high_level opt ! i) e)) d [0, 1, 2];
               d2 = foldl (\<lambda>e i. SetPendingCompactionTasksLowWaterMark (opt_compaction_low opt ! i) (opt_low_level opt ! i)
                 (SetPendingCompactionTasksHighWaterMark (opt_compaction_high opt ! i) (opt_high_level opt ! i) e)) d1 [0, 1, 2]
           in SetPendingCompactionTasksDropLevel (opt_low_level opt ! 2)
                (SetDiskUsagePercentageDropLevel (opt_low_level opt ! 2) d2))"

section \<open>Dropping\<close>

definition count_dropped :: "(int \<Rightarrow> string) \<Rightarrow> VizMsg \<Rightarrow> DropState \<Rightarrow> DropState" where
  "count_dropped lts vmsg d = d\<lparr>dropped_msg_stats := VizMsgStatistics_Update lts vmsg (dropped_msg_stats d)\<rparr>"

definition DropMessage :: "(int \<Rightarrow> string) \<Rightarrow> VizMsg \<Rightarrow> DropState \<Rightarrow> bool \<times> DropState" where
  "DropMessage lts vmsg d =
     (let stype = hdr_Type (msg_header vmsg); slevel = hdr_Level (msg_header vmsg)
      in if stype = ST_FLOW then (True, count_dropped lts vmsg d)
         else if \<not> (stype = ST_SYSTEM \<or> stype = ST_OBJECT \<or> stype = ST_UVE \<or> stype = ST_SESSION) then (False, d)
         else if slevel \<ge> drop_level d then (True, count_dropped lts vmsg d)
         else let disk = (use_db_write_options d \<and> slevel \<ge> disk_usage_percentage_drop_level d);
                  compaction = (use_db_write_options d \<and> slevel \<ge> pending_compaction_tasks_drop_level d)
              in if disk \<or> compaction then (True, count_dropped lts vmsg d) else (False, d))"

text \<open>The level from which on messages of the four kinds are dropped.\<close>

definition effective_level :: "DropState \<Rightarrow> int" where
  "effective_level d =
     (if use_db_write_options d
      then min (drop_level d) (min (disk_usage_percentage_drop_level d) (pending_compaction_tasks_drop_level d))
      else drop_level d)"

definition must_drop :: "DropState \<Rightarrow> VizMsg \<Rightarrow> bool" where
  "must_drop d vmsg \<longleftrightarrow> hdr_Type (msg_header vmsg) = ST_FLOW \<or>
     hdr_Type (msg_header vmsg) \<in> {ST_SYSTEM, ST_OBJECT, ST_UVE, ST_SESSION} \<and> effective_level d \<le> hdr_Level (msg_header vmsg)"

lemma DropMessage_eq: "DropMessage lts vmsg d = (must_drop d vmsg, if must_drop d vmsg then count_dropped lts vmsg d else d)"
  by (auto simp: DropMessage_def must_drop_def effective_level_def Let_def)

lemma effective_level_count [simp]: "effective_level (count_dropped lts vmsg d) = effective_level d"
  by (simp add: effective_level_def count_dropped_def)

lemma must_drop_count [simp]: "must_drop (count_dropped lts vmsg d) = must_drop d"
  by (rule ext) (simp add: must_drop_def)

fun drop_run :: "(int \<Rightarrow> string) \<Rightarrow> VizMsg list \<Rightarrow> DropState \<Rightarrow> VizMsg list \<times> DropState" where
  "drop_run lts [] d = ([], d)"
| "drop_run lts (m # ms) d =
     (let (dropped, d1) = DropMessage lts m d; (kept, d2) = drop_run lts ms d1
      in (if dropped then kept else m # kept, d2))"

lemma drop_run_eq:
  "drop_run lts ms d = (filter (\<lambda>m. \<not> must_drop d m) ms, foldl (\<lambda>e m. count_dropped lts m e) d (filter (must_drop d) ms))"
  by (induction ms arbitrary: d) (auto simp: DropMessage_eq)

lemma dropped_stats_fold:
  "dropped_msg_stats (foldl (\<lambda>e m. count_dropped lts m e) d ms) = foldl (stat_step lts) (dropped_msg_stats d) (map Counted ms)"
  by (induction ms arbitrary: d) (simp_all add: count_dropped_def)

text \<open>
  C33: the drop decision is a threshold on the severity, and what is dropped is counted. Of a sequence of
  messages exactly those are dropped that are flows, or system logs, object logs, UVEs or sessions at least as
  unimportant as the lowest of the levels in force; so with a message also every less severe one of the four kinds
  is dropped. The counters of dropped messages are those of the messages dropped, in their order.
\<close>

theorem drop_threshold:
  "drop_run lts ms d = (kept, d') \<Longrightarrow>
     kept = filter (\<lambda>m. \<not> must_drop d m) ms \<and>
     dropped_msg_stats d' = foldl (stat_step lts) (dropped_msg_stats d) (map Counted (filter (must_drop d) ms)) \<and>
     (\<forall>m m'. must_drop d m \<and> hdr_Type (msg_header m) \<noteq> ST_FLOW \<and> hdr_Level (msg_header m) \<le> hdr_Level (msg_header m') \<and>
        hdr_Type (msg_header m') \<in> {ST_SYSTEM, ST_OBJECT, ST_UVE, ST_SESSION} \<longrightarrow> must_drop d m')"
  by (auto simp: drop_run_eq dropped_stats_fold must_drop_def)

text \<open>A message of a given type and level, and a state with a drop level, for concrete runs.\<close>

definition plain_msg :: "SandeshType \<Rightarrow> int \<Rightarrow> VizMsg" where
  "plain_msg t l = \<lparr>msg_header = \<lparr>hdr_Timestamp = 1, hdr_Source = ''s'', hdr_Module = ''m'', hdr_Category = '''', hdr_Type = t,
     hdr_Level = l, hdr_NodeType = ''n'', hdr_InstanceId = ''0'', hdr_SequenceNum = 1, hdr_Pid = None, hdr_IPAddress = None,
     hdr_Hints = 0, hdr_Context = None\<rparr>, msg_type = ''T'', msg_text = '''', msg_unm = [], msg_size = 10\<rparr>"

definition plain_drop :: "int \<Rightarrow> DropState" where
  "plain_drop l = \<lparr>drop_level = l, use_db_write_options = True, disk_usage_percentage = 0, disk_usage_percentage_drop_level = 7,
     disk_usage_marks = \<lparr>high_marks = [], low_marks = []\<rparr>, pending_compaction_tasks = 0, pending_compaction_tasks_drop_level = 7,
     compaction_marks = \<lparr>high_marks = [], low_marks = []\<rparr>, dropped_msg_stats = new_VizMsgStatistics\<rparr>"

theorem drop_threshold_witness:
  "fst (drop_run (\<lambda>_. ''L'') [plain_msg ST_SYSTEM 3, plain_msg ST_UVE 6, plain_msg ST_SYSLOG 7] (plain_drop 5)) =
     [plain_msg ST_SYSTEM 3, plain_msg ST_SYSLOG 7] \<and>
   type_map (dropped_msg_stats (snd (drop_run (\<lambda>_. ''L'') [plain_msg ST_SYSTEM 3, plain_msg ST_UVE 6, plain_msg ST_SYSLOG 7] (plain_drop 5)))) =
     [(''T'', \<lparr>vs_messages = 1, vs_bytes = 10, vs_last_msg_timestamp = 1\<rparr>)]"
proof -
  let ?ms = "[plain_msg ST_SYSTEM 3, plain_msg ST_UVE 6, plain_msg ST_SYSLOG 7]"
  let ?r = "drop_run (\<lambda>_. ''L'') ?ms (plain_drop 5)"
  have "?r = (fst ?r, snd ?r)" by simp
  note run = drop_threshold[OF this]
  have drop: "must_drop (plain_drop 5) (plain_msg ST_UVE 6)" "\<not> must_drop (plain_drop 5) (plain_msg ST_SYSTEM 3)"
    "\<not> must_drop (plain_drop 5) (plain_msg ST_SYSLOG 7)"
    by (simp_all add: must_drop_def effective_level_def plain_drop_def plain_msg_def)
  have "fst ?r = [plain_msg ST_SYSTEM 3, plain_msg ST_SYSLOG 7]"
    using run[THEN conjunct1] drop by (simp del: drop_run.simps)
  moreover have "dropped_msg_stats (snd ?r) = VizMsgStatistics_Update (\<lambda>_. ''L'') (plain_msg ST_UVE 6) (dropped_msg_stats (plain_drop 5))"
    using run[THEN conjunct2, THEN conjunct1] drop by (simp del: drop_run.simps)
  moreover have "type_map (VizMsgStatistics_Update (\<lambda>_. ''L'') (plain_msg ST_UVE 6) (dropped_msg_stats (plain_drop 5))) =
      [(''T'', \<lparr>vs_messages = 1, vs_bytes = 10, vs_last_msg_timestamp = 1\<rparr>)]"
    by (simp add: plain_drop_def VizMsgStatistics_Update_def UpdateStats_def new_VizMsgStatistics_def VizMsgStats_Update_def
        new_VizMsgStats_def plain_msg_def)
  ultimately show ?thesis by (simp del: drop_run.simps)
qed

end
