(* ===== verification/Rule_Parser.thy ===== *)
theory Rule_Parser
  imports Viz_Message
begin

text \<open>
  \<open>ruleparser/t_ruleparser.h\<close>: the rules the parser builds and their evaluation on a message. Conversion of
  a string to a number is \<open>boost::lexical_cast<int>\<close>, an argument (\<open>None\<close> where it throws; nothing
  catches the exception, so the outcome is \<open>Abort\<close>), and so is what the python script of an action returns.
\<close>

record t_rulemsgtype =
  rmt_msgtype :: string
  rmt_context :: "string option"

datatype rangevalue = RangeS string | RangeD string string

datatype condition = CondRange string "rangevalue list" | CondSimple string char string

record t_ruleaction =
  ra_actionid :: string
  ra_paramlist :: "string list"

record t_rule =
  rulename :: string
  rulemsgtype :: t_rulemsgtype
  condlist :: "condition list option"
  actionlist :: "t_ruleaction list"

record rule_msg =
  rm_messagetype :: string
  rm_context :: "string option"
  rm_node :: xml_node

record rule_lib =
  lexical_int :: "string \<Rightarrow> int option"
  python_result :: "string list \<Rightarrow> string"

section \<open>Building the list\<close>

definition add_field :: "condition \<Rightarrow> condition list \<Rightarrow> condition list" where
  "add_field c cs = c # cs"

definition add_action :: "t_ruleaction \<Rightarrow> t_ruleaction list \<Rightarrow> t_ruleaction list" where
  "add_action a as = (if list_ex (\<lambda>b. ra_actionid a = ra_actionid b) as then as else a # as)"

definition add_rule :: "t_rule \<Rightarrow> t_rule list \<Rightarrow> t_rule list" where
  "add_rule r rs = (if list_ex (\<lambda>q. rulename r = rulename q) rs then rs else rs @ [r])"

section \<open>Conditions\<close>

definition cast_int :: "rule_lib \<Rightarrow> string \<Rightarrow> int outcome" where
  "cast_int lib s = (case lexical_int lib s of Some i \<Rightarrow> Ret i | None \<Rightarrow> Abort)"

fun range_check1 :: "rule_lib \<Rightarrow> string \<Rightarrow> string \<Rightarrow> rangevalue \<Rightarrow> bool outcome" where
  "range_check1 lib type value (RangeS r1) =
     (if type = ''string'' then Ret (r1 = value)
      else if type = ''i16'' \<or> type = ''i32''
      then bind_outcome (cast_int lib value) (\<lambda>val1. bind_outcome (cast_int lib r1) (\<lambda>val2. Ret (val1 = val2)))
      else Ret False)"
| "range_check1 lib type value (RangeD r1 r2) =
     (if type = ''string'' then Ret False
      else if type = ''i16'' \<or> type = ''i32''
      then bind_outcome (cast_int lib value) (\<lambda>val. bind_outcome (cast_int lib r1) (\<lambda>val1.
             bind_outcome (cast_int lib r2) (\<lambda>val2. Ret (val > val1 \<and> val < val2))))
      else Ret False)"

fun range_check :: "rule_lib \<Rightarrow> string \<Rightarrow> string \<Rightarrow> rangevalue list \<Rightarrow> bool outcome" where
  "range_check lib type value [] = Ret False"
| "range_check lib type value (r # rs) =
     bind_outcome (range_check1 lib type value r) (\<lambda>b. if b then Ret True else range_check lib type value rs)"

fun cond_match :: "rule_lib \<Rightarrow> rule_msg \<Rightarrow> condition \<Rightarrow> bool outcome" where
  "cond_match lib rmsg (CondRange fieldid rs) =
     (case field_value fieldid (rm_node rmsg) of
        None \<Rightarrow> Ret False
      | Some (type, value) \<Rightarrow> range_check lib type value rs)"
| "cond_match lib rmsg (CondSimple fieldid op v) =
     (case field_value fieldid (rm_node rmsg) of
        None \<Rightarrow> Ret False
      | Some (type, value) \<Rightarrow>
          if type = ''string'' then Ret (op = CHR ''='' \<and> v = value)
          else if type = ''i16'' \<or> type = ''i32''
          then bind_outcome (cast_int lib value) (\<lambda>val1. bind_outcome (cast_int lib v) (\<lambda>val2.
                 Ret (if op = CHR ''='' then val1 = val2 else if op = CHR ''<'' then val1 < val2
                      else if op = CHR ''>'' then val1 > val2 else False)))
          else Ret False)"

fun rule_match :: "rule_lib \<Rightarrow> rule_msg \<Rightarrow> condition list \<Rightarrow> bool outcome" where
  "rule_match lib rmsg [] = Ret True"
| "rule_match lib rmsg (c # cs) =
     bind_outcome (cond_match lib rmsg c) (\<lambda>b. if \<not> b then Ret False else rule_match lib rmsg cs)"

section \<open>Execution\<close>

text \<open>What the actions append to the static string \<open>RuleActionEchoResult\<close>.\<close>

definition action_execute :: "rule_lib \<Rightarrow> t_ruleaction \<Rightarrow> string" where
  "action_execute lib a =
     (if ra_actionid a = ''echoaction'' then '' '' @ ra_actionid a @ concat (map (\<lambda>p. '' '' @ p) (ra_paramlist a))
      else if ra_actionid a = ''echoaction.py'' then '' '' @ python_result lib (ra_paramlist a)
      else '''')"

definition rule_present1 :: "t_rulemsgtype \<Rightarrow> t_rule \<Rightarrow> bool" where
  "rule_present1 m r \<longleftrightarrow>
     rmt_msgtype (rulemsgtype r) = rmt_msgtype m \<and>
     (rmt_context (rulemsgtype r) \<noteq> None \<longleftrightarrow> rmt_context m \<noteq> None) \<and>
     (rmt_context (rulemsgtype r) = None \<or> rmt_context (rulemsgtype r) = rmt_context m)"

definition rule_present :: "t_rulemsgtype \<Rightarrow> t_rule list \<Rightarrow> bool" where
  "rule_present m rs = list_ex (rule_present1 m) rs"

definition rule_execute1 :: "rule_lib \<Rightarrow> rule_msg \<Rightarrow> t_rule \<Rightarrow> string \<Rightarrow> string outcome" where
  "rule_execute1 lib rmsg r res =
     (if \<not> (rmt_msgtype (rulemsgtype r) = rm_messagetype rmsg \<and>
            ((rmt_context (rulemsgtype r) = None \<and> rm_context rmsg = None) \<or>
             (rmt_context (rulemsgtype r) \<noteq> None \<and> rm_context rmsg \<noteq> None \<and> rmt_context (rulemsgtype r) = rm_context rmsg)))
      then Ret res
      else bind_outcome (case condlist r of None \<Rightarrow> Ret True | Some cs \<Rightarrow> rule_match lib rmsg cs) (\<lambda>ok.
             Ret (if ok then res @ concat (map (action_execute lib) (actionlist r)) else res)))"

definition rulelist_execute :: "rule_lib \<Rightarrow> t_rule list \<Rightarrow> rule_msg \<Rightarrow> string outcome" where
  "rulelist_execute lib rs rmsg = foldl_outcome (\<lambda>res r. rule_execute1 lib rmsg r res) '''' rs"

section \<open>Properties\<close>

lemma add_rule_distinct: "distinct (map rulename rs) \<Longrightarrow> distinct (map rulename (add_rule r rs))"
  by (auto simp: add_rule_def list_ex_iff)

lemma add_action_distinct: "distinct (map ra_actionid as) \<Longrightarrow> distinct (map ra_actionid (add_action a as))"
  by (auto simp: add_action_def list_ex_iff)

lemma rule_applies_iff:
  "rule_present1 \<lparr>rmt_msgtype = rm_messagetype rmsg, rmt_context = rm_context rmsg\<rparr> r \<longleftrightarrow>
     rmt_msgtype (rulemsgtype r) = rm_messagetype rmsg \<and> rmt_context (rulemsgtype r) = rm_context rmsg"
  by (cases "rm_context rmsg") (auto simp: rule_present1_def)

lemma rule_execute1_applies:
  "rule_execute1 lib rmsg r res =
     (if \<not> rule_present1 \<lparr>rmt_msgtype = rm_messagetype rmsg, rmt_context = rm_context rmsg\<rparr> r then Ret res
      else bind_outcome (case condlist r of None \<Rightarrow> Ret True | Some cs \<Rightarrow> rule_match lib rmsg cs) (\<lambda>ok.
             Ret (if ok then res @ concat (map (action_execute lib) (actionlist r)) else res)))"
  unfolding rule_applies_iff by (cases "rm_context rmsg") (auto simp: rule_execute1_def)

lemma rules_execute:
  assumes "list_all (\<lambda>r. rule_present1 m r \<longrightarrow> (\<exists>b. (case condlist r of None \<Rightarrow> Ret True | Some cs \<Rightarrow> rule_match lib rmsg cs) = Ret b)) rs"
    and "m = \<lparr>rmt_msgtype = rm_messagetype rmsg, rmt_context = rm_context rmsg\<rparr>"
  shows "foldl_outcome (\<lambda>res r. rule_execute1 lib rmsg r res) res rs =
    Ret (res @ concat (map (\<lambda>r. concat (map (action_execute lib) (actionlist r)))
      (filter (\<lambda>r. rule_present1 m r \<and> (case condlist r of None \<Rightarrow> Ret True | Some cs \<Rightarrow> rule_match lib rmsg cs) = Ret True) rs)))"
  using assms(1)
proof (induction rs arbitrary: res)
  case (Cons r rs)
  have rest: "foldl_outcome (\<lambda>res r. rule_execute1 lib rmsg r res) x rs =
      Ret (x @ concat (map (\<lambda>r. concat (map (action_execute lib) (actionlist r)))
        (filter (\<lambda>r. rule_present1 m r \<and> (case condlist r of None \<Rightarrow> Ret True | Some cs \<Rightarrow> rule_match lib rmsg cs) = Ret True) rs)))" for x
    using Cons.IH Cons.prems by simp
  show ?case
  proof (cases "rule_present1 m r")
    case True
    with Cons.prems obtain b where "(case condlist r of None \<Rightarrow> Ret True | Some cs \<Rightarrow> rule_match lib rmsg cs) = Ret b" by auto
    with True rest show ?thesis by (simp add: rule_execute1_applies flip: assms(2))
  next
    case False
    with rest show ?thesis by (simp add: rule_execute1_applies flip: assms(2))
  qed
qed simp

text \<open>
  The rules that fire are the ones present. Provided the numbers its rules compare can be read, executing
  the rules on a message runs, in the order of the list, exactly the actions of those rules that are present for its
  message type and context and whose conditions all hold. So a message for which no rule is present
  has no effect.
\<close>

theorem rules_fire_when_present:
  assumes "list_all (\<lambda>r. rule_present1 m r \<longrightarrow> (\<exists>b. (case condlist r of None \<Rightarrow> Ret True | Some cs \<Rightarrow> rule_match lib rmsg cs) = Ret b)) rs"
    and "m = \<lparr>rmt_msgtype = rm_messagetype rmsg, rmt_context = rm_context rmsg\<rparr>"
  shows "rulelist_execute lib rs rmsg =
      Ret (concat (map (\<lambda>r. concat (map (action_execute lib) (actionlist r)))
        (filter (\<lambda>r. rule_present1 m r \<and> (case condlist r of None \<Rightarrow> Ret True | Some cs \<Rightarrow> rule_match lib rmsg cs) = Ret True) rs))) \<and>
    (\<not> rule_present m rs \<longrightarrow> rulelist_execute lib rs rmsg = Ret '''')"
proof
  show "rulelist_execute lib rs rmsg =
      Ret (concat (map (\<lambda>r. concat (map (action_execute lib) (actionlist r)))
        (filter (\<lambda>r. rule_present1 m r \<and> (case condlist r of None \<Rightarrow> Ret True | Some cs \<Rightarrow> rule_match lib rmsg cs) = Ret True) rs)))"
    using rules_execute[OF assms, of "''''"] by (simp add: rulelist_execute_def)
  then show "\<not> rule_present m rs \<longrightarrow> rulelist_execute lib rs rmsg = Ret ''''"
    by (auto simp: rule_present_def list_ex_iff filter_False)
qed

theorem rules_fire_when_present_witness:
  "rulelist_execute \<lparr>lexical_int = (\<lambda>s. if s = ''3'' then Some 3 else None), python_result = (\<lambda>_. '''')\<rparr>
     [\<lparr>rulename = ''r'', rulemsgtype = \<lparr>rmt_msgtype = ''M'', rmt_context = None\<rparr>,
       condlist = Some [CondSimple ''s.x'' CHR ''='' ''3''], actionlist = [\<lparr>ra_actionid = ''echoaction'', ra_paramlist = [''p'']\<rparr>]\<rparr>]
     \<lparr>rm_messagetype = ''M'', rm_context = None,
      rm_node = XElement ''M'' [] [XElement ''s'' [(''type'', ''struct'')] [XElement ''x'' [(''type'', ''i32'')] [XText ''3'']]]\<rparr>
   = Ret '' echoaction p''"
proof -
  let ?lib = "\<lparr>lexical_int = (\<lambda>s. if s = ''3'' then Some (3 :: int) else None), python_result = (\<lambda>_. '''')\<rparr>"
  let ?cs = "[CondSimple ''s.x'' CHR ''='' ''3'']"
  let ?r = "\<lparr>rulename = ''r'', rulemsgtype = \<lparr>rmt_msgtype = ''M'', rmt_context = None\<rparr>, condlist = Some ?cs,
    actionlist = [\<lparr>ra_actionid = ''echoaction'', ra_paramlist = [''p'']\<rparr>]\<rparr>"
  let ?node = "XElement ''M'' [] [XElement ''s'' [(''type'', ''struct'')] [XElement ''x'' [(''type'', ''i32'')] [XText ''3'']]]"
  let ?m = "\<lparr>rm_messagetype = ''M'', rm_context = None, rm_node = ?node\<rparr>"
  have "field_value ''s.x'' ?node = Some (''i32'', ''3'')"
    by (simp add: field_value_def field_value_recur.simps attribute_value_def child_value_def starts_with_def)
  then have m: "rule_match ?lib ?m ?cs = Ret True" by (simp add: cast_int_def)
  have "list_all (\<lambda>r. rule_present1 \<lparr>rmt_msgtype = ''M'', rmt_context = None\<rparr> r \<longrightarrow>
      (\<exists>b. (case condlist r of None \<Rightarrow> Ret True | Some cs \<Rightarrow> rule_match ?lib ?m cs) = Ret b)) [?r]"
    using m by (auto simp del: rule_match.simps)
  from rules_fire_when_present[OF this] show ?thesis
    using m by (simp add: rule_present1_def action_execute_def del: rule_match.simps)
qed


end
