(* ===== verification/Rule_Engine.thy ===== *)
theory Rule_Engine
  imports Stat_Walker Db_Drop Rule_Parser
begin

text \<open>
  \<open>ruleeng.cc\<close>: what the collector does with the XML of a message. Object logs are recorded under their keys
  (\<open>DomObjectWalk\<close>), statistics are found by the \<open>tags\<close> annotation and handed to the \<open>StatWalker\<close>
  (\<open>DomTopStatWalker\<close>, \<open>DomStatWalker\<close>), UVEs are published to redis and kafka
  (\<open>handle_uve_publish\<close>, the calls of \<open>OpServerProxy\<close> are the result). The conversions of the sandesh
  library, \<open>strtod\<close> and the printing of XML are arguments. Log and trace messages are left out.
\<close>

record 'd rule_env =
  re_db :: "'d db_env"
  re_stype_num :: "SandeshType \<Rightarrow> u8"
  unescape :: "string \<Rightarrow> string"
  strtod :: "string \<Rightarrow> 'd"
  print_node :: "xml_node \<Rightarrow> string"
  key_hint :: int
  sync_hint :: int

section \<open>Values of XML nodes\<close>

definition insert_pair :: "(string \<times> 'v) list \<Rightarrow> string \<times> 'v \<Rightarrow> (string \<times> 'v) list" where
  "insert_pair m kv = map_insert (fst kv) (snd kv) m"

text \<open>\<open>ParseNodeImpl\<close>; \<open>None\<close> is the return value \<open>false\<close>.\<close>

definition ParseNodeImpl :: "'d rule_env \<Rightarrow> string \<Rightarrow> xml_node \<Rightarrow> 'd Var option" where
  "ParseNodeImpl env attype node =
     (if attype = ''string'' then Some (VString (unescape env (child_value node)))
      else if attype = ''double'' then Some (VDouble (strtod env (child_value node)))
      else if attype = ''u16'' \<or> attype = ''u32'' \<or> attype = ''u64'' then Some (VUint64 (strtoul (child_value node)))
      else if attype = ''set'' \<or> attype = ''list'' then
        (let elems = child node attype
         in if oattribute elems ''type'' \<noteq> ''string'' then None
            else Some (VList (map (\<lambda>e. unescape env (child_value e)) (ochildren elems))))
      else if attype = ''map'' then
        (let map_node = child node ''map''
         in if oattribute map_node ''key'' \<noteq> ''string'' then None
            else if oattribute map_node ''value'' \<noteq> ''string'' then None
            else Some (VMap (foldl insert_pair []
                   (map (\<lambda>(k, v). (child_value k, ochild_value v)) (key_value_nodes (ochildren map_node))))))
      else None)"

definition ParseNode :: "'d rule_env \<Rightarrow> xml_node option \<Rightarrow> 'd Var" where
  "ParseNode env node =
     (case node of
        None \<Rightarrow> VInvalid
      | Some n \<Rightarrow> (case ParseNodeImpl env (attribute_value n ''type'') n of Some v \<Rightarrow> v | None \<Rightarrow> VInvalid))"

text \<open>An element of a structure, list or map: an XML node or a value, with the key in a map.\<close>

datatype 'd ElemVar = ENode "xml_node option" | EVar "'d Var"

type_synonym 'd ElemT = "'d ElemVar \<times> string"
type_synonym 'd elem_chain = "(string \<times> 'd ElemT) list"

text \<open>\<open>DomChildVisitor\<close>.\<close>

fun dom_child :: "'d ElemVar \<Rightarrow> string \<Rightarrow> xml_node option" where
  "dom_child (ENode (Some p)) sub = child p sub"
| "dom_child _ sub = None"

section \<open>The tags annotation\<close>

fun split_char :: "char \<Rightarrow> string \<Rightarrow> string list" where
  "split_char c [] = [[]]"
| "split_char c (x # xs) =
     (if x = c then [] # split_char c xs
      else case split_char c xs of t # ts \<Rightarrow> (x # t) # ts | [] \<Rightarrow> [[x]])"

text \<open>A term is \<open>prefix:suffix\<close> or just a suffix.\<close>

definition split_term :: "string \<Rightarrow> string \<times> string" where
  "split_term term = (case find_char CHR '':'' term of None \<Rightarrow> ('''', term) | Some spos \<Rightarrow> (take spos term, drop (Suc spos) term))"

text \<open>\<open>ParseDomTags\<close> with \<open>toptags\<close>: the top-level tags of the annotation.\<close>

fun top_tag_terms :: "string list \<Rightarrow> string list option" where
  "top_tag_terms [] = Some []"
| "top_tag_terms (term # terms) =
     (let (pterm, sterm) = split_term term
      in if sterm = '''' then None
         else if sterm ! 0 \<noteq> CHR ''.''
              then if pterm \<noteq> '''' then None else map_option (\<lambda>ts. sterm # ts) (top_tag_terms terms)
         else top_tag_terms terms)"

definition ParseDomTopTags :: "string \<Rightarrow> string list option" where
  "ParseDomTopTags tstr = (if tstr = '''' then Some [] else top_tag_terms (split_char CHR '','' tstr))"

text \<open>The value of a tag in an element of the chain: its key in a map, or the child of that name.\<close>

definition tag_value :: "'d rule_env \<Rightarrow> 'd ElemT \<Rightarrow> string \<Rightarrow> 'd Var option" where
  "tag_value env e attr =
     (if attr = ''__key'' then Some (VString (snd e))
      else case dom_child (fst e) attr of None \<Rightarrow> None | Some n \<Rightarrow> Some (ParseNode env (Some n)))"

text \<open>The prefix of a tag is looked up in the deepest element, or in its parent when it does not begin with a dot.\<close>

definition tag_prefix :: "'d rule_env \<Rightarrow> 'd elem_chain \<Rightarrow> string \<Rightarrow> (string \<times> 'd Var) option" where
  "tag_prefix env chain pterm =
     (if pterm = '''' then Some ('''', VInvalid)
      else let sz = length chain;
               idx = (if pterm ! 0 = CHR ''.'' then sz - 1 else sz - 2);
               pname0 = foldl dotted '''' (map fst (take idx (drop 1 chain)));
               pname1 = (if pterm ! 0 \<noteq> CHR ''.'' \<and> pname0 \<noteq> '''' then pname0 @ ''.'' else pname0);
               pattr = (case find_last_char CHR ''.'' pterm of None \<Rightarrow> pterm | Some found \<Rightarrow> drop (Suc found) pterm)
           in map_option (\<lambda>pv. (pname1 @ pterm, pv)) (tag_value env (snd (chain ! idx)) pattr))"

text \<open>\<open>ParseDomTags\<close> with a chain of elements; the chain has at least two, as its callers see to.\<close>

fun chain_tag_terms :: "'d rule_env \<Rightarrow> 'd elem_chain \<Rightarrow> string list \<Rightarrow> 'd StatTagMap \<Rightarrow> 'd StatTagMap option" where
  "chain_tag_terms env chain [] tagmap = Some tagmap"
| "chain_tag_terms env chain (term # terms) tagmap =
     (let (pterm, sterm) = split_term term
      in if sterm = '''' then None
         else if sterm ! 0 \<noteq> CHR ''.'' then chain_tag_terms env chain terms tagmap
         else let sname = drop 1 sterm
              in case tag_value env (snd (chain ! (length chain - 1))) sname of
                   None \<Rightarrow> None
                 | Some v \<Rightarrow> (case tag_prefix env chain pterm of
                     None \<Rightarrow> None
                   | Some p \<Rightarrow> chain_tag_terms env chain terms (map_insert sname \<lparr>tv_prefix = p, tv_val = v\<rparr> tagmap)))"

definition ParseDomTags :: "'d rule_env \<Rightarrow> string \<Rightarrow> 'd elem_chain \<Rightarrow> 'd StatTagMap option" where
  "ParseDomTags env tstr chain = (if tstr = '''' then Some [] else chain_tag_terms env chain (split_char CHR '','' tstr) [])"

section \<open>Elements\<close>

definition list_elem :: "'d rule_env \<Rightarrow> string \<Rightarrow> string \<Rightarrow> xml_node \<Rightarrow> 'd ElemT option" where
  "list_elem env ltype key elem =
     (if ltype = ''struct'' then Some (ENode (Some elem), key)
      else map_option (\<lambda>v. (EVar v, key)) (ParseNodeImpl env ltype elem))"

fun list_elems :: "'d rule_env \<Rightarrow> string \<Rightarrow> xml_node list \<Rightarrow> 'd ElemT list option" where
  "list_elems env ltype [] = Some []"
| "list_elems env ltype (e # es) =
     (case list_elem env ltype '''' e of None \<Rightarrow> None | Some x \<Rightarrow> map_option (\<lambda>xs. x # xs) (list_elems env ltype es))"

text \<open>Keys and values of a map alternate; a key at the end has no value.\<close>

fun map_elems :: "'d rule_env \<Rightarrow> string \<Rightarrow> xml_node list \<Rightarrow> 'd ElemT list option" where
  "map_elems env ltype (k # e # es) =
     (case list_elem env ltype (unescape env (child_value k)) e of
        None \<Rightarrow> None
      | Some x \<Rightarrow> map_option (\<lambda>xs. x # xs) (map_elems env ltype es))"
| "map_elems env ltype _ = Some []"

definition DomValidElems :: "'d rule_env \<Rightarrow> xml_node \<Rightarrow> 'd ElemT list option" where
  "DomValidElems env node =
     (if attribute_value node ''type'' = ''list'' then
        (let subs = child node ''list'' in list_elems env (oattribute subs ''type'') (ochildren subs))
      else if attribute_value node ''type'' = ''struct'' then Some [(ENode (first_child node), '''')]
      else if attribute_value node ''type'' = ''map'' then
        (let subs = child node ''map'' in map_elems env (oattribute subs ''value'') (ochildren subs))
      else None)"

text \<open>\<open>DomStatVisitor\<close>: simple children are attributes; structures, lists and maps with a \<open>tags\<close> annotation are
  kept, under their names, to be walked.\<close>

type_synonym 'd elem_map = "(string \<times> string \<times> 'd ElemT list) list"

definition visit_child :: "'d rule_env \<Rightarrow> 'd AttribMap \<times> 'd elem_map \<Rightarrow> xml_node \<Rightarrow> 'd AttribMap \<times> 'd elem_map" where
  "visit_child env acc sattr =
     (let (attribs, elem_map) = acc; sample = ParseNode env (Some sattr)
      in if sample = VInvalid then
           (if \<not> has_attribute sattr ''tags'' then (attribs, elem_map)
            else case DomValidElems env sattr of
                   None \<Rightarrow> (attribs, elem_map)
                 | Some elems \<Rightarrow> (attribs, map_assign (node_name sattr) (attribute_value sattr ''tags'', elems) elem_map))
         else (map_insert (node_name sattr) sample attribs, elem_map))"

fun dom_stat :: "'d rule_env \<Rightarrow> 'd ElemVar \<Rightarrow> 'd AttribMap \<times> 'd elem_map" where
  "dom_stat env (ENode n) = foldl (visit_child env) ([], []) (ochildren n)"
| "dom_stat env (EVar dv) = ([(''__value'', dv)], [])"

section \<open>The walk over a message\<close>

fun elem_size :: "'d ElemVar \<Rightarrow> nat" where
  "elem_size (ENode (Some n)) = Suc (size n)"
| "elem_size (ENode None) = 0"
| "elem_size (EVar _) = 0"

lemma foldl_outcome_cong [fundef_cong]:
  assumes "xs = ys" and "s = t" and "\<And>u x. x \<in> set ys \<Longrightarrow> f u x = g u x"
  shows "foldl_outcome f s xs = foldl_outcome g t ys"
proof -
  have "foldl_outcome f u ys = foldl_outcome g u ys" for u
    using assms(3)
  proof (induction ys arbitrary: u)
    case (Cons y ys)
    then show ?case by (cases "g u y") simp_all
  qed simp
  with assms(1,2) show ?thesis by simp
qed

lemma bind_outcome_cong [fundef_cong]:
  "m = n \<Longrightarrow> (\<And>x. n = Ret x \<Longrightarrow> f x = g x) \<Longrightarrow> bind_outcome m f = bind_outcome n g"
  by (cases n) simp_all

lemma child_smaller: "c \<in> set (node_children n) \<Longrightarrow> size c < size n"
  by (cases n) (auto dest: size_list_estimation'[where y = "size c" and f = size])

lemma child_in: "child n a = Some c \<Longrightarrow> c \<in> set (node_children n)"
  by (auto simp: child_def find_Some_iff)

lemma list_elem_size: "list_elem env l k x = Some e \<Longrightarrow> elem_size (fst e) \<le> Suc (size x)"
  by (auto simp: list_elem_def split: if_splits)

lemma list_elems_size:
  "list_elems env l xs = Some es \<Longrightarrow> e \<in> set es \<Longrightarrow> \<exists>x \<in> set xs. elem_size (fst e) \<le> Suc (size x)"
  by (induction xs arbitrary: es) (auto split: option.splits dest: list_elem_size)

lemma map_elems_size:
  "map_elems env l xs = Some es \<Longrightarrow> e \<in> set es \<Longrightarrow> \<exists>x \<in> set xs. elem_size (fst e) \<le> Suc (size x)"
proof (induction env l xs arbitrary: es rule: map_elems.induct)
  case (1 env l k x xs)
  from "1.prems"(1) obtain y ys where y: "list_elem env l (unescape env (child_value k)) x = Some y"
    "map_elems env l xs = Some ys" "es = y # ys" by (auto split: option.splits)
  with "1.prems"(2) "1.IH"[OF y(1,2)] list_elem_size[OF y(1)] show ?case by auto
qed auto

lemma grandchild_smaller: "x \<in> set (ochildren (child n a)) \<Longrightarrow> size x < size n"
  using child_in[of n a] child_smaller[of "the (child n a)" n] child_smaller[of x "the (child n a)"]
  by (cases "child n a") (auto simp: on_node_def)

lemma DomValidElems_cases:
  assumes "DomValidElems env n = Some es"
  obtains (Lst) l a where "list_elems env l (ochildren (child n a)) = Some es"
    | (Map) l a where "map_elems env l (ochildren (child n a)) = Some es"
    | (Struct) "es = [(ENode (first_child n), '''')]"
proof (cases "attribute_value n ''type'' = ''list''")
  case True
  with assms have "list_elems env (oattribute (child n ''list'') ''type'') (ochildren (child n ''list'')) = Some es"
    by (simp add: DomValidElems_def Let_def)
  then show thesis by (rule Lst)
next
  case not_list: False
  show thesis
  proof (cases "attribute_value n ''type'' = ''struct''")
    case True
    with assms show thesis by (intro Struct) (simp add: DomValidElems_def)
  next
    case False
    with not_list assms have "map_elems env (oattribute (child n ''map'') ''value'') (ochildren (child n ''map'')) = Some es"
      by (simp add: DomValidElems_def Let_def split: if_splits)
    then show thesis by (rule Map)
  qed
qed

lemma DomValidElems_size:
  assumes "DomValidElems env n = Some es" and "e \<in> set es"
  shows "elem_size (fst e) < Suc (size n)"
proof -
  have first: "first_child n = Some c \<Longrightarrow> size c < size n" for c
    by (rule child_smaller) (auto simp: first_child_def split: list.splits)
  have bound: "elem_size (fst e) < Suc (size n)" if "\<exists>x \<in> set (ochildren (child n a)). elem_size (fst e) \<le> Suc (size x)" for a
    using that grandchild_smaller[of _ n a] by fastforce
  from assms(1) show ?thesis
  proof (cases rule: DomValidElems_cases)
    case (Lst l a)
    from bound[OF list_elems_size[OF this assms(2)]] show ?thesis .
  next
    case (Map l a)
    from bound[OF map_elems_size[OF this assms(2)]] show ?thesis .
  next
    case Struct
    with assms(2) first show ?thesis by (cases "first_child n") simp_all
  qed
qed

lemma visit_children_size:
  assumes "(nm, t, es) \<in> set (snd (foldl (visit_child env) acc xs))" and "e \<in> set es"
    and "\<And>nm t es e. (nm, t, es) \<in> set (snd acc) \<Longrightarrow> e \<in> set es \<Longrightarrow> elem_size (fst e) < k"
    and "\<And>x. x \<in> set xs \<Longrightarrow> Suc (size x) \<le> k"
  shows "elem_size (fst e) < k"
  using assms
proof (induction xs arbitrary: acc)
  case (Cons x xs)
  have sub: "set (map_assign n v m) \<subseteq> insert (n, v) (set m)" for n v and m :: "(string \<times> 'b) list"
    by (induction n v m rule: map_assign.induct) auto
  have "elem_size (fst e) < k" if "(nm, t, es) \<in> set (snd (visit_child env acc x))" "e \<in> set es" for nm t es e
    using that Cons.prems(3)[of nm t es e] Cons.prems(4)[of x] DomValidElems_size[of env x es e]
      sub[of "node_name x" "(attribute_value x ''tags'', es)" "snd acc"]
    by (auto simp: visit_child_def Let_def split: prod.splits if_splits option.splits dest!: subsetD[OF sub])
  with Cons.IH[of "visit_child env acc x"] Cons.prems(1,2,4) show ?case by auto
qed auto

lemma dom_stat_size:
  assumes "(nm, t, es) \<in> set (snd (dom_stat env ev))" and "e \<in> set es"
  shows "elem_size (fst e) < elem_size ev"
proof (cases ev)
  case (ENode n)
  with assms obtain x where n: "n = Some x" by (cases n) (auto simp: on_node_def)
  have "elem_size (fst e) < Suc (size x)"
  proof (rule visit_children_size[OF _ assms(2)])
    show "(nm, t, es) \<in> set (snd (foldl (visit_child env) ([], []) (node_children x)))"
      using assms(1) ENode n by (simp add: on_node_def)
    show "c \<in> set (node_children x) \<Longrightarrow> Suc (size c) \<le> Suc (size x)" for c
      using child_smaller[of c x] by simp
  qed simp
  with ENode n show ?thesis by simp
qed (use assms in simp)

text \<open>\<open>DomStatWalker\<close>: the element at the end of the chain. The result tells whether its tags were well formed;
  ill-formed elements are skipped.\<close>

function DomStatWalker :: "'d rule_env \<Rightarrow> string \<Rightarrow> 'd elem_chain \<Rightarrow> 'd StatWalker \<Rightarrow> (bool \<times> 'd StatWalker) outcome" where
  "DomStatWalker env tstr elem_chain sw =
     (case ParseDomTags env tstr elem_chain of
        None \<Rightarrow> Ret (False, sw)
      | Some tagmap \<Rightarrow>
          (let (node_name, ev, node_key) = last elem_chain;
               (attribs0, elem_map) = dom_stat env ev;
               attribs = (if node_key \<noteq> '''' then map_insert ''__key'' (VString node_key) attribs0 else attribs0)
           in bind_outcome (Push node_name tagmap attribs sw) (\<lambda>sw1.
              bind_outcome (foldl_outcome (\<lambda>s (nm, tstr_sub, elem_list).
                  foldl_outcome (\<lambda>s e. bind_outcome (DomStatWalker env tstr_sub (elem_chain @ [(nm, e)]) s) (\<lambda>(ok, s'). Ret s')) s elem_list)
                sw1 elem_map) (\<lambda>sw2.
              bind_outcome (Pop sw2) (\<lambda>sw3. Ret (True, sw3))))))"
  by pat_completeness auto
termination
proof (relation "measure (\<lambda>(env, tstr, chain, sw). elem_size (fst (snd (last chain))))", goal_cases)
  case (2 env tstr chain sw tagmap a nm b ev key c attribs0 elem_map attribs sw1 s x n y tstr_sub elem_list e s')
  then have "last chain = (nm, ev, key)" "dom_stat env ev = (attribs0, elem_map)" "(n, tstr_sub, elem_list) \<in> set elem_map" "s' \<in> set elem_list"
    by (cases b; auto)+
  with dom_stat_size[of n tstr_sub elem_list env ev s'] show ?case by simp
qed simp

declare DomStatWalker.simps [simp del]

text \<open>The statistics attribute \<open>node\<close> of an object. Each pop of the walker is a \<open>StatTableInsert\<close>; the calls are
  carried out when the walker, in its destructor, has seen that every push was popped.\<close>

definition top_tag :: "'d rule_env \<Rightarrow> xml_node \<Rightarrow> 'd StatTagMap \<Rightarrow> string \<Rightarrow> 'd StatTagMap" where
  "top_tag env object m t = map_insert t \<lparr>tv_prefix = ('''', VInvalid), tv_val = ParseNode env (child object t)\<rparr> m"

definition insert_calls :: "'d rule_env \<Rightarrow> u64 \<Rightarrow> string \<Rightarrow> 'd stat_call list \<Rightarrow> 'd DbHandler \<Rightarrow> 'd DbHandler" where
  "insert_calls env ts statName cs db =
     foldl (\<lambda>h (statAttr, tags, attribs). StatTableInsert (re_db env) ts statName statAttr tags attribs h) db cs"

definition DomTopStatWalker ::
    "'d rule_env \<Rightarrow> xml_node \<Rightarrow> u64 \<Rightarrow> xml_node \<Rightarrow> 'd StatTagMap \<Rightarrow> 'd DbHandler \<Rightarrow> (bool \<times> 'd DbHandler) outcome" where
  "DomTopStatWalker env object ts node tmap db =
     (case DomValidElems env node of
        None \<Rightarrow> Ret (False, db)
      | Some elem_list \<Rightarrow>
          (let tstr = attribute_value node ''tags''
           in case ParseDomTopTags tstr of
                None \<Rightarrow> Ret (False, db)
              | Some toptags \<Rightarrow>
                  (let m1 = foldl (top_tag env object) tmap toptags;
                       parent_chain = [(node_name object, (ENode (Some object), ''''))]
                   in bind_outcome (foldl_outcome (\<lambda>s e.
                          bind_outcome (DomStatWalker env tstr (parent_chain @ [(node_name node, e)]) s) (\<lambda>(ok, s'). Ret s'))
                        (new_StatWalker m1) elem_list) (\<lambda>sw.
                      bind_outcome (destroy_StatWalker sw) (\<lambda>cs. Ret (True, insert_calls env ts (node_name object) cs db))))))"

section \<open>Object logs\<close>

text \<open>The rows of a level: the values of its fields with a key annotation, joined per table.\<close>

definition add_key :: "'d rule_env \<Rightarrow> (string \<times> string) list \<Rightarrow> xml_node \<Rightarrow> (string \<times> string) list" where
  "add_key env keymap node =
     (let table = attribute_value node ''key''; nodetype = attribute_value node ''type''
      in if table \<noteq> '''' \<and> nodetype \<noteq> '''' then
           (let rowkey = unescape env (child_value node)
            in case map_of keymap table of
                 Some old \<Rightarrow> map_assign table (old @ '':'' @ rowkey) keymap
               | None \<Rightarrow> map_insert table rowkey keymap)
         else keymap)"

definition insert_object :: "'d rule_env \<Rightarrow> u64 \<Rightarrow> VizMsg \<Rightarrow> 'd DbHandler \<times> string list \<Rightarrow> string \<times> string \<Rightarrow> 'd DbHandler \<times> string list" where
  "insert_object env ts rmsg st kv =
     (ObjectTableInsert (re_db env) (fst kv) (snd kv) ts rmsg (fst st), snd st @ [fst kv @ '':'' @ snd kv])"

fun DomObjectWalk :: "'d rule_env \<Rightarrow> u64 \<Rightarrow> VizMsg \<Rightarrow> xml_node \<Rightarrow> 'd DbHandler \<times> string list \<Rightarrow> 'd DbHandler \<times> string list"
and DomObjectWalks :: "'d rule_env \<Rightarrow> u64 \<Rightarrow> VizMsg \<Rightarrow> xml_node list \<Rightarrow> 'd DbHandler \<times> string list \<Rightarrow> 'd DbHandler \<times> string list" where
  "DomObjectWalk env ts rmsg (XElement n as cs) st =
     DomObjectWalks env ts rmsg cs (foldl (insert_object env ts rmsg) st (foldl (add_key env) [] cs))"
| "DomObjectWalk env ts rmsg (XText s) st = st"
| "DomObjectWalks env ts rmsg [] st = st"
| "DomObjectWalks env ts rmsg (c # cs) st = DomObjectWalks env ts rmsg cs (DomObjectWalk env ts rmsg c st)"

definition plain_tag :: "'d Var \<Rightarrow> 'd TagVal" where
  "plain_tag v = \<lparr>tv_prefix = ('''', VInvalid), tv_val = v\<rparr>"

definition walk_tagged :: "'d rule_env \<Rightarrow> xml_node \<Rightarrow> u64 \<Rightarrow> 'd StatTagMap \<Rightarrow> 'd DbHandler \<Rightarrow> xml_node \<Rightarrow> 'd DbHandler outcome" where
  "walk_tagged env object ts m1 db node =
     (if has_attribute node ''tags'' then bind_outcome (DomTopStatWalker env object ts node m1 db) (\<lambda>(ok, db'). Ret db') else Ret db)"

definition handle_object_log ::
    "'d rule_env \<Rightarrow> xml_node \<Rightarrow> VizMsg \<Rightarrow> 'd DbHandler \<Rightarrow> ('d DbHandler \<times> string list) outcome" where
  "handle_object_log env parent rmsg db =
     (let header = msg_header rmsg; ts = hdr_Timestamp header; source = hdr_Source header
      in if and (hdr_Hints header) (key_hint env) = 0 then Ret (db, [])
         else let (db1, object_names) = DomObjectWalk env ts rmsg parent (db, [])
              in if hdr_Type header = ST_UVE then Ret (db1, object_names)
                 else let nkey = foldl (\<lambda>k node. if node_name node = ''name'' then ParseNode env (Some node) else k)
                                   (VString source) (node_children parent);
                          m1 = map_insert ''name'' (plain_tag nkey) (map_insert ''Source'' (plain_tag (VString source)) [])
                      in bind_outcome (foldl_outcome (walk_tagged env parent ts m1) db1 (node_children parent))
                           (\<lambda>db2. Ret (db2, object_names)))"

section \<open>UVEs\<close>

definition is_uve :: "SandeshHeader \<Rightarrow> bool" where
  "is_uve header \<longleftrightarrow> hdr_Type header = ST_UVE \<or> hdr_Type header = ST_ALARM"

text \<open>The object of a UVE: the first child of the node \<open>data\<close>.\<close>

definition uve_object :: "xml_node \<Rightarrow> xml_node option" where
  "uve_object parent = on_node first_child None (child parent ''data'')"

fun uve_statistics_loop ::
    "'d rule_env \<Rightarrow> xml_node \<Rightarrow> SandeshHeader \<Rightarrow> xml_node list \<Rightarrow> 'd DbHandler \<Rightarrow> 'd DbHandler outcome" where
  "uve_statistics_loop env object header [] db = Ret db"
| "uve_statistics_loop env object header (node # rest) db =
     (if attribute_value node ''key'' \<noteq> '''' then uve_statistics_loop env object header rest db
      else if node_name node = ''deleted'' \<and> child_value node = ''true'' then Ret db
      else if has_attribute node ''tags'' \<and> and (hdr_Hints header) (sync_hint env) = 0 then
        (let m1 = map_insert ''Source'' (plain_tag (VString (hdr_Source header)))
                    (map_insert ''name'' (plain_tag (ParseNode env (child object ''name''))) [])
         in bind_outcome (DomTopStatWalker env object (hdr_Timestamp header) node m1 db)
              (\<lambda>(ok, db'). uve_statistics_loop env object header rest db'))
      else uve_statistics_loop env object header rest db)"

definition handle_uve_statistics :: "'d rule_env \<Rightarrow> xml_node option \<Rightarrow> VizMsg \<Rightarrow> 'd DbHandler \<Rightarrow> (bool \<times> 'd DbHandler) outcome" where
  "handle_uve_statistics env parent rmsg db =
     (if \<not> is_uve (msg_header rmsg) then Ret (True, db)
      else case parent of
             None \<Rightarrow> Ret (False, db)
           | Some p \<Rightarrow> (case uve_object p of
               None \<Rightarrow> Ret (True, db)
             | Some object \<Rightarrow> bind_outcome (uve_statistics_loop env object (msg_header rmsg) (node_children object) db) (\<lambda>db'. Ret (True, db'))))"

text \<open>The calls of \<open>OpServerProxy\<close>: the object name, the attribute and its XML, and the key of the UVE.\<close>

record uve_id =
  ui_object_name :: string
  ui_source :: string
  ui_node_type :: string
  ui_module :: string
  ui_instance_id :: string

datatype osp_call =
    UVEUpdate uve_id string string string string int string u64 bool
  | UVEDelete uve_id string int bool
  | UVENotif uve_id string string "(string \<times> string \<times> xml_node) list" bool

record uve_keys =
  uk_barekey :: string
  uk_table :: string
  uk_object_name :: string
  uk_deleted :: bool

definition scan_uve_node :: "'d rule_env \<Rightarrow> uve_keys \<Rightarrow> xml_node \<Rightarrow> uve_keys" where
  "scan_uve_node env k node =
     (let tempstr = attribute_value node ''key'';
          k1 = (if tempstr \<noteq> '''' then
                  (let rowkey = unescape env (child_value node)
                   in if uk_barekey k \<noteq> '''' then k\<lparr>uk_barekey := uk_barekey k @ '':'' @ rowkey\<rparr>
                      else k\<lparr>uk_table := tempstr, uk_barekey := uk_barekey k @ rowkey\<rparr>)
                else k);
          k2 = (if node_name node = ''deleted'' \<and> child_value node = ''true'' then k1\<lparr>uk_deleted := True\<rparr> else k1)
      in if node_name node = ''proxy'' then k2\<lparr>uk_object_name := uk_object_name k2 @ ''-'' @ child_value node\<rparr> else k2)"

definition uve_updates ::
    "'d rule_env \<Rightarrow> uve_id \<Rightarrow> uve_keys \<Rightarrow> SandeshHeader \<Rightarrow> bool \<Rightarrow> osp_call list \<times> (string \<times> string \<times> xml_node) list \<Rightarrow> xml_node \<Rightarrow>
      osp_call list \<times> (string \<times> string \<times> xml_node) list" where
  "uve_updates env uid k header is_alarm st node =
     (let (cs, vmap) = st; ostr = print_node env node
      in if attribute_value node ''key'' \<noteq> '''' then (cs, vmap)
         else let agg = (if attribute_value node ''aggtype'' \<noteq> '''' then attribute_value node ''aggtype'' else ''None'')
              in (cs @ [UVEUpdate uid (node_name node) (uk_table k) (uk_barekey k) ostr (hdr_SequenceNum header) agg (hdr_Timestamp header) is_alarm],
                  map_insert (node_name node) (ostr, node) vmap))"

definition handle_uve_publish :: "'d rule_env \<Rightarrow> xml_node option \<Rightarrow> VizMsg \<Rightarrow> bool \<times> osp_call list" where
  "handle_uve_publish env parent rmsg =
     (let header = msg_header rmsg; is_alarm = (hdr_Type header = ST_ALARM)
      in if \<not> is_uve header then (True, [])
         else case parent of
                None \<Rightarrow> (False, [])
              | Some p \<Rightarrow>
                  (let object = uve_object p;
                       k = foldl (scan_uve_node env)
                             \<lparr>uk_barekey = '''', uk_table = '''', uk_object_name = on_node node_name '''' object, uk_deleted = False\<rparr>
                             (ochildren object);
                       uid = \<lparr>ui_object_name = uk_object_name k, ui_source = hdr_Source header, ui_node_type = hdr_NodeType header,
                              ui_module = hdr_Module header, ui_instance_id = hdr_InstanceId header\<rparr>
                   in if uk_table k = '''' then (False, [])
                      else if uk_deleted k then
                        (True, [UVEDelete uid (uk_table k @ '':'' @ uk_barekey k) (hdr_SequenceNum header) is_alarm,
                                UVENotif uid (uk_table k) (uk_barekey k) [] True])
                      else let (cs, vmap) = foldl (uve_updates env uid k header is_alarm) ([], []) (ochildren object)
                           in (True, cs @ [UVENotif uid (uk_table k) (uk_barekey k) vmap False])))"

section \<open>Annotations that are not kept\<close>

fun remove_first :: "string \<Rightarrow> (string \<times> string) list \<Rightarrow> (string \<times> string) list" where
  "remove_first k [] = []"
| "remove_first k (e # es) = (if fst e = k then es else e # remove_first k es)"

fun drop_identifier :: "xml_node \<Rightarrow> xml_node" where
  "drop_identifier (XElement n as cs) = XElement n (remove_first ''identifier'' as) (map drop_identifier cs)"
| "drop_identifier (XText s) = XText s"

text \<open>\<open>remove_identifier\<close> clears the attribute of everything below a node.\<close>

fun remove_identifier :: "xml_node \<Rightarrow> xml_node" where
  "remove_identifier (XElement n as cs) = XElement n as (map drop_identifier cs)"
| "remove_identifier (XText s) = XText s"

section \<open>The structure behind the walk\<close>

text \<open>The nested structure a statistics attribute stands for; elements whose tags are ill formed are left out.\<close>

function dom_tree :: "'d rule_env \<Rightarrow> string \<Rightarrow> 'd elem_chain \<Rightarrow> 'd stat_tree list" where
  "dom_tree env tstr chain =
     (case ParseDomTags env tstr chain of
        None \<Rightarrow> []
      | Some tagmap \<Rightarrow>
          (let (name, ev, key) = last chain; (attribs0, elem_map) = dom_stat env ev
           in [StatTree name tagmap (if key \<noteq> '''' then map_insert ''__key'' (VString key) attribs0 else attribs0)
                 (concat (map (\<lambda>(nm, t, es). concat (map (\<lambda>e. dom_tree env t (chain @ [(nm, e)])) es)) elem_map))]))"
  by pat_completeness auto
termination
proof (relation "measure (\<lambda>(env, tstr, chain). elem_size (fst (snd (last chain))))", goal_cases)
  case (2 env tstr chain tagmap a nm b ev key c attribs0 elem_map x n y tstr_sub elem_list e)
  then have "last chain = (nm, ev, key)" "dom_stat env ev = (attribs0, elem_map)" "(n, tstr_sub, elem_list) \<in> set elem_map" "e \<in> set elem_list"
    by (cases b; auto)+
  with dom_stat_size[of n tstr_sub elem_list env ev e] show ?case by simp
qed simp

declare dom_tree.simps [simp del]

lemma walks_append: "walks (xs @ ys) w = bind_outcome (walks xs w) (walks ys)"
  by (induction xs arbitrary: w) (auto simp: bind_outcome_assoc intro: bind_outcome_cong)

lemma walks_concat:
  assumes "\<And>x s. x \<in> set xs \<Longrightarrow> f s x = walks (g x) s"
  shows "foldl_outcome f s xs = walks (concat (map g xs)) s"
  using assms by (induction xs arbitrary: s) (auto simp: walks_append intro: bind_outcome_cong)

lemma DomStatWalker_walks:
  "bind_outcome (DomStatWalker env tstr chain sw) (\<lambda>(ok, s). Ret s) = walks (dom_tree env tstr chain) sw"
proof (induction env tstr chain sw rule: DomStatWalker.induct)
  case (1 env tstr chain sw)
  show ?case
  proof (cases "ParseDomTags env tstr chain")
    case None
    then show ?thesis by (simp add: DomStatWalker.simps dom_tree.simps)
  next
    case (Some tagmap)
    obtain nm ev key where l: "last chain = (nm, ev, key)" by (metis prod_cases3)
    obtain attribs0 elem_map where d: "dom_stat env ev = (attribs0, elem_map)" by (cases "dom_stat env ev")
    let ?as = "if key \<noteq> '''' then map_insert ''__key'' (VString key) attribs0 else attribs0"
    have children: "foldl_outcome (\<lambda>s (nm, t, es).
        foldl_outcome (\<lambda>s e. bind_outcome (DomStatWalker env t (chain @ [(nm, e)]) s) (\<lambda>(ok, s'). Ret s')) s es) sw1 elem_map =
      walks (concat (map (\<lambda>(nm, t, es). concat (map (\<lambda>e. dom_tree env t (chain @ [(nm, e)])) es)) elem_map)) sw1"
      if "Push nm tagmap ?as sw = Ret sw1" for sw1
      using 1[OF Some refl l[symmetric] refl refl d[symmetric] refl that]
      by (intro walks_concat) (auto intro!: walks_concat)
    show ?thesis
      by (cases "Push nm tagmap ?as sw")
        (auto simp: DomStatWalker.simps[of env tstr chain] dom_tree.simps[of env tstr chain] Some l d children bind_outcome_assoc
          intro!: bind_outcome_cong)
  qed
qed

section \<open>Names without dots\<close>

fun plain_names :: "xml_node \<Rightarrow> bool" where
  "plain_names (XElement n as cs) \<longleftrightarrow> n \<noteq> '''' \<and> CHR ''.'' \<notin> set n \<and> list_all plain_names cs"
| "plain_names (XText s) \<longleftrightarrow> True"

fun plain_elem :: "'d ElemVar \<Rightarrow> bool" where
  "plain_elem (ENode (Some n)) \<longleftrightarrow> plain_names n" | "plain_elem (ENode None) \<longleftrightarrow> True" | "plain_elem (EVar _) \<longleftrightarrow> True"

abbreviation undotted :: "(string \<times> 'v) list \<Rightarrow> bool" where
  "undotted m \<equiv> list_all (\<lambda>(k, _). CHR ''.'' \<notin> set k) m"

lemma good_forest_all: "good_forest ts \<longleftrightarrow> list_all good_tree ts"
  by (induction ts) simp_all

lemma undotted_insert: "undotted m \<Longrightarrow> CHR ''.'' \<notin> set k \<Longrightarrow> undotted (map_insert k v m)"
  by (induction k v m rule: map_insert.induct) auto

lemma plain_child: "plain_names n \<Longrightarrow> c \<in> set (node_children n) \<Longrightarrow> plain_names c"
  by (cases n) (auto simp: list_all_iff)

lemma plain_ochild: "plain_names n \<Longrightarrow> c \<in> set (ochildren (child n a)) \<Longrightarrow> plain_names c"
  by (cases "child n a") (auto simp: on_node_def dest: child_in plain_child)

lemma plain_element_name: "plain_names c \<Longrightarrow> is_element c \<Longrightarrow> node_name c \<noteq> '''' \<and> CHR ''.'' \<notin> set (node_name c)"
  by (cases c) auto

lemma tag_value_undotted:
  assumes "tag_value env e a = Some v" and "plain_elem (fst e)"
  shows "CHR ''.'' \<notin> set a"
proof (cases "a = ''__key''")
  case False
  with assms obtain n c where "fst e = ENode (Some n)" "child n a = Some c"
    by (cases "fst e" rule: elem_size.cases) (auto simp: tag_value_def split: option.splits)
  with assms(2) plain_element_name[of c] plain_child[of n c] child_in[of n a c] show ?thesis
    by (auto simp: child_def find_Some_iff)
qed simp

lemma chain_tag_terms_good:
  assumes "chain_tag_terms env chain terms m = Some m'" and "plain_elem (fst (snd (last chain)))" and "chain \<noteq> []"
    and "sorted_map m" and "undotted m"
  shows "sorted_map m' \<and> undotted m'"
  using assms(1,4,5)
proof (induction terms arbitrary: m)
  case (Cons t terms)
  let ?p = "fst (split_term t)" and ?s = "snd (split_term t)"
  have l: "chain ! (length chain - Suc 0) = last chain" using assms(3) by (simp add: last_conv_nth)
  show ?case
  proof (cases "?s ! 0 = CHR ''.''")
    case True
    with Cons.prems(1) obtain v p where v: "tag_value env (snd (last chain)) (drop 1 ?s) = Some v"
      "chain_tag_terms env chain terms (map_insert (drop 1 ?s) \<lparr>tv_prefix = p, tv_val = v\<rparr> m) = Some m'"
      by (auto simp: Let_def case_prod_unfold l split: if_splits option.splits)
    have "CHR ''.'' \<notin> set (drop 1 ?s)" using tag_value_undotted[OF v(1)] assms(2) by simp
    with Cons.prems show ?thesis
      by (intro Cons.IH[OF v(2)]) (auto intro: sorted_map_insert undotted_insert)
  next
    case False
    with Cons show ?thesis by (auto simp: Let_def case_prod_unfold split: if_splits)
  qed
qed simp

lemma ParseDomTags_good:
  assumes "ParseDomTags env tstr chain = Some m" and "plain_elem (fst (snd (last chain)))" and "chain \<noteq> []"
  shows "sorted_map m \<and> undotted m"
  using assms chain_tag_terms_good[of env chain _ "[]" m] by (auto simp: ParseDomTags_def split: if_splits)

lemma list_elem_plain: "list_elem env l k x = Some e \<Longrightarrow> plain_names x \<Longrightarrow> plain_elem (fst e)"
  by (auto simp: list_elem_def split: if_splits)

lemma list_elems_plain: "list_elems env l xs = Some es \<Longrightarrow> list_all plain_names xs \<Longrightarrow> e \<in> set es \<Longrightarrow> plain_elem (fst e)"
  by (induction xs arbitrary: es) (auto split: option.splits dest: list_elem_plain)

lemma map_elems_plain: "map_elems env l xs = Some es \<Longrightarrow> list_all plain_names xs \<Longrightarrow> e \<in> set es \<Longrightarrow> plain_elem (fst e)"
  by (induction env l xs arbitrary: es rule: map_elems.induct) (auto split: option.splits dest: list_elem_plain)

lemma DomValidElems_plain:
  assumes "DomValidElems env n = Some es" and "plain_names n" and "e \<in> set es"
  shows "plain_elem (fst e)"
proof -
  have sub: "list_all plain_names (ochildren (child n a))" for a
    using plain_ochild[OF assms(2)] by (auto simp: list_all_iff)
  have "first_child n = Some c \<Longrightarrow> plain_names c" for c
    by (rule plain_child[OF assms(2)]) (auto simp: first_child_def split: list.splits)
  then have first: "plain_elem (ENode (first_child n))" by (cases "first_child n") simp_all
  from assms(1) show ?thesis
  proof (cases rule: DomValidElems_cases)
    case (Lst l a)
    then show ?thesis by (rule list_elems_plain[OF _ sub assms(3)])
  next
    case (Map l a)
    then show ?thesis by (rule map_elems_plain[OF _ sub assms(3)])
  next
    case Struct
    with assms(3) first show ?thesis by simp
  qed
qed

definition good_visit :: "'d AttribMap \<times> 'd elem_map \<Rightarrow> bool" where
  "good_visit acc \<longleftrightarrow> sorted_map (fst acc) \<and> undotted (fst acc) \<and>
     list_all (\<lambda>(nm, _, es). nm \<noteq> '''' \<and> list_all (plain_elem \<circ> fst) es) (snd acc)"

lemma ParseNode_element: "ParseNode env (Some n) \<noteq> VInvalid \<Longrightarrow> is_element n"
  by (cases n) (simp_all add: ParseNode_def attribute_value_def ParseNodeImpl_def)

lemma has_attribute_element: "has_attribute n a \<Longrightarrow> is_element n"
  by (cases n) (simp_all add: has_attribute_def)

lemma set_map_assign_sub: "set (map_assign n v m) \<subseteq> insert (n, v) (set m)"
  by (induction n v m rule: map_assign.induct) auto

lemma visit_child_good:
  assumes "good_visit acc" and "plain_names x"
  shows "good_visit (visit_child env acc x)"
proof -
  obtain as em where acc: "acc = (as, em)" by (cases acc)
  consider (attr) "ParseNode env (Some x) \<noteq> VInvalid" | (skip) "visit_child env acc x = acc"
    | (elems) es where "DomValidElems env x = Some es" "has_attribute x ''tags''"
        "visit_child env acc x = (as, map_assign (node_name x) (attribute_value x ''tags'', es) em)"
    by (cases "ParseNode env (Some x) = VInvalid"; cases "DomValidElems env x"; cases "has_attribute x ''tags''")
      (auto simp: visit_child_def acc)
  then show ?thesis
  proof cases
    case attr
    with plain_element_name[OF assms(2) ParseNode_element[OF attr]] assms(1) show ?thesis
      by (simp add: visit_child_def good_visit_def Let_def acc sorted_map_insert undotted_insert)
  next
    case (elems es)
    have "node_name x \<noteq> ''''" using plain_element_name[OF assms(2)] has_attribute_element[OF elems(2)] by blast
    with DomValidElems_plain[OF elems(1) assms(2)] assms(1) set_map_assign_sub[of "node_name x" "(attribute_value x ''tags'', es)" em]
    have "good_visit (as, map_assign (node_name x) (attribute_value x ''tags'', es) em)"
      by (fastforce simp: good_visit_def acc list_all_iff)
    then show ?thesis by (simp only: elems(3))
  qed (use assms in simp)
qed

lemma visit_children_good: "list_all plain_names xs \<Longrightarrow> good_visit acc \<Longrightarrow> good_visit (foldl (visit_child env) acc xs)"
  by (induction xs arbitrary: acc) (simp_all add: visit_child_good)

lemma dom_stat_good:
  assumes "plain_elem ev"
  shows "good_visit (dom_stat env ev)"
proof (cases ev rule: elem_size.cases)
  case (1 n)
  with assms have "list_all plain_names (node_children n)" by (cases n) simp_all
  from visit_children_good[OF this, of "([], [])" env] show ?thesis by (simp add: 1 on_node_def) (simp add: good_visit_def)
qed (simp_all add: good_visit_def on_node_def)

lemma dom_tree_good:
  "plain_elem (fst (snd (last chain))) \<Longrightarrow> fst (last chain) \<noteq> '''' \<Longrightarrow> chain \<noteq> [] \<Longrightarrow> good_forest (dom_tree env tstr chain)"
proof (induction env tstr chain rule: dom_tree.induct)
  case (1 env tstr chain)
  show ?case
  proof (cases "ParseDomTags env tstr chain")
    case None
    then show ?thesis by (simp add: dom_tree.simps)
  next
    case (Some m)
    obtain nm ev key where l: "last chain = (nm, ev, key)" by (metis prod_cases3)
    obtain as em where d: "dom_stat env ev = (as, em)" by (cases "dom_stat env ev")
    from dom_stat_good[of ev env] "1.prems"(1) have g: "good_visit (as, em)" by (simp add: l d)
    note IH = "1.IH"[OF Some refl l[symmetric] refl refl d[symmetric]]
    have sub: "list_all good_tree (concat (map (\<lambda>(nm, t, es). concat (map (\<lambda>e. dom_tree env t (chain @ [(nm, e)])) es)) em))"
    proof -
      have "list_all good_tree (dom_tree env t (chain @ [(n, e)]))" if "(n, t, es) \<in> set em" "e \<in> set es" for n t es e
        using IH[OF that(1) refl refl that(2)] that g by (auto simp: good_visit_def list_all_iff good_forest_all)
      then show ?thesis by (auto simp: list_all_iff)
    qed
    have "sorted_map m \<and> undotted m" using ParseDomTags_good[OF Some] "1.prems" by simp
    moreover have "sorted_map as' \<and> undotted as'" if "as' = (if key \<noteq> '''' then map_insert ''__key'' (VString key) as else as)" for as'
      using g that by (auto simp: good_visit_def sorted_map_insert undotted_insert)
    ultimately show ?thesis
      using sub "1.prems"(2) by (simp add: dom_tree.simps[of env tstr chain] Some l d good_forest_all)
  qed
qed

section \<open>What is recorded of a message\<close>

text \<open>The structures a statistics attribute of an object stands for.\<close>

definition attribute_trees :: "'d rule_env \<Rightarrow> xml_node \<Rightarrow> xml_node \<Rightarrow> 'd ElemT list \<Rightarrow> 'd stat_tree list" where
  "attribute_trees env object node es =
     concat (map (\<lambda>e. dom_tree env (attribute_value node ''tags'') [(node_name object, (ENode (Some object), '''')), (node_name node, e)]) es)"

lemma attribute_trees_good:
  assumes "plain_names node" and "is_element node" and "DomValidElems env node = Some es"
  shows "good_forest (attribute_trees env object node es)"
proof -
  have "good_forest (dom_tree env t [(a, b), (node_name node, e)])" if "e \<in> set es" for t a b e
    by (rule dom_tree_good) (use that DomValidElems_plain[OF assms(3,1)] plain_element_name[OF assms(1,2)] in auto)
  then show ?thesis by (auto simp: attribute_trees_def good_forest_all list_all_iff)
qed

lemma DomTopStatWalker_plain:
  assumes "plain_names node" and "is_element node"
  shows "DomTopStatWalker env object ts node tmap db =
    Ret (case (DomValidElems env node, ParseDomTopTags (attribute_value node ''tags'')) of
           (Some es, Some toptags) \<Rightarrow>
             (True, insert_calls env ts (node_name object)
                (forest_calls (foldl (top_tag env object) tmap toptags) [] (attribute_trees env object node es)) db)
         | _ \<Rightarrow> (False, db))"
proof (cases "DomValidElems env node")
  case None
  then show ?thesis by (simp add: DomTopStatWalker_def)
next
  case (Some es)
  let ?chain = "\<lambda>e. [(node_name object, (ENode (Some object), '''')), (node_name node, e)]"
  have loop: "foldl_outcome (\<lambda>s e. bind_outcome (DomStatWalker env t (?chain e) s) (\<lambda>(ok, s'). Ret s')) w es =
      walks (concat (map (\<lambda>e. dom_tree env t (?chain e)) es)) w" for t w
    by (rule walks_concat) (rule DomStatWalker_walks)
  show ?thesis
  proof (cases "ParseDomTopTags (attribute_value node ''tags'')")
    case None
    with Some show ?thesis by (simp add: DomTopStatWalker_def)
  next
    case toptags: (Some tt)
    have "walks (attribute_trees env object node es) (new_StatWalker (foldl (top_tag env object) tmap tt)) =
        Ret \<lparr>top_tags = foldl (top_tag env object) tmap tt, nodes = [],
             calls = forest_calls (foldl (top_tag env object) tmap tt) [] (attribute_trees env object node es)\<rparr>"
      using walk_reports(2)[OF attribute_trees_good[OF assms Some]] by (simp add: new_StatWalker_def)
    then show ?thesis
      by (simp add: DomTopStatWalker_def Some toptags Let_def loop destroy_StatWalker_def flip: attribute_trees_def)
  qed
qed

text \<open>
  C9: the statistics of a message are recorded. In a message whose element names are not empty and have no
  dots, the walk over an annotated attribute fails no assertion. When its annotation and elements are well
  formed, exactly one sample is inserted for each structure found in it, innermost first, named by the path to the
  structure, with the tags of the message, of the annotation and of the structures around it; a structure
  with ill-formed tags is left out together with what is inside. Otherwise nothing is inserted.
\<close>

theorem statistics_recorded:
  assumes "plain_names node" and "is_element node"
  shows "DomTopStatWalker env object ts node tmap db =
    Ret (case (DomValidElems env node, ParseDomTopTags (attribute_value node ''tags'')) of
           (Some es, Some toptags) \<Rightarrow>
             (True, insert_calls env ts (node_name object)
                (forest_calls (foldl (top_tag env object) tmap toptags) [] (attribute_trees env object node es)) db)
         | _ \<Rightarrow> (False, db))"
  by (rule DomTopStatWalker_plain[OF assms])

text \<open>A concrete environment for evaluations: the identity for the conversions, one uuid and one partition.\<close>

definition plain_db_env :: "nat db_env" where
  "plain_db_env = \<lparr>umn_gen = (\<lambda>_. [1]), gen_partition_no = (\<lambda>_. 0), name_uuid = (\<lambda>_. [2]), stale_uuid = [],
     db_add_column = (\<lambda>_. True), json_writer = (\<lambda>_. ''{}''), db_show_double = (\<lambda>_. ''0''), parse_ip = (\<lambda>_. None)\<rparr>"

definition plain_env :: "nat rule_env" where
  "plain_env = \<lparr>re_db = plain_db_env, re_stype_num = (\<lambda>_. 1), unescape = (\<lambda>s. s), strtod = (\<lambda>_. 0), print_node = node_name,
     key_hint = 1, sync_hint = 2\<rparr>"

theorem statistics_recorded_witness:
  "let node = XElement ''cpu'' [(''type'', ''struct''), (''tags'', ''.core'')]
         [XElement ''Cpu'' [] [XElement ''core'' [(''type'', ''string'')] [XText ''c0''], XElement ''load'' [(''type'', ''u32'')] [XText ''5'']]];
       object = XElement ''Node'' [] [node]
   in DomTopStatWalker plain_env object 7 node [] empty_handler =
        Ret (True, insert_calls plain_env 7 ''Node''
          [(''cpu'', [(''cpu.core'', VString ''c0'', [])], [(''cpu.core'', VString ''c0''), (''cpu.load'', VUint64 5)])] empty_handler)"
proof -
  let ?s = "XElement ''Cpu'' [] [XElement ''core'' [(''type'', ''string'')] [XText ''c0''], XElement ''load'' [(''type'', ''u32'')] [XText ''5'']]"
  let ?node = "XElement ''cpu'' [(''type'', ''struct''), (''tags'', ''.core'')] [?s]"
  let ?object = "XElement ''Node'' [] [?node]"
  have "show_nat 5 = ''5''" by code_simp
  then have five: "strtoul ''5'' = 5" using strtoul_show_nat[of 5] by simp
  have elems: "DomValidElems plain_env ?node = Some [(ENode (Some ?s), '''')]"
    by (simp add: DomValidElems_def attribute_value_def first_child_def)
  let ?chain = "[(''Node'', (ENode (Some ?object), '''')), (''cpu'', (ENode (Some ?s), ''''))] :: nat elem_chain"
  have tags: "ParseDomTags plain_env ''.core'' ?chain = Some [(''core'', \<lparr>tv_prefix = ('''', VInvalid), tv_val = VString ''c0''\<rparr>)]"
    by (simp add: ParseDomTags_def split_term_def tag_value_def tag_prefix_def child_def ParseNode_def ParseNodeImpl_def
        attribute_value_def child_value_def plain_env_def)
  have stat: "dom_stat plain_env (ENode (Some ?s)) = ([(''core'', VString ''c0''), (''load'', VUint64 5)], [])"
    by (simp add: visit_child_def on_node_def ParseNode_def ParseNodeImpl_def attribute_value_def child_value_def plain_env_def five)
  have "attribute_trees plain_env ?object ?node [(ENode (Some ?s), '''')] =
      [StatTree ''cpu'' [(''core'', \<lparr>tv_prefix = ('''', VInvalid), tv_val = VString ''c0''\<rparr>)]
         [(''core'', VString ''c0''), (''load'', VUint64 5)] []]"
    using tags stat by (simp add: attribute_trees_def dom_tree.simps[of plain_env "''.core''" ?chain] attribute_value_def del: dom_stat.simps)
  moreover have "ParseDomTopTags (attribute_value ?node ''tags'') = Some []"
    by (simp add: ParseDomTopTags_def attribute_value_def split_term_def)
  moreover have "plain_names ?node" "is_element ?node" by simp_all
  note statistics_recorded[OF this, of plain_env ?object 7 "[]" empty_handler]
  ultimately show ?thesis
    by (simp add: elems Let_def on_path_def FillTag_def add_tag_attribs_def)
qed

section \<open>Object logs\<close>

text \<open>The keys of the objects a message belongs to: level by level, per table the values of its key fields.\<close>

fun object_keys :: "'d rule_env \<Rightarrow> xml_node \<Rightarrow> (string \<times> string) list" where
  "object_keys env (XElement n as cs) = foldl (add_key env) [] cs @ concat (map (object_keys env) cs)"
| "object_keys env (XText s) = []"

lemma DomObjectWalk_keys:
  "DomObjectWalk env ts rmsg x st = foldl (insert_object env ts rmsg) st (object_keys env x)"
  "DomObjectWalks env ts rmsg xs st = foldl (insert_object env ts rmsg) st (concat (map (object_keys env) xs))"
  by (induction env ts rmsg x st and env ts rmsg xs st rule: DomObjectWalk_DomObjectWalks.induct) simp_all

lemma level_keys:
  "map_of (foldl (add_key env) [] cs) t =
     (let vs = map (unescape env \<circ> child_value) (filter (\<lambda>c. attribute_value c ''key'' = t \<and> attribute_value c ''type'' \<noteq> '''') cs)
      in if t = '''' \<or> vs = [] then None else Some (join '':'' vs))" (is "?m cs = ?v cs")
  and "sorted_map (foldl (add_key env) [] cs)"
proof -
  have "sorted_map (foldl (add_key env) [] cs) \<and> ?m cs = ?v cs" for t
  proof (induction cs rule: rev_induct)
    case (snoc c cs)
    then show ?case
      by (auto simp: add_key_def Let_def sorted_map_insert sorted_map_assign map_of_insert map_of_assign join_snoc split: option.splits)
  qed simp
  then show "?m cs = ?v cs" "sorted_map (foldl (add_key env) [] cs)" by blast+
qed

lemma object_row_not_stats: "\<not> stats_row (object_row ts ttl kv)"
  by (simp add: object_row_def)

lemma insert_object_rows:
  assumes "\<not> disable_messages_writes db" and "\<not> disable_all_writes db"
  shows "other_rows (fst (insert_object env ts rmsg (db, names) kv)) = other_rows db @ [object_row ts (message_ttl db rmsg) kv]"
proof -
  obtain t k where kv: "kv = (t, k)" by (cases kv)
  from ObjectTableInsert_rows[OF assms, of "re_db env" t k ts rmsg] object_row_not_stats[of ts "message_ttl db rmsg" kv]
  show ?thesis by (auto simp: insert_object_def kv list_all_iff)
qed

lemma message_ttl_config: "handler_config h = handler_config h' \<Longrightarrow> message_ttl h vmsg = message_ttl h' vmsg"
  by (simp add: message_ttl_def GetTtl_def handler_config_def)

lemma insert_objects_rows:
  assumes "\<not> disable_messages_writes db" and "\<not> disable_all_writes db"
  shows "other_rows (fst (foldl (insert_object env ts rmsg) (db, names) kvs)) = other_rows db @ map (object_row ts (message_ttl db rmsg)) kvs \<and>
    handler_config (fst (foldl (insert_object env ts rmsg) (db, names) kvs)) = handler_config db \<and>
    snd (foldl (insert_object env ts rmsg) (db, names) kvs) = names @ map (\<lambda>(t, k). t @ '':'' @ k) kvs"
  using assms
proof (induction kvs arbitrary: db names)
  case (Cons kv kvs)
  let ?st = "insert_object env ts rmsg (db, names) kv"
  have c: "handler_config (fst ?st) = handler_config db" by (simp add: insert_object_def ObjectTableInsert_config)
  then have on: "\<not> disable_messages_writes (fst ?st)" "\<not> disable_all_writes (fst ?st)"
    using Cons.prems by (auto simp: handler_config_def)
  from Cons.IH[OF on, of "snd ?st"] insert_object_rows[OF Cons.prems, of env ts rmsg names kv] message_ttl_config[OF c, of rmsg] c
  show ?case by (cases kv) (simp add: insert_object_def)
qed simp

lemma insert_calls_adds_stats: "adds_stats db (insert_calls env ts nm cs db)"
  unfolding insert_calls_def by (rule adds_stats_foldl) (auto simp: StatTableInsert_adds_stats split: prod.splits)

lemma DomTopStatWalker_adds_stats:
  assumes "plain_names node" and "is_element node"
  shows "\<exists>b db'. DomTopStatWalker env object ts node tmap db = Ret (b, db') \<and> adds_stats db db'"
  by (auto simp: DomTopStatWalker_plain[OF assms] insert_calls_adds_stats split: option.splits)

lemma walk_tagged_adds_stats:
  assumes "list_all plain_names xs"
  shows "\<exists>db'. foldl_outcome (walk_tagged env object ts m) db xs = Ret db' \<and> adds_stats db db'"
  using assms
proof (induction xs arbitrary: db)
  case (Cons x xs)
  have "\<exists>d. walk_tagged env object ts m db x = Ret d \<and> adds_stats db d"
    using DomTopStatWalker_adds_stats[of x env object ts m db] has_attribute_element[of x "''tags''"] Cons.prems
    by (auto simp: walk_tagged_def)
  then obtain d where "walk_tagged env object ts m db x = Ret d" "adds_stats db d" by blast
  with Cons.IH[of d] Cons.prems show ?case by (auto intro: adds_stats_trans)
qed simp

lemma handle_object_log_rows:
  assumes "\<not> disable_messages_writes db" and "\<not> disable_all_writes db" and "plain_names parent"
    and "and (hdr_Hints (msg_header rmsg)) (key_hint env) \<noteq> 0"
  shows "\<exists>db'. handle_object_log env parent rmsg db = Ret (db', map (\<lambda>(t, k). t @ '':'' @ k) (object_keys env parent)) \<and>
    other_rows db' = other_rows db @ map (object_row (hdr_Timestamp (msg_header rmsg)) (message_ttl db rmsg)) (object_keys env parent) \<and>
    handler_config db' = handler_config db"
proof -
  let ?ts = "hdr_Timestamp (msg_header rmsg)" and ?names = "map (\<lambda>(t, k). t @ '':'' @ k) (object_keys env parent)"
  obtain db1 names where w: "DomObjectWalk env ?ts rmsg parent (db, []) = (db1, names)" by force
  with insert_objects_rows[OF assms(1,2), of env ?ts rmsg "[]" "object_keys env parent"]
  have rows: "other_rows db1 = other_rows db @ map (object_row ?ts (message_ttl db rmsg)) (object_keys env parent)" "names = ?names"
    "handler_config db1 = handler_config db"
    by (simp_all add: DomObjectWalk_keys)
  from assms(3) have "list_all plain_names (node_children parent)" by (cases parent) simp_all
  note walk = walk_tagged_adds_stats[OF this, of env parent ?ts _ db1]
  show ?thesis
  proof (cases "hdr_Type (msg_header rmsg) = ST_UVE")
    case True
    with w rows assms(4) show ?thesis by (simp add: handle_object_log_def Let_def)
  next
    case False
    let ?key = "foldl (\<lambda>k node. if node_name node = ''name'' then ParseNode env (Some node) else k)
      (VString (hdr_Source (msg_header rmsg))) (node_children parent)"
    let ?m = "map_insert ''name'' (plain_tag ?key) (map_insert ''Source'' (plain_tag (VString (hdr_Source (msg_header rmsg)))) [])"
    from walk[of ?m] obtain db' where d: "foldl_outcome (walk_tagged env parent ?ts ?m) db1 (node_children parent) = Ret db'" "adds_stats db1 db'"
      by blast
    have "handle_object_log env parent rmsg db = Ret (db', ?names)"
      using False w rows(2) assms(4) d(1) by (simp add: handle_object_log_def Let_def)
    with adds_stats_other_rows[OF d(2)] d(2) rows(1,3) show ?thesis by (auto simp: adds_stats_def)
  qed
qed

text \<open>
  A message is recorded under every object it names. With writes enabled and element names without dots,
  processing a message that carries the key hint succeeds; the object table gets exactly one row per object
  key, at the time of the message, in the order in which the keys are found; and the names returned, which go into the
  columns of the message row, are those of the same objects. Everything else written is statistics.
\<close>

theorem objects_logged:
  assumes "\<not> disable_messages_writes db" and "\<not> disable_all_writes db" and "plain_names parent"
    and "and (hdr_Hints (msg_header rmsg)) (key_hint env) \<noteq> 0"
  shows "\<exists>db'. handle_object_log env parent rmsg db = Ret (db', map (\<lambda>(t, k). t @ '':'' @ k) (object_keys env parent)) \<and>
    other_rows db' = other_rows db @ map (object_row (hdr_Timestamp (msg_header rmsg)) (message_ttl db rmsg)) (object_keys env parent)"
  using handle_object_log_rows[OF assms] by blast

theorem objects_logged_witness:
  "let parent = XElement ''M'' [] [XElement ''vm'' [(''type'', ''string''), (''key'', ''ObjectVMTable'')] [XText ''v1'']];
       rmsg = (plain_msg ST_OBJECT 3)\<lparr>msg_header := (msg_header (plain_msg ST_OBJECT 3))\<lparr>hdr_Hints := 1\<rparr>\<rparr>
   in \<exists>db'. handle_object_log plain_env parent rmsg empty_handler = Ret (db', [''ObjectVMTable:v1'']) \<and>
        other_rows db' = [object_row 1 (message_ttl (empty_handler :: nat DbHandler) rmsg) (''ObjectVMTable'', ''v1'')]"
proof -
  let ?parent = "XElement ''M'' [] [XElement ''vm'' [(''type'', ''string''), (''key'', ''ObjectVMTable'')] [XText ''v1'']]"
  let ?rmsg = "(plain_msg ST_OBJECT 3)\<lparr>msg_header := (msg_header (plain_msg ST_OBJECT 3))\<lparr>hdr_Hints := 1\<rparr>\<rparr>"
  have "object_keys plain_env ?parent = [(''ObjectVMTable'', ''v1'')]"
    by (simp add: add_key_def attribute_value_def child_value_def plain_env_def)
  moreover have "\<not> disable_messages_writes (empty_handler :: nat DbHandler)" "\<not> disable_all_writes (empty_handler :: nat DbHandler)"
    "plain_names ?parent" "and (hdr_Hints (msg_header ?rmsg)) (key_hint plain_env) \<noteq> 0"
    "written (empty_handler :: nat DbHandler) = []" "hdr_Timestamp (msg_header ?rmsg) = 1"
    by (simp_all add: empty_handler_def plain_env_def plain_msg_def)
  ultimately show ?thesis using objects_logged[of "empty_handler :: nat DbHandler" ?parent ?rmsg plain_env] by simp
qed

section \<open>Publishing a UVE\<close>

definition key_nodes :: "xml_node \<Rightarrow> xml_node list" where
  "key_nodes object = filter (\<lambda>c. attribute_value c ''key'' \<noteq> '''') (node_children object)"

definition value_nodes :: "xml_node \<Rightarrow> xml_node list" where
  "value_nodes object = filter (\<lambda>c. attribute_value c ''key'' = '''') (node_children object)"

definition uve_name :: "xml_node \<Rightarrow> string" where
  "uve_name object = node_name object @ concat (map (\<lambda>c. ''-'' @ child_value c) (filter (\<lambda>c. node_name c = ''proxy'') (node_children object)))"

definition uve_is_deleted :: "xml_node \<Rightarrow> bool" where
  "uve_is_deleted object \<longleftrightarrow> list_ex (\<lambda>c. node_name c = ''deleted'' \<and> child_value c = ''true'') (node_children object)"

lemma scan_uve_nodes:
  assumes "list_all (\<lambda>c. attribute_value c ''key'' \<noteq> '''' \<longrightarrow> unescape env (child_value c) \<noteq> '''') cs"
  shows "foldl (scan_uve_node env) \<lparr>uk_barekey = '''', uk_table = '''', uk_object_name = nm, uk_deleted = False\<rparr> cs =
    (let ks = filter (\<lambda>c. attribute_value c ''key'' \<noteq> '''') cs
     in \<lparr>uk_barekey = join '':'' (map (unescape env \<circ> child_value) ks),
         uk_table = (if ks = [] then '''' else attribute_value (hd ks) ''key''),
         uk_object_name = nm @ concat (map (\<lambda>c. ''-'' @ child_value c) (filter (\<lambda>c. node_name c = ''proxy'') cs)),
         uk_deleted = list_ex (\<lambda>c. node_name c = ''deleted'' \<and> child_value c = ''true'') cs\<rparr>)"
  using assms
proof (induction cs rule: rev_induct)
  case (snoc c cs)
  let ?ks = "filter (\<lambda>c. attribute_value c ''key'' \<noteq> '''') cs"
  have "join '':'' (map (unescape env \<circ> child_value) ?ks) \<noteq> ''''" if "?ks \<noteq> []"
  proof -
    from snoc.prems that obtain k ks where "?ks = k # ks" "unescape env (child_value k) \<noteq> ''''"
      by (cases ?ks) (auto simp: list_all_iff filter_eq_Cons_iff)
    then show ?thesis by (cases ks) simp_all
  qed
  moreover have IH: "foldl (scan_uve_node env) \<lparr>uk_barekey = '''', uk_table = '''', uk_object_name = nm, uk_deleted = False\<rparr> cs =
    \<lparr>uk_barekey = join '':'' (map (unescape env \<circ> child_value) ?ks), uk_table = (if ?ks = [] then '''' else attribute_value (hd ?ks) ''key''),
     uk_object_name = nm @ concat (map (\<lambda>c. ''-'' @ child_value c) (filter (\<lambda>c. node_name c = ''proxy'') cs)),
     uk_deleted = list_ex (\<lambda>c. node_name c = ''deleted'' \<and> child_value c = ''true'') cs\<rparr>"
    using snoc by (simp add: Let_def comp_def)
  ultimately show ?case
    unfolding foldl_append foldl.simps IH Let_def
    by (cases "?ks = []"; cases "attribute_value c ''key'' = ''''"; cases "node_name c = ''proxy''";
        cases "node_name c = ''deleted''"; cases "child_value c = ''true''")
      (simp_all add: scan_uve_node_def join_snoc Let_def)
qed simp

lemma uve_updates_fold:
  "foldl (uve_updates env uid k header al) (cs0, vm0) xs =
     (cs0 @ map (\<lambda>c. UVEUpdate uid (node_name c) (uk_table k) (uk_barekey k) (print_node env c) (hdr_SequenceNum header)
        (if attribute_value c ''aggtype'' \<noteq> '''' then attribute_value c ''aggtype'' else ''None'') (hdr_Timestamp header) al)
        (filter (\<lambda>c. attribute_value c ''key'' = '''') xs),
      foldl insert_pair vm0 (map (\<lambda>c. (node_name c, (print_node env c, c))) (filter (\<lambda>c. attribute_value c ''key'' = '''') xs)))"
  by (induction xs arbitrary: cs0 vm0) (simp_all add: uve_updates_def Let_def insert_pair_def)

text \<open>
  C32: a UVE is published completely. The key of a UVE with non-empty key fields is the values of these fields,
  joined by colons, in the table of the first one. A deleted UVE is deleted and announced as deleted; any
  other has one update for each field that is not a key, in the order of the message, with the sequence number and time
  of the message and the aggregation type of the field, followed by one notification with all of them.
\<close>

theorem uve_published:
  assumes "is_uve (msg_header rmsg)" and "uve_object p = Some object" and "key_nodes object \<noteq> []"
    and "list_all (\<lambda>c. unescape env (child_value c) \<noteq> '''') (key_nodes object)"
    and "table = attribute_value (hd (key_nodes object)) ''key''"
    and "key = join '':'' (map (unescape env \<circ> child_value) (key_nodes object))"
    and "hdr = msg_header rmsg" and "al = (hdr_Type hdr = ST_ALARM)"
    and "uid = \<lparr>ui_object_name = uve_name object, ui_source = hdr_Source hdr, ui_node_type = hdr_NodeType hdr,
                ui_module = hdr_Module hdr, ui_instance_id = hdr_InstanceId hdr\<rparr>"
  shows "handle_uve_publish env (Some p) rmsg =
    (True, if uve_is_deleted object then [UVEDelete uid (table @ '':'' @ key) (hdr_SequenceNum hdr) al, UVENotif uid table key [] True]
           else map (\<lambda>c. UVEUpdate uid (node_name c) table key (print_node env c) (hdr_SequenceNum hdr)
                  (if attribute_value c ''aggtype'' \<noteq> '''' then attribute_value c ''aggtype'' else ''None'') (hdr_Timestamp hdr) al)
                  (value_nodes object)
                @ [UVENotif uid table key (foldl insert_pair [] (map (\<lambda>c. (node_name c, (print_node env c, c))) (value_nodes object))) False])"
proof -
  obtain k ks where ks: "key_nodes object = k # ks" using assms(3) by (cases "key_nodes object") simp_all
  then have "k \<in> set (key_nodes object)" by simp
  then have k: "attribute_value k ''key'' \<noteq> ''''" by (simp add: key_nodes_def)
  have "list_all (\<lambda>c. attribute_value c ''key'' \<noteq> '''' \<longrightarrow> unescape env (child_value c) \<noteq> '''') (node_children object)"
    using assms(4) by (auto simp: key_nodes_def list_all_iff)
  note scan = scan_uve_nodes[OF this, of "node_name object", folded key_nodes_def]
  have "foldl (scan_uve_node env) \<lparr>uk_barekey = '''', uk_table = '''', uk_object_name = node_name object, uk_deleted = False\<rparr> (node_children object) =
      \<lparr>uk_barekey = key, uk_table = table, uk_object_name = uve_name object, uk_deleted = uve_is_deleted object\<rparr>"
    unfolding scan by (simp add: ks assms(5,6) uve_name_def uve_is_deleted_def)
  with k ks assms show ?thesis
    by (simp add: handle_uve_publish_def Let_def on_node_def uve_updates_fold value_nodes_def)
qed

theorem uve_published_witness:
  "let object = XElement ''VRouter'' [] [XElement ''name'' [(''key'', ''ObjectVRouter'')] [XText ''r1''], XElement ''cpu'' [] [XText ''5'']];
       p = XElement ''M'' [] [XElement ''data'' [] [object]];
       uid = \<lparr>ui_object_name = ''VRouter'', ui_source = ''s'', ui_node_type = ''n'', ui_module = ''m'', ui_instance_id = ''0''\<rparr>
   in handle_uve_publish plain_env (Some p) (plain_msg ST_UVE 3) =
        (True, [UVEUpdate uid ''cpu'' ''ObjectVRouter'' ''r1'' ''cpu'' 1 ''None'' 1 False,
                UVENotif uid ''ObjectVRouter'' ''r1'' [(''cpu'', (''cpu'', XElement ''cpu'' [] [XText ''5'']))] False])"
proof -
  let ?cpu = "XElement ''cpu'' [] [XText ''5'']"
  let ?object = "XElement ''VRouter'' [] [XElement ''name'' [(''key'', ''ObjectVRouter'')] [XText ''r1''], ?cpu]"
  let ?p = "XElement ''M'' [] [XElement ''data'' [] [?object]]"
  have nodes: "key_nodes ?object = [XElement ''name'' [(''key'', ''ObjectVRouter'')] [XText ''r1'']]" "value_nodes ?object = [?cpu]"
    "uve_name ?object = ''VRouter''" "\<not> uve_is_deleted ?object"
    by (simp_all add: key_nodes_def value_nodes_def uve_name_def uve_is_deleted_def attribute_value_def)
  have "is_uve (msg_header (plain_msg ST_UVE 3))" "uve_object ?p = Some ?object" "key_nodes ?object \<noteq> []"
    "list_all (\<lambda>c. unescape plain_env (child_value c) \<noteq> '''') (key_nodes ?object)"
    by (simp_all add: is_uve_def plain_msg_def uve_object_def child_def first_child_def on_node_def nodes plain_env_def child_value_def)
  from uve_published[OF this refl refl refl refl refl] nodes show ?thesis
    by (simp add: insert_pair_def attribute_value_def child_value_def plain_env_def plain_msg_def)
qed

end
