(* ===== verification/Session_Table.thy ===== *)
theory Session_Table
  imports Viz_Message
begin

text \<open>
  \<open>db_handler.cc\<close>: session samples. A session message is a structure of common fields and a map from
  service (port, protocol, local address) to aggregates; one row is written per entry of the map. The names of
  the fields are those of \<open>viz.sandesh\<close>, their types those of \<open>vizd_table_desc.cc\<close>; the names inside the
  entries and the conversions are defined outside the repository and enter as arguments. As elsewhere,
  a conversion is what a variable with a given content holds after \<open>stringToInteger\<close>.
\<close>

section \<open>Fields\<close>

datatype DbDataType =
    Unsigned8Type | Unsigned16Type | Unsigned32Type | Unsigned64Type | LexicalUUIDType | TimeUUIDType | AsciiType | UTF8Type | InetType | OtherType

definition SESSION_T2 :: nat where "SESSION_T2 = 0"
definition SESSION_PARTITION_NO :: nat where "SESSION_PARTITION_NO = 1"
definition SESSION_IS_SI :: nat where "SESSION_IS_SI = 2"
definition SESSION_IS_CLIENT_SESSION :: nat where "SESSION_IS_CLIENT_SESSION = 3"
definition SESSION_PROTOCOL :: nat where "SESSION_PROTOCOL = 4"
definition SESSION_SPORT :: nat where "SESSION_SPORT = 5"
definition SESSION_T1 :: nat where "SESSION_T1 = 6"
definition SESSION_UUID :: nat where "SESSION_UUID = 7"
definition SESSION_LABELS :: nat where "SESSION_LABELS = 12"
definition SESSION_IP :: nat where "SESSION_IP = 23"
definition SESSION_VN :: nat where "SESSION_VN = 24"
definition SESSION_REMOTE_VN :: nat where "SESSION_REMOTE_VN = 25"
definition SESSION_VROUTER :: nat where "SESSION_VROUTER = 26"
definition SESSION_MAP :: nat where "SESSION_MAP = 36"
definition SESSION_MAX :: nat where "SESSION_MAX = 37"

abbreviation SESSION_MIN :: nat where "SESSION_MIN \<equiv> SESSION_PROTOCOL"
definition SESSION_INDEX_MIN :: nat where "SESSION_INDEX_MIN = 8"
abbreviation SESSION_INDEX_MAX :: nat where "SESSION_INDEX_MAX \<equiv> SESSION_REMOTE_VN"

lemmas session_fields = SESSION_T2_def SESSION_PARTITION_NO_def SESSION_IS_SI_def SESSION_IS_CLIENT_SESSION_def SESSION_PROTOCOL_def
  SESSION_SPORT_def SESSION_T1_def SESSION_UUID_def SESSION_LABELS_def SESSION_IP_def SESSION_VN_def SESSION_REMOTE_VN_def
  SESSION_VROUTER_def SESSION_MAP_def SESSION_MAX_def SESSION_INDEX_MIN_def

definition session_msg2type_map :: "(string \<times> nat \<times> DbDataType) list" where
  "session_msg2type_map =
    [(''is_client_session'', 3, Unsigned8Type), (''is_si'', 2, Unsigned8Type), (''protocol'', 4, Unsigned16Type),
     (''server_port'', 5, Unsigned16Type), (''deployment'', 8, UTF8Type), (''tier'', 9, UTF8Type), (''application'', 10, UTF8Type),
     (''site'', 11, UTF8Type), (''labels'', 12, UTF8Type), (''custom_tags'', 13, UTF8Type), (''remote_deployment'', 14, UTF8Type),
     (''remote_tier'', 15, UTF8Type), (''remote_application'', 16, UTF8Type), (''remote_site'', 17, UTF8Type),
     (''remote_labels'', 18, UTF8Type), (''remote_custom_tags'', 19, UTF8Type), (''security_policy_rule'', 21, UTF8Type),
     (''remote_prefix'', 20, UTF8Type), (''vmi'', 22, AsciiType), (''local_ip'', 23, AsciiType), (''vrouter_ip'', 27, InetType),
     (''vn'', 24, UTF8Type), (''remote_vn'', 25, UTF8Type), (''sampled_forward_bytes'', 28, Unsigned64Type),
     (''sampled_forward_pkts'', 29, Unsigned64Type), (''sampled_reverse_bytes'', 30, Unsigned64Type),
     (''sampled_reverse_pkts'', 31, Unsigned64Type), (''logged_forward_bytes'', 32, Unsigned64Type),
     (''logged_forward_pkts'', 33, Unsigned64Type), (''logged_reverse_bytes'', 34, Unsigned64Type),
     (''logged_reverse_pkts'', 35, Unsigned64Type)]"

text \<open>The fields whose text is stored behind the T2 of the message.\<close>

definition t2_prefixed :: "nat list" where
  "t2_prefixed = [8, 9, 10, 11, 14, 15, 16, 17, 20, 21, 22, 24, 25]"

type_synonym 'd SessionValueArray = "'d DbDataValue list"

definition default_col_values :: "'d SessionValueArray" where
  "default_col_values =
     [DbU32 0, DbU8 0, DbU8 0, DbU8 0, DbU16 0, DbU16 0, DbU32 0, DbUuid (replicate 16 0)] @ replicate 18 (DbString ''__UNKNOWN__'')
     @ [DbString '''', DbInet False [0, 0, 0, 0]] @ replicate 8 (DbU64 0) @ [DbString '''']"

record 'd session_env =
  se_db :: "'d db_env"
  se_unescape :: "string \<Rightarrow> string"
  string_to_u8 :: "string \<Rightarrow> u8 \<Rightarrow> u8"
  string_to_u16 :: "string \<Rightarrow> u16 \<Rightarrow> u16"
  string_to_u32 :: "string \<Rightarrow> u32 \<Rightarrow> u32"
  string_to_u64 :: "string \<Rightarrow> u64 \<Rightarrow> u64 \<times> bool"
  string_to_i16 :: "string \<Rightarrow> 16 word \<Rightarrow> 16 word"
  read_uuid :: "string \<Rightarrow> u8 list"
  stale_u8 :: u8
  stale_u16 :: u16
  stale_u32 :: u32
  stale_u64 :: u64
  flow_SERVICE_PORT :: string
  flow_PROTOCOL :: string
  flow_LOCAL_IP :: string
  flow_PORT :: string
  flow_IP :: string
  SessionFlowInfoField2Type :: "string \<Rightarrow> bool option"

record SessionTableDbStats =
  num_messages :: u64
  num_writes :: u64
  num_samples :: u64
  curr_json_size :: u64

definition new_SessionTableDbStats :: SessionTableDbStats where
  "new_SessionTableDbStats = \<lparr>num_messages = 0, num_writes = 0, num_samples = 0, curr_json_size = 0\<rparr>"

section \<open>The row of an entry\<close>

definition session_column :: "u32 \<Rightarrow> 'd SessionValueArray \<Rightarrow> nat \<Rightarrow> 'd DbDataValue" where
  "session_column t2 svalues sfield =
     (if svalues ! sfield = DbBlank
      then if sfield \<ge> SESSION_INDEX_MIN \<and> sfield \<le> SESSION_INDEX_MAX
           then DbString (show_nat (unat t2) @ '':'' @ ''__UNKNOWN__'') else default_col_values ! sfield
      else svalues ! sfield)"

definition session_row :: "u32 \<Rightarrow> 'd SessionValueArray \<Rightarrow> int \<Rightarrow> 'd ColList" where
  "session_row t2 svalues ttl =
     \<lparr>cl_cfname = SESSION_TABLE,
      cl_rowkey = [svalues ! SESSION_T2, svalues ! SESSION_PARTITION_NO, svalues ! SESSION_IS_SI, svalues ! SESSION_IS_CLIENT_SESSION],
      cl_name = map (session_column t2 svalues) [SESSION_MIN..<SESSION_MAX - 1],
      cl_value = [svalues ! SESSION_MAP], cl_ttl = ttl\<rparr>"

definition PopulateSessionTable :: "'d session_env \<Rightarrow> u32 \<Rightarrow> 'd SessionValueArray \<Rightarrow> 'd DbHandler \<Rightarrow> 'd DbHandler" where
  "PopulateSessionTable env t2 svalues h = snd (InsertIntoDb (se_db env) (session_row t2 svalues (GetTtl h FLOWDATA_TTL)) h)"

section \<open>The sessions of an entry\<close>

text \<open>The fields of a flow; the content of the variable is carried from one to the next.\<close>

fun flow_info_members :: "'d session_env \<Rightarrow> u64 \<Rightarrow> xml_node list \<Rightarrow> (string \<times> 'd json) list outcome" where
  "flow_info_members env val [] = Ret []"
| "flow_info_members env val (finfo # rest) =
     (let name = node_name finfo; value = child_value finfo
      in case SessionFlowInfoField2Type env name of
           None \<Rightarrow> Abort
         | Some numeric \<Rightarrow>
             (let val' = (if numeric then fst (string_to_u64 env value val) else val);
                  m = (c_str name, if numeric then JInt (uint val') else JString (c_str value))
              in bind_outcome (flow_info_members env val' rest) (\<lambda>ms. Ret (m # ms))))"

definition session_field :: "'d session_env \<Rightarrow> xml_node \<Rightarrow> (string \<times> 'd json) outcome" where
  "session_field env field =
     (let fname = node_name field
      in if fname = ''forward_flow_info'' \<or> fname = ''reverse_flow_info'' then
           bind_outcome (flow_info_members env (stale_u64 env) (ochildren (child field ''SessionFlowInfo'')))
             (\<lambda>ms. Ret (c_str fname, JObject ms))
         else let fvalue = child_value field; (val, ok) = string_to_u64 env fvalue (stale_u64 env)
              in Ret (c_str fname, if ok then JInt (uint val) else JString (c_str fvalue)))"

fun map_outcome_list :: "('a \<Rightarrow> 'b outcome) \<Rightarrow> 'a list \<Rightarrow> 'b list outcome" where
  "map_outcome_list f [] = Ret []"
| "map_outcome_list f (x # xs) = bind_outcome (f x) (\<lambda>y. bind_outcome (map_outcome_list f xs) (\<lambda>ys. Ret (y # ys)))"

definition session_entry :: "'d session_env \<Rightarrow> xml_node \<times> xml_node option \<Rightarrow> (string \<times> 'd json) outcome" where
  "session_entry env kv =
     (let (ip_port, session) = kv
      in bind_outcome (map_outcome_list (session_field env) (ochildren session)) (\<lambda>ms.
           Ret (c_str (ochild_value (child ip_port (flow_PORT env)) @ '':'' @ ochild_value (child ip_port (flow_IP env))), JObject ms)))"

definition JsonifySessionMap :: "'d session_env \<Rightarrow> xml_node option \<Rightarrow> string outcome" where
  "JsonifySessionMap env root =
     bind_outcome (map_outcome_list (session_entry env) (key_value_nodes (ochildren root))) (\<lambda>ms.
       Ret (c_str (json_writer (se_db env) (JObject ms))))"

section \<open>A sample\<close>

definition set_text :: "'d session_env \<Rightarrow> u32 \<Rightarrow> xml_node \<Rightarrow> string" where
  "set_text env t2 sfield =
     PrependT2 t2 (join '';'' (map (\<lambda>e. se_unescape env (child_value e)) (ochildren (child sfield ''set''))))"

definition typed_value :: "'d session_env \<Rightarrow> u32 \<Rightarrow> nat \<Rightarrow> DbDataType \<Rightarrow> string \<Rightarrow> 'd DbDataValue outcome" where
  "typed_value env t2 idx type value =
     (case type of
        Unsigned8Type \<Rightarrow> Ret (DbU8 (string_to_u8 env value (stale_u8 env)))
      | Unsigned16Type \<Rightarrow> Ret (DbU16 (string_to_u16 env value (stale_u16 env)))
      | Unsigned32Type \<Rightarrow> Ret (DbU32 (string_to_u32 env value (stale_u32 env)))
      | Unsigned64Type \<Rightarrow> Ret (DbU64 (fst (string_to_u64 env value (stale_u64 env))))
      | LexicalUUIDType \<Rightarrow> Ret (DbUuid (if value = '''' then stale_uuid (se_db env) else read_uuid env value))
      | TimeUUIDType \<Rightarrow> Ret (DbUuid (if value = '''' then stale_uuid (se_db env) else read_uuid env value))
      | AsciiType \<Rightarrow> Ret (DbString (if idx \<in> set t2_prefixed then PrependT2 t2 (se_unescape env value) else se_unescape env value))
      | UTF8Type \<Rightarrow> Ret (DbString (if idx \<in> set t2_prefixed then PrependT2 t2 (se_unescape env value) else se_unescape env value))
      | InetType \<Rightarrow> Ret (case parse_ip (se_db env) value of Some (v6, bytes) \<Rightarrow> DbInet v6 bytes | None \<Rightarrow> DbInet False [0, 0, 0, 0])
      | OtherType \<Rightarrow> Abort)"

text \<open>One field of the message: the values so far and the map of the aggregates.\<close>

definition sample_field ::
    "'d session_env \<Rightarrow> u32 \<Rightarrow> 'd SessionValueArray \<times> xml_node option \<Rightarrow> xml_node \<Rightarrow> ('d SessionValueArray \<times> xml_node option) outcome" where
  "sample_field env t2 st sfield =
     (let (svalues, agg) = st; col_type = attribute_value sfield ''type''; col_name = node_name sfield
      in case map_of session_msg2type_map col_name of
           Some (idx, type) \<Rightarrow>
             if col_type = ''set'' then Ret (svalues[idx := DbString (set_text env t2 sfield)], agg)
             else bind_outcome (typed_value env t2 idx type (child_value sfield)) (\<lambda>v. Ret (svalues[idx := v], agg))
         | None \<Rightarrow> if col_type = ''map'' \<and> col_name = ''sess_agg_info'' then Ret (svalues, child sfield ''map'') else Ret (svalues, agg))"

definition agg_field ::
    "'d session_env \<Rightarrow> 'd SessionValueArray \<times> SessionTableDbStats \<Rightarrow> xml_node \<Rightarrow> ('d SessionValueArray \<times> SessionTableDbStats) outcome" where
  "agg_field env st agg_info =
     (let (svalues, stats) = st
      in if attribute_value agg_info ''type'' = ''map'' then
           (let samples = string_to_i16 env (oattribute (child agg_info ''map'') ''size'') (stale_u16 env)
            in bind_outcome (JsonifySessionMap env (child agg_info ''map'')) (\<lambda>session_map.
                 Ret (svalues[SESSION_MAP := DbString session_map],
                      stats\<lparr>num_samples := num_samples stats + scast samples,
                            curr_json_size := curr_json_size stats + of_nat (length session_map)\<rparr>)))
         else case map_of session_msg2type_map (node_name agg_info) of
                Some (idx, type) \<Rightarrow> Ret (svalues[idx := DbU64 (fst (string_to_u64 env (child_value agg_info) (stale_u64 env)))], stats)
              | None \<Rightarrow> Ret (svalues, stats))"

text \<open>One entry of the map; the values array is the one of the entry before.\<close>

definition entry_values ::
    "'d session_env \<Rightarrow> u32 \<Rightarrow> u8 list \<Rightarrow> u8 \<Rightarrow> xml_node \<Rightarrow> 'd SessionValueArray \<Rightarrow> 'd SessionValueArray" where
  "entry_values env t2 uuid partition_no ip_port_proto svalues =
     (let val = string_to_u16 env (ochild_value (child ip_port_proto (flow_SERVICE_PORT env))) (stale_u16 env);
          val' = string_to_u16 env (ochild_value (child ip_port_proto (flow_PROTOCOL env))) val
      in svalues[SESSION_SPORT := DbU16 val, SESSION_PROTOCOL := DbU16 val', SESSION_UUID := DbUuid uuid,
                 SESSION_PARTITION_NO := DbU8 partition_no,
                 SESSION_IP := DbString (PrependT2 t2 (ochild_value (child ip_port_proto (flow_LOCAL_IP env))))])"

type_synonym 'd session_state = "'d SessionValueArray \<times> SessionTableDbStats \<times> 'd DbHandler"

definition session_entry_add ::
    "'d session_env \<Rightarrow> u32 \<Rightarrow> 'd session_state \<Rightarrow> xml_node \<times> xml_node option \<Rightarrow> 'd session_state outcome" where
  "session_entry_add env t2 st kv =
     (let (svalues, stats, h) = st;
          svalues1 = entry_values env t2 (umn_gen (se_db env) (uuids_drawn h)) (gen_partition_no (se_db env) (partitions_drawn h)) (fst kv) svalues;
          h1 = h\<lparr>uuids_drawn := Suc (uuids_drawn h), partitions_drawn := Suc (partitions_drawn h)\<rparr>
      in bind_outcome (foldl_outcome (agg_field env) (svalues1, stats) (ochildren (snd kv))) (\<lambda>(svalues2, stats1).
           Ret (svalues2, stats1\<lparr>num_writes := num_writes stats1 + 1\<rparr>, PopulateSessionTable env t2 svalues2 h1)))"

text \<open>\<open>boost::get<std::string>\<close> throws when the value has another type.\<close>

fun get_string :: "'d DbDataValue \<Rightarrow> string outcome" where
  "get_string (DbString s) = Ret s" | "get_string _ = Abort"

definition SessionSampleAdd ::
    "'d session_env \<Rightarrow> SandeshHeader \<Rightarrow> xml_node option \<Rightarrow> SessionTableDbStats \<times> 'd DbHandler \<Rightarrow> (SessionTableDbStats \<times> 'd DbHandler) outcome" where
  "SessionSampleAdd env header sample st =
     (let ts = hdr_Timestamp header; t2 = t2_of ts; (stats, h) = st;
          svalues0 = (replicate SESSION_MAX DbBlank)[SESSION_T2 := DbU32 t2, SESSION_T1 := DbU32 (t1_of ts), SESSION_VROUTER := DbString (hdr_Source header)]
      in bind_outcome (foldl_outcome (sample_field env t2) (svalues0, None) (ochildren sample)) (\<lambda>(svalues, agg).
         bind_outcome (foldl_outcome (session_entry_add env t2) (svalues, stats, h) (key_value_nodes (ochildren agg))) (\<lambda>(svalues1, stats1, h1).
           (let field = FieldNamesTableInsert (se_db env) ts (GetTtl h1 FLOWDATA_TTL) SESSION_TABLE
            in bind_outcome (get_string (svalues1 ! SESSION_VROUTER)) (\<lambda>vrouter.
               bind_outcome (get_string (svalues1 ! SESSION_VN)) (\<lambda>vn.
               bind_outcome (get_string (svalues1 ! SESSION_REMOTE_VN)) (\<lambda>remote_vn.
                 Ret (stats1\<lparr>num_messages := num_messages stats1 + 1\<rparr>,
                      field '':remote_vn'' remote_vn (field '':vn'' vn (field '':vrouter'' vrouter h1))))))))))"

definition SessionTableInsert ::
    "'d session_env \<Rightarrow> SandeshHeader \<Rightarrow> xml_node \<Rightarrow> SessionTableDbStats \<times> 'd DbHandler \<Rightarrow> (SessionTableDbStats \<times> 'd DbHandler) outcome" where
  "SessionTableInsert env header parent st =
     (case child parent ''session_data'' of
        None \<Rightarrow> Ret st
      | Some session_data \<Rightarrow>
          if attribute_value session_data ''type'' = ''list''
          then foldl_outcome (\<lambda>s ssample. SessionSampleAdd env header (Some ssample) s) st (ochildren (child session_data ''list''))
          else SessionSampleAdd env header (first_child session_data) st)"

text \<open>The averages of the interval (numerators and denominators), which starts anew.\<close>

definition GetSessionTableDbInfo :: "SessionTableDbStats \<Rightarrow> ((u64 \<times> u64) \<times> (u64 \<times> u64) \<times> (u64 \<times> u64) \<times> u64) option \<times> SessionTableDbStats" where
  "GetSessionTableDbInfo s =
     (if num_messages s = 0 then (None, s)
      else (Some ((num_writes s, num_messages s), (num_samples s, num_writes s), (curr_json_size s, num_writes s), num_messages s),
            new_SessionTableDbStats))"

section \<open>The rows of a sample\<close>

text \<open>The column of an index field holds text behind the T2 of its row.\<close>

definition t2_text :: "u32 \<Rightarrow> 'd DbDataValue \<Rightarrow> bool" where
  "t2_text t2 v \<longleftrightarrow> (\<exists>s. v = DbString (PrependT2 t2 s))"

definition index_ok :: "u32 \<Rightarrow> nat set \<Rightarrow> 'd SessionValueArray \<Rightarrow> bool" where
  "index_ok t2 except sv \<longleftrightarrow> length sv = SESSION_MAX \<and> sv ! SESSION_T2 = DbU32 t2 \<and> (\<exists>s. sv ! SESSION_VROUTER = DbString s) \<and>
     (\<forall>i \<in> {SESSION_INDEX_MIN..SESSION_INDEX_MAX} - except. sv ! i = DbBlank \<or> t2_text t2 (sv ! i))"

text \<open>A well-formed sample: labels and custom tags come as sets, and among the aggregates only the counters
  have the name of a column.\<close>

definition good_sample_field :: "xml_node \<Rightarrow> bool" where
  "good_sample_field c \<longleftrightarrow>
     node_name c \<in> {''labels'', ''custom_tags'', ''remote_labels'', ''remote_custom_tags''} \<longrightarrow> attribute_value c ''type'' = ''set''"

definition good_agg_field :: "'d session_env \<Rightarrow> xml_node \<Rightarrow> bool" where
  "good_agg_field env c \<longleftrightarrow>
     (if attribute_value c ''type'' = ''map'' then JsonifySessionMap env (child c ''map'') \<noteq> Abort
      else case map_of session_msg2type_map (node_name c) of Some (idx, _) \<Rightarrow> 28 \<le> idx | None \<Rightarrow> True)"

lemma session_types:
  "map_of session_msg2type_map n = Some (idx, type) \<Longrightarrow>
     type \<noteq> OtherType \<and> idx \<notin> {0, 26} \<and> idx < 36 \<and>
     (idx \<in> {8..25} - {23} \<longrightarrow> type \<in> {AsciiType, UTF8Type} \<and>
        (idx \<in> set t2_prefixed \<or> n \<in> {''labels'', ''custom_tags'', ''remote_labels'', ''remote_custom_tags''}))"
  by (simp add: session_msg2type_map_def t2_prefixed_def split: if_splits)

lemma index_ok_update:
  assumes "index_ok t2 E sv" and "i \<noteq> 0" "i \<noteq> 26" and "i \<in> {8..25} - E \<Longrightarrow> t2_text t2 v"
  shows "index_ok t2 E (sv[i := v])"
proof -
  have "sv[i := v] ! j = DbBlank \<or> t2_text t2 (sv[i := v] ! j)" if "j \<in> {8..25} - E" for j
    using assms that by (cases "j = i") (auto simp: index_ok_def session_fields)
  with assms show ?thesis by (auto simp: index_ok_def session_fields)
qed

lemma sample_field_ok:
  assumes "index_ok t2 {SESSION_IP} (fst st)" and "good_sample_field c"
  shows "\<exists>st'. sample_field env t2 st c = Ret st' \<and> index_ok t2 {SESSION_IP} (fst st')"
proof -
  obtain sv agg where st: "st = (sv, agg)" by (cases st)
  show ?thesis
  proof (cases "map_of session_msg2type_map (node_name c)")
    case None
    with assms(1) show ?thesis by (auto simp: sample_field_def st)
  next
    case (Some it)
    obtain idx type where it: "it = (idx, type)" by (cases it)
    note t = session_types[of "node_name c" idx type, unfolded Some it, OF refl]
    show ?thesis
    proof (cases "attribute_value c ''type'' = ''set''")
      case True
      have "index_ok t2 {SESSION_IP} (sv[idx := DbString (set_text env t2 c)])"
        by (rule index_ok_update) (use assms(1) t in \<open>auto simp: st t2_text_def set_text_def\<close>)
      with True Some it show ?thesis by (simp add: sample_field_def st)
    next
      case False
      obtain v where v: "typed_value env t2 idx type (child_value c) = Ret v"
        using t by (cases type) (simp_all add: typed_value_def)
      have "t2_text t2 v" if "idx \<in> {8..25} - {SESSION_IP}"
        using t v that False assms(2) by (auto simp: typed_value_def t2_text_def good_sample_field_def SESSION_IP_def)
      then have "index_ok t2 {SESSION_IP} (sv[idx := v])"
        by (intro index_ok_update) (use assms(1) t in \<open>auto simp: st\<close>)
      with False Some it v show ?thesis by (simp add: sample_field_def st)
    qed
  qed
qed

lemma agg_field_ok:
  assumes "index_ok t2 {} (fst st)" and "good_agg_field env c"
  shows "\<exists>st'. agg_field env st c = Ret st' \<and> index_ok t2 {} (fst st') \<and>
    num_writes (snd st') = num_writes (snd st) \<and> num_messages (snd st') = num_messages (snd st)"
proof -
  obtain sv stats where st: "st = (sv, stats)" by (cases st)
  show ?thesis
  proof (cases "attribute_value c ''type'' = ''map''")
    case True
    with assms(2) obtain m where "JsonifySessionMap env (child c ''map'') = Ret m"
      by (cases "JsonifySessionMap env (child c ''map'')") (simp_all add: good_agg_field_def)
    with True assms(1) show ?thesis by (auto simp: agg_field_def st SESSION_MAP_def intro!: index_ok_update)
  next
    case False
    with assms show ?thesis
      by (auto simp: agg_field_def st good_agg_field_def split: option.splits intro!: index_ok_update dest: session_types)
  qed
qed

lemma entry_values_ok: "index_ok t2 {SESSION_IP} sv \<Longrightarrow> index_ok t2 {} (entry_values env t2 u p kv sv)"
proof -
  assume ok: "index_ok t2 {SESSION_IP} sv"
  have "index_ok t2 {SESSION_IP} (entry_values env t2 u p kv sv)"
    unfolding entry_values_def Let_def
    by (intro index_ok_update ok) (simp_all add: session_fields t2_text_def)
  moreover have "t2_text t2 (entry_values env t2 u p kv sv ! SESSION_IP)"
    using ok by (auto simp: entry_values_def Let_def t2_text_def index_ok_def session_fields)
  ultimately show ?thesis by (auto simp: index_ok_def)
qed

definition row_indexed :: "u32 \<Rightarrow> 'd ColList \<Rightarrow> bool" where
  "row_indexed t2 row \<longleftrightarrow> cl_cfname row = SESSION_TABLE \<and> length (cl_rowkey row) = 4 \<and> cl_rowkey row ! 0 = DbU32 t2 \<and>
     length (cl_name row) = 32 \<and> (\<forall>i < 18. t2_text t2 (cl_name row ! (SESSION_INDEX_MIN - SESSION_MIN + i)))"

lemma session_row_indexed:
  assumes "index_ok t2 {} sv"
  shows "row_indexed t2 (session_row t2 sv ttl)"
proof -
  have "t2_text t2 (session_column t2 sv j)" if "j \<in> {8..25}" for j
    using assms that by (auto simp: index_ok_def session_column_def session_fields t2_text_def PrependT2_def)
  then have "t2_text t2 (map (session_column t2 sv) [4..<36] ! (4 + i))" if "i < 18" for i
    using that by (simp del: upt_rec_numeral)
  with assms show ?thesis
    by (simp add: row_indexed_def session_row_def index_ok_def session_fields del: upt_rec_numeral nth_map)
qed

lemma entry_add_ok:
  assumes "index_ok t2 {SESSION_IP} sv" and "list_all (good_agg_field env) (ochildren (snd kv))" and "\<not> disable_all_writes h"
  shows "\<exists>sv' stats' h' row. session_entry_add env t2 (sv, stats, h) kv = Ret (sv', stats', h') \<and> index_ok t2 {SESSION_IP} sv' \<and>
    \<not> disable_all_writes h' \<and> written h' = written h @ [row] \<and> row_indexed t2 row \<and>
    num_writes stats' = num_writes stats + 1 \<and> num_messages stats' = num_messages stats"
proof -
  let ?sv1 = "entry_values env t2 (umn_gen (se_db env) (uuids_drawn h)) (gen_partition_no (se_db env) (partitions_drawn h)) (fst kv) sv"
  let ?P = "\<lambda>st. index_ok t2 {} (fst st) \<and> num_writes (snd st) = num_writes stats \<and> num_messages (snd st) = num_messages stats"
  have "\<exists>st. foldl_outcome (agg_field env) (?sv1, stats) (ochildren (snd kv)) = Ret st \<and> ?P st"
  proof (rule foldl_outcome_runs[where P = ?P])
    show "?P (?sv1, stats)" using entry_values_ok[OF assms(1)] by simp
    show "\<exists>t. agg_field env s x = Ret t \<and> ?P t" if "?P s" "x \<in> set (ochildren (snd kv))" for s x
      using agg_field_ok[of t2 s env x] that assms(2) by (auto simp: list_all_iff)
  qed
  then obtain sv2 stats2 where agg: "foldl_outcome (agg_field env) (?sv1, stats) (ochildren (snd kv)) = Ret (sv2, stats2)"
    "index_ok t2 {} sv2" "num_writes stats2 = num_writes stats" "num_messages stats2 = num_messages stats" by auto
  let ?h1 = "h\<lparr>uuids_drawn := Suc (uuids_drawn h), partitions_drawn := Suc (partitions_drawn h)\<rparr>"
  have "session_entry_add env t2 (sv, stats, h) kv =
      Ret (sv2, stats2\<lparr>num_writes := num_writes stats2 + 1\<rparr>, PopulateSessionTable env t2 sv2 ?h1)"
    using agg(1) by (simp add: session_entry_add_def Let_def)
  moreover have "\<not> disable_all_writes (PopulateSessionTable env t2 sv2 ?h1) \<and>
      written (PopulateSessionTable env t2 sv2 ?h1) = written h @ [session_row t2 sv2 (GetTtl h FLOWDATA_TTL)]"
    using assms(3) by (simp add: PopulateSessionTable_def InsertIntoDb_def GetTtl_def)
  moreover have "index_ok t2 {SESSION_IP} sv2" using agg(2) by (auto simp: index_ok_def)
  ultimately show ?thesis using agg session_row_indexed[OF agg(2)] by auto
qed

lemma entries_add_ok:
  assumes "index_ok t2 {SESSION_IP} sv" and "list_all (\<lambda>kv. list_all (good_agg_field env) (ochildren (snd kv))) kvs" and "\<not> disable_all_writes h"
  shows "\<exists>sv' stats' h' rows. foldl_outcome (session_entry_add env t2) (sv, stats, h) kvs = Ret (sv', stats', h') \<and> index_ok t2 {SESSION_IP} sv' \<and>
    \<not> disable_all_writes h' \<and> written h' = written h @ rows \<and> length rows = length kvs \<and> list_all (row_indexed t2) rows \<and>
    num_writes stats' = num_writes stats + of_nat (length kvs) \<and> num_messages stats' = num_messages stats"
  using assms
proof (induction kvs arbitrary: sv stats h)
  case (Cons kv kvs)
  have good: "list_all (good_agg_field env) (ochildren (snd kv))" using Cons.prems(2) by simp
  from entry_add_ok[OF Cons.prems(1) good Cons.prems(3), of stats] obtain sv1 stats1 h1 row where
    1: "session_entry_add env t2 (sv, stats, h) kv = Ret (sv1, stats1, h1)" "index_ok t2 {SESSION_IP} sv1" "\<not> disable_all_writes h1"
      "written h1 = written h @ [row]" "row_indexed t2 row" "num_writes stats1 = num_writes stats + 1" "num_messages stats1 = num_messages stats"
    by blast
  have rest: "list_all (\<lambda>kv. list_all (good_agg_field env) (ochildren (snd kv))) kvs" using Cons.prems(2) by simp
  from Cons.IH[OF 1(2) rest 1(3), of stats1] obtain sv' stats' h' rows where
    2: "foldl_outcome (session_entry_add env t2) (sv1, stats1, h1) kvs = Ret (sv', stats', h')" "index_ok t2 {SESSION_IP} sv'"
      "\<not> disable_all_writes h'" "written h' = written h1 @ rows" "length rows = length kvs" "list_all (row_indexed t2) rows"
      "num_writes stats' = num_writes stats1 + of_nat (length kvs)" "num_messages stats' = num_messages stats1" by blast
  then have "written h' = written h @ (row # rows)" "length (row # rows) = length (kv # kvs)" "list_all (row_indexed t2) (row # rows)"
    "num_writes stats' = num_writes stats + of_nat (length (kv # kvs))" "num_messages stats' = num_messages stats"
    using 1 by simp_all
  with 1(1) 2(1-3) show ?case unfolding foldl_outcome.simps(2) 1(1) bind_outcome.simps(1) by blast
qed simp

text \<open>No step makes a value blank again.\<close>

definition filled :: "'d SessionValueArray \<Rightarrow> 'd SessionValueArray \<Rightarrow> bool" where
  "filled a b \<longleftrightarrow> length b = length a \<and> (\<forall>i < length a. a ! i \<noteq> DbBlank \<longrightarrow> b ! i \<noteq> DbBlank)"

lemma filled_refl [simp]: "filled a a"
  by (simp add: filled_def)

lemma filled_trans: "filled a b \<Longrightarrow> filled b c \<Longrightarrow> filled a c"
  by (simp add: filled_def)

lemma filled_update: "v \<noteq> DbBlank \<Longrightarrow> filled a (a[i := v])"
proof -
  assume "v \<noteq> DbBlank"
  then have "a ! j \<noteq> DbBlank \<Longrightarrow> j < length a \<Longrightarrow> a[i := v] ! j \<noteq> DbBlank" for j by (cases "j = i") simp_all
  then show ?thesis by (simp add: filled_def)
qed

lemma filled_foldl:
  assumes "\<And>s x t. f s x = Ret t \<Longrightarrow> filled (fst s) (fst t)" and "foldl_outcome f s xs = Ret t"
  shows "filled (fst s) (fst t)"
  using assms(2)
proof (induction xs arbitrary: s)
  case (Cons x xs)
  then obtain u where "f s x = Ret u" "foldl_outcome f u xs = Ret t" by (auto simp: bind_outcome_Ret_iff)
  with Cons.IH[of u] assms(1)[of s x u] show ?case by (blast intro: filled_trans)
qed simp

lemma typed_value_not_blank: "typed_value env t2 idx type s = Ret v \<Longrightarrow> v \<noteq> DbBlank"
  by (cases type) (auto simp: typed_value_def split: option.splits)

lemma sample_field_filled:
  assumes "sample_field env t2 s c = Ret t"
  shows "filled (fst s) (fst t)"
    and "map_of session_msg2type_map (node_name c) = Some (idx, type) \<Longrightarrow> idx < length (fst s) \<Longrightarrow> fst t ! idx \<noteq> DbBlank"
  using assms
  by (auto simp: sample_field_def Let_def bind_outcome_Ret_iff split: prod.splits option.splits if_splits
      intro!: filled_update dest: typed_value_not_blank)

lemma agg_field_filled: "agg_field env s c = Ret t \<Longrightarrow> filled (fst s) (fst t)"
  by (auto simp: agg_field_def Let_def bind_outcome_Ret_iff split: prod.splits option.splits if_splits intro!: filled_update)

lemma entry_values_filled: "filled sv (entry_values env t2 u p kv sv)"
  unfolding entry_values_def Let_def by (rule filled_trans[OF filled_update filled_update]
    filled_trans[OF filled_trans[OF filled_trans[OF filled_trans[OF filled_update filled_update] filled_update] filled_update] filled_update]) simp_all

lemma session_entry_filled:
  assumes "session_entry_add env t2 s kv = Ret t"
  shows "filled (fst s) (fst t)"
proof -
  obtain sv stats h where s: "s = (sv, stats, h)" by (cases s) auto
  let ?sv1 = "entry_values env t2 (umn_gen (se_db env) (uuids_drawn h)) (gen_partition_no (se_db env) (partitions_drawn h)) (fst kv) sv"
  from assms obtain u where u: "foldl_outcome (agg_field env) (?sv1, stats) (ochildren (snd kv)) = Ret u" "fst t = fst u"
    by (auto simp: session_entry_add_def s Let_def bind_outcome_Ret_iff)
  have "filled ?sv1 (fst u)" using filled_foldl[OF agg_field_filled u(1)] by simp
  with filled_trans[OF entry_values_filled this] show ?thesis by (simp add: s u(2))
qed

lemma sample_fields_set:
  assumes "foldl_outcome (sample_field env t2) s cs = Ret t" and "c \<in> set cs"
    and "map_of session_msg2type_map (node_name c) = Some (idx, type)" and "idx < length (fst s)"
  shows "fst t ! idx \<noteq> DbBlank"
proof -
  from assms(2) obtain xs ys where cs: "cs = xs @ c # ys" by (auto simp: in_set_conv_decomp)
  with assms(1) obtain u v where u: "foldl_outcome (sample_field env t2) s xs = Ret u" "sample_field env t2 u c = Ret v"
    "foldl_outcome (sample_field env t2) v ys = Ret t" by (auto simp: foldl_outcome_append bind_outcome_Ret_iff)
  have f: "filled (fst a) (fst b)" if "foldl_outcome (sample_field env t2) a zs = Ret b" for a b zs
    using that by (rule filled_foldl[rotated]) (rule sample_field_filled(1))
  have "length (fst u) = length (fst s)" "length (fst v) = length (fst s)"
    using f[OF u(1)] sample_field_filled(1)[OF u(2)] by (simp_all add: filled_def)
  moreover have "fst v ! idx \<noteq> DbBlank" using sample_field_filled(2)[OF u(2) assms(3)] calculation assms(4) by simp
  ultimately show ?thesis using f[OF u(3)] assms(4) by (simp add: filled_def)
qed

text \<open>The entries of the map of aggregates: that of the last field of this name and type.\<close>

definition sample_entries :: "xml_node \<Rightarrow> (xml_node \<times> xml_node option) list" where
  "sample_entries sample =
     key_value_nodes (ochildren (foldl (\<lambda>agg c. if attribute_value c ''type'' = ''map'' \<and> node_name c = ''sess_agg_info'' then child c ''map'' else agg)
       None (node_children sample)))"

definition good_sample :: "'d session_env \<Rightarrow> xml_node \<Rightarrow> bool" where
  "good_sample env sample \<longleftrightarrow> list_all good_sample_field (node_children sample) \<and>
     {''vn'', ''remote_vn''} \<subseteq> node_name ` set (node_children sample) \<and>
     list_all (\<lambda>kv. list_all (good_agg_field env) (ochildren (snd kv))) (sample_entries sample)"

lemma sample_fields_agg:
  "foldl_outcome (sample_field env t2) (sv, agg) cs = Ret (sv', agg') \<Longrightarrow>
     agg' = foldl (\<lambda>agg c. if attribute_value c ''type'' = ''map'' \<and> node_name c = ''sess_agg_info'' then child c ''map'' else agg) agg cs"
proof (induction cs arbitrary: sv agg)
  case (Cons c cs)
  then obtain sv1 agg1 where s: "sample_field env t2 (sv, agg) c = Ret (sv1, agg1)" "foldl_outcome (sample_field env t2) (sv1, agg1) cs = Ret (sv', agg')"
    by (auto simp: bind_outcome_Ret_iff)
  have "map_of session_msg2type_map ''sess_agg_info'' = None" by (simp add: session_msg2type_map_def)
  with s(1) have "agg1 = (if attribute_value c ''type'' = ''map'' \<and> node_name c = ''sess_agg_info'' then child c ''map'' else agg)"
    by (auto simp: sample_field_def Let_def bind_outcome_Ret_iff split: option.splits if_splits)
  with Cons.IH[OF s(2)] show ?case by simp
qed simp

lemma t2_text_string: "t2_text t2 v \<Longrightarrow> \<exists>s. get_string v = Ret s"
  by (auto simp: t2_text_def)

lemma index_ok_present:
  assumes "index_ok t2 {SESSION_IP} sv"
  shows "sv ! 24 \<noteq> DbBlank \<Longrightarrow> t2_text t2 (sv ! 24)" and "sv ! 25 \<noteq> DbBlank \<Longrightarrow> t2_text t2 (sv ! 25)"
proof -
  have "24 \<in> {SESSION_INDEX_MIN..SESSION_INDEX_MAX} - {SESSION_IP}" "25 \<in> {SESSION_INDEX_MIN..SESSION_INDEX_MAX} - {SESSION_IP}"
    by (simp_all add: session_fields)
  with assms show "sv ! 24 \<noteq> DbBlank \<Longrightarrow> t2_text t2 (sv ! 24)" "sv ! 25 \<noteq> DbBlank \<Longrightarrow> t2_text t2 (sv ! 25)"
    unfolding index_ok_def by blast+
qed

lemma FieldNames_other_rows: "other_rows (FieldNamesTableInsert env ts ttl p f v h) = other_rows h"
  by (rule appends_other_rows[OF FieldNamesTableInsert_appends])

lemma FieldNames_enabled: "disable_all_writes (FieldNamesTableInsert env ts ttl p f v h) = disable_all_writes h"
  using FieldNamesTableInsert_config[of env ts ttl p f v h] by (simp add: handler_config_def)

lemma session_sample_rows:
  fixes env :: "'a session_env"
  assumes "good_sample env sample" and "\<not> disable_all_writes h" and "t2 = t2_of (hdr_Timestamp header)"
  shows "\<exists>stats' h' rows. SessionSampleAdd env header (Some sample) (stats, h) = Ret (stats', h') \<and>
    \<not> disable_all_writes h' \<and> other_rows h' = other_rows h @ rows \<and> length rows = length (sample_entries sample) \<and> list_all (row_indexed t2) rows \<and>
    num_messages stats' = num_messages stats + 1 \<and> num_writes stats' = num_writes stats + of_nat (length (sample_entries sample))"
proof -
  let ?sv0 = "(replicate SESSION_MAX DbBlank)[SESSION_T2 := DbU32 t2, SESSION_T1 := DbU32 (t1_of (hdr_Timestamp header)),
    SESSION_VROUTER := DbString (hdr_Source header)]"
  have "index_ok t2 {SESSION_IP} ?sv0" by (auto simp: index_ok_def session_fields)
  then have "\<exists>st. foldl_outcome (sample_field env t2) (?sv0, None) (node_children sample) = Ret st \<and> index_ok t2 {SESSION_IP} (fst st)"
  proof (intro foldl_outcome_runs[where P = "\<lambda>st. index_ok t2 {SESSION_IP} (fst st)"])
    fix st :: "'a SessionValueArray \<times> xml_node option" and c
    assume "index_ok t2 {SESSION_IP} (fst st)" "c \<in> set (node_children sample)"
    with assms(1) show "\<exists>st'. sample_field env t2 st c = Ret st' \<and> index_ok t2 {SESSION_IP} (fst st')"
      by (intro sample_field_ok) (simp_all add: good_sample_def list_all_iff)
  qed simp
  then obtain sv agg where fs: "foldl_outcome (sample_field env t2) (?sv0, None) (node_children sample) = Ret (sv, agg)" "index_ok t2 {SESSION_IP} sv"
    by auto
  from sample_fields_agg[OF fs(1)] have entries: "key_value_nodes (ochildren agg) = sample_entries sample" by (simp add: sample_entries_def)
  from assms(1) have "list_all (\<lambda>kv. list_all (good_agg_field env) (ochildren (snd kv))) (sample_entries sample)" by (simp add: good_sample_def)
  from entries_add_ok[OF fs(2) this assms(2), of stats] obtain sv1 stats1 h1 rows where
    es: "foldl_outcome (session_entry_add env t2) (sv, stats, h) (sample_entries sample) = Ret (sv1, stats1, h1)" "index_ok t2 {SESSION_IP} sv1"
      "\<not> disable_all_writes h1" "written h1 = written h @ rows" "length rows = length (sample_entries sample)" "list_all (row_indexed t2) rows"
      "num_writes stats1 = num_writes stats + of_nat (length (sample_entries sample))" "num_messages stats1 = num_messages stats"
    by blast
  have "filled sv sv1" using filled_foldl[OF session_entry_filled es(1)] by simp
  moreover have "\<exists>c \<in> set (node_children sample). node_name c = ''vn''" "\<exists>c \<in> set (node_children sample). node_name c = ''remote_vn''"
    using assms(1) by (auto simp: good_sample_def)
  then have "sv ! SESSION_VN \<noteq> DbBlank" "sv ! SESSION_REMOTE_VN \<noteq> DbBlank"
    using sample_fields_set[OF fs(1)] by (auto simp: session_fields session_msg2type_map_def)
  ultimately have "t2_text t2 (sv1 ! SESSION_VN)" "t2_text t2 (sv1 ! SESSION_REMOTE_VN)"
    using index_ok_present[OF es(2)] fs(2) by (auto simp: filled_def index_ok_def session_fields)
  then obtain vn rvn where "get_string (sv1 ! SESSION_VN) = Ret vn" "get_string (sv1 ! SESSION_REMOTE_VN) = Ret rvn"
    using t2_text_string by blast
  moreover obtain vr where "get_string (sv1 ! SESSION_VROUTER) = Ret vr" using es(2) by (auto simp: index_ok_def)
  moreover have "list_all (\<lambda>r. \<not> stats_row r) rows" using es(6) by (auto simp: row_indexed_def list_all_iff)
  then have "other_rows h1 = other_rows h @ rows" by (simp add: es(4) list_all_iff filter_id_conv)
  ultimately show ?thesis
    using fs(1) es entries assms(3)
    by (simp add: SessionSampleAdd_def Let_def FieldNames_other_rows FieldNames_enabled on_node_def[of node_children])
qed

definition message_samples :: "xml_node \<Rightarrow> xml_node list" where
  "message_samples parent =
     (case child parent ''session_data'' of
        None \<Rightarrow> []
      | Some d \<Rightarrow> if attribute_value d ''type'' = ''list'' then ochildren (child d ''list'') else node_children d)"

text \<open>
  C16: every entry of a session message becomes one row that the queries can find. With writes enabled and
  well-formed samples (labels and custom tags are sets, both networks are given, only counters among the
  aggregates) the insertion succeeds; besides field names it writes exactly one row of the session
  table for each service entry of each sample, under the T2 of the message, and all eighteen indexed columns
  of every row begin with this T2, which the conditions of session queries rely on. The counters of
  messages and writes grow accordingly.
\<close>

theorem session_rows_indexed:
  fixes env :: "'d session_env" and h :: "'d DbHandler"
  assumes "list_all (good_sample env) (message_samples parent)" and "\<not> disable_all_writes h"
    and "child parent ''session_data'' = Some d" and "attribute_value d ''type'' = ''list'' \<or> length (node_children d) = 1"
  shows "\<exists>stats' h' rows. SessionTableInsert env header parent (stats, h) = Ret (stats', h') \<and>
    other_rows h' = other_rows h @ rows \<and> list_all (row_indexed (t2_of (hdr_Timestamp header))) rows \<and>
    length rows = (\<Sum>s\<leftarrow>message_samples parent. length (sample_entries s)) \<and>
    num_messages stats' = num_messages stats + of_nat (length (message_samples parent)) \<and>
    num_writes stats' = num_writes stats + of_nat (length rows)"
proof -
  let ?t2 = "t2_of (hdr_Timestamp header)"
  have run: "\<exists>stats' h' rows. foldl_outcome (\<lambda>s ssample. SessionSampleAdd env header (Some ssample) s) (stats, h) xs = Ret (stats', h') \<and>
      other_rows h' = other_rows h @ rows \<and> list_all (row_indexed ?t2) rows \<and> length rows = (\<Sum>s\<leftarrow>xs. length (sample_entries s)) \<and>
      num_messages stats' = num_messages stats + of_nat (length xs) \<and> num_writes stats' = num_writes stats + of_nat (length rows)"
    if "list_all (good_sample env) xs" "\<not> disable_all_writes h" for xs stats and h :: "'d DbHandler"
    using that
  proof (induction xs arbitrary: stats h)
    case (Cons x xs)
    from Cons.prems session_sample_rows[of env x h ?t2 header stats] obtain stats1 h1 rows1 where
      1: "SessionSampleAdd env header (Some x) (stats, h) = Ret (stats1, h1)" "\<not> disable_all_writes h1" "other_rows h1 = other_rows h @ rows1"
        "length rows1 = length (sample_entries x)" "list_all (row_indexed ?t2) rows1" "num_messages stats1 = num_messages stats + 1"
        "num_writes stats1 = num_writes stats + of_nat (length (sample_entries x))"
      by auto
    from Cons.IH[of h1 stats1] Cons.prems(1) 1(2) obtain stats2 h2 rows2 where
      2: "foldl_outcome (\<lambda>s ssample. SessionSampleAdd env header (Some ssample) s) (stats1, h1) xs = Ret (stats2, h2)"
        "other_rows h2 = other_rows h1 @ rows2" "list_all (row_indexed ?t2) rows2" "length rows2 = (\<Sum>s\<leftarrow>xs. length (sample_entries s))"
        "num_messages stats2 = num_messages stats1 + of_nat (length xs)" "num_writes stats2 = num_writes stats1 + of_nat (length rows2)"
      by auto
    show ?case
      by (intro exI[of _ stats2] exI[of _ h2] exI[of _ "rows1 @ rows2"]) (simp add: 1 2 ac_simps)
  qed simp
  show ?thesis
  proof (cases "attribute_value d ''type'' = ''list''")
    case True
    with run[of "message_samples parent" h stats] assms show ?thesis by (simp add: SessionTableInsert_def message_samples_def)
  next
    case False
    with assms(4) obtain x where x: "node_children d = [x]" by (cases "node_children d") auto
    with False assms(3) have "message_samples parent = [x]" "SessionTableInsert env header parent (stats, h) = SessionSampleAdd env header (Some x) (stats, h)"
      by (simp_all add: message_samples_def SessionTableInsert_def first_child_def)
    with run[of "[x]" h stats] assms(1,2) show ?thesis by (auto simp: bind_outcome_Ret_iff)
  qed
qed

definition plain_session_env :: "nat session_env" where
  "plain_session_env = \<lparr>se_db = \<lparr>umn_gen = (\<lambda>_. [1]), gen_partition_no = (\<lambda>_. 0), name_uuid = (\<lambda>_. [2]), stale_uuid = [],
       db_add_column = (\<lambda>_. True), json_writer = (\<lambda>_. ''{}''), db_show_double = (\<lambda>_. ''0''), parse_ip = (\<lambda>_. None)\<rparr>,
     se_unescape = (\<lambda>s. s), string_to_u8 = (\<lambda>s _. of_nat (digits_val s)), string_to_u16 = (\<lambda>s _. of_nat (digits_val s)),
     string_to_u32 = (\<lambda>s _. of_nat (digits_val s)), string_to_u64 = (\<lambda>s _. (strtoul s, list_all is_digit s)),
     string_to_i16 = (\<lambda>s _. of_nat (digits_val s)), read_uuid = (\<lambda>_. []), stale_u8 = 0, stale_u16 = 0, stale_u32 = 0, stale_u64 = 0,
     flow_SERVICE_PORT = ''service_port'', flow_PROTOCOL = ''protocol'', flow_LOCAL_IP = ''local_ip'', flow_PORT = ''port'', flow_IP = ''ip'',
     SessionFlowInfoField2Type = (\<lambda>_. None)\<rparr>"

definition plain_session :: xml_node where
  "plain_session = XElement ''SessionEndpoint'' []
     [XElement ''vn'' [(''type'', ''string'')] [XText ''v1''], XElement ''remote_vn'' [(''type'', ''string'')] [XText ''v2''],
      XElement ''sess_agg_info'' [(''type'', ''map'')] [XElement ''map'' []
        [XElement ''SessionIpPortProtocol'' [] [], XElement ''SessionAggInfo'' [] [XElement ''sampled_forward_bytes'' [(''type'', ''i64'')] [XText ''7'']],
         XElement ''SessionIpPortProtocol'' [] [], XElement ''SessionAggInfo'' [] []]]]"

theorem session_rows_indexed_witness:
  "let parent = XElement ''M'' [] [XElement ''session_data'' [(''type'', ''struct'')] [plain_session]];
       header = msg_header \<lparr>msg_header = \<lparr>hdr_Timestamp = 2 ^ 23, hdr_Source = ''s'', hdr_Module = ''m'', hdr_Category = '''', hdr_Type = ST_SESSION,
         hdr_Level = 3, hdr_NodeType = ''n'', hdr_InstanceId = ''0'', hdr_SequenceNum = 1, hdr_Pid = None, hdr_IPAddress = None,
         hdr_Hints = 0, hdr_Context = None\<rparr>, msg_type = ''T'', msg_text = '''', msg_unm = [], msg_size = 10\<rparr>
   in \<exists>stats' h' rows. SessionTableInsert plain_session_env header parent (new_SessionTableDbStats, empty_handler) = Ret (stats', h') \<and>
        other_rows h' = rows \<and> list_all (row_indexed (t2_of (2 ^ 23))) rows \<and> length rows = 2 \<and> num_messages stats' = 1 \<and> num_writes stats' = 2"
proof -
  let ?d = "XElement ''session_data'' [(''type'', ''struct'')] [plain_session]"
  let ?parent = "XElement ''M'' [] [?d]"
  let ?header = "msg_header \<lparr>msg_header = \<lparr>hdr_Timestamp = 2 ^ 23, hdr_Source = ''s'', hdr_Module = ''m'', hdr_Category = '''', hdr_Type = ST_SESSION,
         hdr_Level = 3, hdr_NodeType = ''n'', hdr_InstanceId = ''0'', hdr_SequenceNum = 1, hdr_Pid = None, hdr_IPAddress = None,
         hdr_Hints = 0, hdr_Context = None\<rparr>, msg_type = ''T'', msg_text = '''', msg_unm = [], msg_size = 10\<rparr>"
  have c: "child ?parent ''session_data'' = Some ?d" by (simp add: child_def)
  then have samples: "message_samples ?parent = [plain_session]" by (simp add: message_samples_def attribute_value_def)
  have entries: "sample_entries plain_session =
      [(XElement ''SessionIpPortProtocol'' [] [], Some (XElement ''SessionAggInfo'' [] [XElement ''sampled_forward_bytes'' [(''type'', ''i64'')] [XText ''7'']])),
       (XElement ''SessionIpPortProtocol'' [] [], Some (XElement ''SessionAggInfo'' [] []))]"
    by (simp add: sample_entries_def plain_session_def attribute_value_def child_def on_node_def)
  have "good_sample plain_session_env plain_session"
    unfolding good_sample_def entries
    by (simp add: plain_session_def good_sample_field_def good_agg_field_def on_node_def attribute_value_def session_msg2type_map_def)
  then have good: "list_all (good_sample plain_session_env) (message_samples ?parent)" by (simp add: samples)
  have on: "\<not> disable_all_writes (empty_handler :: nat DbHandler)" and len: "length (node_children ?d) = 1"
    and empty: "written (empty_handler :: nat DbHandler) = []" by (simp_all add: empty_handler_def)
  have "\<exists>stats' h' rows. SessionTableInsert plain_session_env ?header ?parent (new_SessionTableDbStats, empty_handler) = Ret (stats', h') \<and>
    other_rows h' = other_rows (empty_handler :: nat DbHandler) @ rows \<and> list_all (row_indexed (t2_of (hdr_Timestamp ?header))) rows \<and>
    length rows = (\<Sum>s\<leftarrow>message_samples ?parent. length (sample_entries s)) \<and>
    num_messages stats' = num_messages new_SessionTableDbStats + of_nat (length (message_samples ?parent)) \<and>
    num_writes stats' = num_writes new_SessionTableDbStats + of_nat (length rows)"
    using session_rows_indexed[OF good on c] len by blast
  then show ?thesis by (auto simp: samples entries empty new_SessionTableDbStats_def)
qed

text \<open>
  Counters of one entry are stored with the next. The array of values is not cleared between the entries
  of a sample: an entry whose aggregates do not mention a counter is written with the value the array had,
  which is the counter of the entry before it in the message.
\<close>

theorem counters_carried_over:
  assumes "session_entry_add env t2 (sv, stats, h) kv = Ret (sv', stats', h')" and "\<not> disable_all_writes h"
    and "idx \<in> {28..35}" and "length sv = SESSION_MAX"
    and "list_all (\<lambda>c. attribute_value c ''type'' \<noteq> ''map'' \<longrightarrow> (\<forall>i t. map_of session_msg2type_map (node_name c) = Some (i, t) \<longrightarrow> i \<noteq> idx)) (ochildren (snd kv))"
  shows "\<exists>row. written h' = written h @ [row] \<and> cl_name row ! (idx - SESSION_MIN) = session_column t2 sv idx"
proof -
  let ?sv1 = "entry_values env t2 (umn_gen (se_db env) (uuids_drawn h)) (gen_partition_no (se_db env) (partitions_drawn h)) (fst kv) sv"
  have keep: "length (fst t) = length (fst s) \<and> fst t ! idx = fst s ! idx"
    if "list_all (\<lambda>c. attribute_value c ''type'' \<noteq> ''map'' \<longrightarrow> (\<forall>i t. map_of session_msg2type_map (node_name c) = Some (i, t) \<longrightarrow> i \<noteq> idx)) cs"
      "foldl_outcome (agg_field env) s cs = Ret t" for s t cs
    using that
  proof (induction cs arbitrary: s)
    case (Cons c cs)
    then obtain u where u: "agg_field env s c = Ret u" "foldl_outcome (agg_field env) u cs = Ret t" by (auto simp: bind_outcome_Ret_iff)
    have "length (fst u) = length (fst s) \<and> fst u ! idx = fst s ! idx"
      using u(1) Cons.prems(1) assms(3)
      by (auto simp: agg_field_def Let_def bind_outcome_Ret_iff SESSION_MAP_def split: prod.splits option.splits if_splits)
    with Cons.IH[OF _ u(2)] Cons.prems(1) show ?case by simp
  qed simp
  from assms(1) obtain sv2 stats2 where u: "foldl_outcome (agg_field env) (?sv1, stats) (ochildren (snd kv)) = Ret (sv2, stats2)"
    "h' = PopulateSessionTable env t2 sv2 (h\<lparr>uuids_drawn := Suc (uuids_drawn h), partitions_drawn := Suc (partitions_drawn h)\<rparr>)"
    by (auto simp: session_entry_add_def Let_def bind_outcome_Ret_iff)
  have "sv2 ! idx = sv ! idx"
    using keep[OF assms(5) u(1)] assms(3) by (simp add: entry_values_def Let_def session_fields)
  then have "session_column t2 sv2 idx = session_column t2 sv idx" by (simp add: session_column_def)
  moreover have "map (session_column t2 sv2) [4..<36] ! (idx - 4) = session_column t2 sv2 idx"
    using assms(3) by (subst nth_map) (auto simp del: upt_rec_numeral)
  ultimately show ?thesis
    using assms(2,3) by (simp add: u(2) PopulateSessionTable_def InsertIntoDb_def session_row_def session_fields del: upt_rec_numeral)
qed

theorem counters_carried_over_witness:
  "let sv = (replicate 37 DbBlank)[28 := DbU64 7]
   in case session_entry_add plain_session_env 1 (sv, new_SessionTableDbStats, empty_handler) (XElement ''k'' [] [], Some (XElement ''v'' [] [])) of
        Ret (sv', stats', h') \<Rightarrow> \<exists>row. written h' = written (empty_handler :: nat DbHandler) @ [row] \<and> cl_name row ! 24 = DbU64 7
      | Abort \<Rightarrow> False"
proof -
  let ?sv = "(replicate 37 DbBlank)[28 := DbU64 7] :: nat SessionValueArray"
  let ?kv = "(XElement ''k'' [] [], Some (XElement ''v'' [] []))"
  obtain sv' stats' h' where run: "session_entry_add plain_session_env 1 (?sv, new_SessionTableDbStats, empty_handler) ?kv = Ret (sv', stats', h')"
    by (simp add: session_entry_add_def Let_def on_node_def)
  have "list_all (\<lambda>c. attribute_value c ''type'' \<noteq> ''map'' \<longrightarrow> (\<forall>i t. map_of session_msg2type_map (node_name c) = Some (i, t) \<longrightarrow> i \<noteq> 28)) (ochildren (snd ?kv))"
    by (simp add: on_node_def)
  from counters_carried_over[OF run _ _ _ this] run show ?thesis
    by (simp add: empty_handler_def session_column_def session_fields)
qed

end
