(* ===== verification/Collector.thy ===== *)
theory Collector
  imports Rule_Engine Session_Table
begin

text \<open>
  \<open>Ruleeng::rule_execute\<close> (\<open>ruleeng.cc\<close>): the whole treatment of one message by the collector. UVEs are published
  first; then the message may be dropped; otherwise its object log, the message itself, the statistics of a UVE
  and its sessions are written, and finally the rules are applied. The handler of the database may be
  absent. The parts of the state belong to the components; here they are put together.
\<close>

record 'd collector =
  col_db :: "'d DbHandler"
  col_drop :: DropState
  col_sessions :: SessionTableDbStats
  col_osp :: "osp_call list"
  col_rules :: "t_rule list"
  col_echo :: string

record 'd collector_env =
  ce_rule :: "'d rule_env"
  ce_session :: "'d session_env"
  ce_lib :: rule_lib
  ce_level :: "int \<Rightarrow> string"

definition handle_session_object ::
    "'d collector_env \<Rightarrow> xml_node \<Rightarrow> SandeshHeader \<Rightarrow> SessionTableDbStats \<times> 'd DbHandler \<Rightarrow> (SessionTableDbStats \<times> 'd DbHandler) outcome" where
  "handle_session_object env parent header st =
     (if hdr_Type header \<noteq> ST_SESSION then Ret st else SessionTableInsert (ce_session env) header parent st)"

text \<open>The writes of a message that is not dropped.\<close>

definition write_message :: "'d collector_env \<Rightarrow> VizMsg \<Rightarrow> xml_node \<Rightarrow> bool \<Rightarrow> 'd collector \<Rightarrow> 'd collector outcome" where
  "write_message env vmsg parent uveproc c =
     bind_outcome (handle_object_log (ce_rule env) parent vmsg (col_db c)) (\<lambda>(db1, object_names).
       (let db2 = MessageTableInsert (re_db (ce_rule env)) (re_stype_num (ce_rule env)) vmsg object_names db1
        in bind_outcome (if uveproc then handle_uve_statistics (ce_rule env) (Some parent) vmsg db2 else Ret (True, db2)) (\<lambda>(ok, db3).
           bind_outcome (handle_session_object env parent (msg_header vmsg) (col_sessions c, db3)) (\<lambda>(sessions, db4).
             Ret (c\<lparr>col_db := db4, col_sessions := sessions\<rparr>)))))"

definition run_rules :: "'d collector_env \<Rightarrow> VizMsg \<Rightarrow> xml_node \<Rightarrow> 'd collector \<Rightarrow> 'd collector outcome" where
  "run_rules env vmsg parent c =
     bind_outcome (rulelist_execute (ce_lib env) (col_rules c)
         \<lparr>rm_messagetype = msg_type vmsg, rm_context = hdr_Context (msg_header vmsg), rm_node = parent\<rparr>)
       (\<lambda>res. Ret (c\<lparr>col_echo := res\<rparr>))"

definition rule_execute :: "'d collector_env \<Rightarrow> VizMsg \<Rightarrow> xml_node \<Rightarrow> bool \<Rightarrow> bool \<Rightarrow> 'd collector \<Rightarrow> 'd collector outcome" where
  "rule_execute env vmsg message_node uveproc has_db c =
     (let parent = remove_identifier message_node;
          c1 = (if uveproc then c\<lparr>col_osp := col_osp c @ snd (handle_uve_publish (ce_rule env) (Some parent) vmsg)\<rparr> else c);
          (dropped, drop') = (if has_db then DropMessage (ce_level env) vmsg (col_drop c1) else (False, col_drop c1));
          c2 = c1\<lparr>col_drop := drop'\<rparr>
      in if dropped then Ret c2
         else bind_outcome (if has_db then write_message env vmsg parent uveproc c2 else Ret c2) (run_rules env vmsg parent))"

definition Ruleeng_rule_present :: "VizMsg \<Rightarrow> 'd collector \<Rightarrow> bool" where
  "Ruleeng_rule_present vmsg c =
     rule_present \<lparr>rmt_msgtype = msg_type vmsg, rmt_context = hdr_Context (msg_header vmsg)\<rparr> (col_rules c)"

section \<open>What a message leaves behind\<close>

lemma plain_remove_first [simp]: "plain_names (drop_identifier x) = plain_names x"
  by (induction x) (auto simp: list_all_iff)

lemma plain_remove_identifier [simp]: "plain_names (remove_identifier x) = plain_names x"
  by (cases x) (auto simp: list_all_iff)

lemma uve_statistics_adds_stats:
  assumes "list_all plain_names xs"
  shows "\<exists>db'. uve_statistics_loop env object header xs db = Ret db' \<and> adds_stats db db'"
  using assms
proof (induction xs arbitrary: db)
  case (Cons x xs)
  note rest = Cons.IH
  show ?case
  proof (cases "attribute_value x ''key'' = '''' \<and> \<not> (node_name x = ''deleted'' \<and> child_value x = ''true'') \<and>
      has_attribute x ''tags'' \<and> and (hdr_Hints header) (sync_hint env) = 0")
    case True
    then have "is_element x" using has_attribute_element by blast
    moreover have "plain_names x" using Cons.prems by simp
    ultimately obtain b d where
      d: "DomTopStatWalker env object (hdr_Timestamp header) x (map_insert ''Source'' (plain_tag (VString (hdr_Source header)))
        (map_insert ''name'' (plain_tag (ParseNode env (child object ''name''))) [])) db = Ret (b, d)" "adds_stats db d"
      using DomTopStatWalker_adds_stats by blast
    with True rest[of d] Cons.prems show ?thesis by (auto simp: Let_def intro: adds_stats_trans)
  next
    case False
    with rest[of db] Cons.prems show ?thesis by auto
  qed
qed simp

lemma handle_uve_statistics_adds_stats:
  assumes "plain_names parent"
  shows "\<exists>b db'. handle_uve_statistics env (Some parent) rmsg db = Ret (b, db') \<and> adds_stats db db'"
proof (cases "is_uve (msg_header rmsg)")
  case True
  show ?thesis
  proof (cases "uve_object parent")
    case None
    with True show ?thesis by (auto simp: handle_uve_statistics_def)
  next
    case (Some object)
    then obtain d where "child parent ''data'' = Some d" "first_child d = Some object"
      by (auto simp: uve_object_def on_node_def split: option.splits)
    then have "plain_names object"
      using plain_child[OF assms child_in, of "''data''"] plain_child[of d object] by (auto simp: first_child_def split: list.splits)
    then have "list_all plain_names (node_children object)" by (cases object) simp_all
    from uve_statistics_adds_stats[OF this, of env object "msg_header rmsg" db] Some True show ?thesis
      by (auto simp: handle_uve_statistics_def)
  qed
qed (auto simp: handle_uve_statistics_def)

definition logs_objects :: "'d collector_env \<Rightarrow> VizMsg \<Rightarrow> bool" where
  "logs_objects env vmsg \<longleftrightarrow> and (hdr_Hints (msg_header vmsg)) (key_hint (ce_rule env)) \<noteq> 0"

lemma object_log_rows:
  assumes "\<not> disable_messages_writes db" and "\<not> disable_all_writes db" and "plain_names parent"
    and "keys = (if logs_objects env vmsg then object_keys (ce_rule env) parent else [])"
  shows "\<exists>db'. handle_object_log (ce_rule env) parent vmsg db = Ret (db', map (\<lambda>(t, k). t @ '':'' @ k) keys) \<and>
    other_rows db' = other_rows db @ map (object_row (hdr_Timestamp (msg_header vmsg)) (message_ttl db vmsg)) keys \<and>
    handler_config db' = handler_config db"
proof (cases "logs_objects env vmsg")
  case True
  with handle_object_log_rows[OF assms(1-3), of vmsg "ce_rule env"] assms(4) show ?thesis by (simp add: logs_objects_def)
next
  case False
  with assms(4) show ?thesis by (simp add: logs_objects_def handle_object_log_def Let_def)
qed

lemma MessageTableInsert_other_rows:
  "AllowMessageTableInsert h (msg_header vmsg) \<Longrightarrow>
     other_rows (MessageTableInsert env sn vmsg names h) = other_rows h @ [message_write env sn vmsg names h]"
  using MessageTableInsert_writes[of h vmsg env sn names] by (auto simp: list_all_iff message_write_def)

lemma message_write_config:
  "handler_config h = handler_config g \<Longrightarrow>
     message_write env sn vmsg names h = message_write env sn vmsg names (g\<lparr>partitions_drawn := partitions_drawn h\<rparr>)"
  by (simp add: message_write_def message_ttl_def GetTtl_def handler_config_def)

lemma write_message_rows:
  assumes "plain_names parent" and "AllowMessageTableInsert (col_db c) (msg_header vmsg)"
    and "keys = (if logs_objects env vmsg then object_keys (ce_rule env) parent else [])"
  shows "\<exists>c' k. write_message env vmsg parent uveproc c = Ret c' \<and> c' = c\<lparr>col_db := col_db c'\<rparr> \<and>
    other_rows (col_db c') = other_rows (col_db c) @
      map (object_row (hdr_Timestamp (msg_header vmsg)) (message_ttl (col_db c) vmsg)) keys @
      [message_write (re_db (ce_rule env)) (re_stype_num (ce_rule env)) vmsg (map (\<lambda>(t, k). t @ '':'' @ k) keys) ((col_db c)\<lparr>partitions_drawn := k\<rparr>)]"
proof -
  let ?db = "col_db c" and ?names = "map (\<lambda>(t, k). t @ '':'' @ k) keys"
  have on: "\<not> disable_messages_writes ?db" "\<not> disable_all_writes ?db" and "hdr_Type (msg_header vmsg) \<noteq> ST_SESSION"
    using assms(2) by (auto simp: AllowMessageTableInsert_def)
  from object_log_rows[OF on assms(1,3)] obtain db1 where
    1: "handle_object_log (ce_rule env) parent vmsg ?db = Ret (db1, ?names)" "handler_config db1 = handler_config ?db"
      "other_rows db1 = other_rows ?db @ map (object_row (hdr_Timestamp (msg_header vmsg)) (message_ttl ?db vmsg)) keys" by blast
  let ?db2 = "MessageTableInsert (re_db (ce_rule env)) (re_stype_num (ce_rule env)) vmsg ?names db1"
  have "AllowMessageTableInsert db1 (msg_header vmsg)" using assms(2) 1(2) by (simp add: AllowMessageTableInsert_def handler_config_def)
  note 2 = MessageTableInsert_other_rows[OF this, of "re_db (ce_rule env)" "re_stype_num (ce_rule env)" ?names]
  have "\<exists>b db3. (if uveproc then handle_uve_statistics (ce_rule env) (Some parent) vmsg ?db2 else Ret (True, ?db2)) = Ret (b, db3) \<and> other_rows db3 = other_rows ?db2"
    using handle_uve_statistics_adds_stats[OF assms(1), of "ce_rule env" vmsg ?db2] adds_stats_other_rows by fastforce
  then obtain b db3 where 3: "(if uveproc then handle_uve_statistics (ce_rule env) (Some parent) vmsg ?db2 else Ret (True, ?db2)) = Ret (b, db3)"
    "other_rows db3 = other_rows ?db2" by blast
  have "write_message env vmsg parent uveproc c = Ret (c\<lparr>col_db := db3\<rparr>)"
    unfolding write_message_def Let_def 1(1) bind_outcome.simps(1) prod.case 3(1)
    using \<open>hdr_Type (msg_header vmsg) \<noteq> ST_SESSION\<close> by (simp add: handle_session_object_def)
  moreover have "other_rows db3 = other_rows ?db @ map (object_row (hdr_Timestamp (msg_header vmsg)) (message_ttl ?db vmsg)) keys @
      [message_write (re_db (ce_rule env)) (re_stype_num (ce_rule env)) vmsg ?names (?db\<lparr>partitions_drawn := partitions_drawn db1\<rparr>)]"
    using 1(3) 2 3(2) message_write_config[OF 1(2)] by simp
  ultimately show ?thesis by auto
qed

lemma rule_execute_treatment:
  assumes "plain_names node" and "AllowMessageTableInsert (col_db c) (msg_header vmsg)" and "parent = remove_identifier node"
    and "rulelist_execute (ce_lib env) (col_rules c) \<lparr>rm_messagetype = msg_type vmsg, rm_context = hdr_Context (msg_header vmsg), rm_node = parent\<rparr> = Ret res"
    and "keys = (if logs_objects env vmsg then object_keys (ce_rule env) parent else [])"
  shows "\<exists>c' k. rule_execute env vmsg node uveproc True c = Ret c' \<and>
    col_osp c' = col_osp c @ (if uveproc then snd (handle_uve_publish (ce_rule env) (Some parent) vmsg) else []) \<and>
    (if must_drop (col_drop c) vmsg then col_db c' = col_db c \<and> col_drop c' = count_dropped (ce_level env) vmsg (col_drop c)
     else other_rows (col_db c') = other_rows (col_db c) @
            map (object_row (hdr_Timestamp (msg_header vmsg)) (message_ttl (col_db c) vmsg)) keys @
            [message_write (re_db (ce_rule env)) (re_stype_num (ce_rule env)) vmsg (map (\<lambda>(t, k). t @ '':'' @ k) keys) ((col_db c)\<lparr>partitions_drawn := k\<rparr>)] \<and>
          col_echo c' = res \<and> col_drop c' = col_drop c)"
proof -
  let ?osp = "if uveproc then snd (handle_uve_publish (ce_rule env) (Some parent) vmsg) else []"
  let ?c1 = "c\<lparr>col_osp := col_osp c @ ?osp\<rparr>"
  have c1: "(if uveproc then c\<lparr>col_osp := col_osp c @ snd (handle_uve_publish (ce_rule env) (Some parent) vmsg)\<rparr> else c) = ?c1" by simp
  show ?thesis
  proof (cases "must_drop (col_drop c) vmsg")
    case True
    then show ?thesis
      unfolding rule_execute_def Let_def assms(3)[symmetric] c1 by (simp add: DropMessage_eq)
  next
    case False
    have plain: "plain_names parent" using assms(1,3) by simp
    have allow: "AllowMessageTableInsert (col_db ?c1) (msg_header vmsg)" using assms(2) by simp
    from write_message_rows[OF plain allow assms(5), of uveproc] obtain c' k where
      w: "write_message env vmsg parent uveproc ?c1 = Ret c'" "c' = ?c1\<lparr>col_db := col_db c'\<rparr>"
        "other_rows (col_db c') = other_rows (col_db c) @
            map (object_row (hdr_Timestamp (msg_header vmsg)) (message_ttl (col_db c) vmsg)) keys @
            [message_write (re_db (ce_rule env)) (re_stype_num (ce_rule env)) vmsg (map (\<lambda>(t, k). t @ '':'' @ k) keys) ((col_db c)\<lparr>partitions_drawn := k\<rparr>)]"
      by auto
    have "col_rules c' = col_rules c" "col_osp c' = col_osp c @ ?osp" "col_drop c' = col_drop c" by (subst w(2), simp)+
    moreover from this have "run_rules env vmsg parent c' = Ret (c'\<lparr>col_echo := res\<rparr>)" using assms(4) by (simp add: run_rules_def)
    moreover have "rule_execute env vmsg node uveproc True c = bind_outcome (write_message env vmsg parent uveproc ?c1) (run_rules env vmsg parent)"
      unfolding rule_execute_def Let_def assms(3)[symmetric] c1 using False by (simp add: DropMessage_eq)
    ultimately show ?thesis using False w(1,3) by auto
  qed
qed

text \<open>
  C4: what a message leaves behind. For a message that is neither a flow nor a session, with writes enabled,
  element names without dots and rules that can be evaluated, the treatment succeeds. A UVE is published in any case. If the
  drop levels say so the message is counted as dropped and nothing is written; otherwise, besides
  statistics, exactly one row for each object the message names and then one row for the message are
  written, the latter with the names of the same objects, and the rules are executed.
\<close>

theorem message_treatment:
  assumes "plain_names node" and "AllowMessageTableInsert (col_db c) (msg_header vmsg)" and "parent = remove_identifier node"
    and "rulelist_execute (ce_lib env) (col_rules c) \<lparr>rm_messagetype = msg_type vmsg, rm_context = hdr_Context (msg_header vmsg), rm_node = parent\<rparr> = Ret res"
    and "keys = (if logs_objects env vmsg then object_keys (ce_rule env) parent else [])"
  shows "\<exists>c' k. rule_execute env vmsg node uveproc True c = Ret c' \<and>
    col_osp c' = col_osp c @ (if uveproc then snd (handle_uve_publish (ce_rule env) (Some parent) vmsg) else []) \<and>
    (if must_drop (col_drop c) vmsg then col_db c' = col_db c \<and> col_drop c' = count_dropped (ce_level env) vmsg (col_drop c)
     else other_rows (col_db c') = other_rows (col_db c) @
            map (object_row (hdr_Timestamp (msg_header vmsg)) (message_ttl (col_db c) vmsg)) keys @
            [message_write (re_db (ce_rule env)) (re_stype_num (ce_rule env)) vmsg (map (\<lambda>(t, k). t @ '':'' @ k) keys) ((col_db c)\<lparr>partitions_drawn := k\<rparr>)] \<and>
          col_echo c' = res \<and> col_drop c' = col_drop c)"
  using assms by (rule rule_execute_treatment)

theorem message_treatment_witness:
  "let node = XElement ''M'' [] [XElement ''vm'' [(''type'', ''string''), (''key'', ''ObjectVMTable'')] [XText ''v1'']];
       vmsg = (plain_msg ST_OBJECT 3)\<lparr>msg_header := (msg_header (plain_msg ST_OBJECT 3))\<lparr>hdr_Hints := 1\<rparr>\<rparr>;
       env = \<lparr>ce_rule = plain_env, ce_session = plain_session_env, ce_lib = \<lparr>lexical_int = (\<lambda>_. None), python_result = (\<lambda>_. '''')\<rparr>, ce_level = (\<lambda>_. '''')\<rparr>;
       c = \<lparr>col_db = empty_handler, col_drop = plain_drop 5, col_sessions = new_SessionTableDbStats, col_osp = [], col_rules = [], col_echo = ''''\<rparr>
   in \<exists>c' k. rule_execute env vmsg node True True c = Ret c' \<and>
        other_rows (col_db c') = [object_row 1 (message_ttl (empty_handler :: nat DbHandler) vmsg) (''ObjectVMTable'', ''v1''),
          message_write plain_db_env (\<lambda>_. 1) vmsg [''ObjectVMTable:v1''] (empty_handler\<lparr>partitions_drawn := k\<rparr>)]"
proof -
  let ?node = "XElement ''M'' [] [XElement ''vm'' [(''type'', ''string''), (''key'', ''ObjectVMTable'')] [XText ''v1'']]"
  let ?vmsg = "(plain_msg ST_OBJECT 3)\<lparr>msg_header := (msg_header (plain_msg ST_OBJECT 3))\<lparr>hdr_Hints := 1\<rparr>\<rparr>"
  let ?env = "\<lparr>ce_rule = plain_env, ce_session = plain_session_env, ce_lib = \<lparr>lexical_int = (\<lambda>_. None), python_result = (\<lambda>_. '''')\<rparr>, ce_level = (\<lambda>_. '''')\<rparr>"
  let ?c = "\<lparr>col_db = empty_handler, col_drop = plain_drop 5, col_sessions = new_SessionTableDbStats, col_osp = [], col_rules = [], col_echo = ''''\<rparr> :: nat collector"
  have parent: "remove_identifier ?node = ?node" by simp
  have keys: "(if logs_objects ?env ?vmsg then object_keys (ce_rule ?env) ?node else []) = [(''ObjectVMTable'', ''v1'')]"
    by (simp add: logs_objects_def add_key_def attribute_value_def child_value_def plain_env_def plain_msg_def)
  have drop: "\<not> must_drop (col_drop ?c) ?vmsg" by (simp add: must_drop_def effective_level_def plain_drop_def plain_msg_def)
  have "plain_names ?node" "AllowMessageTableInsert (col_db ?c) (msg_header ?vmsg)"
    "rulelist_execute (ce_lib ?env) (col_rules ?c) \<lparr>rm_messagetype = msg_type ?vmsg, rm_context = hdr_Context (msg_header ?vmsg), rm_node = ?node\<rparr> = Ret ''''"
    by (simp_all add: AllowMessageTableInsert_def empty_handler_def plain_msg_def rulelist_execute_def)
  from message_treatment[OF this(1,2) parent[symmetric] this(3) refl, of True, unfolded keys if_not_P[OF drop]] obtain c' k where
    r: "rule_execute ?env ?vmsg ?node True True ?c = Ret c'"
      "other_rows (col_db c') = other_rows (col_db ?c) @ map (object_row (hdr_Timestamp (msg_header ?vmsg)) (message_ttl (col_db ?c) ?vmsg)) [(''ObjectVMTable'', ''v1'')] @
        [message_write (re_db (ce_rule ?env)) (re_stype_num (ce_rule ?env)) ?vmsg (map (\<lambda>(t, k). t @ '':'' @ k) [(''ObjectVMTable'', ''v1'')]) ((col_db ?c)\<lparr>partitions_drawn := k\<rparr>)]"
    by (elim exE conjE)
  have e: "written (empty_handler :: nat DbHandler) = []" "hdr_Timestamp (msg_header (plain_msg ST_OBJECT 3)) = 1" "re_db plain_env = plain_db_env" "re_stype_num plain_env = (\<lambda>_. 1)"
    by (simp_all add: empty_handler_def plain_msg_def plain_env_def)
  from r(2) have "other_rows (col_db c') = [object_row 1 (message_ttl (empty_handler :: nat DbHandler) ?vmsg) (''ObjectVMTable'', ''v1''),
      message_write plain_db_env (\<lambda>_. 1) ?vmsg [''ObjectVMTable:v1''] (empty_handler\<lparr>partitions_drawn := k\<rparr>)]"
    by (simp add: e)
  with r(1) show ?thesis unfolding Let_def by blast
qed

end
