(* ===== verification/Syslog_Collector.thy ===== *)
theory Syslog_Collector
  imports Collector
begin

text \<open>
  \<open>syslog_collector.cc\<close>: plain syslog. A datagram is parsed into a map of fields, completed with its time,
  facility and severity, turned into a sandesh message and handed to the rule engine like any other message.
  The \<open>boost::spirit\<close> grammar, the calendar of \<open>boost::posix_time\<close> and the message builder of the sandesh
  library enter as arguments. An \<open>int64_t\<close> is a 64-bit word, compared with the signed order.
\<close>

section \<open>The fields of a message\<close>

type_synonym i64 = "64 word"

text \<open>\<open>Holder\<close>: each constructor fills one of the two values; the string of an integer holder is empty, the
  integer of a string holder is not initialised.\<close>

datatype Holder = StrHolder (holder_key: string) string | IntHolder (holder_key: string) i64

type_synonym syslog_m_t = "(string \<times> Holder) list"

definition put_str :: "string \<Rightarrow> string \<Rightarrow> syslog_m_t \<Rightarrow> syslog_m_t" where
  "put_str k s v = map_insert k (StrHolder k s) v"

definition put_int :: "string \<Rightarrow> i64 \<Rightarrow> syslog_m_t \<Rightarrow> syslog_m_t" where
  "put_int k i v = map_insert k (IntHolder k i) v"

definition GetMapVals :: "syslog_m_t \<Rightarrow> string \<Rightarrow> string \<Rightarrow> string" where
  "GetMapVals v key d = (case map_of v key of None \<Rightarrow> d | Some (StrHolder _ s) \<Rightarrow> s | Some (IntHolder _ _) \<Rightarrow> '''')"

text \<open>\<open>stale key\<close> is what the uninitialised integer of a string holder contains.\<close>

definition GetMapVal :: "(string \<Rightarrow> i64) \<Rightarrow> syslog_m_t \<Rightarrow> string \<Rightarrow> int \<Rightarrow> i64" where
  "GetMapVal stale v key d =
     (case map_of v key of None \<Rightarrow> word_of_int d | Some (IntHolder _ i) \<Rightarrow> i | Some (StrHolder _ _) \<Rightarrow> stale key)"

definition GetFacilitySeverity :: "(string \<Rightarrow> i64) \<Rightarrow> syslog_m_t \<Rightarrow> u32 \<times> u32" where
  "GetFacilitySeverity stale v =
     (let fs = ucast (GetMapVal stale v ''facsev'' 0) :: u32 in (signed_drop_bit 3 fs, and fs 7))"

text \<open>
  The clock and calendar: the local time as \<open>tm\<close> (years since 1900, months from 0), the local time less
  universal time in microseconds, the microseconds since 1970 of a date and a time of day (the
  constructors throw on a day that does not exist), and \<open>duration_from_string\<close>.
\<close>

record clock_lib =
  tm_year :: int
  tm_mon :: int
  tm_mday :: int
  tm_hour :: int
  tm_min :: int
  tm_sec :: int
  local_offset :: int
  epoch_usec :: "int \<Rightarrow> int \<Rightarrow> int \<Rightarrow> int \<Rightarrow> int \<Rightarrow> int \<Rightarrow> int \<Rightarrow> int option"
  duration_from_string :: "string \<Rightarrow> int option"

definition GetTimestamp :: "clock_lib \<Rightarrow> (string \<Rightarrow> i64) \<Rightarrow> syslog_m_t \<Rightarrow> i64 outcome" where
  "GetTimestamp lib stale v =
     (let get = (\<lambda>key d. sint (GetMapVal stale v key d))
      in case epoch_usec lib (get ''year'' (tm_year lib + 1900)) (get ''month'' (tm_mon lib)) (get ''day'' (tm_mday lib))
                (get ''hour'' (tm_hour lib)) (get ''min'' (tm_min lib)) (get ''sec'' (tm_sec lib)) (get ''msec'' 0 * 1000) of
           None \<Rightarrow> Abort
         | Some p \<Rightarrow>
             if get ''year'' 0 = 0 then Ret (word_of_int (p - local_offset lib))
             else (let tz = GetMapVals v ''tz'' ''+0:00'' in
                   bind_outcome (substr_from tz 1) (\<lambda>rest.
                     case duration_from_string lib rest of
                       None \<Rightarrow> Abort
                     | Some diff \<Rightarrow> Ret (word_of_int (if take 1 tz = ''-'' then p + diff else p - diff)))))"

definition PostParsing :: "clock_lib \<Rightarrow> (string \<Rightarrow> i64) \<Rightarrow> syslog_m_t \<Rightarrow> syslog_m_t outcome" where
  "PostParsing lib stale v =
     bind_outcome (GetTimestamp lib stale v) (\<lambda>ts.
       (let v1 = put_int ''timestamp'' ts v; (f, s) = GetFacilitySeverity stale v1
        in Ret (put_int ''severity'' (scast s) (put_int ''facility'' (scast f) v1))))"

definition facilitynames :: "string list" where
  "facilitynames = [''auth'', ''authpriv'', ''cron'', ''daemon'', ''ftp'', ''kern'', ''lpr'', ''mail'', ''mark'', ''news'', ''security'',
     ''syslog'', ''user'', ''uucp'', ''local0'', ''local1'', ''local2'', ''local3'', ''local4'', ''local5'', ''local6'', ''local7'']"

definition GetSyslogFacilityName :: "u64 \<Rightarrow> string" where
  "GetSyslogFacilityName f = (if unat f < length facilitynames then facilitynames ! unat f else '''')"

definition escape_char :: "char \<Rightarrow> string" where
  "escape_char c =
     (if c = CHR ''&'' then ''&amp;'' else if c = CHR 0x27 then ''&apos;'' else if c = CHR ''<'' then ''&lt;''
      else if c = CHR ''>'' then ''&gt;'' else if (of_char c :: nat) < 128 then [c]
      else ''&#'' @ show_nat (of_char c) @ '';'')"

definition EscapeXmlTags :: "string \<Rightarrow> string" where
  "EscapeXmlTags t = concat (map escape_char t)"

definition GetModule :: "syslog_m_t \<Rightarrow> string" where
  "GetModule v = GetMapVals v ''prog'' ''UNKNOWN''"

definition GetFacility :: "(string \<Rightarrow> i64) \<Rightarrow> syslog_m_t \<Rightarrow> string" where
  "GetFacility stale v = GetSyslogFacilityName (GetMapVal stale v ''facility'' 0)"

text \<open>\<open>int GetPID\<close> keeps the low 32 bits.\<close>

definition GetPID :: "(string \<Rightarrow> i64) \<Rightarrow> syslog_m_t \<Rightarrow> int" where
  "GetPID stale v = sint (ucast (GetMapVal stale v ''pid'' (-1)) :: u32)"

definition GetMsgBody :: "syslog_m_t \<Rightarrow> string" where
  "GetMsgBody v = EscapeXmlTags (GetMapVals v ''body'' '''')"

section \<open>From a datagram to the rule engine\<close>

text \<open>\<open>sl_grammar\<close> is the grammar of \<open>parse_syslog\<close>: whether it matched and the fields it stored.
  \<open>sl_create\<close> is the builder of the sandesh library: message type, text, document and size.\<close>

record syslog_lib =
  sl_grammar :: "string \<Rightarrow> bool \<times> syslog_m_t"
  sl_stale :: "string \<Rightarrow> i64"
  sl_clock :: clock_lib
  sl_create :: "string \<Rightarrow> string \<times> string \<times> xml_node \<times> u64"
  sl_umn_gen :: "nat \<Rightarrow> u8 list"

text \<open>The state of the parser: the generators with their counters, the uuids drawn, and the collector behind it.\<close>

record 'd SyslogParser =
  sp_generators :: "(string \<times> VizMsgStatistics) list"
  sp_umn_drawn :: nat
  sp_collector :: "'d collector"

definition GetGenerator :: "string \<Rightarrow> (string \<times> VizMsgStatistics) list \<Rightarrow> (string \<times> VizMsgStatistics) list" where
  "GetGenerator ip gens = (if map_of gens ip = None then map_insert ip new_VizMsgStatistics gens else gens)"

text \<open>\<open>Generator::ReceiveSandeshMsg\<close> and \<open>SyslogGenerator::ProcessRules\<close>: count, then the rule engine.\<close>

definition ReceiveSandeshMsg ::
    "'d collector_env \<Rightarrow> bool \<Rightarrow> VizMsg \<Rightarrow> xml_node \<Rightarrow> bool \<Rightarrow> string \<Rightarrow> 'd SyslogParser \<Rightarrow> 'd SyslogParser outcome" where
  "ReceiveSandeshMsg env has_db vmsg node rsc ip p =
     (let gens = GetGenerator ip (sp_generators p);
          stats = VizMsgStatistics_Update (ce_level env) vmsg (the (map_of gens ip))
      in bind_outcome (rule_execute env vmsg node rsc has_db (sp_collector p)) (\<lambda>c.
           Ret (p\<lparr>sp_generators := map_assign ip stats gens, sp_collector := c\<rparr>)))"

definition syslog_header :: "(string \<Rightarrow> i64) \<Rightarrow> syslog_m_t \<Rightarrow> SandeshHeader" where
  "syslog_header stale v =
     (let ip = GetMapVals v ''ip'' ''''; pid = GetPID stale v
      in \<lparr>hdr_Timestamp = GetMapVal stale v ''timestamp'' 0, hdr_Source = GetMapVals v ''hostname'' ip, hdr_Module = GetModule v,
          hdr_Category = GetFacility stale v, hdr_Type = ST_SYSLOG,
          hdr_Level = sint (ucast (GetMapVal stale v ''severity'' 0) :: u32), hdr_NodeType = '''', hdr_InstanceId = '''',
          hdr_SequenceNum = 0, hdr_Pid = (if pid \<ge> 0 then Some pid else None), hdr_IPAddress = Some ip, hdr_Hints = 0, hdr_Context = None\<rparr>)"

definition syslog_xml :: "syslog_m_t \<Rightarrow> string" where
  "syslog_xml v = ''<Syslog>'' @ EscapeXmlTags (GetMapVals v ''body'' '''') @ ''</Syslog>''"

definition syslog_vizmsg :: "syslog_lib \<Rightarrow> syslog_m_t \<Rightarrow> nat \<Rightarrow> VizMsg" where
  "syslog_vizmsg lib v n =
     (let (mtype, txt, node, sz) = sl_create lib (syslog_xml v)
      in \<lparr>msg_header = syslog_header (sl_stale lib) v, msg_type = mtype, msg_text = txt, msg_unm = sl_umn_gen lib n, msg_size = sz\<rparr>)"

definition MakeSandesh :: "syslog_lib \<Rightarrow> 'd collector_env \<Rightarrow> bool \<Rightarrow> syslog_m_t \<Rightarrow> 'd SyslogParser \<Rightarrow> 'd SyslogParser outcome" where
  "MakeSandesh lib env has_db v p =
     ReceiveSandeshMsg env has_db (syslog_vizmsg lib v (sp_umn_drawn p)) (fst (snd (snd (sl_create lib (syslog_xml v))))) False
       (GetMapVals v ''ip'' '''') (p\<lparr>sp_umn_drawn := Suc (sp_umn_drawn p)\<rparr>)"

text \<open>\<open>while (!*(p + len - 1)) --len;\<close> reads before the buffer when every byte is NUL.\<close>

definition strip_nul :: "string \<Rightarrow> string outcome" where
  "strip_nul data = (let t = rev (dropWhile (\<lambda>c. c = CHR 0x00) (rev data)) in if t = [] then Abort else Ret t)"

definition ClientParse :: "syslog_lib \<Rightarrow> 'd collector_env \<Rightarrow> bool \<Rightarrow> string \<Rightarrow> string \<Rightarrow> 'd SyslogParser \<Rightarrow> (bool \<times> 'd SyslogParser) outcome" where
  "ClientParse lib env has_db ip data p =
     bind_outcome (strip_nul data) (\<lambda>bytes.
       (let (r, v) = sl_grammar lib bytes
        in if r then bind_outcome (PostParsing (sl_clock lib) (sl_stale lib) (put_str ''ip'' ip v)) (\<lambda>v'.
                  bind_outcome (MakeSandesh lib env has_db v' p) (\<lambda>p'. Ret (True, p')))
           else Ret (False, p)))"


section \<open>Escaping\<close>

text \<open>What an XML parser does with the references in the text of an element.\<close>

definition entity :: "string \<Rightarrow> string" where
  "entity e = (if e = ''amp'' then ''&'' else if e = ''apos'' then [CHR 0x27] else if e = ''lt'' then ''<'' else if e = ''gt'' then ''>''
     else if take 1 e = ''#'' then [char_of (digits_val (drop 1 e))] else '''')"

function unescape_xml :: "string \<Rightarrow> string" where
  "unescape_xml [] = []"
| "unescape_xml (c # r) =
     (if c = CHR ''&'' then entity (takeWhile (\<lambda>x. x \<noteq> CHR '';'') r) @ unescape_xml (drop 1 (dropWhile (\<lambda>x. x \<noteq> CHR '';'') r))
      else c # unescape_xml r)"
  by pat_completeness auto
termination
proof (relation "measure length")
  fix c :: char and r
  show "(drop 1 (dropWhile (\<lambda>x. x \<noteq> CHR '';'') r), c # r) \<in> measure length"
    using length_dropWhile_le[of "\<lambda>x. x \<noteq> CHR '';''" r] by simp
qed auto

lemma is_digit_not_semicolon: "list_all is_digit ds \<Longrightarrow> CHR '';'' \<notin> set ds"
  by (auto simp: list_all_iff is_digit_def)

lemma unescape_reference:
  assumes "CHR '';'' \<notin> set e"
  shows "unescape_xml (CHR ''&'' # e @ CHR '';'' # r) = entity e @ unescape_xml r"
proof -
  have "takeWhile (\<lambda>x. x \<noteq> CHR '';'') (e @ CHR '';'' # r) = e" "dropWhile (\<lambda>x. x \<noteq> CHR '';'') (e @ CHR '';'' # r) = CHR '';'' # r"
    using assms by (auto simp: takeWhile_append dropWhile_append)
  then show ?thesis by simp
qed

lemma unescape_escape_char: "unescape_xml (escape_char c @ r) = c # unescape_xml r"
proof (cases "(of_char c :: nat) < 128")
  case True
  then show ?thesis
    using unescape_reference[of "''amp''" r] unescape_reference[of "''apos''" r] unescape_reference[of "''lt''" r] unescape_reference[of "''gt''" r]
    by (auto simp: escape_char_def entity_def)
next
  case False
  then have "c \<noteq> CHR ''&''" "c \<noteq> CHR 0x27" "c \<noteq> CHR ''<''" "c \<noteq> CHR ''>''" by auto
  with False have "escape_char c @ r = CHR ''&'' # (CHR ''#'' # show_nat (of_char c)) @ CHR '';'' # r" by (simp add: escape_char_def)
  moreover have "CHR '';'' \<notin> set (CHR ''#'' # show_nat (of_char c))" using is_digit_not_semicolon[OF show_nat_digits] by simp
  ultimately have "unescape_xml (escape_char c @ r) = entity (CHR ''#'' # show_nat (of_char c)) @ unescape_xml r"
    by (simp only: unescape_reference not_False_eq_True)
  then show ?thesis by (simp add: entity_def)
qed

lemma escape_char_plain: "set (escape_char c) \<inter> {CHR ''<'', CHR ''>''} = {}"
proof -
  have "CHR ''<'' \<notin> set (show_nat n) \<and> CHR ''>'' \<notin> set (show_nat n)" for n
    using show_nat_digits[of n] by (auto simp: list_all_iff is_digit_def)
  then show ?thesis by (auto simp: escape_char_def)
qed

text \<open>
  The text of a syslog message survives its wrapping in XML. Whatever bytes the message holds, the escaped
  text contains no angle bracket, so it cannot close the element around it, and resolving the character
  references gives the message back byte for byte.
\<close>

theorem syslog_text_round_trip:
  "unescape_xml (EscapeXmlTags t) = t \<and> CHR ''<'' \<notin> set (EscapeXmlTags t) \<and> CHR ''>'' \<notin> set (EscapeXmlTags t)"
proof (induction t)
  case (Cons c t)
  then show ?case using escape_char_plain[of c] by (auto simp: EscapeXmlTags_def unescape_escape_char)
qed (simp add: EscapeXmlTags_def)

section \<open>Facilities\<close>

text \<open>The facilities by number, as syslog (RFC 5424) numbers them; \<open>None\<close> where the collector has no name.\<close>

definition syslog_facilities :: "string option list" where
  "syslog_facilities = map Some [''kern'', ''user'', ''mail'', ''daemon'', ''auth'', ''syslog'', ''lpr'', ''news'', ''uucp'', ''cron'', ''authpriv'', ''ftp''] @
     [None, Some ''security'', None, None] @ map Some [''local0'', ''local1'', ''local2'', ''local3'', ''local4'', ''local5'', ''local6'', ''local7'']"

text \<open>
  The table of facility names is alphabetical although it is indexed by the number of the facility. Of the 24
  numbers only those of \<open>daemon\<close> and \<open>lpr\<close> get their own name; a kernel message is filed under \<open>auth\<close>, and
  \<open>local0\<close> under \<open>local2\<close>.
\<close>

theorem facility_names_misnumbered:
  "[f \<leftarrow> [0..<24]. Some (GetSyslogFacilityName (of_nat f)) = syslog_facilities ! f] = [3, 6] \<and>
   GetSyslogFacilityName 0 = ''auth'' \<and> GetSyslogFacilityName 16 = ''local2''"
proof -
  have u: "[0..<24] = [0, 1, 2, 3, 4, 5, 6, 7, 8, 9, 10, 11, 12, 13, 14, 15, 16, 17, 18, 19, 20, 21, 22, 23 :: nat]" by (simp add: upt_rec)
  show ?thesis unfolding u by (simp add: GetSyslogFacilityName_def facilitynames_def syslog_facilities_def nth_Cons')
qed


section \<open>What a datagram leaves behind\<close>

lemma GetMapVals_put:
  assumes "sorted_map v" and "k' \<noteq> k"
  shows "GetMapVals (put_str k s v) k' d = GetMapVals v k' d" "GetMapVals (put_int k i v) k' d = GetMapVals v k' d"
    "GetMapVal st (put_str k s v) k' n = GetMapVal st v k' n" "GetMapVal st (put_int k i v) k' n = GetMapVal st v k' n"
  using assms by (simp_all add: GetMapVals_def GetMapVal_def put_str_def put_int_def map_of_insert)

lemma Get_put_new:
  assumes "sorted_map v" and "map_of v k = None"
  shows "GetMapVals (put_str k s v) k d = s" "GetMapVal st (put_int k i v) k n = i"
  using assms by (simp_all add: GetMapVals_def GetMapVal_def put_str_def put_int_def map_of_insert)

lemma sorted_put: "sorted_map v \<Longrightarrow> sorted_map (put_str k s v)" "sorted_map v \<Longrightarrow> sorted_map (put_int k i v)"
  by (simp_all add: put_str_def put_int_def sorted_map_insert)

lemma map_of_put:
  "sorted_map v \<Longrightarrow> k' \<noteq> k \<Longrightarrow> map_of (put_str k s v) k' = map_of v k'"
  "sorted_map v \<Longrightarrow> k' \<noteq> k \<Longrightarrow> map_of (put_int k i v) k' = map_of v k'"
  by (simp_all add: put_str_def put_int_def map_of_insert)

lemmas put_simps = GetMapVals_put Get_put_new sorted_put map_of_put

text \<open>\<open>fs >> 3\<close> and \<open>fs & 7\<close> of a number that is not negative.\<close>

lemma facility_severity:
  assumes "0 \<le> n" and "n < 2 ^ 31" and "GetMapVal stale v ''facsev'' 0 = word_of_int n"
  shows "GetFacilitySeverity stale v = (word_of_int (n div 8), word_of_int (n mod 8))"
proof -
  have s: "sint (word_of_int n :: u32) = n" using assms(1,2) by (simp add: signed_of_int signed_take_bit_int_eq_self)
  have "sint (signed_drop_bit 3 (word_of_int n :: u32)) = n div 8"
    by (simp add: sint_signed_drop_bit_eq s drop_bit_eq_div)
  moreover have "sint (word_of_int (n div 8) :: u32) = n div 8"
    using assms(1,2) by (simp add: signed_of_int signed_take_bit_int_eq_self)
  ultimately have "signed_drop_bit 3 (word_of_int n :: u32) = word_of_int (n div 8)" by (metis signed_word_eqI)
  moreover have "and (word_of_int n :: u32) 7 = word_of_int (n mod 8)"
  proof -
    have "and (word_of_int n :: u32) 7 = word_of_int (and n 7)" by (metis of_int_and_eq word_of_int_numeral)
    also have "and n 7 = n mod 8" using take_bit_eq_mask[of 3 n] by (simp add: mask_eq_exp_minus_1 take_bit_eq_mod)
    finally show ?thesis .
  qed
  moreover have "ucast (word_of_int n :: i64) = (word_of_int n :: u32)"
    using assms(1,2) by (simp add: unsigned_ucast_eq unsigned_of_int take_bit_int_eq_self)
  ultimately show ?thesis by (simp add: GetFacilitySeverity_def assms(3))
qed


lemma scast_small:
  assumes "0 \<le> n" and "n < 2 ^ 31"
  shows "scast (word_of_int n :: u32) = (word_of_int n :: i64)" "sint (ucast (word_of_int n :: i64) :: u32) = n"
  using assms by (simp_all add: signed_scast_eq signed_of_int signed_take_bit_int_eq_self unsigned_of_int unsigned_ucast_eq take_bit_int_eq_self)

text \<open>The fields a datagram is completed with before it becomes a message.\<close>

lemma parsed_fields:
  assumes "sorted_map v" and "fst ` set v \<inter> {''ip'', ''timestamp'', ''facility'', ''severity''} = {}"
    and "map_of v ''facsev'' = Some (IntHolder ''facsev'' (word_of_int n))" and "0 \<le> n" and "n < 2 ^ 31"
    and "GetTimestamp lib st (put_str ''ip'' ip v) = Ret ts"
  shows "\<exists>v'. PostParsing lib st (put_str ''ip'' ip v) = Ret v' \<and> syslog_xml v' = syslog_xml v \<and> GetMapVals v' ''ip'' '''' = ip \<and>
    syslog_header st v' = \<lparr>hdr_Timestamp = ts, hdr_Source = GetMapVals v ''hostname'' ip, hdr_Module = GetMapVals v ''prog'' ''UNKNOWN'',
      hdr_Category = GetSyslogFacilityName (word_of_int (n div 8)), hdr_Type = ST_SYSLOG, hdr_Level = n mod 8,
      hdr_NodeType = '''', hdr_InstanceId = '''', hdr_SequenceNum = 0,
      hdr_Pid = (if GetPID st v \<ge> 0 then Some (GetPID st v) else None), hdr_IPAddress = Some ip, hdr_Hints = 0, hdr_Context = None\<rparr>"
proof -
  let ?v = "put_int ''timestamp'' ts (put_str ''ip'' ip v)"
  have new: "map_of v ''ip'' = None" "map_of v ''timestamp'' = None" "map_of v ''facility'' = None" "map_of v ''severity'' = None"
    using assms(2) by (auto simp: map_of_eq_None_iff)
  have "GetMapVal st ?v ''facsev'' 0 = word_of_int n" using assms(1,3) by (simp add: put_simps) (simp add: GetMapVal_def)
  from facility_severity[OF assms(4,5) this] have fs: "GetFacilitySeverity st ?v = (word_of_int (n div 8), word_of_int (n mod 8))" .
  have small: "0 \<le> n div 8" "n div 8 < 2 ^ 31" "0 \<le> n mod 8" "n mod 8 < 2 ^ 31" using assms(4,5) by auto
  let ?v' = "put_int ''severity'' (word_of_int (n mod 8)) (put_int ''facility'' (word_of_int (n div 8)) ?v)"
  have "PostParsing lib st (put_str ''ip'' ip v) = Ret ?v'"
    using assms(6) fs small by (simp add: PostParsing_def scast_small)
  moreover have "syslog_xml ?v' = syslog_xml v" "GetMapVals ?v' ''ip'' '''' = ip"
    using assms(1) new by (simp_all add: syslog_xml_def put_simps)
  moreover have "sint (ucast (word_of_int (n mod 8) :: i64) :: u32) = n mod 8" by (rule scast_small(2)[OF small(3,4)])
  ultimately show ?thesis
    using assms(1) new by (auto simp: syslog_header_def GetModule_def GetFacility_def GetPID_def Let_def put_simps)
qed

text \<open>
  C22: what a syslog datagram leaves behind. When the grammar accepts the datagram, with writes enabled, a text whose document has no dotted element
  names and rules that can be evaluated, the datagram is counted for its sender. The message made of it
  carries the time, host, program and severity it was sent with (the severity is the low three bits of the number in
  angle brackets), and unless the drop levels say otherwise exactly one row, for this message, is written besides statistics.
\<close>

theorem syslog_message_written:
  assumes "strip_nul data = Ret bytes" and "sl_grammar lib bytes = (True, v)" and "sorted_map v"
    and "fst ` set v \<inter> {''ip'', ''timestamp'', ''facility'', ''severity''} = {}"
    and "map_of v ''facsev'' = Some (IntHolder ''facsev'' (word_of_int n))" and "0 \<le> n" and "n < 2 ^ 31"
    and "GetTimestamp (sl_clock lib) (sl_stale lib) (put_str ''ip'' ip v) = Ret ts"
    and "sl_create lib (syslog_xml v) = (mtype, txt, node, sz)" and "plain_names node"
    and "\<not> disable_messages_writes (col_db (sp_collector p))" and "\<not> disable_all_writes (col_db (sp_collector p))"
    and "rulelist_execute (ce_lib env) (col_rules (sp_collector p)) \<lparr>rm_messagetype = mtype, rm_context = None, rm_node = remove_identifier node\<rparr> = Ret res"
    and "sorted_map (sp_generators p)"
  shows "\<exists>p' vmsg k. ClientParse lib env True ip data p = Ret (True, p') \<and>
    hdr_Timestamp (msg_header vmsg) = ts \<and> hdr_Source (msg_header vmsg) = GetMapVals v ''hostname'' ip \<and>
    hdr_Module (msg_header vmsg) = GetMapVals v ''prog'' ''UNKNOWN'' \<and> hdr_Level (msg_header vmsg) = n mod 8 \<and> msg_text vmsg = txt \<and>
    map_of (sp_generators p') ip = Some (VizMsgStatistics_Update (ce_level env) vmsg
      (case map_of (sp_generators p) ip of Some s \<Rightarrow> s | None \<Rightarrow> new_VizMsgStatistics)) \<and>
    (if must_drop (col_drop (sp_collector p)) vmsg then col_db (sp_collector p') = col_db (sp_collector p)
     else other_rows (col_db (sp_collector p')) = other_rows (col_db (sp_collector p)) @
       [message_write (re_db (ce_rule env)) (re_stype_num (ce_rule env)) vmsg [] ((col_db (sp_collector p))\<lparr>partitions_drawn := k\<rparr>)])"
proof -
  from parsed_fields[OF assms(3-8)] obtain v' where
    v': "PostParsing (sl_clock lib) (sl_stale lib) (put_str ''ip'' ip v) = Ret v'" "syslog_xml v' = syslog_xml v" "GetMapVals v' ''ip'' '''' = ip"
    and hdr: "hdr_Timestamp (syslog_header (sl_stale lib) v') = ts" "hdr_Source (syslog_header (sl_stale lib) v') = GetMapVals v ''hostname'' ip"
      "hdr_Module (syslog_header (sl_stale lib) v') = GetMapVals v ''prog'' ''UNKNOWN''" "hdr_Level (syslog_header (sl_stale lib) v') = n mod 8"
      "hdr_Type (syslog_header (sl_stale lib) v') = ST_SYSLOG" "hdr_Hints (syslog_header (sl_stale lib) v') = 0" "hdr_Context (syslog_header (sl_stale lib) v') = None"
    by fastforce
  let ?vmsg = "syslog_vizmsg lib v' (sp_umn_drawn p)" and ?c = "sp_collector p"
  have m: "msg_header ?vmsg = syslog_header (sl_stale lib) v'" "msg_type ?vmsg = mtype" "msg_text ?vmsg = txt"
    using assms(9) v'(2) by (simp_all add: syslog_vizmsg_def)
  have allow: "AllowMessageTableInsert (col_db ?c) (msg_header ?vmsg)" using assms(11,12) hdr(5) m(1) by (simp add: AllowMessageTableInsert_def)
  have "\<not> logs_objects env ?vmsg" using hdr(6) m(1) by (simp add: logs_objects_def)
  then have keys: "[] = (if logs_objects env ?vmsg then object_keys (ce_rule env) (remove_identifier node) else [])" by simp
  have rules: "rulelist_execute (ce_lib env) (col_rules ?c) \<lparr>rm_messagetype = msg_type ?vmsg, rm_context = hdr_Context (msg_header ?vmsg), rm_node = remove_identifier node\<rparr> = Ret res"
    using assms(13) m hdr(7) by simp
  from rule_execute_treatment[OF assms(10) allow refl rules keys, of False, unfolded list.map append_Nil] obtain c' k where
    c': "rule_execute env ?vmsg node False True ?c = Ret c'"
      "if must_drop (col_drop ?c) ?vmsg then col_db c' = col_db ?c \<and> col_drop c' = count_dropped (ce_level env) ?vmsg (col_drop ?c)
       else other_rows (col_db c') = other_rows (col_db ?c) @ [message_write (re_db (ce_rule env)) (re_stype_num (ce_rule env)) ?vmsg [] ((col_db ?c)\<lparr>partitions_drawn := k\<rparr>)]
         \<and> col_echo c' = res \<and> col_drop c' = col_drop ?c"
    by (elim exE conjE)
  let ?gens = "GetGenerator ip (sp_generators p)"
  let ?p' = "p\<lparr>sp_umn_drawn := Suc (sp_umn_drawn p), sp_generators := map_assign ip (VizMsgStatistics_Update (ce_level env) ?vmsg (the (map_of ?gens ip))) ?gens, sp_collector := c'\<rparr>"
  have run: "ClientParse lib env True ip data p = Ret (True, ?p')"
    using assms(1,2,9) v' c'(1) by (simp add: ClientParse_def MakeSandesh_def ReceiveSandeshMsg_def Let_def)
  have "map_of (sp_generators ?p') ip = Some (VizMsgStatistics_Update (ce_level env) ?vmsg
      (case map_of (sp_generators p) ip of Some s \<Rightarrow> s | None \<Rightarrow> new_VizMsgStatistics))"
    using assms(14) by (auto simp: GetGenerator_def map_of_assign map_of_insert sorted_map_insert)
  moreover have "if must_drop (col_drop ?c) ?vmsg then col_db (sp_collector ?p') = col_db ?c
     else other_rows (col_db (sp_collector ?p')) = other_rows (col_db ?c) @
       [message_write (re_db (ce_rule env)) (re_stype_num (ce_rule env)) ?vmsg [] ((col_db ?c)\<lparr>partitions_drawn := k\<rparr>)]"
    using c'(2) by (simp split: if_splits)
  ultimately show ?thesis
    by (intro exI[of _ ?p'] exI[of _ ?vmsg] exI[of _ k] conjI run) (simp_all add: m(1,3) hdr(1-4))
qed


text \<open>A library that accepts one datagram, and a collector with nothing in it.\<close>

definition plain_clock :: clock_lib where
  "plain_clock = \<lparr>tm_year = 100, tm_mon = 0, tm_mday = 1, tm_hour = 0, tm_min = 0, tm_sec = 0, local_offset = 0,
     epoch_usec = (\<lambda>_ _ _ _ _ _ _. Some 7), duration_from_string = (\<lambda>_. Some 0)\<rparr>"

definition plain_syslog_lib :: syslog_lib where
  "plain_syslog_lib = \<lparr>sl_grammar = (\<lambda>_. (True, [(''facsev'', IntHolder ''facsev'' 14), (''prog'', StrHolder ''prog'' ''cron'')])),
     sl_stale = (\<lambda>_. 0), sl_clock = plain_clock, sl_create = (\<lambda>s. (''Syslog'', s, XElement ''Syslog'' [] [], 9)), sl_umn_gen = (\<lambda>_. [])\<rparr>"

definition plain_collector_env :: "nat collector_env" where
  "plain_collector_env = \<lparr>ce_rule = plain_env, ce_session = plain_session_env,
     ce_lib = \<lparr>lexical_int = (\<lambda>_. None), python_result = (\<lambda>_. '''')\<rparr>, ce_level = (\<lambda>_. '''')\<rparr>"

definition plain_SyslogParser :: "nat SyslogParser" where
  "plain_SyslogParser = \<lparr>sp_generators = [], sp_umn_drawn = 0,
     sp_collector = \<lparr>col_db = empty_handler, col_drop = plain_drop 7, col_sessions = new_SessionTableDbStats, col_osp = [], col_rules = [], col_echo = ''''\<rparr>\<rparr>"

theorem syslog_message_written_witness:
  "\<exists>p' vmsg k. ClientParse plain_syslog_lib plain_collector_env True ''10.0.0.1'' ''<14>x'' plain_SyslogParser = Ret (True, p') \<and>
     hdr_Source (msg_header vmsg) = ''10.0.0.1'' \<and> hdr_Module (msg_header vmsg) = ''cron'' \<and> hdr_Level (msg_header vmsg) = 6 \<and>
     (if must_drop (plain_drop 7) vmsg then col_db (sp_collector p') = empty_handler
      else other_rows (col_db (sp_collector p')) = [message_write plain_db_env (\<lambda>_. 1) vmsg [] (empty_handler\<lparr>partitions_drawn := k\<rparr>)])"
proof -
  let ?v = "[(''facsev'', IntHolder ''facsev'' 14), (''prog'', StrHolder ''prog'' ''cron'')]"
  have g: "sl_grammar plain_syslog_lib ''<14>x'' = (True, ?v)" by (simp add: plain_syslog_lib_def)
  have s: "strip_nul ''<14>x'' = Ret ''<14>x''" by (simp add: strip_nul_def)
  have sorted: "sorted_map ?v" "sorted_map (sp_generators plain_SyslogParser)" by (simp_all add: plain_SyslogParser_def)
  have new: "fst ` set ?v \<inter> {''ip'', ''timestamp'', ''facility'', ''severity''} = {}" by simp
  have f: "map_of ?v ''facsev'' = Some (IntHolder ''facsev'' (word_of_int 14))" by simp
  have t: "GetTimestamp (sl_clock plain_syslog_lib) (sl_stale plain_syslog_lib) (put_str ''ip'' ''10.0.0.1'' ?v) = Ret 7"
    by (simp add: GetTimestamp_def plain_syslog_lib_def plain_clock_def put_str_def GetMapVal_def)
  have c: "sl_create plain_syslog_lib (syslog_xml ?v) = (''Syslog'', syslog_xml ?v, XElement ''Syslog'' [] [], 9)" by (simp add: plain_syslog_lib_def)
  have on: "plain_names (XElement ''Syslog'' [] [])" "\<not> disable_messages_writes (col_db (sp_collector plain_SyslogParser))"
    "\<not> disable_all_writes (col_db (sp_collector plain_SyslogParser))"
    "rulelist_execute (ce_lib plain_collector_env) (col_rules (sp_collector plain_SyslogParser))
       \<lparr>rm_messagetype = ''Syslog'', rm_context = None, rm_node = remove_identifier (XElement ''Syslog'' [] [])\<rparr> = Ret ''''"
    by (simp_all add: plain_SyslogParser_def plain_collector_env_def empty_handler_def rulelist_execute_def)
  have e: "col_drop (sp_collector plain_SyslogParser) = plain_drop 7" "col_db (sp_collector plain_SyslogParser) = empty_handler"
    "written (empty_handler :: nat DbHandler) = []" "re_db (ce_rule plain_collector_env) = plain_db_env" "re_stype_num (ce_rule plain_collector_env) = (\<lambda>_. 1)"
    "GetMapVals ?v ''hostname'' ''10.0.0.1'' = ''10.0.0.1''" "GetMapVals ?v ''prog'' ''UNKNOWN'' = ''cron''" "(14 :: int) mod 8 = 6"
    by (simp_all add: plain_SyslogParser_def plain_collector_env_def empty_handler_def plain_env_def GetMapVals_def)
  have n: "(0 :: int) \<le> 14" "(14 :: int) < 2 ^ 31" by simp_all
  show ?thesis
    using syslog_message_written[OF s g sorted(1) new f n t c on sorted(2)] unfolding e filter.simps(1) append_Nil by blast
qed

end
