(* ===== verification/Syslog_Config.thy ===== *)
theory Syslog_Config
  imports Syslog_Collector Usrdef_Counters
begin

text \<open>
  \<open>structured_syslog_config.cc\<close> and \<open>structured_syslog_config.h\<close>: what the collector knows for structured
  syslog. Configuration documents fill maps of records (hosts, tenants, applications, messages, SLA profiles)
  and, per tenant and VPN, a sorted vector of address ranges in which sites are looked up; a bounded map
  keeps the last traffic counters of the active sessions. A failed assertion of rapidjson or of the code is
  \<open>Crash\<close>. The regular expressions and the address parser of boost are arguments.
\<close>

section \<open>Addresses\<close>

record IPNetwork =
  address_begin :: u32
  address_end :: u32
  net_id :: string

definition IPNetwork_lt :: "IPNetwork \<Rightarrow> IPNetwork \<Rightarrow> bool" where
  "IPNetwork_lt a b \<longleftrightarrow> address_begin a < address_begin b"

text \<open>One \<open>%d\<close> of \<open>sscanf\<close>: white space, an optional sign and at least one digit; the value is that of
  \<open>strtol\<close> cut to 32 bits.\<close>

definition scanf_d :: "string \<Rightarrow> (int \<times> string) option" where
  "scanf_d s =
     (let t = dropWhile is_space s; r = (if take 1 t = ''-'' \<or> take 1 t = ''+'' then drop 1 t else t); ds = takeWhile is_digit r
      in if ds = [] then None else Some (sint (word_of_int (strtol t) :: u32), drop (length ds) r))"

definition scanf_dot_d :: "string \<Rightarrow> (int \<times> string) option" where
  "scanf_dot_d s = (if take 1 s = ''.'' then scanf_d (drop 1 s) else None)"

definition IPToUInt :: "string \<Rightarrow> u32" where
  "IPToUInt ip =
     (case scanf_d ip of None \<Rightarrow> 0 | Some (a, s1) \<Rightarrow>
        (case scanf_dot_d s1 of None \<Rightarrow> 0 | Some (b, s2) \<Rightarrow>
           (case scanf_dot_d s2 of None \<Rightarrow> 0 | Some (c, s3) \<Rightarrow>
              (case scanf_dot_d s3 of None \<Rightarrow> 0 | Some (d, _) \<Rightarrow>
                 or (or (or (push_bit 24 (word_of_int a)) (push_bit 16 (word_of_int b))) (push_bit 8 (word_of_int c))) (word_of_int d)))))"

definition get_ip_version :: "(string \<Rightarrow> bool option) \<Rightarrow> string \<Rightarrow> int" where
  "get_ip_version is_v6 ip = (case is_v6 ip of None \<Rightarrow> -1 | Some v6 \<Rightarrow> if v6 then 6 else 4)"

text \<open>\<open>while (getline(ss, s, delimiter))\<close>: no piece behind a delimiter at the end of the text.\<close>

function split_into_vector :: "string \<Rightarrow> char \<Rightarrow> string list" where
  "split_into_vector str delimiter =
     (if str = [] then []
      else takeWhile (\<lambda>c. c \<noteq> delimiter) str # split_into_vector (drop 1 (dropWhile (\<lambda>c. c \<noteq> delimiter) str)) delimiter)"
  by pat_completeness auto
termination
proof (relation "measure (\<lambda>(s, _). length s)")
  fix str :: string and delimiter
  assume "str \<noteq> []"
  then show "((drop 1 (dropWhile (\<lambda>c. c \<noteq> delimiter) str), delimiter), str, delimiter) \<in> measure (\<lambda>(s, _). length s)"
    using length_dropWhile_le[of "\<lambda>c. c \<noteq> delimiter" str] by (cases str) auto
qed auto

declare split_into_vector.simps [simp del]

section \<open>Records\<close>

record HostnameRecord =
  hr_name :: string
  hr_hostaddr :: string
  hr_tenant :: string
  hr_location :: string
  hr_device :: string
  hr_tags :: string
  hr_linkmap :: "(string \<times> string) list"
  hr_refreshed :: bool

record TenantRecord =
  tr_name :: string
  tr_tenantaddr :: string
  tr_tenant :: string
  tr_tags :: string
  tr_dscpmap_ipv4 :: "(string \<times> string) list"
  tr_dscpmap_ipv6 :: "(string \<times> string) list"
  tr_refreshed :: bool

text \<open>\<open>ApplicationRecord\<close> and \<open>TenantApplicationRecord\<close> have the same fields.\<close>

record ApplicationRecord =
  ar_name :: string
  ar_category :: string
  ar_subcategory :: string
  ar_groups :: string
  ar_risk :: string
  ar_service_tags :: string
  ar_refreshed :: bool

record MessageConfig =
  mc_name :: string
  mc_tags :: "string list"
  mc_ints :: "string list"
  process_and_store :: bool
  forward :: bool
  process_before_forward :: bool
  process_and_summarize :: bool
  process_and_summarize_user :: bool
  mc_refreshed :: bool

record SlaProfileRecord =
  sr_name :: string
  sla_params :: string
  sr_refreshed :: bool

type_synonym counters = "(string \<times> u64) list"

record StructuredSyslogConfig =
  hostname_records :: "(string \<times> HostnameRecord) list"
  tenant_records :: "(string \<times> TenantRecord) list"
  application_records :: "(string \<times> ApplicationRecord) list"
  tenant_application_records :: "(string \<times> ApplicationRecord) list"
  message_configs :: "(string \<times> MessageConfig) list"
  sla_profile_records :: "(string \<times> SlaProfileRecord) list"
  networks_map :: "(string \<times> IPNetwork list) list"
  session_config_map :: "(string \<times> counters) list"
  activeSessionConfigMapLIMIT :: u64

definition new_StructuredSyslogConfig :: "u64 \<Rightarrow> StructuredSyslogConfig" where
  "new_StructuredSyslogConfig limit =
     \<lparr>hostname_records = [], tenant_records = [], application_records = [], tenant_application_records = [], message_configs = [],
      sla_profile_records = [], networks_map = [], session_config_map = [], activeSessionConfigMapLIMIT = limit\<rparr>"

text \<open>
  \<open>Refresh\<close>: every assignment is guarded by a comparison that only saves assigning an equal value; the name
  is not touched.
\<close>

definition HostnameRecord_Refresh :: "HostnameRecord \<Rightarrow> HostnameRecord \<Rightarrow> HostnameRecord" where
  "HostnameRecord_Refresh new r =
     r\<lparr>hr_hostaddr := hr_hostaddr new, hr_tenant := hr_tenant new, hr_location := hr_location new, hr_device := hr_device new,
       hr_tags := hr_tags new, hr_linkmap := hr_linkmap new, hr_refreshed := True\<rparr>"

definition TenantRecord_Refresh :: "TenantRecord \<Rightarrow> TenantRecord \<Rightarrow> TenantRecord" where
  "TenantRecord_Refresh new r =
     r\<lparr>tr_tenantaddr := tr_tenantaddr new, tr_tenant := tr_tenant new, tr_tags := tr_tags new,
       tr_dscpmap_ipv4 := tr_dscpmap_ipv4 new, tr_dscpmap_ipv6 := tr_dscpmap_ipv6 new, tr_refreshed := True\<rparr>"

definition ApplicationRecord_Refresh :: "ApplicationRecord \<Rightarrow> ApplicationRecord \<Rightarrow> ApplicationRecord" where
  "ApplicationRecord_Refresh new r =
     r\<lparr>ar_category := ar_category new, ar_subcategory := ar_subcategory new, ar_groups := ar_groups new, ar_risk := ar_risk new,
       ar_service_tags := ar_service_tags new, ar_refreshed := True\<rparr>"

definition MessageConfig_Refresh :: "MessageConfig \<Rightarrow> MessageConfig \<Rightarrow> MessageConfig" where
  "MessageConfig_Refresh new r =
     r\<lparr>mc_tags := mc_tags new, mc_ints := mc_ints new, process_and_store := process_and_store new, forward := forward new,
       process_before_forward := process_before_forward new, process_and_summarize := process_and_summarize new,
       process_and_summarize_user := process_and_summarize_user new, mc_refreshed := True\<rparr>"

definition SlaProfileRecord_Refresh :: "SlaProfileRecord \<Rightarrow> SlaProfileRecord \<Rightarrow> SlaProfileRecord" where
  "SlaProfileRecord_Refresh new r = r\<lparr>sla_params := sla_params new, sr_refreshed := True\<rparr>"

text \<open>The shape of all \<open>Add...Record\<close>: refresh what is there, insert otherwise.\<close>

definition add_record :: "('r \<Rightarrow> 'r \<Rightarrow> 'r) \<Rightarrow> string \<Rightarrow> 'r \<Rightarrow> (string \<times> 'r) list \<Rightarrow> (string \<times> 'r) list" where
  "add_record refresh name new m =
     (case map_of m name of Some r \<Rightarrow> map_assign name (refresh new r) m | None \<Rightarrow> map_insert name new m)"

definition AddHostnameRecord :: "HostnameRecord \<Rightarrow> StructuredSyslogConfig \<Rightarrow> StructuredSyslogConfig" where
  "AddHostnameRecord new c = c\<lparr>hostname_records := add_record HostnameRecord_Refresh (hr_name new) new (hostname_records c)\<rparr>"

definition AddTenantRecord :: "TenantRecord \<Rightarrow> StructuredSyslogConfig \<Rightarrow> StructuredSyslogConfig" where
  "AddTenantRecord new c = c\<lparr>tenant_records := add_record TenantRecord_Refresh (tr_name new) new (tenant_records c)\<rparr>"

definition AddApplicationRecord :: "ApplicationRecord \<Rightarrow> StructuredSyslogConfig \<Rightarrow> StructuredSyslogConfig" where
  "AddApplicationRecord new c =
     c\<lparr>application_records := add_record ApplicationRecord_Refresh (ar_name new) new (application_records c)\<rparr>"

definition AddTenantApplicationRecord :: "ApplicationRecord \<Rightarrow> StructuredSyslogConfig \<Rightarrow> StructuredSyslogConfig" where
  "AddTenantApplicationRecord new c =
     c\<lparr>tenant_application_records := add_record ApplicationRecord_Refresh (ar_name new) new (tenant_application_records c)\<rparr>"

definition AddSlaProfileRecord :: "SlaProfileRecord \<Rightarrow> StructuredSyslogConfig \<Rightarrow> StructuredSyslogConfig" where
  "AddSlaProfileRecord new c = c\<lparr>sla_profile_records := add_record SlaProfileRecord_Refresh (sr_name new) new (sla_profile_records c)\<rparr>"

definition AddMessageConfig ::
    "string \<Rightarrow> string list \<Rightarrow> string list \<Rightarrow> bool \<Rightarrow> string \<Rightarrow> bool \<Rightarrow> bool \<Rightarrow> StructuredSyslogConfig \<Rightarrow> StructuredSyslogConfig" where
  "AddMessageConfig name tags ints store forward_action summarize summarize_user c =
     (let fwd = forward_action = ''forward-unprocessed'' \<or> forward_action = ''forward-processed'';
          new = \<lparr>mc_name = name, mc_tags = tags, mc_ints = ints, process_and_store = store, forward = fwd,
                 process_before_forward = (forward_action = ''forward-processed''), process_and_summarize = summarize,
                 process_and_summarize_user = summarize_user, mc_refreshed = True\<rparr>
      in c\<lparr>message_configs := add_record MessageConfig_Refresh name new (message_configs c)\<rparr>)"

definition GetHostnameRecord :: "string \<Rightarrow> StructuredSyslogConfig \<Rightarrow> HostnameRecord option" where
  "GetHostnameRecord name c = map_of (hostname_records c) name"

definition GetTenantRecord :: "string \<Rightarrow> StructuredSyslogConfig \<Rightarrow> TenantRecord option" where
  "GetTenantRecord name c = map_of (tenant_records c) name"

definition GetApplicationRecord :: "string \<Rightarrow> StructuredSyslogConfig \<Rightarrow> ApplicationRecord option" where
  "GetApplicationRecord name c = map_of (application_records c) name"

definition GetTenantApplicationRecord :: "string \<Rightarrow> StructuredSyslogConfig \<Rightarrow> ApplicationRecord option" where
  "GetTenantApplicationRecord name c = map_of (tenant_application_records c) name"

definition GetSlaProfileRecord :: "string \<Rightarrow> StructuredSyslogConfig \<Rightarrow> SlaProfileRecord option" where
  "GetSlaProfileRecord name c = map_of (sla_profile_records c) name"

text \<open>The exact name, otherwise the longest pattern found in the name; of several the first in key order.\<close>

definition better_match :: "regex_lib \<Rightarrow> string \<Rightarrow> MessageConfig option \<Rightarrow> string \<times> MessageConfig \<Rightarrow> MessageConfig option" where
  "better_match lib name match entry =
     (let mc = snd entry
      in if \<not> valid_regex lib (mc_name mc) then match
         else if regex_search lib (mc_name mc) name 0 False = None then match
         else case match of None \<Rightarrow> Some mc
              | Some best \<Rightarrow> if length (mc_name best) < length (mc_name mc) then Some mc else match)"

definition GetMessageConfig :: "regex_lib \<Rightarrow> string \<Rightarrow> StructuredSyslogConfig \<Rightarrow> MessageConfig option" where
  "GetMessageConfig lib name c =
     (case map_of (message_configs c) name of Some mc \<Rightarrow> Some mc
      | None \<Rightarrow> foldl (better_match lib name) None (message_configs c))"

section \<open>Session counters\<close>

definition AddSyslogSessionCounter :: "string \<Rightarrow> counters \<Rightarrow> StructuredSyslogConfig \<Rightarrow> bool \<times> StructuredSyslogConfig" where
  "AddSyslogSessionCounter key cs c =
     (if map_of (session_config_map c) key = None \<and> length (session_config_map c) \<ge> unat (activeSessionConfigMapLIMIT c)
      then (False, c)
      else (True, c\<lparr>session_config_map := map_assign key cs (session_config_map c)\<rparr>))"

definition RemoveSyslogSessionCounter :: "string \<Rightarrow> StructuredSyslogConfig \<Rightarrow> nat \<times> StructuredSyslogConfig" where
  "RemoveSyslogSessionCounter key c =
     ((if map_of (session_config_map c) key = None then 0 else 1), c\<lparr>session_config_map := map_erase key (session_config_map c)\<rparr>)"

definition FetchSyslogSessionCounters :: "string \<Rightarrow> StructuredSyslogConfig \<Rightarrow> counters option" where
  "FetchSyslogSessionCounters key c = map_of (session_config_map c) key"

section \<open>Networks\<close>

text \<open>\<open>std::upper_bound\<close> on a sorted vector: the position behind the elements that are not above \<open>x\<close>.\<close>

definition upper_bound :: "IPNetwork \<Rightarrow> IPNetwork list \<Rightarrow> nat" where
  "upper_bound x xs = length (takeWhile (\<lambda>y. \<not> IPNetwork_lt x y) xs)"

definition vector_insert :: "nat \<Rightarrow> 'a \<Rightarrow> 'a list \<Rightarrow> 'a list" where
  "vector_insert i x xs = take i xs @ x # drop i xs"

definition make_network :: "string \<Rightarrow> string \<Rightarrow> string \<Rightarrow> IPNetwork" where
  "make_network network netmask location =
     (let m = IPToUInt netmask; lower = and (IPToUInt network) m
      in \<lparr>address_begin = lower, address_end = or lower (not m), net_id = location\<rparr>)"

definition AddNetwork :: "string \<Rightarrow> string \<Rightarrow> string \<Rightarrow> string \<Rightarrow> StructuredSyslogConfig \<Rightarrow> StructuredSyslogConfig" where
  "AddNetwork key network netmask location c =
     (let net = make_network network netmask location
      in case map_of (networks_map c) key of
           Some nets \<Rightarrow> c\<lparr>networks_map := map_assign key (vector_insert (upper_bound net nets) net nets) (networks_map c)\<rparr>
         | None \<Rightarrow> c\<lparr>networks_map := map_insert key [net] (networks_map c)\<rparr>)"

text \<open>The indexes with the location, ascending; they are erased from the largest down.\<close>

definition erase_at :: "'a list \<Rightarrow> nat \<Rightarrow> 'a list" where
  "erase_at xs i = take i xs @ drop (Suc i) xs"

definition RefreshNetworks :: "string \<Rightarrow> IPNetwork list \<Rightarrow> IPNetwork list" where
  "RefreshNetworks location nets =
     foldl erase_at nets (rev [i \<leftarrow> [0..<length nets]. location = net_id (nets ! i)])"

definition RefreshNetworksMap :: "string \<Rightarrow> StructuredSyslogConfig \<Rightarrow> StructuredSyslogConfig" where
  "RefreshNetworksMap location c = c\<lparr>networks_map := map (\<lambda>(k, nets). (k, RefreshNetworks location nets)) (networks_map c)\<rparr>"

text \<open>The loop of \<open>FindNetwork\<close>: the best network so far and its range.\<close>

definition closer_network :: "u32 \<Rightarrow> string \<Rightarrow> IPNetwork \<times> u32 \<Rightarrow> IPNetwork \<Rightarrow> IPNetwork \<times> u32" where
  "closer_network addr src found n =
     (let range = address_end n - address_begin n
      in if address_begin n \<le> addr \<and> addr \<le> address_end n \<and> range < snd found \<and> net_id n \<noteq> src then (n, range) else found)"

definition FindNetwork :: "string \<Rightarrow> string \<Rightarrow> string \<Rightarrow> StructuredSyslogConfig \<Rightarrow> string" where
  "FindNetwork ip key src c =
     (let addr = IPToUInt ip
      in case map_of (networks_map c) key of
           None \<Rightarrow> ''''
         | Some nets \<Rightarrow>
             (let idx = upper_bound \<lparr>address_begin = addr, address_end = 0, net_id = ip\<rparr> nets
              in if idx = 0 then ''''
                 else net_id (fst (foldl (closer_network addr src) (\<lparr>address_begin = 0, address_end = 0, net_id = ''''\<rparr>, -1) (rev (take idx nets))))))"


section \<open>Configuration documents\<close>

text \<open>\<open>std::string s = v.GetString()\<close> stops at a NUL; \<open>if (v.HasMember(k)) s = v[k].GetString()\<close> leaves the
  empty string when there is no such member.\<close>

definition get_cstr :: "'d json \<Rightarrow> string checked" where
  "get_cstr v = bind_checked (GetString v) (\<lambda>s. Done (c_str s))"

definition member_cstr :: "'d json \<Rightarrow> string \<Rightarrow> string checked" where
  "member_cstr v k = bind_checked (member v k) get_cstr"

definition opt_cstr :: "'d json \<Rightarrow> string \<Rightarrow> string checked" where
  "opt_cstr v k = bind_checked (HasMember v k) (\<lambda>b. if b then member_cstr v k else Done '''')"

definition opt_bool :: "'d json \<Rightarrow> string \<Rightarrow> bool checked" where
  "opt_bool v k = bind_checked (HasMember v k) (\<lambda>b. if b then bind_checked (member v k) GetBool else Done False)"

definition fq_last :: "'d json \<Rightarrow> string checked" where
  "fq_last fq = bind_checked (elements fq) (\<lambda>xs. if xs = [] then Crash else get_cstr (last xs))"

definition fq_second :: "'d json \<Rightarrow> string checked" where
  "fq_second fq = bind_checked (elements fq) (\<lambda>xs. if length xs < 2 then Crash else get_cstr (xs ! 1))"

definition opt_fq_last :: "'d json \<Rightarrow> string checked" where
  "opt_fq_last v = bind_checked (HasMember v ''fq_name'') (\<lambda>b. if b then bind_checked (member v ''fq_name'') fq_last else Done '''')"

text \<open>\<open>v[k][inner]\<close>, which must be an array, when \<open>v\<close> has the member \<open>k\<close>.\<close>

definition opt_array :: "'d json \<Rightarrow> string \<Rightarrow> string \<Rightarrow> 'd json list option checked" where
  "opt_array v k inner = bind_checked (HasMember v k) (\<lambda>b.
     if \<not> b then Done None
     else bind_checked (member v k) (\<lambda>w. bind_checked (member w inner) (\<lambda>a. bind_checked (elements a) (\<lambda>xs. Done (Some xs)))))"

definition opt_strings :: "'d json \<Rightarrow> string \<Rightarrow> string list checked" where
  "opt_strings v k = bind_checked (opt_array v k ''field_names'') (\<lambda>a. case a of None \<Rightarrow> Done [] | Some xs \<Rightarrow> map_checked get_cstr xs)"

definition add_link :: "(string \<times> string) list \<Rightarrow> 'd json \<Rightarrow> (string \<times> string) list checked" where
  "add_link m l =
     bind_checked (member_cstr l ''underlay'') (\<lambda>underlay.
     bind_checked (member_cstr l ''link_type'') (\<lambda>link_type.
     bind_checked (member_cstr l ''traffic_destination'') (\<lambda>traffic_destination.
     bind_checked (member_cstr l ''metadata'') (\<lambda>metadata.
     bind_checked (member_cstr l ''overlay'') (\<lambda>overlay.
       Done (map_insert overlay (underlay @ ''@'' @ link_type @ ''@'' @ traffic_destination @ ''@'' @ metadata) m))))))"

definition add_range :: "string \<Rightarrow> string \<Rightarrow> StructuredSyslogConfig \<Rightarrow> string \<Rightarrow> StructuredSyslogConfig checked" where
  "add_range key location c net_range =
     (case split_into_vector net_range CHR ''/'' of
        network # netmask # _ \<Rightarrow> Done (AddNetwork key network netmask location c)
      | _ \<Rightarrow> Crash)"

definition add_segment :: "string \<Rightarrow> string \<Rightarrow> StructuredSyslogConfig \<Rightarrow> 'd json \<Rightarrow> StructuredSyslogConfig checked" where
  "add_segment tenant location c seg =
     bind_checked (member_cstr seg ''vpn'') (\<lambda>vpn.
     bind_checked (member_cstr seg ''network_ranges'') (\<lambda>ranges.
       foldl_checked (add_range (tenant @ ''::'' @ vpn) location) c (split_into_vector ranges CHR '','')))"

definition add_segments :: "string \<Rightarrow> string \<Rightarrow> 'd json list \<Rightarrow> StructuredSyslogConfig \<Rightarrow> StructuredSyslogConfig checked" where
  "add_segments tenant location segs c =
     foldl_checked (add_segment tenant location)
       (if list_ex (\<lambda>(_, r). location = hr_location r) (hostname_records c) then RefreshNetworksMap location c else c) segs"

definition read_HostnameRecord :: "'d json \<Rightarrow> HostnameRecord checked" where
  "read_HostnameRecord hr =
     bind_checked (opt_fq_last hr) (\<lambda>name.
     bind_checked (opt_cstr hr ''structured_syslog_hostaddr'') (\<lambda>hostaddr.
     bind_checked (opt_cstr hr ''structured_syslog_tenant'') (\<lambda>tenant.
     bind_checked (opt_cstr hr ''structured_syslog_location'') (\<lambda>location.
     bind_checked (opt_cstr hr ''structured_syslog_device'') (\<lambda>device.
     bind_checked (opt_cstr hr ''structured_syslog_hostname_tags'') (\<lambda>tags.
     bind_checked (opt_array hr ''structured_syslog_linkmap'' ''links'') (\<lambda>links.
     bind_checked (foldl_checked add_link [] (case links of None \<Rightarrow> [] | Some ls \<Rightarrow> ls)) (\<lambda>linkmap.
       Done \<lparr>hr_name = name, hr_hostaddr = hostaddr, hr_tenant = tenant, hr_location = location, hr_device = device,
             hr_tags = tags, hr_linkmap = linkmap, hr_refreshed = True\<rparr>))))))))"

definition HostnameRecordsHandler :: "'d json \<Rightarrow> bool \<Rightarrow> StructuredSyslogConfig \<Rightarrow> StructuredSyslogConfig checked" where
  "HostnameRecordsHandler hr add_update c =
     bind_checked (read_HostnameRecord hr) (\<lambda>new.
     bind_checked (opt_array hr ''structured_syslog_lan_segment_list'' ''LANSegmentList'') (\<lambda>segs.
     bind_checked (case segs of None \<Rightarrow> Done c | Some ss \<Rightarrow> add_segments (hr_tenant new) (hr_location new) ss c) (\<lambda>c1.
       if add_update then Done (AddHostnameRecord new c1)
       else case map_of (hostname_records c1) (hr_name new) of
              None \<Rightarrow> Done c1
            | Some old \<Rightarrow>
                (let c2 = (if hr_location old \<noteq> '''' then RefreshNetworksMap (hr_location new) c1 else c1)
                 in Done (c2\<lparr>hostname_records := map_erase (hr_name new) (hostname_records c2)\<rparr>)))))"

definition add_dscp :: "(string \<times> string) list \<Rightarrow> 'd json \<Rightarrow> (string \<times> string) list checked" where
  "add_dscp m d =
     bind_checked (member_cstr d ''dscp_value'') (\<lambda>v. bind_checked (member_cstr d ''alias_code'') (\<lambda>a. Done (map_insert v a m)))"

definition read_dscpmap :: "'d json \<Rightarrow> string \<Rightarrow> (string \<times> string) list checked" where
  "read_dscpmap hr inner =
     bind_checked (opt_array hr ''structured_syslog_dscpmap'' inner) (\<lambda>a.
       foldl_checked add_dscp [] (case a of None \<Rightarrow> [] | Some xs \<Rightarrow> xs))"

definition TenantRecordsHandler :: "'d json \<Rightarrow> bool \<Rightarrow> StructuredSyslogConfig \<Rightarrow> StructuredSyslogConfig checked" where
  "TenantRecordsHandler hr add_update c =
     bind_checked (opt_fq_last hr) (\<lambda>name.
     bind_checked (opt_cstr hr ''structured_syslog_tenantaddr'') (\<lambda>tenantaddr.
     bind_checked (opt_cstr hr ''structured_syslog_tenant'') (\<lambda>tenant.
     bind_checked (opt_cstr hr ''structured_syslog_tenant_tags'') (\<lambda>tags.
     bind_checked (read_dscpmap hr ''dscpListIPv4'') (\<lambda>ipv4.
     bind_checked (read_dscpmap hr ''dscpListIPv6'') (\<lambda>ipv6.
       Done (if add_update
             then AddTenantRecord \<lparr>tr_name = name, tr_tenantaddr = tenantaddr, tr_tenant = tenant, tr_tags = tags,
                    tr_dscpmap_ipv4 = ipv4, tr_dscpmap_ipv6 = ipv6, tr_refreshed = True\<rparr> c
             else c\<lparr>tenant_records := map_erase name (tenant_records c)\<rparr>)))))))"

definition ApplicationRecordsHandler :: "'d json \<Rightarrow> bool \<Rightarrow> StructuredSyslogConfig \<Rightarrow> StructuredSyslogConfig checked" where
  "ApplicationRecordsHandler ar add_update c =
     bind_checked (opt_fq_last ar) (\<lambda>name.
     bind_checked (opt_cstr ar ''structured_syslog_app_category'') (\<lambda>category.
     bind_checked (opt_cstr ar ''structured_syslog_app_subcategory'') (\<lambda>subcategory.
     bind_checked (opt_cstr ar ''structured_syslog_app_groups'') (\<lambda>groups.
     bind_checked (opt_cstr ar ''structured_syslog_app_risk'') (\<lambda>risk.
     bind_checked (opt_cstr ar ''structured_syslog_app_service_tags'') (\<lambda>service_tags.
     bind_checked (bind_checked (member ar ''fq_name'') fq_second) (\<lambda>tenant_name.
       (let new = (\<lambda>n. \<lparr>ar_name = n, ar_category = category, ar_subcategory = subcategory, ar_groups = groups, ar_risk = risk,
                        ar_service_tags = service_tags, ar_refreshed = True\<rparr>);
            rec_name = tenant_name @ ''/'' @ name
        in Done (if tenant_name = ''default-global-analytics-config''
                 then if add_update then AddApplicationRecord (new name) c
                      else c\<lparr>application_records := map_erase name (application_records c)\<rparr>
                 else if add_update then AddTenantApplicationRecord (new rec_name) c
                      else c\<lparr>tenant_application_records := map_erase rec_name (tenant_application_records c)\<rparr>)))))))))"

definition MessageConfigsHandler :: "'d json \<Rightarrow> bool \<Rightarrow> StructuredSyslogConfig \<Rightarrow> StructuredSyslogConfig checked" where
  "MessageConfigsHandler hr add_update c =
     bind_checked (opt_fq_last hr) (\<lambda>name.
     bind_checked (opt_strings hr ''structured_syslog_message_tagged_fields'') (\<lambda>tags.
     bind_checked (opt_strings hr ''structured_syslog_message_integer_fields'') (\<lambda>ints.
     bind_checked (opt_cstr hr ''structured_syslog_message_forward'') (\<lambda>fwd.
     bind_checked (opt_bool hr ''structured_syslog_message_process_and_store'') (\<lambda>store.
     bind_checked (opt_bool hr ''structured_syslog_message_process_and_summarize'') (\<lambda>summarize.
     bind_checked (opt_bool hr ''structured_syslog_message_process_and_summarize_user'') (\<lambda>summarize_user.
       Done (if add_update then AddMessageConfig name tags ints store fwd summarize summarize_user c
             else c\<lparr>message_configs := map_erase name (message_configs c)\<rparr>))))))))"

definition sla_names :: "'d json \<Rightarrow> string checked" where
  "sla_names slar = bind_checked (HasMember slar ''fq_name'') (\<lambda>b.
     if \<not> b then Done ''''
     else bind_checked (member slar ''fq_name'') (\<lambda>fq. bind_checked (fq_last fq) (\<lambda>name. bind_checked (fq_second fq) (\<lambda>tenant.
            Done (tenant @ ''/'' @ name)))))"

definition SlaProfileRecordsHandler :: "'d json \<Rightarrow> bool \<Rightarrow> StructuredSyslogConfig \<Rightarrow> StructuredSyslogConfig checked" where
  "SlaProfileRecordsHandler slar add_update c =
     bind_checked (sla_names slar) (\<lambda>name.
     bind_checked (opt_cstr slar ''structured_syslog_sla_params'') (\<lambda>params.
       Done (if add_update then AddSlaProfileRecord \<lparr>sr_name = name, sla_params = params, sr_refreshed = True\<rparr> c
             else c\<lparr>sla_profile_records := map_erase name (sla_profile_records c)\<rparr>)))"

text \<open>\<open>jdoc.IsObject() && jdoc.HasMember(key)\<close> guards every handler.\<close>

definition on_member :: "string \<Rightarrow> ('d json \<Rightarrow> bool \<Rightarrow> 'c \<Rightarrow> 'c checked) \<Rightarrow> 'd json \<Rightarrow> bool \<Rightarrow> 'c \<Rightarrow> 'c checked" where
  "on_member key handler jdoc add_update c =
     (case jdoc of JObject ms \<Rightarrow> (case map_of ms key of Some v \<Rightarrow> handler v add_update c | None \<Rightarrow> Done c) | _ \<Rightarrow> Done c)"

definition ReceiveConfig :: "'d json \<Rightarrow> bool \<Rightarrow> StructuredSyslogConfig \<Rightarrow> StructuredSyslogConfig checked" where
  "ReceiveConfig jdoc add_change c =
     bind_checked (on_member ''structured_syslog_hostname_record'' HostnameRecordsHandler jdoc add_change c) (\<lambda>c1.
     bind_checked (on_member ''structured_syslog_tenant_record'' TenantRecordsHandler jdoc add_change c1) (\<lambda>c2.
     bind_checked (on_member ''structured_syslog_application_record'' ApplicationRecordsHandler jdoc add_change c2) (\<lambda>c3.
     bind_checked (on_member ''structured_syslog_message'' MessageConfigsHandler jdoc add_change c3) (\<lambda>c4.
       on_member ''structured_syslog_sla_profile'' SlaProfileRecordsHandler jdoc add_change c4))))"


section \<open>The invariant of the configuration\<close>

definition nets_sorted :: "IPNetwork list \<Rightarrow> bool" where
  "nets_sorted nets \<longleftrightarrow> sorted (map address_begin nets)"

definition networks_ok :: "StructuredSyslogConfig \<Rightarrow> bool" where
  "networks_ok c \<longleftrightarrow> sorted_map (networks_map c) \<and> (\<forall>nets \<in> snd ` set (networks_map c). nets_sorted nets)"

text \<open>A map whose records stand under their names, in the order of the names and each name once.\<close>

definition named :: "('r \<Rightarrow> string) \<Rightarrow> (string \<times> 'r) list \<Rightarrow> bool" where
  "named name m \<longleftrightarrow> sorted_map m \<and> list_all (\<lambda>(k, r). name r = k) m"

definition records_ok :: "StructuredSyslogConfig \<Rightarrow> bool" where
  "records_ok c \<longleftrightarrow> named hr_name (hostname_records c) \<and> named tr_name (tenant_records c) \<and> named ar_name (application_records c) \<and>
     named ar_name (tenant_application_records c) \<and> named mc_name (message_configs c) \<and> named sr_name (sla_profile_records c)"

definition sessions_ok :: "u64 \<Rightarrow> StructuredSyslogConfig \<Rightarrow> bool" where
  "sessions_ok L c \<longleftrightarrow> activeSessionConfigMapLIMIT c = L \<and> sorted_map (session_config_map c) \<and> length (session_config_map c) \<le> unat L"

definition config_ok :: "u64 \<Rightarrow> StructuredSyslogConfig \<Rightarrow> bool" where
  "config_ok L c \<longleftrightarrow> networks_ok c \<and> records_ok c \<and> sessions_ok L c"

lemmas config_ok_defs = config_ok_def networks_ok_def records_ok_def sessions_ok_def

lemma erase_at_snoc: "i < length xs \<Longrightarrow> erase_at (xs @ [x]) i = erase_at xs i @ [x]"
  by (simp add: erase_at_def)

lemma erase_indexes_snoc:
  assumes "sorted_wrt (>) is" and "\<forall>i \<in> set is. i < length xs"
  shows "foldl erase_at (xs @ [x]) is = foldl erase_at xs is @ [x]"
  using assms
proof (induction "is" arbitrary: xs)
  case (Cons i js)
  have "\<forall>j \<in> set js. j < length (erase_at xs i)" using Cons.prems by (auto simp: erase_at_def)
  with Cons show ?case by (simp add: erase_at_snoc)
qed simp

text \<open>The reverse sweep over the indexes is a filter.\<close>

lemma RefreshNetworks_filter: "RefreshNetworks location nets = filter (\<lambda>n. net_id n \<noteq> location) nets"
proof (induction nets rule: rev_induct)
  case (snoc x xs)
  let ?is = "rev [i \<leftarrow> [0..<length xs]. location = net_id (xs ! i)]"
  have idx: "[i \<leftarrow> [0..<length xs]. location = net_id ((xs @ [x]) ! i)] = [i \<leftarrow> [0..<length xs]. location = net_id (xs ! i)]"
    by (rule filter_cong) (auto simp: nth_append)
  have desc: "sorted_wrt (>) ?is" by (simp add: sorted_wrt_rev sorted_wrt_filter)
  have "foldl erase_at (xs @ [x]) ?is = foldl erase_at xs ?is @ [x]"
    by (rule erase_indexes_snoc[OF desc]) auto
  moreover have "erase_at (xs @ [x]) (length xs) = xs" by (simp add: erase_at_def)
  ultimately show ?case using snoc idx by (auto simp: RefreshNetworks_def)
qed (simp add: RefreshNetworks_def)

lemma nets_sorted_filter: "nets_sorted nets \<Longrightarrow> nets_sorted (filter P nets)"
  by (simp add: nets_sorted_def sorted_filter)

lemma nets_sorted_append:
  "nets_sorted (xs @ ys) \<longleftrightarrow> nets_sorted xs \<and> nets_sorted ys \<and> (\<forall>x \<in> set xs. \<forall>y \<in> set ys. address_begin x \<le> address_begin y)"
  by (auto simp: nets_sorted_def sorted_append)

lemma take_upper_bound: "take (upper_bound x xs) xs = takeWhile (\<lambda>y. \<not> IPNetwork_lt x y) xs"
  "drop (upper_bound x xs) xs = dropWhile (\<lambda>y. \<not> IPNetwork_lt x y) xs"
  by (simp_all add: upper_bound_def flip: takeWhile_eq_take dropWhile_eq_drop)

lemma behind_upper_bound:
  assumes "nets_sorted xs" and "y \<in> set (drop (upper_bound x xs) xs)"
  shows "address_begin x < address_begin y"
proof -
  let ?ds = "dropWhile (\<lambda>y. \<not> IPNetwork_lt x y) xs"
  have y: "y \<in> set ?ds" using assms(2) by (simp add: take_upper_bound)
  then have ne: "?ds \<noteq> []" by (metis empty_iff list.set(1))
  then have hd: "IPNetwork_lt x (hd ?ds)" using hd_dropWhile by blast
  have "nets_sorted ?ds" using assms(1) nets_sorted_append[of "takeWhile (\<lambda>y. \<not> IPNetwork_lt x y) xs" ?ds] by simp
  then have "address_begin (hd ?ds) \<le> address_begin y" using y ne by (cases ?ds) (auto simp: nets_sorted_def)
  with hd show ?thesis by (auto simp: IPNetwork_lt_def)
qed

lemma nets_sorted_insert:
  assumes "nets_sorted nets"
  shows "nets_sorted (vector_insert (upper_bound net nets) net nets)"
proof -
  let ?ts = "take (upper_bound net nets) nets" and ?ds = "drop (upper_bound net nets) nets"
  have parts: "nets_sorted ?ts" "nets_sorted ?ds" "\<forall>x \<in> set ?ts. \<forall>y \<in> set ?ds. address_begin x \<le> address_begin y"
    using assms nets_sorted_append[of ?ts ?ds] by simp_all
  have "\<forall>x \<in> set ?ts. address_begin x \<le> address_begin net"
    by (auto simp: take_upper_bound IPNetwork_lt_def not_less dest: set_takeWhileD)
  moreover have "\<forall>y \<in> set ?ds. address_begin net \<le> address_begin y"
    using behind_upper_bound[OF assms] by (auto intro: less_imp_le)
  ultimately have "nets_sorted (?ts @ [net] @ ?ds)" using parts by (auto simp: nets_sorted_append) (auto simp: nets_sorted_def)
  then show ?thesis by (simp add: vector_insert_def)
qed

lemma AddNetwork_ok:
  assumes "networks_ok c"
  shows "networks_ok (AddNetwork key network netmask location c)"
proof -
  let ?net = "make_network network netmask location"
  have ok: "sorted_map (networks_map c)" "\<forall>nets \<in> snd ` set (networks_map c). nets_sorted nets"
    using assms by (simp_all add: networks_ok_def)
  show ?thesis
  proof (cases "map_of (networks_map c) key")
    case None
    have "nets_sorted [?net]" by (simp add: nets_sorted_def)
    from values_map_insert[OF ok(2) this]
    have "\<forall>nets \<in> snd ` set (map_insert key [?net] (networks_map c)). nets_sorted nets" .
    with None ok(1) show ?thesis by (simp add: AddNetwork_def Let_def networks_ok_def sorted_map_insert)
  next
    case (Some nets)
    then have "nets \<in> snd ` set (networks_map c)" by (force dest: map_of_SomeD)
    then have "nets_sorted nets" using ok(2) by blast
    from values_map_assign[OF ok(2) nets_sorted_insert[OF this, of ?net], of key] Some ok(1) show ?thesis by (simp add: AddNetwork_def Let_def networks_ok_def sorted_map_assign)
  qed
qed

lemma RefreshNetworksMap_ok: "networks_ok c \<Longrightarrow> networks_ok (RefreshNetworksMap location c)"
  by (auto simp: networks_ok_def RefreshNetworksMap_def RefreshNetworks_filter nets_sorted_filter case_prod_unfold comp_def)

text \<open>What an operation on the networks leaves alone.\<close>

definition other_config :: "StructuredSyslogConfig \<Rightarrow> StructuredSyslogConfig" where
  "other_config c = c\<lparr>networks_map := []\<rparr>"

lemma other_config_simps [simp]:
  "other_config (AddNetwork key network netmask location c) = other_config c"
  "other_config (RefreshNetworksMap location c) = other_config c"
  by (simp_all add: other_config_def AddNetwork_def RefreshNetworksMap_def Let_def split: option.splits)

lemma other_config_ok:
  assumes "other_config c' = other_config c"
  shows "records_ok c' = records_ok c" "sessions_ok L c' = sessions_ok L c" "hostname_records c' = hostname_records c"
proof -
  have "f (other_config c') = f (other_config c)" for f :: "StructuredSyslogConfig \<Rightarrow> 'a" using assms by simp
  from this[of records_ok] this[of "sessions_ok L"] show "records_ok c' = records_ok c" "sessions_ok L c' = sessions_ok L c"
    by (simp_all add: other_config_def records_ok_def sessions_ok_def)
  show "hostname_records c' = hostname_records c"
    using arg_cong[OF assms, of hostname_records] by (simp add: other_config_def)
qed

lemma add_range_ok:
  "networks_ok c \<and> other_config c = o0 \<Longrightarrow> add_range key location c r = Done c' \<Longrightarrow> networks_ok c' \<and> other_config c' = o0"
  by (auto simp: add_range_def AddNetwork_ok split: list.splits)

lemma add_segment_ok:
  assumes "networks_ok c \<and> other_config c = o0" and "add_segment tenant location c seg = Done c'"
  shows "networks_ok c' \<and> other_config c' = o0"
proof -
  from assms(2) obtain vpn ranges where
    run: "foldl_checked (add_range (tenant @ ''::'' @ vpn) location) c (split_into_vector ranges CHR '','') = Done c'"
    by (auto simp: add_segment_def)
  show ?thesis
    by (rule foldl_checked_inv[where P = "\<lambda>c. networks_ok c \<and> other_config c = o0", OF _ run assms(1)]) (rule add_range_ok)
qed

lemma add_segments_ok:
  assumes "networks_ok c" and "add_segments tenant location segs c = Done c'"
  shows "networks_ok c' \<and> other_config c' = other_config c"
proof -
  let ?c = "if list_ex (\<lambda>(_, r). location = hr_location r) (hostname_records c) then RefreshNetworksMap location c else c"
  have init: "networks_ok ?c \<and> other_config ?c = other_config c" using assms(1) by (simp add: RefreshNetworksMap_ok)
  have run: "foldl_checked (add_segment tenant location) ?c segs = Done c'" using assms(2) by (simp add: add_segments_def)
  show ?thesis
    by (rule foldl_checked_inv[where P = "\<lambda>c'. networks_ok c' \<and> other_config c' = other_config c", OF _ run init]) (rule add_segment_ok)
qed

lemma named_simps [simp]: "named name []" "named name m \<Longrightarrow> named name (map_erase k m)"
  by (auto simp: named_def map_erase_def list_all_iff intro: sorted_map_erase[unfolded map_erase_def])

lemma named_record: "named name m \<Longrightarrow> map_of m k = Some r \<Longrightarrow> name r = k"
  by (auto simp: named_def list_all_iff dest: map_of_SomeD)

lemma named_add_record:
  assumes m: "named name m" and new: "name new = k" and refresh: "\<And>r. name (refresh new r) = name r"
  shows "named name (add_record refresh k new m)"
proof -
  have "list_all P (map_insert k v m)" "list_all P (map_assign k v m)" if "list_all P m" "P (k, v)" for P and v :: 'a
    using that by (induction k v m rule: map_insert.induct) auto
  then show ?thesis
    using m new refresh named_record[OF m]
    by (auto simp: named_def add_record_def sorted_map_insert sorted_map_assign split: option.splits)
qed

lemmas Refresh_defs = HostnameRecord_Refresh_def TenantRecord_Refresh_def ApplicationRecord_Refresh_def MessageConfig_Refresh_def
  SlaProfileRecord_Refresh_def

lemma HostnameRecordsHandler_ok:
  fixes hr :: "'d json"
  assumes "config_ok L c" and "HostnameRecordsHandler hr add_update c = Done c'"
  shows "config_ok L c'"
proof -
  from assms(2) obtain new c1 and segs :: "'d json list option" where
    c1: "(case segs of None \<Rightarrow> Done c | Some ss \<Rightarrow> add_segments (hr_tenant new) (hr_location new) ss c) = Done c1"
    and c': "(if add_update then Done (AddHostnameRecord new c1)
       else case map_of (hostname_records c1) (hr_name new) of None \<Rightarrow> Done c1
            | Some old \<Rightarrow> (let c2 = (if hr_location old \<noteq> '''' then RefreshNetworksMap (hr_location new) c1 else c1)
                 in Done (c2\<lparr>hostname_records := map_erase (hr_name new) (hostname_records c2)\<rparr>))) = Done c'"
    unfolding HostnameRecordsHandler_def bind_checked_Done_iff by blast
  have "networks_ok c1 \<and> other_config c1 = other_config c"
    using c1 assms(1) add_segments_ok[of c "hr_tenant new" "hr_location new" "the segs" c1] by (cases segs) (simp_all add: config_ok_def)
  then have "config_ok L c1" using assms(1) other_config_ok(1,2)[of c1 c] by (simp add: config_ok_def)
  moreover have "config_ok L (RefreshNetworksMap l c1)" for l
    using calculation RefreshNetworksMap_ok[of c1 l] other_config_ok[OF other_config_simps(2)[of l c1]] by (auto simp: config_ok_def)
  moreover have "config_ok L (d\<lparr>hostname_records := map_erase n (hostname_records d)\<rparr>)" if "config_ok L d" for d n
    using that by (simp add: config_ok_defs)
  moreover have "config_ok L (AddHostnameRecord new d)" if "config_ok L d" for d
    using that by (simp add: AddHostnameRecord_def config_ok_defs named_add_record Refresh_defs)
  ultimately show ?thesis
    using c' by (auto simp: Let_def split: if_splits option.splits)
qed

lemma records_update_ok:
  assumes "config_ok L c"
  shows "config_ok L (AddTenantRecord tr c)" "config_ok L (AddApplicationRecord ar c)" "config_ok L (AddTenantApplicationRecord ar c)"
    "config_ok L (AddMessageConfig n ts ks st fw su us c)" "config_ok L (AddSlaProfileRecord sr c)"
    "config_ok L (c\<lparr>tenant_records := map_erase n (tenant_records c)\<rparr>)" "config_ok L (c\<lparr>application_records := map_erase n (application_records c)\<rparr>)"
    "config_ok L (c\<lparr>tenant_application_records := map_erase n (tenant_application_records c)\<rparr>)"
    "config_ok L (c\<lparr>message_configs := map_erase n (message_configs c)\<rparr>)" "config_ok L (c\<lparr>sla_profile_records := map_erase n (sla_profile_records c)\<rparr>)"
  using assms
  by (simp_all add: AddTenantRecord_def AddApplicationRecord_def AddTenantApplicationRecord_def AddMessageConfig_def AddSlaProfileRecord_def
      config_ok_defs named_add_record Refresh_defs Let_def)

lemma TenantRecordsHandler_ok: "TenantRecordsHandler v b c = Done c' \<Longrightarrow> config_ok L c \<Longrightarrow> config_ok L c'"
  unfolding TenantRecordsHandler_def bind_checked_Done_iff
  by (elim exE conjE, simp only: checked.inject) (auto simp: records_update_ok split: if_splits)

lemma ApplicationRecordsHandler_ok: "ApplicationRecordsHandler v b c = Done c' \<Longrightarrow> config_ok L c \<Longrightarrow> config_ok L c'"
  unfolding ApplicationRecordsHandler_def Let_def bind_checked_Done_iff
  by (elim exE conjE, simp only: checked.inject) (auto simp: records_update_ok split: if_splits)

lemma MessageConfigsHandler_ok: "MessageConfigsHandler v b c = Done c' \<Longrightarrow> config_ok L c \<Longrightarrow> config_ok L c'"
  unfolding MessageConfigsHandler_def bind_checked_Done_iff
  by (elim exE conjE, simp only: checked.inject) (auto simp: records_update_ok split: if_splits)

lemma SlaProfileRecordsHandler_ok: "SlaProfileRecordsHandler v b c = Done c' \<Longrightarrow> config_ok L c \<Longrightarrow> config_ok L c'"
  unfolding SlaProfileRecordsHandler_def bind_checked_Done_iff
  by (elim exE conjE, simp only: checked.inject) (auto simp: records_update_ok split: if_splits)

lemma on_member_ok:
  "\<lbrakk>on_member key h doc b c = Done c'; config_ok L c; \<And>v c c'. h v b c = Done c' \<Longrightarrow> config_ok L c \<Longrightarrow> config_ok L c'\<rbrakk> \<Longrightarrow> config_ok L c'"
  by (auto simp: on_member_def split: json.splits option.splits)

lemma ReceiveConfig_ok:
  assumes "config_ok L c" and "ReceiveConfig doc b c = Done c'"
  shows "config_ok L c'"
proof -
  from assms(2) obtain c1 c2 c3 c4 where
    run: "on_member ''structured_syslog_hostname_record'' HostnameRecordsHandler doc b c = Done c1"
      "on_member ''structured_syslog_tenant_record'' TenantRecordsHandler doc b c1 = Done c2"
      "on_member ''structured_syslog_application_record'' ApplicationRecordsHandler doc b c2 = Done c3"
      "on_member ''structured_syslog_message'' MessageConfigsHandler doc b c3 = Done c4"
      "on_member ''structured_syslog_sla_profile'' SlaProfileRecordsHandler doc b c4 = Done c'"
    by (auto simp: ReceiveConfig_def)
  have "config_ok L c1" by (rule on_member_ok[OF run(1) assms(1)]) (rule HostnameRecordsHandler_ok)
  then have "config_ok L c2" by (rule on_member_ok[OF run(2)]) (rule TenantRecordsHandler_ok)
  then have "config_ok L c3" by (rule on_member_ok[OF run(3)]) (rule ApplicationRecordsHandler_ok)
  then have "config_ok L c4" by (rule on_member_ok[OF run(4)]) (rule MessageConfigsHandler_ok)
  then show ?thesis by (rule on_member_ok[OF run(5)]) (rule SlaProfileRecordsHandler_ok)
qed

lemma session_counters_ok:
  assumes "config_ok L c"
  shows "config_ok L (snd (AddSyslogSessionCounter key cs c))" "config_ok L (snd (RemoveSyslogSessionCounter key c))"
proof -
  have s: "sorted_map (session_config_map c)" "length (session_config_map c) \<le> unat L"
    using assms by (simp_all add: config_ok_defs)
  with assms length_map_assign[OF s(1), of key cs] show "config_ok L (snd (AddSyslogSessionCounter key cs c))"
    by (auto simp: AddSyslogSessionCounter_def config_ok_defs sorted_map_assign)
  show "config_ok L (snd (RemoveSyslogSessionCounter key c))"
    using assms s le_trans[OF length_map_erase[of key "session_config_map c"] s(2)]
    by (simp add: RemoveSyslogSessionCounter_def config_ok_defs)
qed


text \<open>A history of the configuration: documents, counters of active sessions, closed sessions.\<close>

datatype 'd config_event = Received "'d json" bool | Counters string counters | Closed string

fun config_step :: "StructuredSyslogConfig \<Rightarrow> 'd config_event \<Rightarrow> StructuredSyslogConfig checked" where
  "config_step c (Received doc b) = ReceiveConfig doc b c"
| "config_step c (Counters key cs) = Done (snd (AddSyslogSessionCounter key cs c))"
| "config_step c (Closed key) = Done (snd (RemoveSyslogSessionCounter key c))"

lemma config_step_ok: "config_ok L c \<Longrightarrow> config_step c e = Done c' \<Longrightarrow> config_ok L c'"
  using session_counters_ok[of L c] by (cases e) (auto intro: ReceiveConfig_ok)

lemma config_history_ok:
  assumes "foldl_checked config_step (new_StructuredSyslogConfig limit) es = Done c"
  shows "config_ok limit c"
proof (rule foldl_checked_inv[OF _ assms])
  show "config_ok limit (new_StructuredSyslogConfig limit)" by (simp add: config_ok_defs new_StructuredSyslogConfig_def)
qed (rule config_step_ok)

section \<open>Looking up a site\<close>

definition covers :: "IPNetwork \<Rightarrow> u32 \<Rightarrow> bool" where
  "covers n addr \<longleftrightarrow> address_begin n \<le> addr \<and> addr \<le> address_end n"

definition net_range :: "IPNetwork \<Rightarrow> u32" where
  "net_range n = address_end n - address_begin n"

text \<open>The networks that may answer a lookup: they cover the address, belong to another site and are not the
  whole address space.\<close>

definition candidates :: "u32 \<Rightarrow> string \<Rightarrow> IPNetwork list \<Rightarrow> IPNetwork list" where
  "candidates addr src nets = filter (\<lambda>n. covers n addr \<and> net_id n \<noteq> src \<and> net_range n < -1) nets"

lemma closer_network_loop:
  fixes addr src xs f r
  defines "good \<equiv> (\<lambda>n. covers n addr \<and> net_id n \<noteq> src \<and> net_range n < r)"
  defines "res \<equiv> foldl (closer_network addr src) (f, r) xs"
  shows "if filter good xs = [] then res = (f, r)
    else fst res \<in> set (filter good xs) \<and> snd res = net_range (fst res) \<and> (\<forall>m \<in> set (filter good xs). net_range (fst res) \<le> net_range m)"
  unfolding good_def res_def
proof (induction xs arbitrary: f r)
  case (Cons x xs)
  let ?g = "\<lambda>r n. covers n addr \<and> net_id n \<noteq> src \<and> net_range n < r"
  show ?case
  proof (cases "?g r x")
    case True
    let ?A = "filter (?g (net_range x)) xs" and ?B = "filter (?g r) xs" and ?res = "foldl (closer_network addr src) (x, net_range x) xs"
    have run: "foldl (closer_network addr src) (f, r) (x # xs) = ?res" and B: "filter (?g r) (x # xs) = x # ?B"
      using True by (simp_all add: closer_network_def covers_def net_range_def)
    have AB: "set ?A \<subseteq> set ?B" using True by auto
    have rest: "m \<in> set ?A \<or> net_range x \<le> net_range m" if "m \<in> set ?B" for m using that by auto
    show ?thesis
    proof (cases "?A = []")
      case True
      then have "?res = (x, net_range x)" using Cons.IH[of "net_range x" x] by simp
      moreover have "net_range x \<le> net_range m" if "m \<in> set ?B" for m using rest[OF that] True by simp
      ultimately show ?thesis unfolding run B by simp
    next
      case False
      then have ih: "fst ?res \<in> set ?A" "snd ?res = net_range (fst ?res)" "\<forall>m \<in> set ?A. net_range (fst ?res) \<le> net_range m"
        using Cons.IH[of "net_range x" x] by presburger+
      have le: "net_range (fst ?res) \<le> net_range x" using ih(1) by (simp add: less_imp_le)
      moreover have "net_range (fst ?res) \<le> net_range m" if "m \<in> set ?B" for m
      proof (cases "m \<in> set ?A")
        case True
        with ih(3) show ?thesis by (rule bspec)
      next
        case False
        then have "net_range x \<le> net_range m" using rest[OF that] by blast
        with le show ?thesis by (rule order.trans)
      qed
      ultimately have "\<forall>m \<in> set (x # ?B). net_range (fst ?res) \<le> net_range m" by (auto simp only: list.set insert_iff)
      moreover have "fst ?res \<in> set (x # ?B)" using ih(1) AB by (meson list.set_intros(2) subsetD)
      ultimately show ?thesis unfolding run B using ih(2) by (simp only: list.distinct if_False)
    qed
  next
    case False
    then have "closer_network addr src (f, r) x = (f, r)" by (auto simp: closer_network_def covers_def net_range_def)
    moreover have "filter (?g r) (x # xs) = filter (?g r) xs" using False by auto
    ultimately show ?thesis using Cons.IH[of r f] by (simp only: foldl.simps)
  qed
qed simp


text \<open>Networks behind the upper bound begin above the address, so the loop misses none.\<close>

lemma candidates_before_bound:
  assumes "nets_sorted nets"
  shows "candidates addr src (take (upper_bound \<lparr>address_begin = addr, address_end = e, net_id = i\<rparr> nets) nets) = candidates addr src nets"
proof -
  let ?idx = "upper_bound \<lparr>address_begin = addr, address_end = e, net_id = i\<rparr> nets"
  have "\<not> covers n addr" if "n \<in> set (drop ?idx nets)" for n
    using behind_upper_bound[OF assms that] by (auto simp: covers_def)
  then have "candidates addr src (drop ?idx nets) = []" by (auto simp: candidates_def filter_empty_conv)
  moreover have "candidates addr src (xs @ ys) = candidates addr src xs @ candidates addr src ys" for xs ys by (simp add: candidates_def)
  from this[of "take ?idx nets" "drop ?idx nets"]
  have "candidates addr src nets = candidates addr src (take ?idx nets) @ candidates addr src (drop ?idx nets)" by simp
  ultimately show ?thesis by simp
qed

lemma FindNetwork_candidates:
  fixes ip src
  assumes "networks_ok c" and "map_of (networks_map c) key = Some nets"
  defines "cands \<equiv> candidates (IPToUInt ip) src nets"
  shows "if cands = [] then FindNetwork ip key src c = ''''
    else \<exists>n \<in> set cands. FindNetwork ip key src c = net_id n \<and> (\<forall>m \<in> set cands. net_range n \<le> net_range m)"
proof -
  let ?addr = "IPToUInt ip" and ?none = "\<lparr>address_begin = 0, address_end = 0, net_id = ''''\<rparr>"
  let ?idx = "upper_bound \<lparr>address_begin = ?addr, address_end = 0, net_id = ip\<rparr> nets"
  let ?res = "foldl (closer_network ?addr src) (?none, -1) (rev (take ?idx nets))"
  have "nets \<in> snd ` set (networks_map c)" using assms(2) by (force dest: map_of_SomeD)
  then have "nets_sorted nets" using assms(1) by (auto simp: networks_ok_def)
  then have cands: "cands = candidates ?addr src (take ?idx nets)" by (simp add: cands_def candidates_before_bound)
  have find: "FindNetwork ip key src c = (if ?idx = 0 then '''' else net_id (fst ?res))" using assms(2) by (simp add: FindNetwork_def Let_def)
  have "filter (\<lambda>n. covers n ?addr \<and> net_id n \<noteq> src \<and> net_range n < -1) (rev (take ?idx nets)) = rev cands"
    by (simp add: cands candidates_def rev_filter)
  from closer_network_loop[of ?addr src "-1" "rev (take ?idx nets)" ?none, unfolded this]
  have res: "if cands = [] then ?res = (?none, -1)
    else fst ?res \<in> set cands \<and> snd ?res = net_range (fst ?res) \<and> (\<forall>m \<in> set cands. net_range (fst ?res) \<le> net_range m)"
    by (simp only: set_rev rev_is_Nil_conv)
  show ?thesis
  proof (cases "cands = []")
    case True
    then show ?thesis using res find by simp
  next
    case False
    have "?idx \<noteq> 0"
    proof
      assume "?idx = 0"
      then show False using cands False by (simp add: candidates_def)
    qed
    with False res find show ?thesis by auto
  qed
qed

text \<open>
  C17: the lookup of a site. Whatever documents and counters the configuration has received, the site found for an
  address in the networks of a tenant and VPN is that of a smallest network which covers the address and belongs to another site than the
  one asking; when there is no such network the result is empty. The network of all addresses is never found.
\<close>

theorem site_lookup_most_specific:
  assumes "foldl_checked config_step (new_StructuredSyslogConfig limit) es = Done c" and "map_of (networks_map c) key = Some nets"
  shows "if candidates (IPToUInt ip) src nets = [] then FindNetwork ip key src c = ''''
    else \<exists>n \<in> set (candidates (IPToUInt ip) src nets). FindNetwork ip key src c = net_id n \<and>
      (\<forall>m \<in> set (candidates (IPToUInt ip) src nets). net_range n \<le> net_range m)"
  by (rule FindNetwork_candidates[OF _ assms(2)]) (use config_history_ok[OF assms(1)] in \<open>simp add: config_ok_def\<close>)

text \<open>
  C18: the state of the configuration. After any sequence of documents and counters of sessions all eight maps are
  sorted by their keys with one entry per key; every record of hosts, tenants, applications, applications of tenants,
  messages and SLA profiles stands under its own name; every vector of networks is sorted by its first address, as the
  binary searches in it require; and the counters of no more sessions are kept than the configured limit.
\<close>

theorem config_invariant:
  assumes "foldl_checked config_step (new_StructuredSyslogConfig limit) es = Done c"
  shows "named hr_name (hostname_records c) \<and> named tr_name (tenant_records c) \<and> named ar_name (application_records c) \<and>
    named ar_name (tenant_application_records c) \<and> named mc_name (message_configs c) \<and> named sr_name (sla_profile_records c) \<and>
    sorted_map (networks_map c) \<and> (\<forall>nets \<in> snd ` set (networks_map c). nets_sorted nets) \<and>
    sorted_map (session_config_map c) \<and> length (session_config_map c) \<le> unat limit"
  using config_history_ok[OF assms] by (simp add: config_ok_defs)

text \<open>A document for a host with one network, as the configuration service sends it.\<close>

definition host_doc :: "string \<Rightarrow> string \<Rightarrow> string \<Rightarrow> nat json" where
  "host_doc host location ranges =
     JObject [(''structured_syslog_hostname_record'',
       JObject [(''fq_name'', JArray [JString ''cfg'', JString host]), (''structured_syslog_tenant'', JString ''T''),
                (''structured_syslog_location'', JString location),
                (''structured_syslog_lan_segment_list'', JObject [(''LANSegmentList'',
                   JArray [JObject [(''vpn'', JString ''V''), (''network_ranges'', JString ranges)]])])])]"

lemmas document_simps = ReceiveConfig_def on_member_def HostnameRecordsHandler_def read_HostnameRecord_def opt_fq_last_def fq_last_def
  opt_cstr_def member_cstr_def get_cstr_def opt_array_def add_segments_def add_segment_def add_range_def c_str_def

lemma split_examples:
  "split_into_vector ''10.0.0.0/255.0.0.0'' CHR '','' = [''10.0.0.0/255.0.0.0'']"
  "split_into_vector ''10.0.0.0/255.0.0.0'' CHR ''/'' = [''10.0.0.0'', ''255.0.0.0'']"
  "split_into_vector ''10.1.0.0/255.255.0.0'' CHR '','' = [''10.1.0.0/255.255.0.0'']"
  "split_into_vector ''10.1.0.0/255.255.0.0'' CHR ''/'' = [''10.1.0.0'', ''255.255.0.0'']"
  by code_simp+

lemma network_examples:
  "make_network ''10.0.0.0'' ''255.0.0.0'' loc = \<lparr>address_begin = 0x0A000000, address_end = 0x0AFFFFFF, net_id = loc\<rparr>"
  "make_network ''10.1.0.0'' ''255.255.0.0'' loc = \<lparr>address_begin = 0x0A010000, address_end = 0x0A01FFFF, net_id = loc\<rparr>"
  "IPToUInt ''10.1.2.3'' = 0x0A010203"
  by code_simp+


lemma two_sites:
  "\<exists>c. foldl_checked config_step (new_StructuredSyslogConfig 10) [Received (host_doc ''h1'' ''A'' ''10.0.0.0/255.0.0.0'') True,
      Received (host_doc ''h2'' ''B'' ''10.1.0.0/255.255.0.0'') True] = Done c \<and>
    map_of (networks_map c) ''T::V'' = Some [\<lparr>address_begin = 0x0A000000, address_end = 0x0AFFFFFF, net_id = ''A''\<rparr>,
      \<lparr>address_begin = 0x0A010000, address_end = 0x0A01FFFF, net_id = ''B''\<rparr>]"
  by (simp add: host_doc_def document_simps split_examples AddNetwork_def network_examples Let_def AddHostnameRecord_def add_record_def
      new_StructuredSyslogConfig_def upper_bound_def IPNetwork_lt_def vector_insert_def del: bind_checked_Done_iff)

theorem site_lookup_most_specific_witness:
  "\<exists>c. foldl_checked config_step (new_StructuredSyslogConfig 10) [Received (host_doc ''h1'' ''A'' ''10.0.0.0/255.0.0.0'') True,
      Received (host_doc ''h2'' ''B'' ''10.1.0.0/255.255.0.0'') True] = Done c \<and>
    FindNetwork ''10.1.2.3'' ''T::V'' ''C'' c = ''B'' \<and> FindNetwork ''10.1.2.3'' ''T::V'' ''B'' c = ''A''"
proof -
  let ?A = "\<lparr>address_begin = 0x0A000000, address_end = 0x0AFFFFFF, net_id = ''A''\<rparr> :: IPNetwork"
    and ?B = "\<lparr>address_begin = 0x0A010000, address_end = 0x0A01FFFF, net_id = ''B''\<rparr> :: IPNetwork"
  from two_sites obtain c where
    c: "foldl_checked config_step (new_StructuredSyslogConfig 10) [Received (host_doc ''h1'' ''A'' ''10.0.0.0/255.0.0.0'') True,
      Received (host_doc ''h2'' ''B'' ''10.1.0.0/255.255.0.0'') True] = Done c" "map_of (networks_map c) ''T::V'' = Some [?A, ?B]" by blast
  note site = site_lookup_most_specific[OF c, of "''10.1.2.3''"]
  have 1: "candidates (IPToUInt ''10.1.2.3'') ''C'' [?A, ?B] = [?A, ?B]" "candidates (IPToUInt ''10.1.2.3'') ''B'' [?A, ?B] = [?A]"
    "net_range ?A = 0x00FFFFFF" "net_range ?B = 0x0000FFFF"
    by (simp_all add: candidates_def covers_def net_range_def network_examples word_less_alt word_le_def unsigned_minus_1_eq_mask mask_eq_exp_minus_1)
  have "FindNetwork ''10.1.2.3'' ''T::V'' ''C'' c = ''B''" "FindNetwork ''10.1.2.3'' ''T::V'' ''B'' c = ''A''"
    using site[of "''C''"] site[of "''B''"] by (simp_all add: 1)
  with c(1) show ?thesis by blast
qed

theorem config_invariant_witness:
  "\<exists>c. foldl_checked config_step (new_StructuredSyslogConfig 10) [Received (host_doc ''h1'' ''A'' ''10.0.0.0/255.0.0.0'') True,
      Received (host_doc ''h2'' ''B'' ''10.1.0.0/255.255.0.0'') True] = Done c \<and>
    nets_sorted (the (map_of (networks_map c) ''T::V'')) \<and> named hr_name (hostname_records c) \<and> length (session_config_map c) \<le> 10"
proof -
  from two_sites obtain c where
    c: "foldl_checked config_step (new_StructuredSyslogConfig 10) [Received (host_doc ''h1'' ''A'' ''10.0.0.0/255.0.0.0'') True,
      Received (host_doc ''h2'' ''B'' ''10.1.0.0/255.255.0.0'') True] = Done c" "map_of (networks_map c) ''T::V'' \<noteq> None" by auto
  then obtain nets where "map_of (networks_map c) ''T::V'' = Some nets" "nets \<in> snd ` set (networks_map c)" by (force dest: map_of_SomeD)
  with c(1) config_invariant[OF c(1)] show ?thesis by auto
qed

section \<open>Hosts that move\<close>

text \<open>Adding ranges of one site keeps the networks of every other.\<close>

definition nets_of :: "string \<Rightarrow> string \<Rightarrow> StructuredSyslogConfig \<Rightarrow> IPNetwork list" where
  "nets_of site key c = filter (\<lambda>n. net_id n = site) (case map_of (networks_map c) key of None \<Rightarrow> [] | Some nets \<Rightarrow> nets)"

lemma nets_of_AddNetwork:
  assumes "site \<noteq> location" and "sorted_map (networks_map c)"
  shows "nets_of site key (AddNetwork key' network netmask location c) = nets_of site key c"
proof -
  let ?net = "make_network network netmask location"
  have other: "net_id ?net \<noteq> site" using assms(1) by (simp add: make_network_def Let_def)
  have "filter (\<lambda>n. net_id n = site) (vector_insert i ?net nets) = filter (\<lambda>n. net_id n = site) nets" for i nets
    using other arg_cong[OF append_take_drop_id[of i nets], of "filter (\<lambda>n. net_id n = site)"] by (simp add: vector_insert_def del: append_take_drop_id)
  with other assms(2) show ?thesis
    by (auto simp: nets_of_def AddNetwork_def Let_def map_of_assign map_of_insert split: option.splits)
qed

lemma nets_of_Refresh: "site \<noteq> location \<Longrightarrow> nets_of site key (RefreshNetworksMap location c) = nets_of site key c"
proof -
  assume "site \<noteq> location"
  moreover have "map_of (map (\<lambda>(k, nets). (k, RefreshNetworks location nets)) m) key = map_option (RefreshNetworks location) (map_of m key)" for m
    by (induction m) auto
  ultimately show ?thesis
    by (auto simp: nets_of_def RefreshNetworksMap_def RefreshNetworks_filter intro!: filter_cong split: option.splits)
qed

lemma nets_of_add_segments:
  assumes "networks_ok c" and "site \<noteq> location" and "add_segments tenant location segs c = Done c'"
  shows "nets_of site key c' = nets_of site key c"
proof -
  let ?P = "\<lambda>d. networks_ok d \<and> nets_of site key d = nets_of site key c"
  have range: "?P d'" if "?P d" "add_range k location d r = Done d'" for d d' k r
    using that assms(2) by (auto simp: add_range_def AddNetwork_ok nets_of_AddNetwork networks_ok_def[of d] split: list.splits)
  have segment: "?P d'" if "?P d" "add_segment tenant location d seg = Done d'" for d d' seg
  proof -
    from that(2) obtain vpn ranges where
      run: "foldl_checked (add_range (tenant @ ''::'' @ vpn) location) d (split_into_vector ranges CHR '','') = Done d'" by (auto simp: add_segment_def)
    show ?thesis by (rule foldl_checked_inv[where P = ?P, OF _ run that(1)]) (rule range)
  qed
  let ?c = "if list_ex (\<lambda>(_, r). location = hr_location r) (hostname_records c) then RefreshNetworksMap location c else c"
  have init: "?P ?c" using assms(1,2) by (simp add: RefreshNetworksMap_ok nets_of_Refresh)
  have run: "foldl_checked (add_segment tenant location) ?c segs = Done c'" using assms(3) by (simp add: add_segments_def)
  have "?P c'" by (rule foldl_checked_inv[where P = ?P, OF _ run init]) (rule segment)
  then show ?thesis by simp
qed

text \<open>
  A host that moves leaves its networks behind. When an update gives a host another location, the networks of its old location
  stay in every vector, although no host is there any more, and lookups go on finding the old site; only an update
  that names the old location, or a deletion that does, removes them.
\<close>

theorem moved_host_leaves_networks:
  fixes hr :: "'d json"
  assumes "foldl_checked config_step (new_StructuredSyslogConfig limit) es = Done c" and "read_HostnameRecord hr = Done new"
    and "map_of (hostname_records c) (hr_name new) = Some old" and "hr_location old \<noteq> hr_location new"
    and "HostnameRecordsHandler hr True c = Done c'"
  shows "nets_of (hr_location old) key c' = nets_of (hr_location old) key c \<and>
    map_option hr_location (map_of (hostname_records c') (hr_name new)) = Some (hr_location new)"
proof -
  have ok: "config_ok limit c" by (rule config_history_ok[OF assms(1)])
  from assms(2,5) obtain c1 and segs :: "'d json list option" where
    c1: "(case segs of None \<Rightarrow> Done c | Some ss \<Rightarrow> add_segments (hr_tenant new) (hr_location new) ss c) = Done c1"
      "c' = AddHostnameRecord new c1"
    unfolding HostnameRecordsHandler_def bind_checked_Done_iff by auto
  have keep: "networks_ok c" "sorted_map (hostname_records c)" using ok by (simp_all add: config_ok_defs named_def)
  have nets: "nets_of (hr_location old) key c1 = nets_of (hr_location old) key c"
    using c1(1) nets_of_add_segments[OF keep(1) assms(4), of "hr_tenant new" "the segs" c1] by (cases segs) simp_all
  have "hostname_records c1 = hostname_records c"
    using c1(1) add_segments_ok[OF keep(1), of "hr_tenant new" "hr_location new" "the segs" c1] other_config_ok(3)[of c1 c]
    by (cases segs) simp_all
  with assms(3) keep(2) have "map_option hr_location (map_of (hostname_records c') (hr_name new)) = Some (hr_location new)"
    by (simp add: c1(2) AddHostnameRecord_def add_record_def map_of_assign HostnameRecord_Refresh_def)
  moreover have "nets_of (hr_location old) key c' = nets_of (hr_location old) key c"
    using nets by (simp add: c1(2) AddHostnameRecord_def nets_of_def)
  ultimately show ?thesis by blast
qed

definition one_host :: "string \<Rightarrow> string \<Rightarrow> HostnameRecord" where
  "one_host host location = \<lparr>hr_name = host, hr_hostaddr = '''', hr_tenant = ''T'', hr_location = location, hr_device = '''',
     hr_tags = '''', hr_linkmap = [], hr_refreshed = True\<rparr>"

lemmas step_simps = document_simps split_examples AddNetwork_def network_examples Let_def AddHostnameRecord_def add_record_def
  new_StructuredSyslogConfig_def upper_bound_def IPNetwork_lt_def vector_insert_def

theorem moved_host_leaves_networks_witness:
  "\<exists>c c'. foldl_checked config_step (new_StructuredSyslogConfig 10) [Received (host_doc ''h1'' ''A'' ''10.0.0.0/255.0.0.0'') True] = Done c \<and>
     ReceiveConfig (host_doc ''h1'' ''B'' ''10.1.0.0/255.255.0.0'') True c = Done c' \<and>
     nets_of ''A'' ''T::V'' c' = [\<lparr>address_begin = 0x0A000000, address_end = 0x0AFFFFFF, net_id = ''A''\<rparr>] \<and>
     map_option hr_location (map_of (hostname_records c') ''h1'') = Some ''B''"
proof -
  let ?hr = "JObject [(''fq_name'', JArray [JString ''cfg'', JString ''h1'']), (''structured_syslog_tenant'', JString ''T''),
                (''structured_syslog_location'', JString ''B''),
                (''structured_syslog_lan_segment_list'', JObject [(''LANSegmentList'',
                   JArray [JObject [(''vpn'', JString ''V''), (''network_ranges'', JString ''10.1.0.0/255.255.0.0'')]])])] :: nat json"
  let ?A = "\<lparr>address_begin = 0x0A000000, address_end = 0x0AFFFFFF, net_id = ''A''\<rparr> :: IPNetwork"
  define c where "c = (new_StructuredSyslogConfig 10)\<lparr>networks_map := [(''T::V'', [?A])], hostname_records := [(''h1'', one_host ''h1'' ''A'')]\<rparr>"
  have run: "foldl_checked config_step (new_StructuredSyslogConfig 10) [Received (host_doc ''h1'' ''A'' ''10.0.0.0/255.0.0.0'') True] = Done c"
    by (simp add: c_def host_doc_def step_simps one_host_def del: bind_checked_Done_iff)
  have new: "read_HostnameRecord ?hr = Done (one_host ''h1'' ''B'')"
    by (simp add: document_simps one_host_def del: bind_checked_Done_iff)
  have old: "map_of (hostname_records c) (hr_name (one_host ''h1'' ''B'')) = Some (one_host ''h1'' ''A'')"
    "hr_location (one_host ''h1'' ''A'') \<noteq> hr_location (one_host ''h1'' ''B'')" by (simp_all add: c_def one_host_def)
  have "\<exists>c'. HostnameRecordsHandler ?hr True c = Done c'"
    by (simp add: c_def step_simps one_host_def del: bind_checked_Done_iff)
  then obtain c' where c': "HostnameRecordsHandler ?hr True c = Done c'" by blast
  then have "ReceiveConfig (host_doc ''h1'' ''B'' ''10.1.0.0/255.255.0.0'') True c = Done c'"
    by (simp add: ReceiveConfig_def on_member_def host_doc_def)
  moreover have "nets_of ''A'' ''T::V'' c = [?A]" by (simp add: nets_of_def c_def)
  ultimately show ?thesis
    using run moved_host_leaves_networks[OF run new old c', of "''T::V''"] by (simp only: one_host_def HostnameRecord.simps) blast
qed

section \<open>The configuration of a message\<close>

text \<open>The patterns found in the name, in key order.\<close>

definition matching :: "regex_lib \<Rightarrow> string \<Rightarrow> MessageConfig list \<Rightarrow> MessageConfig list" where
  "matching lib name ms = filter (\<lambda>m. valid_regex lib (mc_name m) \<and> regex_search lib (mc_name m) name 0 False \<noteq> None) ms"

lemma longest_match:
  fixes ms :: "(string \<times> MessageConfig) list" and lib name
  defines "cs \<equiv> matching lib name (map snd ms)"
  shows "if cs = [] then foldl (better_match lib name) None ms = None
    else \<exists>pre m post. cs = pre @ m # post \<and> foldl (better_match lib name) None ms = Some m \<and>
      (\<forall>p \<in> set pre. length (mc_name p) < length (mc_name m)) \<and> (\<forall>p \<in> set post. length (mc_name p) \<le> length (mc_name m))"
  unfolding cs_def
proof (induction ms rule: rev_induct)
  case (snoc x ms)
  let ?cs = "matching lib name (map snd ms)" and ?m = "snd x" and ?best = "foldl (better_match lib name) None ms"
  show ?case
  proof (cases "valid_regex lib (mc_name ?m) \<and> regex_search lib (mc_name ?m) name 0 False \<noteq> None")
    case False
    then have "better_match lib name ?best x = ?best" by (auto simp: better_match_def Let_def)
    moreover have "matching lib name (map snd (ms @ [x])) = ?cs" using False by (auto simp: matching_def)
    ultimately show ?thesis using snoc by (simp only: foldl_append foldl.simps)
  next
    case True
    then have cs: "matching lib name (map snd (ms @ [x])) = ?cs @ [?m]" by (simp add: matching_def)
    have step: "foldl (better_match lib name) None (ms @ [x]) = (case ?best of None \<Rightarrow> Some ?m | Some b \<Rightarrow> if length (mc_name b) < length (mc_name ?m) then Some ?m else ?best)"
      using True by (auto simp: better_match_def Let_def)
    show ?thesis
    proof (cases "?cs = []")
      case True
      with snoc have "?best = None" by simp
      with cs step True show ?thesis by (auto intro!: exI[of _ "[]"])
    next
      case False
      with snoc obtain pre b post where b: "?cs = pre @ b # post" "?best = Some b"
        "\<forall>p \<in> set pre. length (mc_name p) < length (mc_name b)" "\<forall>p \<in> set post. length (mc_name p) \<le> length (mc_name b)" by auto
      show ?thesis
      proof (cases "length (mc_name b) < length (mc_name ?m)")
        case True
        with b have "\<forall>p \<in> set ?cs. length (mc_name p) < length (mc_name ?m)" by auto
        then show ?thesis unfolding cs step b(2) using True by simp (rule exI[of _ ?cs], rule exI[of _ "[]"], simp)
      next
        case False
        with b cs step have "matching lib name (map snd (ms @ [x])) = pre @ b # (post @ [?m])" "foldl (better_match lib name) None (ms @ [x]) = Some b"
          "\<forall>p \<in> set (post @ [?m]). length (mc_name p) \<le> length (mc_name b)" by auto
        with b(3) show ?thesis by (metis append_is_Nil_conv list.distinct(1))
      qed
    qed
  qed
qed (simp add: matching_def)

text \<open>
  Which configuration applies to a message. A configuration with exactly the name of the message wins; otherwise, of the
  configurations whose name is a valid pattern found in it, the one with the longest name, the first in
  key order if there are several; patterns that do not compile are passed over.
\<close>

theorem message_config_lookup:
  "case map_of (message_configs c) name of
     Some mc \<Rightarrow> GetMessageConfig lib name c = Some mc
   | None \<Rightarrow>
       (if matching lib name (map snd (message_configs c)) = [] then GetMessageConfig lib name c = None
        else \<exists>pre m post. matching lib name (map snd (message_configs c)) = pre @ m # post \<and> GetMessageConfig lib name c = Some m \<and>
          list_all (\<lambda>p. length (mc_name p) < length (mc_name m)) pre \<and> list_all (\<lambda>p. length (mc_name p) \<le> length (mc_name m)) post)"
  using longest_match[where lib = lib and name = name and ms = "message_configs c"]
  by (simp add: GetMessageConfig_def list_all_iff split: option.split)

end
