(* ===== verification/Structured_Syslog.thy ===== *)
theory Structured_Syslog
  imports Syslog_Config Stat_Walker
begin

text \<open>
  \<open>structured_syslog_server.cc\<close>, the treatment of one message: the attributes \<open>key="value"\<close> in the brackets of
  a structured syslog message are added to its fields, completed from the configuration, written as
  statistics and put into a JSON document. Boost's \<open>split\<close> and \<open>iequals\<close> and the JSON writer are arguments.
\<close>

section \<open>Attributes\<close>

text \<open>\<open>DecorateMsg\<close>: writes an attribute in front of the next closing bracket of the message to forward,
  \<open>None\<close> when there is none.\<close>

definition attribute_text :: "string \<Rightarrow> string \<Rightarrow> string" where
  "attribute_text key val = key @ ''='' @ [CHR 0x22] @ val @ [CHR 0x22]"

definition DecorateMsg :: "string option \<Rightarrow> string \<Rightarrow> string \<Rightarrow> nat \<Rightarrow> string option \<times> nat" where
  "DecorateMsg msg key val prev_pos =
     (case msg of None \<Rightarrow> (None, 0)
      | Some m \<Rightarrow> (case find_char_from CHR '']'' m prev_pos of None \<Rightarrow> (Some m, 0)
                   | Some pos \<Rightarrow> (Some (take pos m @ '' '' @ attribute_text key val @ drop pos m), pos)))"

record syslog_fields =
  sf_v :: syslog_m_t
  sf_msg :: "string option"
  sf_pos :: nat

definition put_field :: "string list \<Rightarrow> syslog_fields \<Rightarrow> string \<times> string \<Rightarrow> syslog_fields" where
  "put_field int_fields st kv =
     (let (key, val) = kv; (msg, pos) = DecorateMsg (sf_msg st) key val (sf_pos st)
      in \<lparr>sf_v = (if key \<in> set int_fields then put_int key (word_of_int (strtol (c_str val))) (sf_v st) else put_str key val (sf_v st)),
          sf_msg = msg, sf_pos = pos\<rparr>)"

function parse_loop :: "string list \<Rightarrow> string \<Rightarrow> nat \<Rightarrow> syslog_fields \<Rightarrow> bool \<times> syslog_fields" where
  "parse_loop int_fields part start st =
     (case find_char_from CHR ''='' part start of None \<Rightarrow> (True, st)
      | Some end1 \<Rightarrow>
          (case find_char_from CHR 0x22 part (end1 + 2) of None \<Rightarrow> (False, st)
           | Some end2 \<Rightarrow>
               parse_loop int_fields part (end2 + 2)
                 (put_field int_fields st (take (end1 - start) (drop start part), take (end2 - (end1 + 2)) (drop (end1 + 2) part)))))"
  by pat_completeness auto
termination
proof (relation "measure (\<lambda>(_, part, start, _). length part - start)")
  fix int_fields :: "string list" and part :: string and start end1 end2 :: nat and st :: syslog_fields
  assume "find_char_from CHR ''='' part start = Some end1" "find_char_from CHR 0x22 part (end1 + 2) = Some end2"
  then have "start \<le> end1" "end1 < length part" "end1 + 2 \<le> end2" "end2 < length part"
    by (auto simp: find_char_from_def dest!: find_char_Some)
  then show "((int_fields, part, end2 + 2, put_field int_fields st (take (end1 - start) (drop start part), take (end2 - (end1 + 2)) (drop (end1 + 2) part))),
     int_fields, part, start, st) \<in> measure (\<lambda>(_, part, start, _). length part - start)" by auto
qed auto

declare parse_loop.simps [simp del]

definition ParseStructuredPart :: "syslog_m_t \<Rightarrow> string \<Rightarrow> string list \<Rightarrow> string option \<Rightarrow> bool \<times> syslog_m_t \<times> string option" where
  "ParseStructuredPart v part int_fields fwd_msg =
     (let (ok, st) = parse_loop int_fields part 0 \<lparr>sf_v = v, sf_msg = fwd_msg, sf_pos = 0\<rparr> in (ok, sf_v st, sf_msg st))"

section \<open>Filters\<close>

definition filter_msg :: "syslog_m_t \<Rightarrow> bool" where
  "filter_msg v =
     (let tag = GetMapVals v ''tag'' ''UNKNOWN''; reason = GetMapVals v ''reason'' ''UNKNOWN''
      in if tag = ''APPQOE_BEST_PATH_SELECTED'' \<and> (reason = ''session close'' \<or> reason = ''app detected'') then False
         else if (tag = ''SNMP_TRAP_LINK_UP'' \<or> tag = ''SNMP_TRAP_LINK_DOWN'') \<and> GetMapVals v ''role'' ''UNKNOWN'' = ''HUB'' \<and>
                 \<not> starts_with (GetMapVals v ''interface-name'' ''UNKNOWN'') ''st'' then False
         else True)"

definition filter_session_close_msg :: "syslog_m_t \<Rightarrow> bool" where
  "filter_session_close_msg v =
     (let ri = GetMapVals v ''routing-instance'' ''UNKNOWN'' in length ri > 3 \<and> starts_with ri ''LAN-'')"

definition filter_vol_update_msg :: "syslog_m_t \<Rightarrow> bool" where
  "filter_vol_update_msg v =
     (let department = GetMapVals v ''source-zone-name'' ''UNKNOWN'' in starts_with department ''trust'' \<or> starts_with department ''untrust'')"

section \<open>Statistics and JSON\<close>

text \<open>The attributes and tags of the fields; an integer below zero and its tag are left out.\<close>

definition field_var :: "Holder \<Rightarrow> 'd Var option" where
  "field_var h = (case h of StrHolder _ s \<Rightarrow> Some (VString s) | IntHolder _ i \<Rightarrow> if 0 \<le>s i then Some (VUint64 i) else None)"

definition push_field :: "string list \<Rightarrow> 'd AttribMap \<times> 'd StatTagMap \<Rightarrow> string \<times> Holder \<Rightarrow> 'd AttribMap \<times> 'd StatTagMap" where
  "push_field tagged_fields acc entry =
     (let (attribs, tags) = acc; key = holder_key (snd entry)
      in case field_var (snd entry) of None \<Rightarrow> acc
         | Some value \<Rightarrow> (map_insert key value attribs,
             if key \<in> set tagged_fields then map_insert key \<lparr>tv_prefix = ('''', VInvalid), tv_val = value\<rparr> tags else tags))"

definition PushStructuredSyslogStats :: "syslog_m_t \<Rightarrow> string list \<Rightarrow> 'd StatWalker \<Rightarrow> 'd StatWalker outcome" where
  "PushStructuredSyslogStats v tagged_fields w =
     (let (attribs, tags) = foldl (push_field tagged_fields) ([], []) v
      in bind_outcome (Push ''data'' tags attribs w) Pop)"

definition PushStructuredSyslogTopLevelTags :: "syslog_m_t \<Rightarrow> 'd StatTagMap" where
  "PushStructuredSyslogTopLevelTags v =
     [(''Source'', \<lparr>tv_prefix = ('''', VInvalid), tv_val = VString (GetMapVals v ''hostname'' (GetMapVals v ''ip'' ''''))\<rparr>)]"

text \<open>The calls of \<open>StatTableInsert\<close> with their time and the name of the statistics.\<close>

type_synonym 'd stat_insert = "u64 \<times> string \<times> 'd stat_call"

definition StructuredSyslogPush :: "(string \<Rightarrow> i64) \<Rightarrow> syslog_m_t \<Rightarrow> string list \<Rightarrow> 'd stat_insert list outcome" where
  "StructuredSyslogPush stale v tagged_fields =
     bind_outcome (PushStructuredSyslogStats v tagged_fields (new_StatWalker (PushStructuredSyslogTopLevelTags v))) (\<lambda>w.
     bind_outcome (destroy_StatWalker w) (\<lambda>cs. Ret (map (\<lambda>c. (GetMapVal stale v ''timestamp'' 0, ''JunosSyslog'', c)) cs)))"

definition field_json :: "Holder \<Rightarrow> string \<times> 'd json" where
  "field_json h = (c_str (holder_key h), case h of StrHolder _ s \<Rightarrow> JString (c_str s) | IntHolder _ i \<Rightarrow> JInt (uint i))"

definition StructuredSyslogJsonMessage :: "('d json \<Rightarrow> string) \<Rightarrow> syslog_m_t \<Rightarrow> string" where
  "StructuredSyslogJsonMessage writer v = c_str (writer (JObject (map (\<lambda>(_, h). field_json h) v)))"

section \<open>Completing the fields\<close>

text \<open>\<open>boost::split\<close> at \<open>@\<close> with adjacent separators merged, and the address parser.\<close>

record syslog_deco_lib =
  split_at :: "string \<Rightarrow> string list"
  addr_is_v6 :: "string \<Rightarrow> bool option"
  iequals :: "string \<Rightarrow> string \<Rightarrow> bool"
  deco_stale :: "string \<Rightarrow> i64"

definition set_str :: "string \<Rightarrow> string \<Rightarrow> syslog_m_t \<Rightarrow> syslog_m_t" where
  "set_str k s v = put_str k s (map_erase k v)"

text \<open>A field that is replaced and written into the message when it is not empty.\<close>

definition deco_field :: "string \<Rightarrow> string \<Rightarrow> syslog_fields \<Rightarrow> syslog_fields" where
  "deco_field key val st =
     (if val = '''' then st
      else let (msg, pos) = DecorateMsg (sf_msg st) key val (sf_pos st) in \<lparr>sf_v = set_str key val (sf_v st), sf_msg = msg, sf_pos = pos\<rparr>)"

text \<open>\<open>ParseStructuredPart\<close> on a text of the configuration, when it is not empty; its result is not used.\<close>

definition deco_tags :: "string list \<Rightarrow> string \<Rightarrow> syslog_fields \<Rightarrow> syslog_fields" where
  "deco_tags int_fields tags st =
     (if tags = '''' then st
      else let (_, v, msg) = ParseStructuredPart (sf_v st) tags int_fields (sf_msg st) in st\<lparr>sf_v := v, sf_msg := msg\<rparr>)"

definition sla_profile_of :: "syslog_m_t \<Rightarrow> string" where
  "sla_profile_of v =
     (let sla_rule = GetMapVals v ''sla-rule'' '''' in
      if sla_rule \<noteq> '''' then sla_rule
      else let rn = GetMapVals v ''rule-name'' '''' in
           if rn = '''' then ''DEFAULT''
           else case find_last_char CHR ''_'' rn of Some start \<Rightarrow> drop (Suc start) rn | None \<Rightarrow> ''DEFAULT'')"

definition deco_start :: "(string \<Rightarrow> i64) \<Rightarrow> syslog_fields \<Rightarrow> syslog_fields \<times> string" where
  "deco_start stale st =
     (let v = sf_v st; total_bytes = GetMapVal stale v ''bytes-from-client'' 0 + GetMapVal stale v ''bytes-from-server'' 0;
          (msg1, pos1) = DecorateMsg (sf_msg st) ''total-bytes'' (show_int (sint total_bytes)) (sf_pos st);
          v1 = put_str ''device'' ''UNKNOWN'' (put_str ''location'' ''UNKNOWN'' (put_str ''tenant'' ''UNKNOWN'' (put_int ''total-bytes'' total_bytes v)));
          sla = sla_profile_of v1;
          (msg2, pos2) = DecorateMsg msg1 ''sla-profile'' sla pos1
      in (\<lparr>sf_v = put_str ''sla-profile'' sla v1, sf_msg = msg2, sf_pos = pos2\<rparr>, sla))"

definition link_fields :: "string list" where
  "link_fields = [''destination-interface-name'', ''last-incoming-interface-name'', ''uplink-incoming-interface-name'', ''last-destination-interface-name'']"

text \<open>The four parts of a link of the host; \<open>Abort\<close> when the text splits into fewer.\<close>

definition deco_link :: "syslog_deco_lib \<Rightarrow> (string \<times> string) list \<Rightarrow> syslog_m_t \<Rightarrow> string \<Rightarrow> syslog_m_t outcome" where
  "deco_link lib linkmap v link =
     (let overlay = GetMapVals v link ''''
      in if overlay = '''' \<or> overlay = ''N/A'' then Ret v
         else case map_of linkmap overlay of None \<Rightarrow> Ret v
              | Some parts \<Rightarrow>
                  (case split_at lib parts of
                     underlay # link_type # traffic_destination # metadata # _ \<Rightarrow>
                       Ret (put_str (''metadata-'' @ link) metadata (put_str (''traffic-destination-'' @ link) traffic_destination
                         (put_str (''link-type-'' @ link) link_type (put_str (''underlay-'' @ link) underlay v))))
                   | _ \<Rightarrow> Abort))"

definition deco_dscp :: "syslog_deco_lib \<Rightarrow> TenantRecord \<Rightarrow> syslog_m_t \<Rightarrow> syslog_m_t" where
  "deco_dscp lib tr v =
     (let dscp_value = (let d = GetMapVals v ''dscp-value'' '''' in if d = '''' then GetMapVals v ''ip-dscp'' '''' else d);
          destination_address = GetMapVals v ''destination-address'' ''UNKNOWN'';
          ip_version = (if destination_address \<noteq> ''UNKNOWN'' then get_ip_version (addr_is_v6 lib) destination_address else 4);
          alias_code = (if ip_version = 4 then map_of (tr_dscpmap_ipv4 tr) dscp_value
                   else if ip_version = 6 then map_of (tr_dscpmap_ipv6 tr) dscp_value else None)
      in if dscp_value = '''' then v else case alias_code of None \<Rightarrow> v | Some a \<Rightarrow> put_str ''dscp-alias-code'' a v)"

definition deco_tenant :: "syslog_deco_lib \<Rightarrow> string list \<Rightarrow> TenantRecord option \<Rightarrow> syslog_fields \<Rightarrow> syslog_fields" where
  "deco_tenant lib int_fields tr st =
     (case tr of None \<Rightarrow> st
      | Some r \<Rightarrow>
          (let st1 = (if tr_tenantaddr r = '''' then st else st\<lparr>sf_v := put_str ''tenantaddr'' (tr_tenantaddr r) (sf_v st)\<rparr>);
               st2 = deco_tags int_fields (tr_tags r) st1
           in st2\<lparr>sf_v := deco_dscp lib r (sf_v st2)\<rparr>))"

definition StructuredSyslogDecorate ::
    "syslog_deco_lib \<Rightarrow> StructuredSyslogConfig \<Rightarrow> string list \<Rightarrow> syslog_m_t \<times> string option \<Rightarrow> (syslog_m_t \<times> string option) outcome" where
  "StructuredSyslogDecorate lib c int_fields arg =
     (let (v, msg) = arg; (st1, sla_profile) = deco_start (deco_stale lib) \<lparr>sf_v = v, sf_msg = msg, sf_pos = 0\<rparr>
      in case GetHostnameRecord (GetMapVals (sf_v st1) ''hostname'' '''') c of
           None \<Rightarrow> Ret (sf_v st1, sf_msg st1)
         | Some hr \<Rightarrow>
             (let st2 = deco_tags int_fields (hr_tags hr)
                     (deco_field ''device'' (hr_device hr) (deco_field ''location'' (hr_location hr) (deco_field ''tenant'' (hr_tenant hr) st1)))
              in bind_outcome (foldl_outcome (deco_link lib (hr_linkmap hr)) (sf_v st2) link_fields) (\<lambda>v3.
                   (let st4 = deco_tenant lib int_fields (GetTenantRecord (hr_tenant hr) c) (st2\<lparr>sf_v := v3\<rparr>);
                        st5 = (case GetSlaProfileRecord (hr_tenant hr @ ''/'' @ hr_device hr @ ''/'' @ sla_profile) c of
                                 None \<Rightarrow> st4 | Some r \<Rightarrow> deco_tags int_fields (sla_params r) st4)
                    in Ret (sf_v st5, sf_msg st5)))))"


section \<open>Reading attributes back\<close>

definition structured_text :: "(string \<times> string) list \<Rightarrow> string" where
  "structured_text kvs = join '' '' (map (\<lambda>(k, val). attribute_text k val) kvs)"

definition plain_attribute :: "string \<times> string \<Rightarrow> bool" where
  "plain_attribute kv \<longleftrightarrow> CHR ''='' \<notin> set (fst kv) \<and> CHR 0x22 \<notin> set (snd kv)"

lemma find_char_from_prefix: "find_char_from c (pre @ s) (length pre) = map_option (\<lambda>i. i + length pre) (find_char c s)"
  by (simp add: find_char_from_def)

lemma parse_loop_past_end: "length part \<le> start \<Longrightarrow> parse_loop int_fields part start st = (True, st)"
  by (subst parse_loop.simps) (simp add: find_char_from_def)

lemma parse_attribute:
  assumes "plain_attribute (k, val)"
  shows "parse_loop ints (pre @ attribute_text k val @ rest) (length pre) st =
    parse_loop ints (pre @ attribute_text k val @ rest) (length (pre @ attribute_text k val) + 1) (put_field ints st (k, val))"
proof -
  let ?part = "pre @ attribute_text k val @ rest"
  have 1: "find_char_from CHR ''='' ?part (length pre) = Some (length pre + length k)"
    using assms by (simp add: find_char_from_prefix attribute_text_def plain_attribute_def find_char_append)
  have split: "?part = (pre @ k @ ''='' @ [CHR 0x22]) @ val @ CHR 0x22 # rest" by (simp add: attribute_text_def)
  have 2: "find_char_from CHR 0x22 ?part (length pre + length k + 2) = Some (length pre + length k + 2 + length val)"
    using find_char_from_prefix[of "CHR 0x22" "pre @ k @ ''='' @ [CHR 0x22]" "val @ CHR 0x22 # rest"] assms
    by (simp only: split) (simp add: plain_attribute_def find_char_append)
  have "take (length k) (drop (length pre) ?part) = k" "take (length val) (drop (length pre + length k + 2) ?part) = val"
    by (simp_all add: attribute_text_def)
  with 1 2 show ?thesis by (subst parse_loop.simps) (simp add: attribute_text_def add.assoc)
qed

lemma parse_attributes:
  assumes "list_all plain_attribute kvs" and "kvs \<noteq> []"
  shows "parse_loop ints (pre @ structured_text kvs) (length pre) st = (True, foldl (put_field ints) st kvs)"
  using assms
proof (induction kvs arbitrary: pre st)
  case (Cons kv kvs)
  obtain k val where kv: "kv = (k, val)" by (cases kv)
  have plain: "plain_attribute (k, val)" using Cons.prems(1) kv by simp
  show ?case
  proof (cases kvs)
    case Nil
    then have "structured_text (kv # kvs) = attribute_text k val @ ''''" by (simp add: structured_text_def kv)
    with parse_attribute[OF plain, of ints pre "''''" st] Nil show ?thesis by (simp add: kv parse_loop_past_end)
  next
    case (Cons kv' kvs')
    then have printed: "structured_text (kv # kvs) = attribute_text k val @ '' '' @ structured_text kvs"
      by (cases kv') (simp add: structured_text_def kv)
    let ?pre = "pre @ attribute_text k val @ '' ''"
    have "parse_loop ints (?pre @ structured_text kvs) (length ?pre) (put_field ints st kv) = (True, foldl (put_field ints) (put_field ints st kv) kvs)"
      by (rule Cons.IH) (use Cons.prems Cons in auto)
    then show ?thesis using parse_attribute[OF plain, of ints pre "'' '' @ structured_text kvs" st] by (simp add: printed[unfolded kv] kv)
  qed
qed simp

lemma ParseStructuredPart_text:
  assumes "list_all plain_attribute kvs"
  shows "ParseStructuredPart v (structured_text kvs) ints msg =
    (let st = foldl (put_field ints) \<lparr>sf_v = v, sf_msg = msg, sf_pos = 0\<rparr> kvs in (True, sf_v st, sf_msg st))"
proof (cases "kvs = []")
  case True
  then show ?thesis by (simp add: ParseStructuredPart_def structured_text_def parse_loop_past_end Let_def)
next
  case False
  with parse_attributes[OF assms False, of ints "''''" "\<lparr>sf_v = v, sf_msg = msg, sf_pos = 0\<rparr>"] show ?thesis
    by (simp add: ParseStructuredPart_def Let_def)
qed

definition field_holder :: "string list \<Rightarrow> string \<Rightarrow> string \<Rightarrow> Holder" where
  "field_holder ints k val = (if k \<in> set ints then IntHolder k (word_of_int (strtol (c_str val))) else StrHolder k val)"

lemma sf_v_put_field: "sf_v (put_field ints st (k, val)) = map_insert k (field_holder ints k val) (sf_v st)"
  by (simp add: put_field_def field_holder_def put_int_def put_str_def Let_def case_prod_unfold)

lemma fields_of_attributes:
  assumes "sorted_map (sf_v st)"
  shows "sorted_map (sf_v (foldl (put_field ints) st kvs)) \<and>
    map_of (sf_v (foldl (put_field ints) st kvs)) k =
      (case map_of (sf_v st) k of Some h \<Rightarrow> Some h | None \<Rightarrow> map_option (field_holder ints k) (map_of kvs k))"
  using assms
proof (induction kvs arbitrary: st)
  case (Cons kv kvs)
  obtain k' val where kv: "kv = (k', val)" by (cases kv)
  have "sorted_map (sf_v (put_field ints st kv))" using Cons.prems by (simp add: kv sf_v_put_field sorted_map_insert)
  with Cons.IH[OF this] Cons.prems show ?case by (auto simp: kv sf_v_put_field map_of_insert split: option.splits)
qed (simp split: option.splits)

text \<open>The message to forward with the attributes written in front of its first closing bracket; without a bracket it stays
  as it is.\<close>

definition written_attributes :: "(string \<times> string) list \<Rightarrow> string" where
  "written_attributes kvs = concat (map (\<lambda>(k, val). '' '' @ attribute_text k val) kvs)"

definition decorated :: "(string \<times> string) list \<Rightarrow> string \<Rightarrow> string" where
  "decorated kvs m =
     (case find_char CHR '']'' m of None \<Rightarrow> m | Some pos \<Rightarrow> take pos m @ written_attributes kvs @ drop pos m)"

definition unbracketed :: "string \<times> string \<Rightarrow> bool" where
  "unbracketed kv \<longleftrightarrow> CHR '']'' \<notin> set (fst kv) \<and> CHR '']'' \<notin> set (snd kv)"

lemma DecorateMsg_bracket:
  assumes "pos \<le> length a" and "CHR '']'' \<notin> set (drop pos a)"
  shows "DecorateMsg (Some (a @ CHR '']'' # b)) k val pos = (Some (a @ '' '' @ attribute_text k val @ CHR '']'' # b), length a)"
proof -
  have "drop pos (a @ CHR '']'' # b) = drop pos a @ CHR '']'' # b" using assms(1) by simp
  then have "find_char_from CHR '']'' (a @ CHR '']'' # b) pos = Some (length a)"
    using find_char_append[OF assms(2), of b] assms(1) by (simp add: find_char_from_def)
  then show ?thesis by (simp add: DecorateMsg_def)
qed

lemma sf_msg_put_field:
  "sf_msg (put_field ints st (k, val)) = fst (DecorateMsg (sf_msg st) k val (sf_pos st))"
  "sf_pos (put_field ints st (k, val)) = snd (DecorateMsg (sf_msg st) k val (sf_pos st))"
  by (simp_all add: put_field_def Let_def split: prod.split)

lemma attributes_written:
  assumes "list_all unbracketed kvs" and "sf_msg st = Some (a @ CHR '']'' # b)" and "sf_pos st \<le> length a" and "CHR '']'' \<notin> set (drop (sf_pos st) a)"
  shows "sf_msg (foldl (put_field ints) st kvs) = Some (a @ written_attributes kvs @ CHR '']'' # b)"
  using assms
proof (induction kvs arbitrary: st a)
  case (Cons kv kvs)
  obtain k val where kv: "kv = (k, val)" by (cases kv)
  let ?a = "a @ '' '' @ attribute_text k val"
  note put = sf_msg_put_field[of ints st k val, unfolded Cons.prems(2) DecorateMsg_bracket[OF Cons.prems(3,4)]]
  have "sf_msg (foldl (put_field ints) (put_field ints st (k, val)) kvs) = Some (?a @ written_attributes kvs @ CHR '']'' # b)"
    by (rule Cons.IH) (use Cons.prems(1) put in \<open>simp_all add: kv unbracketed_def attribute_text_def\<close>)
  then show ?case by (simp add: kv written_attributes_def)
qed (simp add: written_attributes_def)

lemma attributes_not_written:
  assumes "case sf_msg st of None \<Rightarrow> True | Some m \<Rightarrow> CHR '']'' \<notin> set m"
  shows "sf_msg (foldl (put_field ints) st kvs) = sf_msg st"
  using assms
proof (induction kvs arbitrary: st)
  case (Cons kv kvs)
  obtain k val where kv: "kv = (k, val)" by (cases kv)
  have "find_char_from CHR '']'' m pos = None" if "CHR '']'' \<notin> set m" for pos m
    using that by (auto simp: find_char_from_def dest: in_set_dropD)
  then have "sf_msg (put_field ints st kv) = sf_msg st"
    using Cons.prems by (auto simp: kv sf_msg_put_field DecorateMsg_def split: option.splits)
  with Cons show ?case by simp
qed simp

lemma message_decorated:
  assumes "list_all unbracketed kvs"
  shows "sf_msg (foldl (put_field ints) \<lparr>sf_v = v, sf_msg = msg, sf_pos = 0\<rparr> kvs) = map_option (decorated kvs) msg"
proof (cases "case msg of None \<Rightarrow> True | Some m \<Rightarrow> CHR '']'' \<notin> set m")
  case True
  have "find_char CHR '']'' m = None" if "CHR '']'' \<notin> set m" for m using that by simp
  with True show ?thesis
    using attributes_not_written[of "\<lparr>sf_v = v, sf_msg = msg, sf_pos = 0\<rparr>" ints kvs] by (cases msg) (simp_all add: decorated_def del: find_char_None)
next
  case False
  then obtain a b where m: "msg = Some (a @ CHR '']'' # b)" "CHR '']'' \<notin> set a" by (auto split: option.splits dest!: split_list_first)
  then show ?thesis using attributes_written[OF assms, of "\<lparr>sf_v = v, sf_msg = msg, sf_pos = 0\<rparr>" a b ints] by (simp add: decorated_def find_char_append)
qed

text \<open>
  C19: the attributes of a message are read back. From a text made of attributes whose names contain no equals sign and whose
  values contain no quote, every attribute is stored under its name, the first one if a name is repeated and
  none over a field that is there already; the value is the text, or its number for the names configured as integers.
  When no name or value contains a closing bracket, the message to forward gets exactly these attributes, in order and
  repeated ones too, in front of its first closing bracket, and nothing else of it changes.
\<close>

theorem attributes_round_trip:
  assumes "list_all plain_attribute kvs" and "sorted_map v"
  shows "\<exists>v' msg'. ParseStructuredPart v (structured_text kvs) ints msg = (True, v', msg') \<and> sorted_map v' \<and>
    (map_of v' = (\<lambda>k. case map_of v k of Some h \<Rightarrow> Some h | None \<Rightarrow> map_option (field_holder ints k) (map_of kvs k))) \<and>
    (list_all unbracketed kvs \<longrightarrow> msg' = map_option (decorated kvs) msg)"
  using fields_of_attributes[of "\<lparr>sf_v = v, sf_msg = msg, sf_pos = 0\<rparr>" ints kvs] assms(2) message_decorated[of kvs ints v msg]
  by (auto simp: ParseStructuredPart_text[OF assms(1)] Let_def)

theorem attributes_round_trip_witness:
  "\<exists>v'. ParseStructuredPart [] (structured_text [(''reason'', ''TCP RST''), (''bytes'', ''1421''), (''reason'', ''x'')]) [''bytes''] (Some ''T [h]'') =
       (True, v', Some (''T [h'' @ '' '' @ attribute_text ''reason'' ''TCP RST'' @ '' '' @ attribute_text ''bytes'' ''1421'' @ '' '' @ attribute_text ''reason'' ''x'' @ '']'')) \<and>
     map_of v' ''reason'' = Some (StrHolder ''reason'' ''TCP RST'') \<and> map_of v' ''bytes'' = Some (IntHolder ''bytes'' 1421)"
proof -
  let ?kvs = "[(''reason'', ''TCP RST''), (''bytes'', ''1421''), (''reason'', ''x'')]"
  have "list_all plain_attribute ?kvs" "list_all unbracketed ?kvs" by (simp_all add: plain_attribute_def unbracketed_def)
  moreover have "sorted_map ([] :: syslog_m_t)" by simp
  moreover have "strtol (c_str ''1421'') = 1421" by code_simp
  moreover have "decorated ?kvs ''T [h]'' =
      ''T [h'' @ '' '' @ attribute_text ''reason'' ''TCP RST'' @ '' '' @ attribute_text ''bytes'' ''1421'' @ '' '' @ attribute_text ''reason'' ''x'' @ '']''"
    by code_simp
  ultimately show ?thesis
    using attributes_round_trip[of ?kvs "[]" "[''bytes'']" "Some ''T [h]''"]
    by (fastforce simp: field_holder_def)
qed

text \<open>A closing bracket in a value takes the next attribute into the value: the search for the bracket starts in front of
  the attribute written last.\<close>

lemma bracket_splits_value:
  assumes "CHR '']'' \<notin> set a" and "CHR '']'' \<notin> set k" and "CHR '']'' \<notin> set x" and "DecorateMsg (Some (a @ CHR '']'' # b)) k (x @ CHR '']'' # y) 0 = (msg, pos)"
  shows "fst (DecorateMsg msg k' val pos) =
    Some (a @ '' '' @ k @ ''='' @ [CHR 0x22] @ x @ '' '' @ attribute_text k' val @ CHR '']'' # y @ [CHR 0x22] @ CHR '']'' # b)"
proof -
  let ?a = "a @ '' '' @ k @ ''='' @ [CHR 0x22] @ x"
  have "msg = Some (?a @ CHR '']'' # y @ [CHR 0x22] @ CHR '']'' # b)" "pos = length a"
    using assms(4) DecorateMsg_bracket[of 0 a b k "x @ CHR '']'' # y"] assms(1) by (simp_all add: attribute_text_def)
  with DecorateMsg_bracket[of pos ?a "y @ [CHR 0x22] @ CHR '']'' # b" k' val] assms(2,3) show ?thesis by simp
qed

section \<open>The statistics of a message\<close>

text \<open>The fields as they are to appear in the statistics.\<close>

definition field_attribs :: "syslog_m_t \<Rightarrow> 'd AttribMap" where
  "field_attribs v = List.map_filter (\<lambda>(k, h). map_option (\<lambda>x. (k, x)) (field_var h)) v"

definition field_tags :: "string list \<Rightarrow> syslog_m_t \<Rightarrow> 'd StatTagMap" where
  "field_tags tagged v = map (\<lambda>(k, x). (k, \<lparr>tv_prefix = ('''', VInvalid), tv_val = x\<rparr>)) (filter (\<lambda>(k, _). k \<in> set tagged) (field_attribs v))"

text \<open>The keys of the map are those of the holders, which every insertion of the sources keeps.\<close>

definition fields_ok :: "syslog_m_t \<Rightarrow> bool" where
  "fields_ok v \<longleftrightarrow> sorted_map v \<and> list_all (\<lambda>(k, h). holder_key h = k) v"

lemma field_attribs_keys: "fst ` set (field_attribs v) \<subseteq> fst ` set v"
  by (force simp: field_attribs_def List.map_filter_def split: prod.splits)

lemma field_attribs_snoc: "field_attribs (v @ [(k, h)]) = field_attribs v @ (case field_var h of None \<Rightarrow> [] | Some x \<Rightarrow> [(k, x)])"
  by (simp add: field_attribs_def List.map_filter_def split: option.splits)

lemma push_fields:
  fixes v :: syslog_m_t
  assumes "fields_ok v"
  shows "foldl (push_field tagged) ([], []) v = (field_attribs v :: 'd AttribMap, field_tags tagged v) \<and>
    sorted_map (field_attribs v :: 'd AttribMap) \<and> sorted_map (field_tags tagged v :: 'd StatTagMap)"
  using assms
proof (induction v rule: rev_induct)
  case (snoc e v)
  obtain k h where e: "e = (k, h)" by (cases e)
  have ok: "fields_ok v" "holder_key h = k" and above: "\<forall>x \<in> fst ` set v. x < k"
    using snoc.prems by (auto simp: fields_ok_def e sorted_wrt_append)
  note ih = snoc.IH[OF ok(1)]
  let ?a = "field_attribs v :: 'd AttribMap" and ?t = "field_tags tagged v :: 'd StatTagMap"
  show ?case
  proof (cases "field_var h :: 'd Var option")
    case None
    then have same: "field_attribs (v @ [e]) = ?a" "field_tags tagged (v @ [e]) = ?t" by (simp_all add: e field_attribs_snoc field_tags_def)
    have "foldl (push_field tagged) ([], []) (v @ [e]) = foldl (push_field tagged) ([], [] :: 'd StatTagMap) v"
      using None ih ok(2) by (simp add: e push_field_def)
    with same ih show ?thesis by simp
  next
    case (Some x)
    let ?tag = "\<lparr>tv_prefix = ('''', VInvalid), tv_val = x\<rparr>"
    have a: "field_attribs (v @ [e]) = ?a @ [(k, x)]" using Some by (simp add: e field_attribs_snoc)
    have t: "field_tags tagged (v @ [e]) = (if k \<in> set tagged then ?t @ [(k, ?tag)] else ?t)" by (simp add: field_tags_def a)
    have sub: "fst ` set ?t \<subseteq> fst ` set ?a" by (force simp: field_tags_def)
    have "\<forall>y \<in> fst ` set ?a. y < k" using field_attribs_keys[of v] above by blast
    with sub have "\<forall>y \<in> fst ` set ?a. y < k" "\<forall>y \<in> fst ` set ?t. y < k" by blast+
    with ih have s: "sorted_map (?a @ [(k, x)])" "sorted_map (?t @ [(k, ?tag)])" by (auto simp: sorted_wrt_append)
    have "foldl (push_field tagged) ([], []) (v @ [e]) = push_field tagged (?a, ?t) e" using ih by simp
    also have "\<dots> = (?a @ [(k, x)], if k \<in> set tagged then ?t @ [(k, ?tag)] else ?t)"
      using map_insert_at_end[OF s(1)] map_insert_at_end[OF s(2)] Some ok(2) by (simp add: e push_field_def)
    finally show ?thesis using ih s by (simp add: a t)
  qed
qed (simp add: field_attribs_def field_tags_def List.map_filter_def)


lemma PushStructuredSyslogStats_walk:
  fixes w :: "'d StatWalker"
  assumes "fields_ok v"
  shows "PushStructuredSyslogStats v tagged w = walk (StatTree ''data'' (field_tags tagged v) (field_attribs v) []) w"
  using push_fields[where ?'d = 'd, OF assms, of tagged]
  by (cases "Push ''data'' (field_tags tagged v) (field_attribs v) w") (simp_all add: PushStructuredSyslogStats_def)

text \<open>
  C21: the statistics of a structured syslog message. When no field has a dot in its name, exactly one record is
  inserted, under the name \<open>JunosSyslog\<close>, for \<open>data\<close> and with the time of the message: its attributes are all fields, integers only when they are
  not negative, its tags are the configured fields and the host the message came from.
\<close>

theorem message_statistics:
  assumes "fields_ok v" and "list_all (\<lambda>(k, _). CHR ''.'' \<notin> set k) v"
  shows "(StructuredSyslogPush stale v tagged :: 'd stat_insert list outcome) =
    (let tags = foldl FillTag [] (PushStructuredSyslogTopLevelTags v @ on_path [''data''] (field_tags tagged v))
     in Ret [(GetMapVal stale v ''timestamp'' 0, ''JunosSyslog'', ''data'', tags, foldl add_tag_attribs (on_path [''data''] (field_attribs v)) tags)])"
proof -
  have undotted: "list_all (\<lambda>(k, _). CHR ''.'' \<notin> set k) (field_attribs v :: 'd AttribMap)"
    using assms(2) field_attribs_keys[of v] by (fastforce simp: list_all_iff)
  then have "list_all (\<lambda>(k, _). CHR ''.'' \<notin> set k) (field_tags tagged v :: 'd StatTagMap)" by (auto simp: field_tags_def list_all_iff)
  with undotted push_fields[where ?'d = 'd, OF assms(1)]
  have "good_tree (StatTree ''data'' (field_tags tagged v) (field_attribs v) [] :: 'd stat_tree)" by auto
  from walk_reports(1)[OF this, of "new_StatWalker (PushStructuredSyslogTopLevelTags v)"] show ?thesis
    unfolding StructuredSyslogPush_def PushStructuredSyslogStats_walk[OF assms(1)] by (simp add: new_StatWalker_def destroy_StatWalker_def Let_def del: walk.simps)
qed

theorem message_statistics_witness:
  "StructuredSyslogPush (\<lambda>_. 0) [(''bytes'', IntHolder ''bytes'' 7), (''hostname'', StrHolder ''hostname'' ''h''), (''timestamp'', IntHolder ''timestamp'' 99)] [''bytes''] =
    (Ret [(99, ''JunosSyslog'', ''data'', [(''Source'', VString ''h'', []), (''data.bytes'', VUint64 7, [])],
      [(''Source'', VString ''h''), (''data.bytes'', VUint64 7), (''data.hostname'', VString ''h''), (''data.timestamp'', VUint64 99)])] :: nat stat_insert list outcome)"
proof -
  let ?v = "[(''bytes'', IntHolder ''bytes'' 7), (''hostname'', StrHolder ''hostname'' ''h''), (''timestamp'', IntHolder ''timestamp'' 99)]"
  have "fields_ok ?v" "list_all (\<lambda>(k, _). CHR ''.'' \<notin> set k) ?v" by (simp_all add: fields_ok_def)
  moreover have "field_attribs ?v = [(''bytes'', VUint64 7), (''hostname'', VString ''h''), (''timestamp'', VUint64 99 :: nat Var)]"
    by (simp add: field_attribs_def List.map_filter_def field_var_def word_sle_eq)
  ultimately show ?thesis
    using message_statistics[of ?v "\<lambda>_. 0" "[''bytes'']", where ?'d = nat]
    by (simp add: field_tags_def PushStructuredSyslogTopLevelTags_def on_path_def FillTag_def add_tag_attribs_def GetMapVals_def GetMapVal_def Let_def)
qed

lemma qualify_dotted: "k \<in> fst ` set kvs \<Longrightarrow> CHR ''.'' \<in> set k \<Longrightarrow> qualify pre kvs m = Abort"
  by (induction pre kvs m rule: qualify.induct) auto

text \<open>
  A dot in the name of an attribute stops the collector. The names come from the message, but the statistics
  walker asserts that no name contains a dot: any sender of a stored message with such an attribute makes the assertion fail.
\<close>

theorem dotted_attribute_aborts:
  assumes "fields_ok v" and "map_of v k = Some (StrHolder k s)" and "CHR ''.'' \<in> set k"
  shows "StructuredSyslogPush stale v tagged = (Abort :: 'd stat_insert list outcome)"
proof -
  have "(k, VString s) \<in> set (field_attribs v :: 'd AttribMap)"
    using map_of_SomeD[OF assms(2)] by (force simp: field_attribs_def List.map_filter_def field_var_def)
  then have "qualify pre (field_attribs v :: 'd AttribMap) m = Abort" for pre m using assms(3) by (intro qualify_dotted[of k]) force+
  moreover have "bind_outcome r (\<lambda>_. Abort) = Abort" for r :: "'d StatTagMap outcome" by (cases r) simp_all
  ultimately have "Push ''data'' tags (field_attribs v) w = Abort" for tags and w :: "'d StatWalker"
    by (simp add: Push_def Let_def)
  then show ?thesis by (simp add: StructuredSyslogPush_def PushStructuredSyslogStats_walk[OF assms(1)])
qed

theorem dotted_attribute_aborts_witness:
  "ParseStructuredPart [] (structured_text [(''a.b'', ''1'')]) [] None = (True, [(''a.b'', StrHolder ''a.b'' ''1'')], None) \<and>
   StructuredSyslogPush (\<lambda>_. 0) [(''a.b'', StrHolder ''a.b'' ''1'')] [] = (Abort :: nat stat_insert list outcome)"
proof
  have "list_all plain_attribute [(''a.b'', ''1'')]" by (simp add: plain_attribute_def)
  from ParseStructuredPart_text[OF this] show "ParseStructuredPart [] (structured_text [(''a.b'', ''1'')]) [] None = (True, [(''a.b'', StrHolder ''a.b'' ''1'')], None)"
    by (simp add: put_field_def put_str_def DecorateMsg_def Let_def)
  show "StructuredSyslogPush (\<lambda>_. 0) [(''a.b'', StrHolder ''a.b'' ''1'')] [] = (Abort :: nat stat_insert list outcome)"
    by (rule dotted_attribute_aborts[of _ "''a.b''" "''1''"]) (simp_all add: fields_ok_def)
qed


section \<open>Decoration\<close>

text \<open>\<open>v'\<close> has all fields of \<open>v\<close>, with the same values except for the names in \<open>S\<close>.\<close>

definition extends :: "string set \<Rightarrow> syslog_m_t \<Rightarrow> syslog_m_t \<Rightarrow> bool" where
  "extends S v v' \<longleftrightarrow> fields_ok v' \<and> (\<forall>k. k \<notin> S \<longrightarrow> map_of v k \<noteq> None \<longrightarrow> map_of v' k = map_of v k)"

lemma extends_refl: "fields_ok v \<Longrightarrow> extends S v v"
  by (simp add: extends_def)

lemma extends_trans: "extends S v v' \<Longrightarrow> extends S v' v'' \<Longrightarrow> extends S v v''"
  by (auto simp: extends_def)

lemma extends_mono: "extends {} v v' \<Longrightarrow> extends S v v'"
  by (auto simp: extends_def)

lemma extends_lookup: "extends S v v' \<Longrightarrow> map_of v k = Some h \<Longrightarrow> k \<notin> S \<Longrightarrow> map_of v' k = Some h"
  by (auto simp: extends_def)

lemma keys_map_insert: "list_all (\<lambda>(k, h). P k h) m \<Longrightarrow> P k v \<Longrightarrow> list_all (\<lambda>(k, h). P k h) (map_insert k v m)"
  by (induction k v m rule: map_insert.induct) auto

lemma put_extends: "fields_ok v \<Longrightarrow> extends {} v (put_str k s v)" "fields_ok v \<Longrightarrow> extends {} v (put_int k i v)"
  by (auto simp: extends_def fields_ok_def put_str_def put_int_def sorted_map_insert map_of_insert intro!: keys_map_insert)

lemma set_str_extends: "fields_ok v \<Longrightarrow> extends {k} v (set_str k s v) \<and> map_of (set_str k s v) k = Some (StrHolder k s)"
proof -
  assume ok: "fields_ok v"
  then have "fields_ok (map_erase k v)" by (auto simp: fields_ok_def list_all_iff) (auto simp: map_erase_def)
  from put_extends(1)[OF this, of k s] ok show ?thesis
    by (auto simp: extends_def set_str_def put_str_def map_of_insert fields_ok_def)
qed

lemma put_field_extends: "fields_ok (sf_v st) \<Longrightarrow> extends {} (sf_v st) (sf_v (put_field ints st kv))"
  by (cases kv) (auto simp: put_field_def Let_def case_prod_unfold intro: put_extends)

lemma parse_loop_extends: "fields_ok (sf_v st) \<Longrightarrow> extends {} (sf_v st) (sf_v (snd (parse_loop ints part start st)))"
proof (induction ints part start st rule: parse_loop.induct)
  case (1 ints part start st)
  show ?case
  proof (cases "find_char_from CHR ''='' part start")
    case None
    then show ?thesis using "1.prems" by (subst parse_loop.simps) (simp add: extends_refl)
  next
    case (Some e1)
    show ?thesis
    proof (cases "find_char_from CHR 0x22 part (e1 + 2)")
      case None
      then show ?thesis using "1.prems" Some by (subst parse_loop.simps) (simp add: extends_refl)
    next
      case (Some e2)
      let ?st = "put_field ints st (take (e1 - start) (drop start part), take (e2 - (e1 + 2)) (drop (e1 + 2) part))"
      have "parse_loop ints part start st = parse_loop ints part (e2 + 2) ?st"
        using Some \<open>find_char_from CHR ''='' part start = Some e1\<close> by (subst parse_loop.simps) simp
      moreover have st: "extends {} (sf_v st) (sf_v ?st)" by (rule put_field_extends[OF "1.prems"])
      ultimately show ?thesis
        using "1.IH"[OF \<open>find_char_from CHR ''='' part start = Some e1\<close> Some] extends_trans[OF st] by (simp add: extends_def)
    qed
  qed
qed

lemma ParseStructuredPart_extends:
  "fields_ok v \<Longrightarrow> ParseStructuredPart v part ints msg = (ok, v', msg') \<Longrightarrow> extends {} v v'"
  using parse_loop_extends[of "\<lparr>sf_v = v, sf_msg = msg, sf_pos = 0\<rparr>" ints part 0]
  by (auto simp: ParseStructuredPart_def Let_def case_prod_unfold)

lemma deco_tags_extends: "fields_ok (sf_v st) \<Longrightarrow> extends {} (sf_v st) (sf_v (deco_tags ints tags st))"
  using ParseStructuredPart_extends[of "sf_v st" tags ints "sf_msg st"]
  by (cases "ParseStructuredPart (sf_v st) tags ints (sf_msg st)") (simp add: deco_tags_def extends_refl)

lemma deco_field_extends:
  "fields_ok (sf_v st) \<Longrightarrow> extends {k} (sf_v st) (sf_v (deco_field k s st)) \<and> (s \<noteq> '''' \<longrightarrow> map_of (sf_v (deco_field k s st)) k = Some (StrHolder k s))"
  using set_str_extends[of "sf_v st" k s] by (auto simp: deco_field_def extends_refl Let_def case_prod_unfold)

lemma puts_extend:
  "extends {} v w \<Longrightarrow> extends {} v (put_str k s w)" "extends {} v w \<Longrightarrow> extends {} v (put_int k i w)"
proof -
  have "fields_ok w" if "extends {} v w" using that by (simp add: extends_def)
  then show "extends {} v w \<Longrightarrow> extends {} v (put_str k s w)" "extends {} v w \<Longrightarrow> extends {} v (put_int k i w)"
    using put_extends[of w] by (blast intro: extends_trans)+
qed

lemma deco_start_extends: "fields_ok (sf_v st) \<Longrightarrow> extends {} (sf_v st) (sf_v (fst (deco_start stale st)))"
  by (auto simp: deco_start_def Let_def case_prod_unfold intro!: puts_extend extends_refl)

lemma deco_link_extends: "extends {} v0 v \<Longrightarrow> deco_link lib m v l = Ret v' \<Longrightarrow> extends {} v0 v'"
  by (auto simp: deco_link_def Let_def intro!: puts_extend split: if_splits option.splits list.splits)

lemma deco_dscp_extends: "fields_ok v \<Longrightarrow> extends {} v (deco_dscp lib r v)"
  by (auto simp: deco_dscp_def Let_def intro!: put_extends extends_refl split: option.split)

lemma deco_tenant_extends: "fields_ok (sf_v st) \<Longrightarrow> extends {} (sf_v st) (sf_v (deco_tenant lib ints tr st))"
proof (cases tr)
  case (Some r)
  assume ok: "fields_ok (sf_v st)"
  let ?st1 = "if tr_tenantaddr r = '''' then st else st\<lparr>sf_v := put_str ''tenantaddr'' (tr_tenantaddr r) (sf_v st)\<rparr>"
  have 1: "extends {} (sf_v st) (sf_v ?st1)" using ok by (simp add: extends_refl put_extends)
  have 2: "extends {} (sf_v ?st1) (sf_v (deco_tags ints (tr_tags r) ?st1))" by (rule deco_tags_extends) (use 1 in \<open>simp add: extends_def\<close>)
  have "extends {} (sf_v (deco_tags ints (tr_tags r) ?st1)) (deco_dscp lib r (sf_v (deco_tags ints (tr_tags r) ?st1)))"
    by (rule deco_dscp_extends) (use 2 in \<open>simp add: extends_def\<close>)
  with extends_trans[OF extends_trans[OF 1 2]] Some show ?thesis by (simp add: deco_tenant_def Let_def)
qed (simp add: deco_tenant_def extends_refl)


lemma deco_link_runs:
  assumes "list_all (\<lambda>(_, parts). 4 \<le> length (split_at lib parts)) m"
  shows "\<exists>v'. deco_link lib m v l = Ret v'"
proof (cases "map_of m (GetMapVals v l '''')")
  case (Some parts)
  then have "4 \<le> length (split_at lib parts)" using assms map_of_SomeD[OF Some] by (auto simp: list_all_iff)
  then obtain a b c d r where "split_at lib parts = a # b # c # d # r"
    by (metis Suc_le_length_iff numeral_eq_Suc pred_numeral_simps(2) semiring_norm(26,27) eval_nat_numeral(2,3))
  with Some show ?thesis by (simp add: deco_link_def Let_def)
qed (simp add: deco_link_def Let_def)

text \<open>
  C20: what decoration does to a message. If every link in the configuration splits into its four parts, decoration succeeds. Every field
  the message brought keeps its value, except the tenant, location and device, which are those of the host's record
  when the record names them.
\<close>

theorem decoration_keeps_fields:
  assumes "fields_ok v"
    and "case GetHostnameRecord (GetMapVals v ''hostname'' '''') c of None \<Rightarrow> True
         | Some hr \<Rightarrow> list_all (\<lambda>(_, parts). 4 \<le> length (split_at lib parts)) (hr_linkmap hr)"
  shows "\<exists>v' msg'. StructuredSyslogDecorate lib c ints (v, msg) = Ret (v', msg') \<and> extends {''tenant'', ''location'', ''device''} v v' \<and>
    (case GetHostnameRecord (GetMapVals v ''hostname'' '''') c of None \<Rightarrow> True
     | Some hr \<Rightarrow> list_all (\<lambda>(k, s). s = '''' \<or> map_of v' k = Some (StrHolder k s))
         [(''tenant'', hr_tenant hr), (''location'', hr_location hr), (''device'', hr_device hr)])"
proof -
  let ?S = "{''tenant'', ''location'', ''device''}"
  obtain st1 sla where st1: "deco_start (deco_stale lib) \<lparr>sf_v = v, sf_msg = msg, sf_pos = 0\<rparr> = (st1, sla)" by (cases "deco_start (deco_stale lib) \<lparr>sf_v = v, sf_msg = msg, sf_pos = 0\<rparr>")
  have e1: "extends {} v (sf_v st1)" using deco_start_extends[of "\<lparr>sf_v = v, sf_msg = msg, sf_pos = 0\<rparr>" "deco_stale lib"] assms(1) st1 by simp
  have host: "GetMapVals (sf_v st1) ''hostname'' '''' = GetMapVals v ''hostname'' ''''"
  proof -
    have s: "sorted_map v" using assms(1) by (simp add: fields_ok_def)
    show ?thesis using st1 s by (auto simp: deco_start_def Let_def case_prod_unfold put_simps)
  qed
  show ?thesis
  proof (cases "GetHostnameRecord (GetMapVals v ''hostname'' '''') c")
    case None
    with st1 host e1 show ?thesis by (auto simp: StructuredSyslogDecorate_def intro: extends_mono)
  next
    case (Some hr)
    let ?a = "deco_field ''tenant'' (hr_tenant hr) st1"
    let ?b = "deco_field ''location'' (hr_location hr) ?a" let ?d = "deco_field ''device'' (hr_device hr) ?b" let ?e = "deco_tags ints (hr_tags hr) ?d"
    have ok1: "fields_ok (sf_v st1)" using e1 by (simp add: extends_def)
    note a = deco_field_extends[OF ok1, of "''tenant''" "hr_tenant hr"]
    then have oka: "fields_ok (sf_v ?a)" by (simp add: extends_def)
    note b = deco_field_extends[OF oka, of "''location''" "hr_location hr"]
    then have okb: "fields_ok (sf_v ?b)" by (simp add: extends_def)
    note d = deco_field_extends[OF okb, of "''device''" "hr_device hr"]
    then have okd: "fields_ok (sf_v ?d)" by (simp add: extends_def)
    note e = deco_tags_extends[OF okd, of ints "hr_tags hr"]
    then have oke: "fields_ok (sf_v ?e)" by (simp add: extends_def)
    have links: "list_all (\<lambda>(_, parts). 4 \<le> length (split_at lib parts)) (hr_linkmap hr)" using assms(2) Some by simp
    have "\<exists>v3. foldl_outcome (deco_link lib (hr_linkmap hr)) (sf_v ?e) link_fields = Ret v3 \<and> extends {} (sf_v ?e) v3"
      by (rule foldl_outcome_runs[where P = "extends {} (sf_v ?e)", OF extends_refl[OF oke]])
        (use deco_link_runs[OF links] deco_link_extends in blast)
    then obtain v3 where v3: "foldl_outcome (deco_link lib (hr_linkmap hr)) (sf_v ?e) link_fields = Ret v3" "extends {} (sf_v ?e) v3" by blast
    let ?f = "deco_tenant lib ints (GetTenantRecord (hr_tenant hr) c) (?e\<lparr>sf_v := v3\<rparr>)"
    let ?g = "case GetSlaProfileRecord (hr_tenant hr @ ''/'' @ hr_device hr @ ''/'' @ sla) c of None \<Rightarrow> ?f | Some r \<Rightarrow> deco_tags ints (sla_params r) ?f"
    have f: "extends {} v3 (sf_v ?f)" using deco_tenant_extends[of "?e\<lparr>sf_v := v3\<rparr>"] v3(2) by (simp add: extends_def)
    then have g: "extends {} (sf_v ?f) (sf_v ?g)" using deco_tags_extends[of ?f ints] by (auto simp: extends_refl extends_def[of "{}" v3] split: option.split)
    have tail: "extends {} (sf_v ?d) (sf_v ?g)" using extends_trans[OF e extends_trans[OF v3(2) extends_trans[OF f g]]] .
    have widen: "extends ?S x y" if "extends {k} x y" "k \<in> ?S" for k x y using that by (auto simp: extends_def)
    have "extends ?S (sf_v st1) (sf_v ?d)"
      using extends_trans[OF widen[OF conjunct1[OF a]] extends_trans[OF widen[OF conjunct1[OF b]] widen[OF conjunct1[OF d]]]] by simp
    with e1 tail have all: "extends ?S v (sf_v ?g)" by (blast intro: extends_trans extends_mono)
    have keep: "map_of (sf_v ?g) k = Some h" if "map_of (sf_v ?d) k = Some h" for k h using extends_lookup[OF tail that] by simp
    have "hr_tenant hr \<noteq> '''' \<Longrightarrow> map_of (sf_v ?d) ''tenant'' = Some (StrHolder ''tenant'' (hr_tenant hr))"
      using a extends_lookup[OF conjunct1[OF b]] extends_lookup[OF conjunct1[OF d]] by simp
    moreover have "hr_location hr \<noteq> '''' \<Longrightarrow> map_of (sf_v ?d) ''location'' = Some (StrHolder ''location'' (hr_location hr))"
      using b extends_lookup[OF conjunct1[OF d]] by simp
    moreover have "hr_device hr \<noteq> '''' \<Longrightarrow> map_of (sf_v ?d) ''device'' = Some (StrHolder ''device'' (hr_device hr))" using d by simp
    moreover have "StructuredSyslogDecorate lib c ints (v, msg) = Ret (sf_v ?g, sf_msg ?g)"
      using st1 host Some v3(1) by (simp add: StructuredSyslogDecorate_def Let_def)
    ultimately show ?thesis using all Some keep by auto
  qed
qed

text \<open>A splitter for texts of four one-letter parts.\<close>

theorem decoration_keeps_fields_witness:
  "\<exists>v' msg'. StructuredSyslogDecorate \<lparr>split_at = (\<lambda>_. [''u'', ''t'', ''d'', ''m'']), addr_is_v6 = (\<lambda>_. None), iequals = (=), deco_stale = (\<lambda>_. 0)\<rparr>
      ((new_StructuredSyslogConfig 1)\<lparr>hostname_records := [(''h'', (one_host ''h'' ''L'')\<lparr>hr_linkmap := [(''o'', ''u@t@d@m'')]\<rparr>)]\<rparr>) []
      ([(''hostname'', StrHolder ''hostname'' ''h''), (''location'', StrHolder ''location'' ''x''), (''reason'', StrHolder ''reason'' ''r'')], None) = Ret (v', msg') \<and>
    map_of v' ''reason'' = Some (StrHolder ''reason'' ''r'') \<and> map_of v' ''location'' = Some (StrHolder ''location'' ''L'')"
proof -
  let ?v = "[(''hostname'', StrHolder ''hostname'' ''h''), (''location'', StrHolder ''location'' ''x''), (''reason'', StrHolder ''reason'' ''r'')]"
  let ?c = "(new_StructuredSyslogConfig 1)\<lparr>hostname_records := [(''h'', (one_host ''h'' ''L'')\<lparr>hr_linkmap := [(''o'', ''u@t@d@m'')]\<rparr>)]\<rparr>"
  let ?lib = "\<lparr>split_at = (\<lambda>_. [''u'', ''t'', ''d'', ''m'']), addr_is_v6 = (\<lambda>_. None), iequals = (=), deco_stale = (\<lambda>_. 0)\<rparr>"
  let ?hr = "(one_host ''h'' ''L'')\<lparr>hr_linkmap := [(''o'', ''u@t@d@m'')]\<rparr>"
  have ok: "fields_ok ?v" by (simp add: fields_ok_def)
  have host: "GetHostnameRecord (GetMapVals ?v ''hostname'' '''') ?c = Some ((one_host ''h'' ''L'')\<lparr>hr_linkmap := [(''o'', ''u@t@d@m'')]\<rparr>)"
    by (simp add: GetHostnameRecord_def GetMapVals_def)
  have "case GetHostnameRecord (GetMapVals ?v ''hostname'' '''') ?c of None \<Rightarrow> True
    | Some hr \<Rightarrow> list_all (\<lambda>(_, parts). 4 \<le> length (split_at ?lib parts)) (hr_linkmap hr)" by (simp add: host)
  from decoration_keeps_fields[OF ok this, of "[]" None, unfolded host option.case] obtain v' msg' where
    r: "StructuredSyslogDecorate ?lib ?c [] (?v, None) = Ret (v', msg')" "extends {''tenant'', ''location'', ''device''} ?v v'"
      "list_all (\<lambda>(k, s). s = '''' \<or> map_of v' k = Some (StrHolder k s)) [(''tenant'', hr_tenant ?hr), (''location'', hr_location ?hr), (''device'', hr_device ?hr)]"
    by (elim exE conjE)
  from r(3) have l: "map_of v' ''location'' = Some (StrHolder ''location'' ''L'')" by (simp add: one_host_def)
  have "map_of v' ''reason'' = Some (StrHolder ''reason'' ''r'')" by (rule extends_lookup[OF r(2)]) simp_all
  with r(1) l show ?thesis by blast
qed

text \<open>An empty part of a link and a splitter that merges adjacent separators, as \<open>token_compress_on\<close> documents.\<close>

lemma empty_link_part_aborts:
  assumes "GetMapVals v l '''' = overlay" and "overlay \<notin> {'''', ''N/A''}" and "map_of m overlay = Some (underlay @ ''@'' @ link_type @ ''@@'' @ metadata)"
    and "split_at lib (underlay @ ''@'' @ link_type @ ''@@'' @ metadata) = [underlay, link_type, metadata]"
  shows "deco_link lib m v l = Abort"
  using assms by (simp add: deco_link_def Let_def)

end
