(* ===== verification/Sdwan_Uve.thy ===== *)
theory Sdwan_Uve
  imports Structured_Syslog Complex_Main
begin

text \<open>
  \<open>structured_syslog_server.cc\<close>, the summaries: from the fields of a message the collector makes UVEs with
  the metrics of a site, a tenant and the traffic between sites. Cumulative traffic counters of a session are
  turned into differences with the help of the counters kept in the configuration. The arithmetic on
  \<open>double\<close> in the link score is an argument.
\<close>

section \<open>Metrics and UVEs\<close>

text \<open>The optional fields of \<open>sdwan_uve.sandesh\<close> the sources set.\<close>

record SDWANMetrics_diff =
  md_session_duration :: "u64 option"
  md_session_count :: "u64 option"
  md_total_bytes :: "u64 option"
  md_input_bytes :: "u64 option"
  md_output_bytes :: "u64 option"
  md_total_pkts :: "u64 option"
  md_input_pkts :: "u64 option"
  md_output_pkts :: "u64 option"
  md_sla_violation_duration :: "u64 option"
  md_sla_violation_count :: "u64 option"
  md_session_switch_count :: "u64 option"
  md_jitter_violation_count :: "u64 option"
  md_rtt_violation_count :: "u64 option"
  md_pkt_loss_violation_count :: "u64 option"

definition no_diff :: SDWANMetrics_diff where
  "no_diff = \<lparr>md_session_duration = None, md_session_count = None, md_total_bytes = None, md_input_bytes = None, md_output_bytes = None,
     md_total_pkts = None, md_input_pkts = None, md_output_pkts = None, md_sla_violation_duration = None, md_sla_violation_count = None,
     md_session_switch_count = None, md_jitter_violation_count = None, md_rtt_violation_count = None, md_pkt_loss_violation_count = None\<rparr>"

record SDWANMetrics_dial =
  ml_rtt :: "u64 option"
  ml_pkt_loss :: "u64 option"
  ml_rtt_jitter :: "u64 option"
  ml_egress_jitter :: "u64 option"
  ml_ingress_jitter :: "u64 option"
  ml_score :: "u64 option"

record SDWANKPIMetrics_diff =
  mk_session_close_count :: "u64 option"
  mk_bps :: "u64 option"

type_synonym diff_map = "(string \<times> SDWANMetrics_diff) list option"
type_synonym dial_map = "(string \<times> SDWANMetrics_dial) list option"

record SDWANMetricsRecord =
  sm_name :: string
  app_metrics_diff_sla :: diff_map
  app_metrics_diff_user :: diff_map
  app_metrics_diff_link :: diff_map
  link_metrics_diff_traffic_type :: diff_map
  app_metrics_dial_sla :: dial_map
  app_metrics_dial_user :: dial_map
  app_metrics_dial_link :: dial_map
  link_metrics_dial_traffic_type :: dial_map

record SDWANTenantMetricsRecord =
  st_name :: string
  tenant_metrics_diff_sla :: diff_map
  tenant_metrics_dial_sla :: dial_map

record SDWANKPIMetricsRecord =
  sk_name :: string
  kpi_metrics_greater_diff :: "(string \<times> SDWANKPIMetrics_diff) list option"
  kpi_metrics_lesser_diff :: "(string \<times> SDWANKPIMetrics_diff) list option"

datatype sdwan_uve = SDWANMetrics SDWANMetricsRecord | SDWANTenantMetrics SDWANTenantMetricsRecord | SDWANKPIMetrics SDWANKPIMetricsRecord

definition new_SDWANMetricsRecord :: "string \<Rightarrow> SDWANMetricsRecord" where
  "new_SDWANMetricsRecord name = \<lparr>sm_name = name, app_metrics_diff_sla = None, app_metrics_diff_user = None, app_metrics_diff_link = None,
     link_metrics_diff_traffic_type = None, app_metrics_dial_sla = None, app_metrics_dial_user = None, app_metrics_dial_link = None,
     link_metrics_dial_traffic_type = None\<rparr>"

definition new_SDWANTenantMetricsRecord :: "string \<Rightarrow> SDWANTenantMetricsRecord" where
  "new_SDWANTenantMetricsRecord name = \<lparr>st_name = name, tenant_metrics_diff_sla = None, tenant_metrics_dial_sla = None\<rparr>"

section \<open>Names\<close>

abbreviation field :: "syslog_m_t \<Rightarrow> string \<Rightarrow> string" where
  "field v k \<equiv> GetMapVals v k ''UNKNOWN''"

definition uvename :: "syslog_m_t \<Rightarrow> string" where
  "uvename v = field v ''tenant'' @ ''::'' @ field v ''location'' @ ''::'' @ field v ''device''"

definition tenantuvename :: "syslog_m_t \<Rightarrow> string" where
  "tenantuvename v = GetMapVals v ''region'' ''DEFAULT'' @ ''::'' @ GetMapVals v ''OPCO'' ''DEFAULT'' @ ''::'' @ field v ''tenant''"

definition app_names :: "syslog_deco_lib \<Rightarrow> syslog_m_t \<Rightarrow> string \<times> string" where
  "app_names lib v =
     (let nested = field v ''nested-application''; app = field v ''application''; service = field v ''service-name''
      in if iequals lib nested ''UNKNOWN'' \<and> iequals lib app ''UNKNOWN'' \<and> \<not> iequals lib service ''UNKNOWN'' \<and> \<not> iequals lib service ''None''
         then (service, service) else (nested, app))"

definition tt_app_dept_info :: "syslog_deco_lib \<Rightarrow> syslog_m_t \<Rightarrow> string \<Rightarrow> string \<Rightarrow> string" where
  "tt_app_dept_info lib v traffic_type dscp_key =
     (let (nested, app) = app_names lib v
      in traffic_type @ ''('' @ nested @ ''@'' @ dscp_key @ '':'' @ app @ ''/'' @ field v ''app-category'' @ '')'' @ ''::'' @ field v ''source-zone-name'' @ ''::'')"

definition username_of :: "syslog_deco_lib \<Rightarrow> syslog_m_t \<Rightarrow> string" where
  "username_of lib v = (let u = field v ''username'' in if iequals lib u ''unknown'' then field v ''source-address'' else u)"

text \<open>A link with the parts the decoration stored for the field \<open>f\<close> that names it.\<close>

definition link_info :: "syslog_m_t \<Rightarrow> string \<Rightarrow> string \<Rightarrow> string \<Rightarrow> string" where
  "link_info v link f traffic_destination =
     link @ ''@'' @ field v (''underlay-'' @ f) @ ''@'' @ field v (''link-type-'' @ f) @ ''@'' @ traffic_destination @ ''@'' @ field v (''metadata-'' @ f)"

definition strip_hub :: "nat \<Rightarrow> string \<Rightarrow> string" where
  "strip_hub n s = (if length s > n + 4 \<and> take 4 (drop n s) = ''hub-'' then drop (n + 4) s else drop n s)"

definition get_VPNName :: "string \<Rightarrow> string" where
  "get_VPNName ri =
     (if length ri > 16 \<and> starts_with ri ''Default-reverse-'' then strip_hub 16 ri
      else if length ri > 8 \<and> starts_with ri ''Default-'' then strip_hub 8 ri
      else if length ri > 5 \<and> starts_with ri ''mpls-'' then strip_hub 5 ri
      else if length ri > 9 \<and> starts_with ri ''internet-'' then strip_hub 9 ri
      else ri)"

definition get_VPNName_department :: "syslog_deco_lib \<Rightarrow> string \<Rightarrow> string \<Rightarrow> string \<Rightarrow> string" where
  "get_VPNName_department lib department network_segmentation tenant_name =
     (if iequals lib network_segmentation ''Disabled'' \<or> iequals lib department ''Default'' then tenant_name @ ''_DefaultVPN'' else department)"

section \<open>Session counters\<close>

record traffic =
  tf_total_bytes :: i64
  tf_bytes_from_client :: i64
  tf_bytes_from_server :: i64
  tf_packets_from_server :: i64
  tf_packets_from_client :: i64

definition current_traffic :: "(string \<Rightarrow> i64) \<Rightarrow> syslog_m_t \<Rightarrow> traffic" where
  "current_traffic stale v =
     \<lparr>tf_total_bytes = GetMapVal stale v ''total-bytes'' 0, tf_bytes_from_client = GetMapVal stale v ''bytes-from-client'' 0,
      tf_bytes_from_server = GetMapVal stale v ''bytes-from-server'' 0, tf_packets_from_server = GetMapVal stale v ''packets-from-server'' 0,
      tf_packets_from_client = GetMapVal stale v ''packets-from-client'' 0\<rparr>"

definition traffic_counters :: "traffic \<Rightarrow> counters" where
  "traffic_counters t = [(''bytes-from-client'', tf_bytes_from_client t), (''bytes-from-server'', tf_bytes_from_server t),
     (''packets-from-client'', tf_packets_from_client t), (''packets-from-server'', tf_packets_from_server t), (''total-bytes'', tf_total_bytes t)]"

text \<open>\<open>operator[]\<close> of a map: 0 for a missing key.\<close>

definition counter :: "counters \<Rightarrow> string \<Rightarrow> u64" where
  "counter m k = (case map_of m k of None \<Rightarrow> 0 | Some x \<Rightarrow> x)"

definition counters_traffic :: "counters \<Rightarrow> traffic" where
  "counters_traffic m = \<lparr>tf_total_bytes = counter m ''total-bytes'', tf_bytes_from_client = counter m ''bytes-from-client'',
     tf_bytes_from_server = counter m ''bytes-from-server'', tf_packets_from_server = counter m ''packets-from-server'',
     tf_packets_from_client = counter m ''packets-from-client''\<rparr>"

definition no_traffic :: traffic where
  "no_traffic = \<lparr>tf_total_bytes = 0, tf_bytes_from_client = 0, tf_bytes_from_server = 0, tf_packets_from_server = 0, tf_packets_from_client = 0\<rparr>"

definition traffic_diff :: "traffic \<Rightarrow> traffic \<Rightarrow> traffic" where
  "traffic_diff a b = \<lparr>tf_total_bytes = tf_total_bytes a - tf_total_bytes b, tf_bytes_from_client = tf_bytes_from_client a - tf_bytes_from_client b,
     tf_bytes_from_server = tf_bytes_from_server a - tf_bytes_from_server b, tf_packets_from_server = tf_packets_from_server a - tf_packets_from_server b,
     tf_packets_from_client = tf_packets_from_client a - tf_packets_from_client b\<rparr>"

definition session_unique_key :: "syslog_m_t \<Rightarrow> string" where
  "session_unique_key v = uvename v @ ''::'' @ GetMapVals v ''session-id-32'' ''-1''"

definition is_close :: "syslog_m_t \<Rightarrow> bool" where
  "is_close v \<longleftrightarrow> field v ''tag'' = ''APPTRACK_SESSION_CLOSE''"

definition is_vol_update :: "syslog_m_t \<Rightarrow> bool" where
  "is_vol_update v \<longleftrightarrow> field v ''tag'' = ''APPTRACK_SESSION_VOL_UPDATE''"

definition process_vol_update :: "syslog_deco_lib \<Rightarrow> syslog_m_t \<Rightarrow> bool" where
  "process_vol_update lib v = iequals lib (GetMapVals v ''process-vol-update'' ''False'') ''True''"

text \<open>The difference to the last counters of the session, \<open>None\<close> when the map of sessions is full; a message
  whose counters are older than the stored ones counts nothing.\<close>

definition session_traffic :: "syslog_deco_lib \<Rightarrow> syslog_m_t \<Rightarrow> StructuredSyslogConfig \<Rightarrow> traffic option \<times> StructuredSyslogConfig" where
  "session_traffic lib v c =
     (let key = session_unique_key v; cur = current_traffic (deco_stale lib) v; found = FetchSyslogSessionCounters key c;
          prev = (case found of None \<Rightarrow> no_traffic | Some m \<Rightarrow> counters_traffic m);
          process_curr_counter = (found = None \<or>
            \<not> (tf_total_bytes cur <s tf_total_bytes prev \<or> tf_packets_from_client cur <s tf_packets_from_client prev));
          c1 = (if found \<noteq> None \<and> is_close v then snd (RemoveSyslogSessionCounter key c) else c);
          (added, c2) = (if \<not> is_close v \<and> process_vol_update lib v \<and> process_curr_counter
                         then AddSyslogSessionCounter key (traffic_counters cur) c1 else (True, c1))
      in (if \<not> added then None else Some (if process_curr_counter then traffic_diff cur prev else no_traffic), c2))"


section \<open>Summaries of traffic\<close>

definition contains_text :: "string \<Rightarrow> string \<Rightarrow> bool" where
  "contains_text t s \<longleftrightarrow> list_ex (\<lambda>i. starts_with (drop i t) s) [0..<Suc (length t)]"

text \<open>The traffic between sites: the record to send and whether the destination is a known site.\<close>

definition summarize_kpi :: "syslog_deco_lib \<Rightarrow> syslog_m_t \<Rightarrow> StructuredSyslogConfig \<Rightarrow> traffic \<Rightarrow> SDWANKPIMetricsRecord \<times> bool" where
  "summarize_kpi lib v c t =
     (let record0 = \<lparr>sk_name = field v ''location'', kpi_metrics_greater_diff = None, kpi_metrics_lesser_diff = None\<rparr>
      in if \<not> ((is_close v \<or> is_vol_update v) \<and> iequals lib (field v ''destination-zone-name'') ''trust'') then (record0, True)
         else
           (let routing_instance = field v ''routing-instance'';
                vpn_name = (if routing_instance \<noteq> ''UNKNOWN'' then get_VPNName routing_instance
                            else get_VPNName_department lib (field v ''source-zone-name'') (field v ''network-segmentation'') (field v ''tenantaddr''));
                metric = (if is_close v then \<lparr>mk_session_close_count = Some 1, mk_bps = None\<rparr>
                          else \<lparr>mk_session_close_count = None, mk_bps = Some (tf_total_bytes t)\<rparr>);
                site = (if vpn_name \<noteq> routing_instance
                        then FindNetwork (field v ''destination-address'') (field v ''tenant'' @ ''::'' @ vpn_name) (field v ''location'') c else '''');
                known = (vpn_name \<noteq> routing_instance \<and> site \<noteq> '''');
                m = Some [(if known then site else ''UNKNOWN'', metric)]
            in (if contains_text (field v ''HUBS'') (field v ''destination-interface-name'' @ '','')
                then record0\<lparr>kpi_metrics_greater_diff := m\<rparr> else record0\<lparr>kpi_metrics_lesser_diff := m\<rparr>, known)))"

text \<open>The two links of a message: name, description, bytes, traffic destination and type.\<close>

record link_use =
  lu_link :: string
  lu_info :: string
  lu_bytes :: i64
  lu_destination :: string
  lu_type :: string

definition hub_destination :: "string \<Rightarrow> bool \<Rightarrow> string" where
  "hub_destination d known = (if d = ''HUB'' \<or> d = ''EHUB'' then d @ (if known then ''2S'' else ''2CBO'') else d)"

definition plain_link :: "syslog_m_t \<Rightarrow> string \<Rightarrow> i64 \<Rightarrow> link_use" where
  "plain_link v f bytes =
     \<lparr>lu_link = field v f, lu_info = link_info v (field v f) f (field v (''traffic-destination-'' @ f)), lu_bytes = bytes,
      lu_destination = field v (''traffic-destination-'' @ f), lu_type = field v (''link-type-'' @ f)\<rparr>"

definition uplink_bytes :: "syslog_deco_lib \<Rightarrow> syslog_m_t \<Rightarrow> string \<Rightarrow> i64 \<Rightarrow> i64" where
  "uplink_bytes lib v k diff =
     (let b = GetMapVal (deco_stale lib) v k (-1) in if b <s 0 \<or> process_vol_update lib v then diff else b)"

definition session_links :: "syslog_deco_lib \<Rightarrow> syslog_m_t \<Rightarrow> bool \<Rightarrow> traffic \<Rightarrow> link_use \<times> link_use" where
  "session_links lib v known t =
     (let f = ''destination-interface-name''; g = ''uplink-incoming-interface-name'';
          b1 = uplink_bytes lib v ''uplink-tx-bytes'' (tf_bytes_from_client t); b2 = uplink_bytes lib v ''uplink-rx-bytes'' (tf_bytes_from_server t);
          dest = hub_destination (field v (''traffic-destination-'' @ f)) known;
          l1 = (plain_link v f b1)\<lparr>lu_info := link_info v (field v f) f dest, lu_destination := dest\<rparr>;
          link2 = (if process_vol_update lib v then ''N/A'' else GetMapVals v g ''N/A'')
      in if iequals lib link2 ''N/A''
         then (l1\<lparr>lu_bytes := tf_bytes_from_client t\<rparr>,
               \<lparr>lu_link = lu_link l1, lu_info = lu_info l1, lu_bytes = tf_bytes_from_server t, lu_destination = '''', lu_type = ''''\<rparr>)
         else (l1, (plain_link v g b2)\<lparr>lu_link := link2, lu_info := link_info v link2 g (field v (''traffic-destination-'' @ g))\<rparr>))"

definition nexthop_links :: "syslog_deco_lib \<Rightarrow> syslog_m_t \<Rightarrow> traffic \<Rightarrow> link_use \<times> link_use" where
  "nexthop_links lib v t =
     (let b1 = uplink_bytes lib v ''uplink-tx-bytes'' (tf_bytes_from_client t); b2 = uplink_bytes lib v ''uplink-rx-bytes'' (tf_bytes_from_server t)
      in if \<not> process_vol_update lib v
         then (plain_link v ''last-destination-interface-name'' b1, plain_link v ''last-incoming-interface-name'' b2)
         else let l1 = plain_link v ''destination-interface-name'' b1
              in (l1, \<lparr>lu_link = lu_link l1, lu_info = lu_info l1, lu_bytes = b2, lu_destination = '''', lu_type = ''''\<rparr>))"

definition close_counts :: "(string \<Rightarrow> i64) \<Rightarrow> syslog_m_t \<Rightarrow> SDWANMetrics_diff \<Rightarrow> SDWANMetrics_diff" where
  "close_counts stale v m =
     (if is_close v then m\<lparr>md_session_duration := Some (GetMapVal stale v ''elapsed-time'' 0), md_session_count := Some 1\<rparr> else m)"

definition session_metric :: "(string \<Rightarrow> i64) \<Rightarrow> syslog_m_t \<Rightarrow> traffic \<Rightarrow> SDWANMetrics_diff" where
  "session_metric stale v t =
     close_counts stale v (no_diff\<lparr>md_total_pkts := Some (tf_packets_from_server t + tf_packets_from_client t),
       md_input_pkts := Some (tf_packets_from_server t), md_output_pkts := Some (tf_packets_from_client t),
       md_total_bytes := Some (tf_total_bytes t), md_output_bytes := Some (tf_bytes_from_client t), md_input_bytes := Some (tf_bytes_from_server t)\<rparr>)"

definition link_metric :: "(string \<Rightarrow> i64) \<Rightarrow> syslog_m_t \<Rightarrow> i64 \<Rightarrow> i64 \<Rightarrow> SDWANMetrics_diff" where
  "link_metric stale v inb outb =
     close_counts stale v (no_diff\<lparr>md_total_bytes := Some (outb + inb), md_input_bytes := Some inb, md_output_bytes := Some outb\<rparr>)"

text \<open>The entries of the two links: one when both are the same link; \<open>insert\<close> keeps the first under equal keys.\<close>

definition link_entries :: "(string \<Rightarrow> i64) \<Rightarrow> syslog_m_t \<Rightarrow> link_use \<times> link_use \<Rightarrow> (link_use \<Rightarrow> string) \<Rightarrow> (string \<times> SDWANMetrics_diff) list" where
  "link_entries stale v ls key =
     (let (l1, l2) = ls
      in if lu_link l1 = lu_link l2 then [(key l1, link_metric stale v (lu_bytes l2) (lu_bytes l1))]
         else map_insert (key l2) (link_metric stale v (lu_bytes l2) 0) [(key l1, link_metric stale v 0 (lu_bytes l1))])"

definition data_dscp_key :: "syslog_m_t \<Rightarrow> string" where
  "data_dscp_key v =
     (if field v ''dscp-value'' = ''UNKNOWN'' then ''UNKNOWN''
      else if field v ''dscp-alias-code'' = ''UNKNOWN'' then ''DSCP-'' @ field v ''dscp-value'' else field v ''dscp-alias-code'')"

definition summary_records :: "syslog_deco_lib \<Rightarrow> syslog_m_t \<Rightarrow> bool \<Rightarrow> traffic \<Rightarrow> link_use \<times> link_use \<Rightarrow> SDWANMetricsRecord \<times> SDWANTenantMetricsRecord" where
  "summary_records lib v summarize_user t ls =
     (let stale = deco_stale lib; process = process_vol_update lib v;
          sla_profile = (if process then ''DEFAULT'' else field v ''sla-profile'');
          traffic_type = (if process then ''DEFAULT'' else field v ''active-probe-params'');
          app_info = tt_app_dept_info lib v traffic_type (data_dscp_key v);
          both = is_close v \<or> is_vol_update v;
          metric = session_metric stale v t
      in ((new_SDWANMetricsRecord (uvename v))
            \<lparr>app_metrics_diff_sla := (if both then Some [(app_info @ sla_profile, metric)] else None),
             app_metrics_diff_user := (if both \<and> summarize_user then Some [(app_info @ username_of lib v, metric)] else None),
             app_metrics_diff_link := Some (link_entries stale v ls (\<lambda>l. app_info @ lu_info l)),
             link_metrics_diff_traffic_type := Some (link_entries stale v ls (\<lambda>l. lu_info l @ ''::'' @ sla_profile @ ''::'' @ traffic_type))\<rparr>,
          (new_SDWANTenantMetricsRecord (tenantuvename v))
            \<lparr>tenant_metrics_diff_sla := Some (link_entries stale v ls
               (\<lambda>l. field v ''location'' @ ''::'' @ sla_profile @ ''::'' @ traffic_type @ ''@'' @ lu_destination l @ ''@'' @ lu_type l))\<rparr>))"

definition StructuredSyslogUVESummarizeData ::
    "syslog_deco_lib \<Rightarrow> syslog_m_t \<Rightarrow> bool \<Rightarrow> StructuredSyslogConfig \<Rightarrow> sdwan_uve list \<times> StructuredSyslogConfig" where
  "StructuredSyslogUVESummarizeData lib v summarize_user c =
     (if \<not> process_vol_update lib v \<and> is_vol_update v then ([], c)
      else case session_traffic lib v c of
             (None, c2) \<Rightarrow> ([], c2)
           | (Some t, c2) \<Rightarrow>
               (let (kpi, known) = summarize_kpi lib v c2 t;
                    ls = (if is_close v \<or> is_vol_update v then session_links lib v known t else nexthop_links lib v t);
                    (r, tr) = summary_records lib v summarize_user t ls
                in ([SDWANKPIMetrics kpi, SDWANMetrics r, SDWANTenantMetrics tr], c2)))"


section \<open>Link quality\<close>

text \<open>Arithmetic on \<open>double\<close>: conversion of integers, decimal literals (\<open>d_lit m e\<close> is \<open>m\<close> with \<open>e\<close> digits
  behind the point), the operations and the conversion back.\<close>

record 'd double_ops =
  d_int :: "int \<Rightarrow> 'd"
  d_lit :: "int \<Rightarrow> nat \<Rightarrow> 'd"
  d_add :: "'d \<Rightarrow> 'd \<Rightarrow> 'd"
  d_sub :: "'d \<Rightarrow> 'd \<Rightarrow> 'd"
  d_mul :: "'d \<Rightarrow> 'd \<Rightarrow> 'd"
  d_div :: "'d \<Rightarrow> 'd \<Rightarrow> 'd"
  d_less :: "'d \<Rightarrow> 'd \<Rightarrow> bool"
  d_trunc :: "'d \<Rightarrow> i64"

text \<open>Integer division of C++ rounds towards zero.\<close>

definition int_quot :: "i64 \<Rightarrow> int \<Rightarrow> int" where
  "int_quot a b = (let x = sint a in if x \<ge> 0 then x div b else - ((- x) div b))"

definition default_if_zero :: "i64 \<Rightarrow> int \<Rightarrow> i64" where
  "default_if_zero x d = (if x = 0 then word_of_int d else x)"

definition calculate_link_score :: "'d double_ops \<Rightarrow> i64 \<Rightarrow> i64 \<Rightarrow> i64 \<Rightarrow> i64 \<Rightarrow> i64 \<Rightarrow> i64 \<Rightarrow> i64 \<Rightarrow> 'd" where
  "calculate_link_score ops latency packet_loss jitter threshold latency_factor jitter_factor packet_loss_factor =
     (let int64 = (\<lambda>x. d_int ops (sint (x :: i64))); lit = d_lit ops; plus = d_add ops; minus = d_sub ops; times = d_mul ops; over = d_div ops;
          latency_ms = d_int ops (int_quot latency 1000); jitter_ms = d_int ops (int_quot jitter 1000);
          effective_latency = plus (plus (times latency_ms (over (int64 (default_if_zero latency_factor 100)) (lit 1000 1)))
                                         (times (over (int64 (default_if_zero jitter_factor 200)) (lit 1000 1)) jitter_ms)) (d_int ops 10);
          r0 = (if d_less ops effective_latency (int64 (default_if_zero threshold 160))
                then minus (lit 932 1) (over effective_latency (d_int ops 40))
                else minus (lit 932 1) (over (minus effective_latency (d_int ops 120)) (d_int ops 10)));
          r = minus r0 (over (int64 (packet_loss * default_if_zero packet_loss_factor 250)) (lit 1000 1));
          mos = (if d_less ops r (d_int ops 0) then d_int ops 1
                 else if d_less ops (d_int ops 0) r \<and> d_less ops r (d_int ops 100)
                 then plus (plus (d_int ops 1) (times (lit 35 3) r))
                           (times (times (times (lit 7 6) r) (minus r (d_int ops 60))) (minus (d_int ops 100) r))
                 else lit 45 1)
      in times mos (d_int ops 20))"

section \<open>Summaries of application quality\<close>

text \<open>Values that say that a probe failed.\<close>

definition measured :: "i64 \<Rightarrow> i64 \<Rightarrow> u64 option" where
  "measured bad x = (if x \<noteq> -1 \<and> x \<noteq> bad then Some x else None)"

definition dial_metric :: "'d double_ops \<Rightarrow> (string \<Rightarrow> i64) \<Rightarrow> syslog_m_t \<Rightarrow> SDWANMetrics_dial" where
  "dial_metric ops stale v =
     (let num = (\<lambda>k. GetMapVal stale v k (-1)); coeff = (\<lambda>k. GetMapVal stale v k 0);
          pkt_loss0 = num ''pkt-loss''; rtt = num ''rtt''; rtt_jitter = num ''rtt-jitter'';
          pkt_loss = (if pkt_loss0 \<noteq> -1 \<and> pkt_loss0 \<noteq> 255 \<and> 100 <s pkt_loss0 then 100 else pkt_loss0)
      in \<lparr>ml_rtt = measured 4294967295 rtt, ml_pkt_loss = measured 255 pkt_loss, ml_rtt_jitter = measured 4294967295 rtt_jitter,
          ml_egress_jitter = measured 4294967295 (num ''egress-jitter''), ml_ingress_jitter = measured 4294967295 (num ''ingress-jitter''),
          ml_score = (if measured 4294967295 rtt \<noteq> None \<and> measured 4294967295 rtt_jitter \<noteq> None \<and> measured 255 pkt_loss \<noteq> None
                      then Some (d_trunc ops (calculate_link_score ops (word_of_int (int_quot rtt 2)) pkt_loss rtt_jitter
                             (coeff ''effective-latency-threshold'') (coeff ''latency-factor'') (coeff ''jitter-factor'') (coeff ''packet-loss-factor'')))
                      else None)\<rparr>)"

definition qoe_dscp_key :: "string \<Rightarrow> string \<Rightarrow> string" where
  "qoe_dscp_key ip_dscp dscp_alias_code =
     (if ip_dscp = ''UNKNOWN'' then ''UNKNOWN'' else if dscp_alias_code = ''UNKNOWN'' then ''DSCP-'' @ ip_dscp else ''DSCP-'' @ dscp_alias_code)"

definition qoe_link_info :: "syslog_m_t \<Rightarrow> string \<Rightarrow> string" where
  "qoe_link_info v link = link_info v link ''destination-interface-name'' (field v ''traffic-destination-destination-interface-name'')"

definition qoe_app_info :: "syslog_deco_lib \<Rightarrow> syslog_m_t \<Rightarrow> string" where
  "qoe_app_info lib v = tt_app_dept_info lib v (field v ''active-probe-params'') (qoe_dscp_key (field v ''ip-dscp'') (field v ''dscp-alias-code''))"

text \<open>In this one the two fields are read the other way round.\<close>

definition bps_app_info :: "syslog_deco_lib \<Rightarrow> syslog_m_t \<Rightarrow> string" where
  "bps_app_info lib v = tt_app_dept_info lib v (field v ''active-probe-params'') (qoe_dscp_key (field v ''dscp-alias-code'') (field v ''ip-dscp''))"

definition traffic_key :: "syslog_m_t \<Rightarrow> string \<Rightarrow> string" where
  "traffic_key v s = s @ ''::'' @ field v ''sla-profile'' @ ''::'' @ field v ''active-probe-params''"

definition tenant_link_key :: "syslog_m_t \<Rightarrow> string" where
  "tenant_link_key v = traffic_key v (field v ''location'') @ ''@'' @ field v ''traffic-destination-destination-interface-name'' @ ''@'' @
     field v ''link-type-destination-interface-name''"

definition StructuredSyslogUVESummarizeAppQoePSMR :: "'d double_ops \<Rightarrow> syslog_deco_lib \<Rightarrow> syslog_m_t \<Rightarrow> bool \<Rightarrow> sdwan_uve list" where
  "StructuredSyslogUVESummarizeAppQoePSMR ops lib v summarize_user =
     (let m = dial_metric ops (deco_stale lib) v; app_info = qoe_app_info lib v; linkinfo = qoe_link_info v (field v ''destination-interface-name'')
      in [SDWANTenantMetrics ((new_SDWANTenantMetricsRecord (tenantuvename v))\<lparr>tenant_metrics_dial_sla := Some [(traffic_key v (field v ''location''), m)]\<rparr>),
          SDWANMetrics ((new_SDWANMetricsRecord (uvename v))
            \<lparr>app_metrics_dial_sla := Some [(app_info @ field v ''sla-profile'', m)],
             app_metrics_dial_user := (if summarize_user then Some [(app_info @ username_of lib v, m)] else None),
             app_metrics_dial_link := Some [(app_info @ linkinfo, m)],
             link_metrics_dial_traffic_type := Some [(traffic_key v linkinfo, m)]\<rparr>)])"

text \<open>The UVEs for a difference metric of one link.\<close>

definition diff_uves :: "syslog_deco_lib \<Rightarrow> syslog_m_t \<Rightarrow> bool \<Rightarrow> string \<Rightarrow> string \<Rightarrow> dial_map \<Rightarrow> SDWANMetrics_diff \<Rightarrow> sdwan_uve list" where
  "diff_uves lib v summarize_user app_info linkinfo user_dial m =
     [SDWANMetrics ((new_SDWANMetricsRecord (uvename v))
        \<lparr>app_metrics_diff_sla := Some [(app_info @ field v ''sla-profile'', m)],
         app_metrics_diff_user := (if summarize_user then Some [(app_info @ username_of lib v, m)] else None),
         app_metrics_diff_link := Some [(app_info @ linkinfo, m)],
         link_metrics_diff_traffic_type := Some [(traffic_key v linkinfo, m)],
         app_metrics_dial_user := (if summarize_user then user_dial else None)\<rparr>),
      SDWANTenantMetrics ((new_SDWANTenantMetricsRecord (tenantuvename v))\<lparr>tenant_metrics_diff_sla := Some [(tenant_link_key v, m)]\<rparr>)]"

definition StructuredSyslogUVESummarizeAppQoeBPS :: "syslog_deco_lib \<Rightarrow> syslog_m_t \<Rightarrow> bool \<Rightarrow> sdwan_uve list" where
  "StructuredSyslogUVESummarizeAppQoeBPS lib v summarize_user =
     (let switched = 2 <s GetMapVal (deco_stale lib) v ''elapsed-time'' 0 \<and> \<not> iequals lib (field v ''reason'') ''session close'';
          m = (if switched then no_diff\<lparr>md_session_switch_count := Some 1\<rparr> else no_diff)
      in diff_uves lib v summarize_user (bps_app_info lib v) (qoe_link_info v (field v ''previous-interface'')) None m)"

definition violation_metric :: "(string \<Rightarrow> i64) \<Rightarrow> syslog_m_t \<Rightarrow> SDWANMetrics_diff option" where
  "violation_metric stale v =
     (let reason = GetMapVal stale v ''violation-reason'' (-1); flag = (\<lambda>k. if GetMapVal stale v k 0 \<noteq> 0 then Some 1 else None)
      in if 0 <s reason then Some (no_diff\<lparr>md_sla_violation_count := Some 1, md_jitter_violation_count := flag ''jitter-violation-count'',
              md_rtt_violation_count := flag ''rtt-violation-count'', md_pkt_loss_violation_count := flag ''pkt-loss-violation-count''\<rparr>)
         else if reason = 0 then Some (no_diff\<lparr>md_sla_violation_duration := Some (GetMapVal stale v ''violation-duration'' 0)\<rparr>)
         else None)"

definition StructuredSyslogUVESummarizeAppQoeSMV :: "syslog_deco_lib \<Rightarrow> syslog_m_t \<Rightarrow> bool \<Rightarrow> sdwan_uve list" where
  "StructuredSyslogUVESummarizeAppQoeSMV lib v summarize_user =
     (case violation_metric (deco_stale lib) v of None \<Rightarrow> []
      | Some m \<Rightarrow> diff_uves lib v summarize_user (qoe_app_info lib v) (qoe_link_info v (field v ''destination-interface-name'')) (Some []) m)"

definition StructuredSyslogUVESummarizeAppQoeASMR :: "'d double_ops \<Rightarrow> syslog_deco_lib \<Rightarrow> syslog_m_t \<Rightarrow> sdwan_uve list" where
  "StructuredSyslogUVESummarizeAppQoeASMR ops lib v =
     (let m = dial_metric ops (deco_stale lib) v
      in [SDWANMetrics ((new_SDWANMetricsRecord (uvename v))
            \<lparr>link_metrics_dial_traffic_type := Some [(traffic_key v (qoe_link_info v (field v ''destination-interface-name'')), m)]\<rparr>),
          SDWANTenantMetrics ((new_SDWANTenantMetricsRecord (tenantuvename v))\<lparr>tenant_metrics_dial_sla := Some [(traffic_key v (field v ''location''), m)]\<rparr>)])"

definition StructuredSyslogUVESummarize ::
    "'d double_ops \<Rightarrow> syslog_deco_lib \<Rightarrow> syslog_m_t \<Rightarrow> bool \<Rightarrow> StructuredSyslogConfig \<Rightarrow> sdwan_uve list \<times> StructuredSyslogConfig" where
  "StructuredSyslogUVESummarize ops lib v summarize_user c =
     (let tag = field v ''tag''
      in if tag = ''APPTRACK_SESSION_CLOSE'' \<or> tag = ''APPTRACK_SESSION_VOL_UPDATE'' \<or> tag = ''RT_FLOW_NEXTHOP_CHANGE''
         then StructuredSyslogUVESummarizeData lib v summarize_user c
         else (if tag = ''APPQOE_BEST_PATH_SELECTED'' then StructuredSyslogUVESummarizeAppQoeBPS lib v summarize_user
               else if tag = ''APPQOE_PASSIVE_SLA_METRIC_REPORT'' \<or> tag = ''APPQOE_APP_PASSIVE_SLA_METRIC_REPORT''
               then StructuredSyslogUVESummarizeAppQoePSMR ops lib v summarize_user
               else if tag = ''APPQOE_ACTIVE_SLA_METRIC_REPORT'' then StructuredSyslogUVESummarizeAppQoeASMR ops lib v
               else if tag = ''APPQOE_SLA_METRIC_VIOLATION'' then StructuredSyslogUVESummarizeAppQoeSMV lib v summarize_user
               else [], c))"

section \<open>The bytes reported for a session\<close>

definition metric_bytes :: "SDWANMetrics_diff \<Rightarrow> u64" where
  "metric_bytes m = (case md_total_bytes m of None \<Rightarrow> 0 | Some n \<Rightarrow> n)"

text \<open>The bytes a UVE adds to the counters of applications by link.\<close>

fun uve_link_bytes :: "sdwan_uve \<Rightarrow> u64" where
  "uve_link_bytes (SDWANMetrics r) =
     (case app_metrics_diff_link r of None \<Rightarrow> 0 | Some es \<Rightarrow> sum_list (map (\<lambda>(_, m). metric_bytes m) es))"
| "uve_link_bytes _ = 0"

definition stored_link_bytes :: "string \<Rightarrow> StructuredSyslogConfig \<Rightarrow> u64" where
  "stored_link_bytes k c =
     (case FetchSyslogSessionCounters k c of None \<Rightarrow> 0
      | Some m \<Rightarrow> tf_bytes_from_client (counters_traffic m) + tf_bytes_from_server (counters_traffic m))"

definition message_link_bytes :: "(string \<Rightarrow> i64) \<Rightarrow> syslog_m_t \<Rightarrow> u64" where
  "message_link_bytes stale v = tf_bytes_from_client (current_traffic stale v) + tf_bytes_from_server (current_traffic stale v)"

text \<open>A history of messages, each with the flag that asks for summaries by user: the bytes reported for one session.\<close>

fun summarize_history ::
    "'d double_ops \<Rightarrow> syslog_deco_lib \<Rightarrow> string \<Rightarrow> (syslog_m_t \<times> bool) list \<Rightarrow> StructuredSyslogConfig \<Rightarrow> u64 \<times> StructuredSyslogConfig" where
  "summarize_history ops lib k [] c = (0, c)"
| "summarize_history ops lib k ((v, b) # vs) c =
     (let (us, c1) = StructuredSyslogUVESummarize ops lib v b c; (n, c2) = summarize_history ops lib k vs c1
      in ((if session_unique_key v = k then sum_list (map uve_link_bytes us) else 0) + n, c2))"

definition is_traffic :: "syslog_m_t \<Rightarrow> bool" where
  "is_traffic v \<longleftrightarrow> field v ''tag'' \<in> {''APPTRACK_SESSION_CLOSE'', ''APPTRACK_SESSION_VOL_UPDATE'', ''RT_FLOW_NEXTHOP_CHANGE''}"

lemma counters_traffic_round_trip [simp]: "counters_traffic (traffic_counters t) = t"
  by (simp add: counters_traffic_def traffic_counters_def counter_def)

lemma fetch_after_add:
  assumes "sorted_map (session_config_map c)"
  shows "FetchSyslogSessionCounters k (snd (AddSyslogSessionCounter key cs c)) =
      (if k = key \<and> fst (AddSyslogSessionCounter key cs c) then Some cs else FetchSyslogSessionCounters k c)"
  using assms by (auto simp: AddSyslogSessionCounter_def FetchSyslogSessionCounters_def map_of_assign)

lemma session_config_sorted:
  assumes "sorted_map (session_config_map c)"
  shows "sorted_map (session_config_map (snd (AddSyslogSessionCounter key cs c)))" "sorted_map (session_config_map (snd (RemoveSyslogSessionCounter key c)))"
  using assms by (simp_all add: AddSyslogSessionCounter_def RemoveSyslogSessionCounter_def sorted_map_assign)

lemma fetch_after_remove [simp]:
  "FetchSyslogSessionCounters k (snd (RemoveSyslogSessionCounter key c)) = (if k = key then None else FetchSyslogSessionCounters k c)"
  by (simp add: RemoveSyslogSessionCounter_def FetchSyslogSessionCounters_def)

text \<open>What one message changes of the stored counters.\<close>

lemma session_traffic_other:
  assumes "sorted_map (session_config_map c)" and "session_unique_key v \<noteq> k"
  shows "FetchSyslogSessionCounters k (snd (session_traffic lib v c)) = FetchSyslogSessionCounters k c"
  using assms fetch_after_add[OF session_config_sorted(2)[OF assms(1)], of k] fetch_after_add[OF assms(1), of k]
  by (auto simp: session_traffic_def Let_def split: prod.split) (metis snd_conv)+

lemma session_traffic_sorted:
  assumes "sorted_map (session_config_map c)"
  shows "sorted_map (session_config_map (snd (session_traffic lib v c)))"
  using assms session_config_sorted[OF session_config_sorted(2)[OF assms]] session_config_sorted[OF assms]
  by (auto simp: session_traffic_def Let_def split: prod.split) (metis snd_conv)+

lemma session_traffic_open:
  assumes "sorted_map (session_config_map c)" and "\<not> is_close v" and "process_vol_update lib v"
  shows "case session_traffic lib v c of (None, c') \<Rightarrow> c' = c
    | (Some t, c') \<Rightarrow> tf_bytes_from_client t + tf_bytes_from_server t =
        stored_link_bytes (session_unique_key v) c' - stored_link_bytes (session_unique_key v) c"
proof -
  let ?k = "session_unique_key v" and ?cs = "traffic_counters (current_traffic (deco_stale lib) v)"
  obtain b c' where add: "AddSyslogSessionCounter ?k ?cs c = (b, c')" by fastforce
  have f: "FetchSyslogSessionCounters ?k c' = (if b then Some ?cs else FetchSyslogSessionCounters ?k c)"
    using fetch_after_add[OF assms(1), of ?k ?k ?cs] add by simp
  have "\<not> b \<Longrightarrow> c' = c" using add by (auto simp: AddSyslogSessionCounter_def split: if_splits)
  with f assms(2,3) add show ?thesis
    by (auto simp: session_traffic_def stored_link_bytes_def traffic_diff_def no_traffic_def Let_def split: option.split if_splits)
qed

lemma session_traffic_close:
  assumes "is_close v" and "k = session_unique_key v"
  shows "\<exists>t. session_traffic lib v c = (Some t, if FetchSyslogSessionCounters k c = None then c else snd (RemoveSyslogSessionCounter k c)) \<and>
      tf_bytes_from_client t + tf_bytes_from_server t =
        (case FetchSyslogSessionCounters k c of None \<Rightarrow> message_link_bytes (deco_stale lib) v
         | Some m \<Rightarrow> if tf_total_bytes (current_traffic (deco_stale lib) v) <s tf_total_bytes (counters_traffic m) \<or>
                        tf_packets_from_client (current_traffic (deco_stale lib) v) <s tf_packets_from_client (counters_traffic m)
                     then 0 else message_link_bytes (deco_stale lib) v - stored_link_bytes k c)"
  using assms
  by (auto simp: session_traffic_def stored_link_bytes_def message_link_bytes_def traffic_diff_def no_traffic_def Let_def split: option.split)

text \<open>With differences both directions belong to one link.\<close>

lemma processed_links:
  assumes "process_vol_update lib v" and "iequals lib ''N/A'' ''N/A''"
    and "ls = (if is_close v \<or> is_vol_update v then session_links lib v known t else nexthop_links lib v t)"
  shows "sum_list (map (\<lambda>(_, m). metric_bytes m) (link_entries stale v ls key)) = tf_bytes_from_client t + tf_bytes_from_server t"
  using assms
  by (auto simp: session_links_def nexthop_links_def link_entries_def plain_link_def uplink_bytes_def link_metric_def close_counts_def
      no_diff_def metric_bytes_def Let_def)

lemma summarize_data_bytes:
  assumes "process_vol_update lib v" and "iequals lib ''N/A'' ''N/A''" and "session_traffic lib v c = (r, c')"
  shows "snd (StructuredSyslogUVESummarizeData lib v b c) = c'"
    and "sum_list (map uve_link_bytes (fst (StructuredSyslogUVESummarizeData lib v b c))) =
      (case r of None \<Rightarrow> 0 | Some t \<Rightarrow> tf_bytes_from_client t + tf_bytes_from_server t)"
  using assms
  by (auto simp: StructuredSyslogUVESummarizeData_def summary_records_def Let_def processed_links split: option.split prod.split)

lemma diff_uves_no_bytes: "metric_bytes m = 0 \<Longrightarrow> sum_list (map uve_link_bytes (diff_uves lib v b a l d m)) = 0"
  by (simp add: diff_uves_def)

lemma other_summaries_no_bytes:
  assumes "\<not> is_traffic v"
  shows "snd (StructuredSyslogUVESummarize ops lib v b c) = c" and "sum_list (map uve_link_bytes (fst (StructuredSyslogUVESummarize ops lib v b c))) = 0"
proof -
  have "sum_list (map uve_link_bytes (StructuredSyslogUVESummarizeAppQoeBPS lib v b)) = 0"
    by (simp add: StructuredSyslogUVESummarizeAppQoeBPS_def Let_def diff_uves_no_bytes metric_bytes_def no_diff_def)
  moreover have "sum_list (map uve_link_bytes (StructuredSyslogUVESummarizeAppQoeSMV lib v b)) = 0"
    by (auto simp: StructuredSyslogUVESummarizeAppQoeSMV_def violation_metric_def Let_def metric_bytes_def no_diff_def intro!: diff_uves_no_bytes)
  moreover have "sum_list (map uve_link_bytes (StructuredSyslogUVESummarizeAppQoePSMR ops lib v b)) = 0"
    "sum_list (map uve_link_bytes (StructuredSyslogUVESummarizeAppQoeASMR ops lib v)) = 0"
    by (simp_all add: StructuredSyslogUVESummarizeAppQoePSMR_def StructuredSyslogUVESummarizeAppQoeASMR_def new_SDWANMetricsRecord_def Let_def)
  ultimately show "snd (StructuredSyslogUVESummarize ops lib v b c) = c" "sum_list (map uve_link_bytes (fst (StructuredSyslogUVESummarize ops lib v b c))) = 0"
    using assms by (simp_all add: StructuredSyslogUVESummarize_def is_traffic_def Let_def)
qed

lemma traffic_summary: "is_traffic v \<Longrightarrow> StructuredSyslogUVESummarize ops lib v b c = StructuredSyslogUVESummarizeData lib v b c"
  by (auto simp: StructuredSyslogUVESummarize_def is_traffic_def Let_def)

lemma summarize_data_config:
  assumes "sorted_map (session_config_map c)"
  shows "sorted_map (session_config_map (snd (StructuredSyslogUVESummarizeData lib v b c)))"
    and "session_unique_key v \<noteq> k \<Longrightarrow> FetchSyslogSessionCounters k (snd (StructuredSyslogUVESummarizeData lib v b c)) = FetchSyslogSessionCounters k c"
  using assms session_traffic_sorted[OF assms, of lib v] session_traffic_other[OF assms, of v k lib]
  by (auto simp: StructuredSyslogUVESummarizeData_def Let_def split: prod.split option.split)

lemma summarize_config:
  assumes "sorted_map (session_config_map c)"
  shows "sorted_map (session_config_map (snd (StructuredSyslogUVESummarize ops lib v b c)))"
    and "session_unique_key v \<noteq> k \<Longrightarrow> FetchSyslogSessionCounters k (snd (StructuredSyslogUVESummarize ops lib v b c)) = FetchSyslogSessionCounters k c"
  using summarize_data_config[OF assms] assms traffic_summary[of v ops lib b c] other_summaries_no_bytes(1)[of v ops lib b c]
  by (cases "is_traffic v"; simp)+

lemma summarize_open:
  assumes "sorted_map (session_config_map c)" and "process_vol_update lib v" and "iequals lib ''N/A'' ''N/A''" and "\<not> is_close v"
    and "StructuredSyslogUVESummarize ops lib v b c = (us, c')"
  shows "sum_list (map uve_link_bytes us) = stored_link_bytes (session_unique_key v) c' - stored_link_bytes (session_unique_key v) c"
proof (cases "is_traffic v")
  case True
  obtain r c1 where t: "session_traffic lib v c = (r, c1)" by fastforce
  show ?thesis
    using True assms(5) session_traffic_open[OF assms(1,4,2)] summarize_data_bytes[OF assms(2,3) t, of b] t traffic_summary[OF True, of ops lib b c]
    by (auto split: option.splits)
qed (use other_summaries_no_bytes[of v ops lib b c] assms(5) in simp)

lemma history_open:
  assumes "sorted_map (session_config_map c)" and "iequals lib ''N/A'' ''N/A''"
    and "list_all (\<lambda>(v, _). session_unique_key v = k \<longrightarrow> process_vol_update lib v \<and> \<not> is_close v) vs"
    and "summarize_history ops lib k vs c = (n, c')"
  shows "n = stored_link_bytes k c' - stored_link_bytes k c \<and> sorted_map (session_config_map c')"
  using assms
proof (induction vs arbitrary: c n c')
  case (Cons x vs)
  obtain v b where x: "x = (v, b)" by fastforce
  obtain us c1 where us: "StructuredSyslogUVESummarize ops lib v b c = (us, c1)" by fastforce
  obtain n1 c2 where r: "summarize_history ops lib k vs c1 = (n1, c2)" by fastforce
  have s: "sorted_map (session_config_map c1)" using summarize_config(1)[OF Cons.prems(1), of ops lib v b] us by simp
  have ih: "n1 = stored_link_bytes k c2 - stored_link_bytes k c1 \<and> sorted_map (session_config_map c2)" using Cons.IH[OF s Cons.prems(2) _ r] Cons.prems(3) by simp
  have n: "n = (if session_unique_key v = k then sum_list (map uve_link_bytes us) else 0) + n1" "c' = c2" using Cons.prems(4) by (simp_all add: x us r)
  show ?case
  proof (cases "session_unique_key v = k")
    case True
    then show ?thesis using summarize_open[OF Cons.prems(1) _ Cons.prems(2) _ us] Cons.prems(3) ih n by (auto simp: x)
  next
    case False
    then have "stored_link_bytes k c1 = stored_link_bytes k c" using summarize_config(2)[OF Cons.prems(1) False, of ops lib b] us by (simp add: stored_link_bytes_def)
    with False ih n show ?thesis by simp
  qed
qed simp

text \<open>The counters of a closing message are not below the stored ones.\<close>

definition not_older :: "(string \<Rightarrow> i64) \<Rightarrow> syslog_m_t \<Rightarrow> StructuredSyslogConfig \<Rightarrow> bool" where
  "not_older stale v c \<longleftrightarrow>
     (case FetchSyslogSessionCounters (session_unique_key v) c of None \<Rightarrow> True
      | Some m \<Rightarrow> tf_total_bytes (counters_traffic m) \<le>s tf_total_bytes (current_traffic stale v) \<and>
          tf_packets_from_client (counters_traffic m) \<le>s tf_packets_from_client (current_traffic stale v))"

lemma summarize_close:
  assumes "process_vol_update lib w" and "iequals lib ''N/A'' ''N/A''" and "is_close w" and "not_older (deco_stale lib) w c"
    and "StructuredSyslogUVESummarize ops lib w b c = (us, c')"
  shows "sum_list (map uve_link_bytes us) = message_link_bytes (deco_stale lib) w - stored_link_bytes (session_unique_key w) c"
    and "FetchSyslogSessionCounters (session_unique_key w) c' = None"
proof -
  let ?k = "session_unique_key w"
  have w: "is_traffic w" using assms(3) by (simp add: is_traffic_def is_close_def)
  obtain t where t: "session_traffic lib w c = (Some t, if FetchSyslogSessionCounters ?k c = None then c else snd (RemoveSyslogSessionCounter ?k c))"
    and b: "tf_bytes_from_client t + tf_bytes_from_server t = message_link_bytes (deco_stale lib) w - stored_link_bytes ?k c"
    using session_traffic_close[OF assms(3) refl, of lib c] assms(4)
    by (cases "FetchSyslogSessionCounters ?k c") (auto simp: not_older_def stored_link_bytes_def word_sle_eq word_sless_alt)
  note d = summarize_data_bytes[OF assms(1,2) t, of b]
  show "sum_list (map uve_link_bytes us) = message_link_bytes (deco_stale lib) w - stored_link_bytes ?k c"
    using d(2) b assms(5) traffic_summary[OF w, of ops lib b c] by simp
  show "FetchSyslogSessionCounters ?k c' = None" using d(1) assms(5) traffic_summary[OF w, of ops lib b c] by (auto split: if_splits)
qed

text \<open>
  C6: Bytes of a session are counted once. In any history of messages of any sessions, whatever their tags and
  also when messages come late or are refused because the table of sessions is full, the bytes reported for one
  session are the change of its stored counters; when the session closes with counters that are not older, all
  bytes reported for it, the closing message included, add up to the cumulative counters of that message (less
  what was stored at the start, modulo \<open>2\<^sup>6\<^sup>4\<close>), and its counters leave the table.
\<close>

theorem session_bytes_counted_once:
  assumes "sorted_map (session_config_map c)" and "iequals lib ''N/A'' ''N/A''"
    and "list_all (\<lambda>(v, _). session_unique_key v = k \<longrightarrow> process_vol_update lib v \<and> \<not> is_close v) vs"
    and "summarize_history ops lib k vs c = (n, c1)"
    and "process_vol_update lib w" and "is_close w" and "session_unique_key w = k" and "not_older (deco_stale lib) w c1"
    and "StructuredSyslogUVESummarize ops lib w b c1 = (us, c2)"
  shows "n = stored_link_bytes k c1 - stored_link_bytes k c \<and>
    n + sum_list (map uve_link_bytes us) = message_link_bytes (deco_stale lib) w - stored_link_bytes k c \<and>
    FetchSyslogSessionCounters k c2 = None"
proof -
  have n: "n = stored_link_bytes k c1 - stored_link_bytes k c" using history_open[OF assms(1-4)] by simp
  note cl = summarize_close[OF assms(5,2,6,8,9), unfolded assms(7)]
  show ?thesis using n cl by simp
qed

text \<open>Two updates of one session with an update of another between them, then the end of the first.\<close>

definition traffic_message :: "string \<Rightarrow> string \<Rightarrow> int \<Rightarrow> int \<Rightarrow> syslog_m_t" where
  "traffic_message tag session client server =
     [(''bytes-from-client'', IntHolder ''bytes-from-client'' (word_of_int client)), (''bytes-from-server'', IntHolder ''bytes-from-server'' (word_of_int server)),
      (''process-vol-update'', StrHolder ''process-vol-update'' ''True''), (''session-id-32'', StrHolder ''session-id-32'' session), (''tag'', StrHolder ''tag'' tag),
      (''total-bytes'', IntHolder ''total-bytes'' (word_of_int (client + server)))]"

definition exact_lib :: syslog_deco_lib where
  "exact_lib = \<lparr>split_at = (\<lambda>s. [s]), addr_is_v6 = (\<lambda>_. None), iequals = (=), deco_stale = (\<lambda>_. 0)\<rparr>"

definition no_doubles :: "unit double_ops" where
  "no_doubles = \<lparr>d_int = (\<lambda>_. ()), d_lit = (\<lambda>_ _. ()), d_add = (\<lambda>_ _. ()), d_sub = (\<lambda>_ _. ()), d_mul = (\<lambda>_ _. ()), d_div = (\<lambda>_ _. ()),
     d_less = (\<lambda>_ _. False), d_trunc = (\<lambda>_. 0)\<rparr>"

definition sample_history :: "(syslog_m_t \<times> bool) list" where
  "sample_history = [(traffic_message ''APPTRACK_SESSION_VOL_UPDATE'' ''1'' 10 4, False), (traffic_message ''APPTRACK_SESSION_VOL_UPDATE'' ''2'' 7 7, False),
     (traffic_message ''APPTRACK_SESSION_VOL_UPDATE'' ''1'' 15 9, False)]"

theorem session_bytes_counted_once_witness:
  "\<exists>n c1 us c2. summarize_history no_doubles exact_lib ''UNKNOWN::UNKNOWN::UNKNOWN::1'' sample_history (new_StructuredSyslogConfig 5) = (n, c1) \<and>
     StructuredSyslogUVESummarize no_doubles exact_lib (traffic_message ''APPTRACK_SESSION_CLOSE'' ''1'' 20 13) False c1 = (us, c2) \<and>
     n + sum_list (map uve_link_bytes us) = 33 \<and> FetchSyslogSessionCounters ''UNKNOWN::UNKNOWN::UNKNOWN::1'' c2 = None"
proof -
  let ?k = "''UNKNOWN::UNKNOWN::UNKNOWN::1''" and ?c = "new_StructuredSyslogConfig 5" and ?w = "traffic_message ''APPTRACK_SESSION_CLOSE'' ''1'' 20 13"
  obtain n c1 where h: "summarize_history no_doubles exact_lib ?k sample_history ?c = (n, c1)" by fastforce
  obtain us c2 where u: "StructuredSyslogUVESummarize no_doubles exact_lib ?w False c1 = (us, c2)" by fastforce
  have a: "sorted_map (session_config_map ?c)" by (simp add: new_StructuredSyslogConfig_def)
  have b: "iequals exact_lib ''N/A'' ''N/A''" by (simp add: exact_lib_def)
  have d: "list_all (\<lambda>(v, _). session_unique_key v = ?k \<longrightarrow> process_vol_update exact_lib v \<and> \<not> is_close v) sample_history" by code_simp
  have e: "process_vol_update exact_lib ?w" "is_close ?w" "session_unique_key ?w = ?k" by code_simp+
  have "not_older (deco_stale exact_lib) ?w (snd (summarize_history no_doubles exact_lib ?k sample_history ?c))" by code_simp
  then have f: "not_older (deco_stale exact_lib) ?w c1" by (simp add: h)
  have g: "message_link_bytes (deco_stale exact_lib) ?w - stored_link_bytes ?k ?c = 33" by code_simp
  show ?thesis
    using session_bytes_counted_once[OF a b d h e f u] h u by (auto simp: g)
qed

section \<open>The range of the link score\<close>

text \<open>
  What the score relies on of \<open>double\<close> (IEEE 754, rounding to nearest): \<open>fin\<close> are the finite numbers and \<open>val\<close> their values.
  Integers up to \<open>2\<^sup>5\<^sup>3\<close> are exact, other constants and the results of operations are rounded; a number between two others is
  finite, and finite numbers compare as their values; the conversion to \<open>int64_t\<close> rounds towards zero.
\<close>

definition rounded :: "real \<Rightarrow> real \<Rightarrow> bool" where
  "rounded x y \<longleftrightarrow> \<bar>x - y\<bar> \<le> \<bar>y\<bar> / 2 ^ 53 + 1 / 2 ^ 1075"

definition rounds :: "('d \<Rightarrow> bool) \<Rightarrow> ('d \<Rightarrow> real) \<Rightarrow> ('d \<Rightarrow> 'd \<Rightarrow> 'd) \<Rightarrow> (real \<Rightarrow> real \<Rightarrow> real) \<Rightarrow> bool" where
  "rounds fin val f g \<longleftrightarrow> (\<forall>x y. fin x \<longrightarrow> fin y \<longrightarrow> \<bar>g (val x) (val y)\<bar> < 2 ^ 1023 \<longrightarrow> fin (f x y) \<and> rounded (val (f x y)) (g (val x) (val y)))"

definition double_arithmetic :: "('d \<Rightarrow> bool) \<Rightarrow> ('d \<Rightarrow> real) \<Rightarrow> 'd double_ops \<Rightarrow> bool" where
  "double_arithmetic fin val ops \<longleftrightarrow>
     (\<forall>n. \<bar>n\<bar> \<le> 2 ^ 53 \<longrightarrow> fin (d_int ops n) \<and> val (d_int ops n) = of_int n) \<and>
     (\<forall>m e. \<bar>of_int m / 10 ^ e\<bar> < (2 :: real) ^ 1023 \<longrightarrow> fin (d_lit ops m e) \<and> rounded (val (d_lit ops m e)) (of_int m / 10 ^ e)) \<and>
     rounds fin val (d_add ops) (+) \<and> rounds fin val (d_sub ops) (-) \<and> rounds fin val (d_mul ops) (*) \<and>
     (\<forall>x y. fin x \<longrightarrow> fin y \<longrightarrow> (d_less ops x y \<longleftrightarrow> val x < val y)) \<and>
     (\<forall>x y z. d_less ops x y \<longrightarrow> d_less ops y z \<longrightarrow> fin y) \<and>
     (\<forall>x. fin x \<longrightarrow> \<bar>val x\<bar> < 2 ^ 63 \<longrightarrow> d_trunc ops x = word_of_int (if val x < 0 then \<lceil>val x\<rceil> else \<lfloor>val x\<rfloor>))"

text \<open>Arithmetic without rounding.\<close>

definition real_ops :: "real double_ops" where
  "real_ops = \<lparr>d_int = real_of_int, d_lit = (\<lambda>m e. real_of_int m / 10 ^ e), d_add = (+), d_sub = (-), d_mul = (*), d_div = (/),
     d_less = (<), d_trunc = (\<lambda>x. word_of_int (if x < 0 then \<lceil>x\<rceil> else \<lfloor>x\<rfloor>))\<rparr>"

lemma real_arithmetic: "double_arithmetic (\<lambda>_. True) (\<lambda>x. x) real_ops"
  by (simp add: double_arithmetic_def real_ops_def rounds_def rounded_def)

text \<open>The part of \<open>calculate_link_score\<close> behind the quality factor.\<close>

definition score_of :: "'d double_ops \<Rightarrow> 'd \<Rightarrow> 'd" where
  "score_of ops r =
     d_mul ops (if d_less ops r (d_int ops 0) then d_int ops 1
       else if d_less ops (d_int ops 0) r \<and> d_less ops r (d_int ops 100)
       then d_add ops (d_add ops (d_int ops 1) (d_mul ops (d_lit ops 35 3) r))
              (d_mul ops (d_mul ops (d_mul ops (d_lit ops 7 6) r) (d_sub ops r (d_int ops 60))) (d_sub ops (d_int ops 100) r))
       else d_lit ops 45 1) (d_int ops 20)"

lemma calculate_link_score_factor: "\<exists>r. calculate_link_score ops l p j t lf jf pf = score_of ops r"
  unfolding calculate_link_score_def score_of_def Let_def by (rule exI) (rule refl)

lemma rounded_near:
  assumes "rounded x y" and "\<bar>y\<bar> \<le> 1000"
  shows "\<bar>x - y\<bar> \<le> 1 / 10 ^ 12"
proof -
  have "(1 :: real) / 2 ^ 1075 \<le> 1 / 10 ^ 13" by simp
  moreover have "\<bar>y\<bar> / 2 ^ 53 \<le> 1000 / 2 ^ 53" using assms(2) by (simp add: divide_right_mono)
  ultimately show ?thesis using assms(1) by (simp add: rounded_def)
qed

text \<open>A finite number that is \<open>v\<close> up to the error \<open>e\<close>; every operation adds \<open>10\<^sup>-\<^sup>1\<^sup>2\<close> as long as the values are below 1000.\<close>

definition approx :: "('d \<Rightarrow> bool) \<Rightarrow> ('d \<Rightarrow> real) \<Rightarrow> 'd \<Rightarrow> real \<Rightarrow> real \<Rightarrow> bool" where
  "approx fin val x v e \<longleftrightarrow> fin x \<and> \<bar>val x - v\<bar> \<le> e"

lemma approx_weaken: "approx fin val x v e \<Longrightarrow> e \<le> e' \<Longrightarrow> approx fin val x v e'"
  by (simp add: approx_def)

lemma approx_op:
  assumes f: "rounds fin val f g" and x: "fin x" and y: "fin y" and e: "\<bar>g (val x) (val y) - w\<bar> \<le> e" and b: "\<bar>w\<bar> + e \<le> 1000"
  shows "approx fin val (f x y) w (e + 1 / 10 ^ 12)"
proof -
  have g: "\<bar>g (val x) (val y)\<bar> \<le> 1000" using e b by linarith
  have "(1000 :: real) < 2 ^ 1023" by simp
  with g have "\<bar>g (val x) (val y)\<bar> < 2 ^ 1023" by (rule order.strict_trans1)
  then have "fin (f x y)" "rounded (val (f x y)) (g (val x) (val y))" using f x y by (auto simp: rounds_def)
  moreover have "\<bar>val (f x y) - w\<bar> \<le> e + 1 / 10 ^ 12" using rounded_near[OF \<open>rounded _ _\<close> g] e by linarith
  ultimately show ?thesis by (simp add: approx_def)
qed

lemma approx_add:
  assumes "rounds fin val f (+)" and "approx fin val x v e" and "approx fin val y w e'" and "\<bar>v + w\<bar> + (e + e') \<le> 1000"
  shows "approx fin val (f x y) (v + w) (e + e' + 1 / 10 ^ 12)"
  by (rule approx_op[OF assms(1)]) (use assms in \<open>auto simp: approx_def\<close>)

lemma approx_sub:
  assumes "rounds fin val f (-)" and "approx fin val x v e" and "approx fin val y w e'" and "\<bar>v - w\<bar> + (e + e') \<le> 1000"
  shows "approx fin val (f x y) (v - w) (e + e' + 1 / 10 ^ 12)"
  by (rule approx_op[OF assms(1)]) (use assms in \<open>auto simp: approx_def\<close>)

lemma approx_mul:
  assumes f: "rounds fin val f (*)" and x: "approx fin val x v e" and y: "approx fin val y w e'"
    and v: "\<bar>v\<bar> \<le> a" and w: "\<bar>w\<bar> \<le> b" and e: "0 \<le> e" "0 \<le> e'" and small: "a * b + (e * (b + e') + a * e') \<le> 1000"
  shows "approx fin val (f x y) (v * w) (e * (b + e') + a * e' + 1 / 10 ^ 12)"
proof (rule approx_op[OF f])
  have "\<bar>val y\<bar> \<le> b + e'" using y w unfolding approx_def by linarith
  have "val x * val y - v * w = (val x - v) * val y + v * (val y - w)" by (simp add: algebra_simps)
  then have "\<bar>val x * val y - v * w\<bar> \<le> \<bar>val x - v\<bar> * \<bar>val y\<bar> + \<bar>v\<bar> * \<bar>val y - w\<bar>" by (metis abs_mult abs_triangle_ineq)
  also have "\<dots> \<le> e * (b + e') + a * e'"
    using x y v e \<open>\<bar>val y\<bar> \<le> b + e'\<close> by (intro add_mono mult_mono) (auto simp: approx_def)
  finally show "\<bar>val x * val y - v * w\<bar> \<le> e * (b + e') + a * e'" .
  have "\<bar>v * w\<bar> \<le> a * b" unfolding abs_mult by (rule mult_mono) (use v w in auto)
  with small show "\<bar>v * w\<bar> + (e * (b + e') + a * e') \<le> 1000" by linarith
qed (use x y in \<open>simp_all add: approx_def\<close>)

lemma double_less:
  assumes "double_arithmetic fin val ops"
  shows "fin x \<Longrightarrow> fin y \<Longrightarrow> d_less ops x y \<longleftrightarrow> val x < val y" and "d_less ops x y \<Longrightarrow> d_less ops y z \<Longrightarrow> fin y"
  using assms unfolding double_arithmetic_def by blast+

lemma approx_constants:
  assumes "double_arithmetic fin val ops"
  shows "\<bar>n\<bar> \<le> 1000 \<Longrightarrow> approx fin val (d_int ops n) (of_int n) 0"
    and "\<bar>of_int m / 10 ^ k :: real\<bar> \<le> 1000 \<Longrightarrow> approx fin val (d_lit ops m k) (of_int m / 10 ^ k) (1 / 10 ^ 12)"
proof -
  show "\<bar>n\<bar> \<le> 1000 \<Longrightarrow> approx fin val (d_int ops n) (of_int n) 0" using assms by (simp add: double_arithmetic_def approx_def)
  assume b: "\<bar>of_int m / 10 ^ k :: real\<bar> \<le> 1000"
  have "(1000 :: real) < 2 ^ 1023" by simp
  with b have "\<bar>of_int m / 10 ^ k\<bar> < (2 :: real) ^ 1023" by (rule order.strict_trans1)
  then have "fin (d_lit ops m k)" "rounded (val (d_lit ops m k)) (of_int m / 10 ^ k)" using assms unfolding double_arithmetic_def by blast+
  with rounded_near[OF this(2) b] show "approx fin val (d_lit ops m k) (of_int m / 10 ^ k) (1 / 10 ^ 12)" by (simp add: approx_def)
qed

text \<open>The polynomial of the score, and what rounding adds to it.\<close>

lemma mean_opinion_score_bounds:
  fixes r :: real
  assumes "0 < r" and "r < 100"
  shows "97 / 100 \<le> 1 + 35 / 1000 * r + 7 / 1000000 * r * (r - 60) * (100 - r)" "1 + 35 / 1000 * r + 7 / 1000000 * r * (r - 60) * (100 - r) \<le> 45 / 10"
proof -
  have "3 / 100 + 35 / 1000 * r + 7 / 1000000 * r * (r - 60) * (100 - r) =
      42 / 100000 * (r - 25 / 3)\<^sup>2 + 7 / 1000000 * (r * r * (100 - r)) + (3 / 100 - 42 / 100000 * (25 / 3)\<^sup>2)"
    by (simp add: field_simps power2_eq_square)
  moreover have "0 \<le> r * r * (100 - r)" using assms by simp
  moreover have "0 \<le> 42 / 100000 * (r - 25 / 3)\<^sup>2" "0 \<le> 3 / 100 - 42 / 100000 * (25 / 3 :: real)\<^sup>2" by (simp_all add: power2_eq_square)
  ultimately show "97 / 100 \<le> 1 + 35 / 1000 * r + 7 / 1000000 * r * (r - 60) * (100 - r)" by linarith
  have "35 / 10 - (35 / 1000 * r + 7 / 1000000 * r * (r - 60) * (100 - r)) = (100 - r) * (7 / 1000 + 7 / 1000000 * ((100 - r) * (r + 40)))"
    by (simp add: field_simps)
  moreover have "0 \<le> (100 - r) * (7 / 1000 + 7 / 1000000 * ((100 - r) * (r + 40)))" using assms by simp
  ultimately show "1 + 35 / 1000 * r + 7 / 1000000 * r * (r - 60) * (100 - r) \<le> 45 / 10" by linarith
qed

lemma polynomial_error:
  assumes D: "double_arithmetic fin val ops" and r: "fin r" "0 < val r" "val r < 100"
  shows "approx fin val (d_add ops (d_add ops (d_int ops 1) (d_mul ops (d_lit ops 35 3) r))
              (d_mul ops (d_mul ops (d_mul ops (d_lit ops 7 6) r) (d_sub ops r (d_int ops 60))) (d_sub ops (d_int ops 100) r)))
     (1 + 35 / 1000 * val r + 7 / 1000000 * val r * (val r - 60) * (100 - val r)) (1 / 10 ^ 6)"
proof -
  let ?d = "1 / 10 ^ 12 :: real" and ?r = "val r"
  have plus: "rounds fin val (d_add ops) (+)" and minus: "rounds fin val (d_sub ops) (-)" and times: "rounds fin val (d_mul ops) (*)"
    using D by (simp_all add: double_arithmetic_def)
  have ar: "approx fin val r ?r 0" using r(1) by (simp add: approx_def)
  have i1: "approx fin val (d_int ops 1) 1 0" and i60: "approx fin val (d_int ops 60) 60 0" and i100: "approx fin val (d_int ops 100) 100 0"
    and l35: "approx fin val (d_lit ops 35 3) (35 / 1000) ?d" and l7: "approx fin val (d_lit ops 7 6) (7 / 1000000) ?d"
    using approx_constants(1)[OF D, of 1] approx_constants(1)[OF D, of 60] approx_constants(1)[OF D, of 100]
      approx_constants(2)[OF D, of 35 3] approx_constants(2)[OF D, of 7 6] by simp_all
  have "approx fin val (d_mul ops (d_lit ops 35 3) r) (35 / 1000 * ?r) (101 * ?d)"
    by (rule approx_weaken[OF approx_mul[OF times l35 ar, of "35 / 1000" 100]]) (use r in simp_all)
  from approx_add[OF plus i1 this] have u: "approx fin val (d_add ops (d_int ops 1) (d_mul ops (d_lit ops 35 3) r)) (1 + 35 / 1000 * ?r) (102 * ?d)"
    using r by (simp add: approx_weaken)
  have t2: "approx fin val (d_mul ops (d_lit ops 7 6) r) (7 / 1000000 * ?r) (101 * ?d)"
    by (rule approx_weaken[OF approx_mul[OF times l7 ar, of "7 / 1000000" 100]]) (use r in simp_all)
  have s1: "approx fin val (d_sub ops r (d_int ops 60)) (?r - 60) ?d" and s2: "approx fin val (d_sub ops (d_int ops 100) r) (100 - ?r) ?d"
    using approx_sub[OF minus ar i60] approx_sub[OF minus i100 ar] r by simp_all
  have t3: "approx fin val (d_mul ops (d_mul ops (d_lit ops 7 6) r) (d_sub ops r (d_int ops 60))) (7 / 1000000 * ?r * (?r - 60)) (7000 * ?d)"
    by (rule approx_weaken[OF approx_mul[OF times t2 s1, of 1 60]]) (use r in simp_all)
  have b3: "\<bar>7 / 1000000 * ?r * (?r - 60)\<bar> \<le> 1"
  proof -
    have "\<bar>7 / 1000000 * ?r\<bar> * \<bar>?r - 60\<bar> \<le> 7 / 10000 * 60" by (rule mult_mono) (use r in simp_all)
    then show ?thesis by (simp add: abs_mult)
  qed
  have t4: "approx fin val (d_mul ops (d_mul ops (d_mul ops (d_lit ops 7 6) r) (d_sub ops r (d_int ops 60))) (d_sub ops (d_int ops 100) r))
      (7 / 1000000 * ?r * (?r - 60) * (100 - ?r)) (800000 * ?d)"
    by (rule approx_weaken[OF approx_mul[OF times t3 s2 b3, of 100]]) (use r in simp_all)
  have "\<bar>1 + 35 / 1000 * ?r + 7 / 1000000 * ?r * (?r - 60) * (100 - ?r)\<bar> \<le> 10" using mean_opinion_score_bounds[OF r(2,3)] by linarith
  then show ?thesis by (intro approx_weaken[OF approx_add[OF plus u t4]]) simp_all
qed

lemma score_of_bounds:
  assumes D: "double_arithmetic fin val ops"
  shows "fin (score_of ops r) \<and> 193 / 10 \<le> val (score_of ops r) \<and> val (score_of ops r) \<le> 905 / 10"
proof -
  have i20: "approx fin val (d_int ops 20) 20 0" using approx_constants(1)[OF D, of 20] by simp
  have times: "rounds fin val (d_mul ops) (*)" using D by (simp add: double_arithmetic_def)
  have scaled: "fin (d_mul ops m (d_int ops 20)) \<and> 193 / 10 \<le> val (d_mul ops m (d_int ops 20)) \<and> val (d_mul ops m (d_int ops 20)) \<le> 905 / 10"
    if m: "approx fin val m v (1 / 10 ^ 6)" and v: "97 / 100 \<le> v" "v \<le> 45 / 10" for m v
  proof -
    have "approx fin val (d_mul ops m (d_int ops 20)) (v * 20) (1 / 10 ^ 6 * (20 + 0) + 5 * 0 + 1 / 10 ^ 12)"
      by (rule approx_mul[OF times m i20, of 5 20]) (use v in simp_all)
    then have "fin (d_mul ops m (d_int ops 20))" "\<bar>val (d_mul ops m (d_int ops 20)) - v * 20\<bar> \<le> 1 / 1000" by (simp_all add: approx_def)
    with v show ?thesis by linarith
  qed
  have one: "approx fin val (d_int ops 1) 1 (1 / 10 ^ 6)" and best: "approx fin val (d_lit ops 45 1) (45 / 10) (1 / 10 ^ 6)"
    using approx_weaken[OF approx_constants(1)[OF D, of 1]] approx_weaken[OF approx_constants(2)[OF D, of 45 1]] by simp_all
  show ?thesis
  proof (cases "\<not> d_less ops r (d_int ops 0) \<and> d_less ops (d_int ops 0) r \<and> d_less ops r (d_int ops 100)")
    case True
    then have r: "fin r" using double_less(2)[OF D] by blast
    have "fin (d_int ops 0) \<and> val (d_int ops 0) = 0" "fin (d_int ops 100) \<and> val (d_int ops 100) = 100"
      using approx_constants(1)[OF D, of 0] approx_constants(1)[OF D, of 100] by (simp_all add: approx_def)
    then have "0 < val r" "val r < 100" using True r double_less(1)[OF D, of "d_int ops 0" r] double_less(1)[OF D, of r "d_int ops 100"] by simp_all
    then show ?thesis using scaled[OF polynomial_error[OF D r]] mean_opinion_score_bounds True by (simp add: score_of_def)
  next
    case False
    then show ?thesis using scaled[OF one] scaled[OF best] by (auto simp: score_of_def)
  qed
qed

lemma signed_below_100:
  fixes n :: i64
  assumes "\<not> 100 <s n"
  shows "n \<le> 100 \<longleftrightarrow> 0 \<le>s n"
proof -
  have "sint n \<le> 100" using assms by (simp add: word_sless_alt)
  moreover have "- (2 ^ 63) \<le> sint n" using sint_ge[of n] by simp
  moreover have "uint n = (if sint n < 0 then sint n + 2 ^ 64 else sint n)"
  proof (cases "sint n < 0")
    case True
    then have "(sint n + 2 ^ 64) mod 2 ^ 64 = sint n + 2 ^ 64" using calculation by (intro mod_pos_pos_trivial) simp_all
    then show ?thesis using True by (simp add: uint_sint take_bit_eq_mod)
  qed (use calculation in \<open>simp add: uint_sint take_bit_int_eq_self\<close>)
  ultimately show ?thesis by (auto simp: word_le_def word_sle_eq)
qed

lemma trunc_score:
  assumes "double_arithmetic fin val ops"
  shows "(19 :: i64) \<le> d_trunc ops (score_of ops r) \<and> d_trunc ops (score_of ops r) \<le> 90"
proof -
  let ?x = "val (score_of ops r)"
  have x: "fin (score_of ops r)" "193 / 10 \<le> ?x" "?x \<le> 905 / 10" using score_of_bounds[OF assms] by auto
  then have t: "d_trunc ops (score_of ops r) = word_of_int \<lfloor>?x\<rfloor>" using assms by (simp add: double_arithmetic_def)
  have "19 \<le> \<lfloor>?x\<rfloor>" "\<lfloor>?x\<rfloor> \<le> 90" using x(2,3) by linarith+
  then show ?thesis unfolding t by (simp add: word_le_def uint_word_of_int_eq take_bit_int_eq_self)
qed

text \<open>
  C38: Whatever a probe reports (any 64-bit round trip time, jitter, loss and coefficients, also negative or
  absurd ones), the score of a link is between 19 and 90, with the rounding of \<open>double\<close>, and the values that mean that
  a probe failed are never published; a score is published only together with round trip time, jitter and loss. The
  published loss, an unsigned number, is at most 100 percent exactly when the reported one is not negative: the upper
  limit is tested on the signed number, so -2 is published as \<open>2\<^sup>6\<^sup>4 - 2\<close>.
\<close>

theorem probe_metric_bounds:
  assumes "double_arithmetic fin val ops"
  shows "pred_option (\<lambda>s. 19 \<le> s \<and> s \<le> 90) (ml_score (dial_metric ops stale v)) \<and>
   pred_option (\<lambda>n. n \<noteq> -1 \<and> n \<noteq> 255 \<and> (n \<le> 100 \<longleftrightarrow> 0 \<le>s GetMapVal stale v ''pkt-loss'' (-1))) (ml_pkt_loss (dial_metric ops stale v)) \<and>
   list_all (pred_option (\<lambda>n. n \<noteq> -1 \<and> n \<noteq> 4294967295)) (map (\<lambda>f. f (dial_metric ops stale v)) [ml_rtt, ml_rtt_jitter, ml_egress_jitter, ml_ingress_jitter]) \<and>
   (ml_score (dial_metric ops stale v) = None \<longleftrightarrow> \<not> list_all (\<lambda>f. f (dial_metric ops stale v) \<noteq> None) [ml_rtt, ml_rtt_jitter, ml_pkt_loss])"
proof -
  have "(19 :: i64) \<le> d_trunc ops (calculate_link_score ops l p j t lf jf pf) \<and> d_trunc ops (calculate_link_score ops l p j t lf jf pf) \<le> 90"
    for l p j t lf jf pf using calculate_link_score_factor[of ops l p j t lf jf pf] trunc_score[OF assms] by metis
  moreover have "pred_option (\<lambda>n. n \<noteq> -1 \<and> n \<noteq> 255 \<and> (n \<le> 100 \<longleftrightarrow> 0 \<le>s GetMapVal stale v ''pkt-loss'' (-1))) (ml_pkt_loss (dial_metric ops stale v))"
  proof (cases "100 <s GetMapVal stale v ''pkt-loss'' (-1)")
    case True
    then have "0 \<le>s GetMapVal stale v ''pkt-loss'' (-1)" by (simp add: word_sle_eq word_sless_alt)
    then show ?thesis using True by (simp add: dial_metric_def measured_def Let_def)
  next
    case False
    then show ?thesis using signed_below_100[OF False] by (simp add: dial_metric_def measured_def Let_def)
  qed
  ultimately show ?thesis by (simp add: dial_metric_def measured_def Let_def)
qed

definition sample_probe :: syslog_m_t where
  "sample_probe = [(''pkt-loss'', IntHolder ''pkt-loss'' 3), (''rtt'', IntHolder ''rtt'' 40000), (''rtt-jitter'', IntHolder ''rtt-jitter'' 2000)]"

theorem probe_metric_bounds_witness:
  "\<exists>s. ml_score (dial_metric real_ops (\<lambda>_. 0) sample_probe) = Some s \<and> 19 \<le> s \<and> s \<le> 90 \<and> ml_pkt_loss (dial_metric real_ops (\<lambda>_. 0) sample_probe) = Some 3"
proof -
  have "ml_pkt_loss (dial_metric real_ops (\<lambda>_. 0) sample_probe) = Some 3" "ml_score (dial_metric real_ops (\<lambda>_. 0) sample_probe) \<noteq> None"
    by (simp_all add: dial_metric_def sample_probe_def GetMapVal_def measured_def Let_def word_sless_alt)
  then show ?thesis using probe_metric_bounds[OF real_arithmetic, of "\<lambda>_. 0" sample_probe] by auto
qed

text \<open>
  A link whose quality factor is exactly 0 gets the best score instead of the worst: the tests for a negative and
  for a positive factor leave 0 to the branch for factors of 100 and more. A latency of 1042 ms gives this factor.
\<close>

lemma zero_factor_scores_best:
  assumes D: "double_arithmetic fin val ops" and r: "fin r" "val r = 0"
  shows "score_of ops r = d_mul ops (d_lit ops 45 1) (d_int ops 20)"
proof -
  have "fin (d_int ops 0) \<and> val (d_int ops 0) = 0" using approx_constants(1)[OF D, of 0] by (simp add: approx_def)
  then show ?thesis using r double_less(1)[OF D, of "d_int ops 0" r] double_less(1)[OF D, of r "d_int ops 0"] by (simp add: score_of_def)
qed

lemma zero_factor_reached:
  "calculate_link_score real_ops 1042000 0 0 0 0 0 0 = 90 \<and> calculate_link_score real_ops 1043000 0 0 0 0 0 0 = 20"
  by (simp add: calculate_link_score_def real_ops_def int_quot_def default_if_zero_def Let_def)

text \<open>Two links with the same traffic destination and type share the key of the tenant's map: the bytes of the second are lost.\<close>

lemma second_link_dropped:
  assumes "lu_link l1 \<noteq> lu_link l2" and "key l1 = key l2"
  shows "link_entries stale v (l1, l2) key = [(key l1, link_metric stale v 0 (lu_bytes l1))]"
  using assms by (simp add: link_entries_def)

end
