(* ===== verification/Structured_Syslog_Server.thy ===== *)
theory Structured_Syslog_Server
  imports Sdwan_Uve
begin

text \<open>
  \<open>structured_syslog_server.cc\<close>, the server: bytes from a socket are cut into messages, each message is parsed,
  completed, summarised, stored and forwarded as its configuration says. A TCP session keeps the unfinished
  rest of a message for the next read. The grammar, the TCP sessions of the forwarder and the Kafka producer are
  arguments; the Kafka producer is a list of what it was given.
\<close>

section \<open>Forwarding\<close>

text \<open>The TCP library: a new connected session, sending (whether more can be sent, the bytes written), and whether
  a session is connected.\<close>

record 's tcp_lib =
  tcp_connect :: "string \<Rightarrow> int \<Rightarrow> 's"
  tcp_send :: "string \<Rightarrow> 's \<Rightarrow> bool \<times> nat \<times> 's"
  tcp_connected :: "'s \<Rightarrow> bool"
  split_colon :: "string \<Rightarrow> string list"

record 's StructuredSyslogTcpForwarder =
  ipaddress :: string
  fw_port :: int
  fw_session :: 's
  ready_to_send :: bool

definition new_TcpForwarder :: "'s tcp_lib \<Rightarrow> string \<Rightarrow> int \<Rightarrow> 's StructuredSyslogTcpForwarder" where
  "new_TcpForwarder tcp ip port = \<lparr>ipaddress = ip, fw_port = port, fw_session = tcp_connect tcp ip port, ready_to_send = True\<rparr>"

definition TcpForwarder_Send :: "'s tcp_lib \<Rightarrow> string \<Rightarrow> 's StructuredSyslogTcpForwarder \<Rightarrow> bool \<times> nat \<times> 's StructuredSyslogTcpForwarder" where
  "TcpForwarder_Send tcp data f =
     (if ready_to_send f
      then let (more, written, s) = tcp_send tcp data (fw_session f) in (more, written, f\<lparr>fw_session := s, ready_to_send := more\<rparr>)
      else (False, 0, f))"

definition WriteReady :: "bool \<Rightarrow> 's StructuredSyslogTcpForwarder \<Rightarrow> 's StructuredSyslogTcpForwarder" where
  "WriteReady ec f = (if ec then f else f\<lparr>ready_to_send := True\<rparr>)"

record 's StructuredSyslogForwarder =
  tcpForwarder :: "'s StructuredSyslogTcpForwarder list"
  kafkaForwarder :: "(string \<times> string) list option"

definition Forwarder_Init :: "'s tcp_lib \<Rightarrow> string list \<Rightarrow> string \<Rightarrow> 's StructuredSyslogForwarder outcome" where
  "Forwarder_Init tcp tcp_forward_dst kafka_broker =
     bind_outcome (foldl_outcome (\<lambda>fs dst.
         (let dest = split_colon tcp dst in if length dest < 2 then Abort else Ret (fs @ [new_TcpForwarder tcp (dest ! 0) (atoi (c_str (dest ! 1)))])))
       [] tcp_forward_dst)
       (\<lambda>fs. Ret \<lparr>tcpForwarder = fs, kafkaForwarder = (if kafka_broker \<noteq> '''' then Some [] else None)\<rparr>)"

definition PollTcpForwarder :: "'s tcp_lib \<Rightarrow> 's StructuredSyslogForwarder \<Rightarrow> 's StructuredSyslogForwarder" where
  "PollTcpForwarder tcp fw =
     fw\<lparr>tcpForwarder := map (\<lambda>f. if tcp_connected tcp (fw_session f) then f else new_TcpForwarder tcp (ipaddress f) (fw_port f)) (tcpForwarder fw)\<rparr>"

text \<open>A queue entry: the text, the JSON document (absent without Kafka) and the key.\<close>

record StructuredSyslogQueueEntry =
  qe_data :: string
  qe_json_data :: "string option"
  qe_skey :: string

definition Forward :: "'s tcp_lib \<Rightarrow> StructuredSyslogQueueEntry \<Rightarrow> 's StructuredSyslogForwarder \<Rightarrow> 's StructuredSyslogForwarder outcome" where
  "Forward tcp sqe fw =
     (let fw1 = fw\<lparr>tcpForwarder := map (\<lambda>f. snd (snd (TcpForwarder_Send tcp (qe_data sqe) f))) (tcpForwarder fw)\<rparr>
      in case kafkaForwarder fw of None \<Rightarrow> Ret fw1
         | Some sent \<Rightarrow> (case qe_json_data sqe of None \<Rightarrow> Abort | Some j \<Rightarrow> Ret (fw1\<lparr>kafkaForwarder := Some (sent @ [(j, qe_skey sqe)])\<rparr>)))"

section \<open>One message\<close>

record ('d, 'f, 's) server_lib =
  ss_grammar :: "string \<Rightarrow> bool \<times> syslog_m_t"
  ss_clock :: clock_lib
  ss_deco :: syslog_deco_lib
  ss_regex :: regex_lib
  ss_writer :: "'d json \<Rightarrow> string"
  ss_doubles :: "'f double_ops"
  ss_tcp :: "'s tcp_lib"

text \<open>The state behind the server: configuration and session counters, the forwarder, the UVEs sent and the
  statistics written, oldest first.\<close>

record ('d, 's) syslog_server =
  sv_config :: StructuredSyslogConfig
  sv_forwarder :: "'s StructuredSyslogForwarder option"
  sv_uves :: "sdwan_uve list"
  sv_stats :: "'d stat_insert list"

definition erase_fields :: "(string \<Rightarrow> i64) \<Rightarrow> syslog_m_t \<Rightarrow> syslog_m_t" where
  "erase_fields stale v =
     (let v1 = foldl (\<lambda>v k. map_erase k v) v [''msglen'', ''severity'', ''facility'', ''year'', ''month'', ''day'', ''hour'', ''min'', ''sec'', ''msec'']
      in if GetMapVal stale v1 ''pid'' (-1) = -1 then map_erase ''pid'' v1 else v1)"

text \<open>\<open>std::string::substr\<close> with a length computed by a difference of \<open>size_t\<close> that wraps when it is negative.\<close>

definition sub_between :: "string \<Rightarrow> nat \<Rightarrow> int \<Rightarrow> string" where
  "sub_between s pos n = (if n < 0 then drop pos s else take (nat n) (drop pos s))"

text \<open>The tag is the last word in front of the bracket; \<open>first_space\<close> is the first blank of the whole body.\<close>

definition message_tag :: "string \<Rightarrow> nat \<Rightarrow> nat \<Rightarrow> string" where
  "message_tag body tag_end first_space =
     (let s = sub_between body 0 (int tag_end - 1)
      in case find_last_char CHR '' '' s of None \<Rightarrow> s
         | Some i \<Rightarrow> sub_between s (i + 1) (int first_space - int i))"

text \<open>Position of the bracket and the tag; \<open>None\<close> for a body that is not structured.\<close>

definition find_tag :: "string \<Rightarrow> (nat \<times> string) option" where
  "find_tag body =
     (case find_char CHR ''['' body of None \<Rightarrow> None
      | Some tag_end \<Rightarrow>
          (case find_char_from CHR '']'' body (tag_end + 1) of None \<Rightarrow> None
           | Some _ \<Rightarrow> (case find_char CHR '' '' body of None \<Rightarrow> None | Some sp \<Rightarrow> Some (tag_end, message_tag body tag_end sp))))"

text \<open>The text in the brackets behind the name of the hardware.\<close>

definition hardware_part :: "string \<Rightarrow> nat \<Rightarrow> (string \<times> string) option" where
  "hardware_part body tag_end =
     (case find_char_from CHR '' '' body tag_end of None \<Rightarrow> None
      | Some sp \<Rightarrow> Some (take (sp - tag_end - 1) (drop (tag_end + 1) body),
          case find_last_char CHR '']'' body of None \<Rightarrow> drop (sp + 1) body
          | Some e \<Rightarrow> sub_between body (sp + 1) (int e - int (sp + 1))))"

definition frame :: "string \<Rightarrow> string" where
  "frame m = show_nat (length m) @ '' '' @ m"

definition forward_entry :: "('d, 'f, 's) server_lib \<Rightarrow> syslog_m_t \<Rightarrow> string \<Rightarrow> string \<Rightarrow> ('d, 's) syslog_server \<Rightarrow> ('d, 's) syslog_server outcome" where
  "forward_entry lib v hostname msg st =
     (case sv_forwarder st of None \<Rightarrow> Ret st
      | Some fw \<Rightarrow>
          bind_outcome (Forward (ss_tcp lib) \<lparr>qe_data = frame msg,
              qe_json_data = (if kafkaForwarder fw \<noteq> None then Some (StructuredSyslogJsonMessage (ss_writer lib) v) else None), qe_skey = hostname\<rparr> fw)
            (\<lambda>fw'. Ret (st\<lparr>sv_forwarder := Some fw'\<rparr>)))"

text \<open>Completion, summary, forwarding of the completed message and storing.\<close>

definition process_fields ::
    "('d, 'f, 's) server_lib \<Rightarrow> MessageConfig \<Rightarrow> bool \<Rightarrow> string outcome \<Rightarrow> syslog_m_t \<Rightarrow> ('d, 's) syslog_server \<Rightarrow> (syslog_m_t \<times> ('d, 's) syslog_server) outcome" where
  "process_fields lib mc forwarding message v st =
     (if \<not> (process_and_store mc \<or> process_before_forward mc \<or> process_and_summarize mc) then Ret (v, st)
      else
        bind_outcome (if forwarding then bind_outcome message (\<lambda>m. Ret (Some m)) else Ret None) (\<lambda>msg.
        bind_outcome (StructuredSyslogDecorate (ss_deco lib) (sv_config st) (mc_ints mc) (v, msg)) (\<lambda>(v1, msg1).
          (let (us, c) = (if process_and_summarize mc
                          then StructuredSyslogUVESummarize (ss_doubles lib) (ss_deco lib) v1 (process_and_summarize_user mc) (sv_config st)
                          else ([], sv_config st));
               st1 = st\<lparr>sv_config := c, sv_uves := sv_uves st @ us\<rparr>
           in bind_outcome (case msg1 of None \<Rightarrow> Ret st1
                | Some m \<Rightarrow> if process_before_forward mc \<and> filter_msg v1 then forward_entry lib v1 (GetMapVals v ''hostname'' '''') m st1 else Ret st1) (\<lambda>st2.
              bind_outcome (if process_and_store mc then StructuredSyslogPush (deco_stale (ss_deco lib)) v1 (mc_tags mc) else Ret []) (\<lambda>cs.
              Ret (v1, st2\<lparr>sv_stats := sv_stats st2 @ cs\<rparr>)))))))"

definition StructuredSyslogPostParsing ::
    "('d, 'f, 's) server_lib \<Rightarrow> string outcome \<Rightarrow> syslog_m_t \<Rightarrow> ('d, 's) syslog_server \<Rightarrow> (bool \<times> ('d, 's) syslog_server) outcome" where
  "StructuredSyslogPostParsing lib message v0 st =
     (let v1 = erase_fields (deco_stale (ss_deco lib)) v0; body = GetMapVals v1 ''body'' ''''; v2 = map_erase ''body'' v1
      in case find_tag body of None \<Rightarrow> Ret (False, st)
         | Some (tag_end, tag) \<Rightarrow>
             (case GetMessageConfig (ss_regex lib) tag (sv_config st) of None \<Rightarrow> Ret (False, st)
              | Some mc \<Rightarrow>
                  if \<not> process_and_store mc \<and> \<not> forward mc \<and> \<not> process_and_summarize mc then Ret (False, st)
                  else (case hardware_part body tag_end of None \<Rightarrow> Ret (False, st)
                    | Some (hardware, part) \<Rightarrow>
                        (let (ok, v3, _) = ParseStructuredPart (put_str ''hardware'' hardware (put_str ''tag'' tag v2)) part (mc_ints mc) None
                         in if \<not> ok \<or> tag = ''APPTRACK_SESSION_CLOSE'' \<and> filter_session_close_msg v3
                               \<or> tag = ''APPTRACK_SESSION_VOL_UPDATE'' \<and> filter_vol_update_msg v3 then Ret (False, st)
                            else
                              (let forwarding = (sv_forwarder st \<noteq> None \<and> forward mc)
                               in bind_outcome (process_fields lib mc forwarding message v3 st) (\<lambda>(v4, st1).
                                    if forwarding \<and> filter_msg v4 \<and> \<not> process_before_forward mc
                                    then bind_outcome message (\<lambda>m. bind_outcome (forward_entry lib v4 (GetMapVals v4 ''hostname'' '''') m st1) (\<lambda>st2. Ret (True, st2)))
                                    else Ret (True, st1)))))))"

section \<open>Cutting the bytes into messages\<close>

text \<open>\<open>++i\<close> until the byte in front of \<open>i\<close> is \<open>c\<close> or the end is reached.\<close>

function scan_to :: "char \<Rightarrow> string \<Rightarrow> nat \<Rightarrow> nat" where
  "scan_to c p i = (if p ! (i - 1) \<noteq> c \<and> i < length p then scan_to c p (Suc i) else i)"
  by pat_completeness auto
termination by (relation "measure (\<lambda>(_, p, i). length p - i)") auto

declare scan_to.simps [simp del]

text \<open>Without a length the message ends at the next closing bracket; the last \<open><\<close> the slower index meets is its start.\<close>

function scan_message :: "string \<Rightarrow> nat \<Rightarrow> nat \<Rightarrow> nat \<Rightarrow> nat \<times> nat" where
  "scan_message p start i len_end =
     (if p ! (len_end - 1) \<noteq> CHR '']'' \<and> len_end < length p
      then scan_message p (if p ! (i - 1) = CHR ''<'' then i - 1 else start) (Suc i) (Suc len_end)
      else (start, len_end))"
  by pat_completeness auto
termination by (relation "measure (\<lambda>(p, _, _, e). length p - e)") auto

declare scan_message.simps [simp del]

text \<open>Start and end of the next message; with a length in front the end may lie behind the buffer.\<close>

definition locate_message :: "string \<Rightarrow> nat \<Rightarrow> nat \<times> nat" where
  "locate_message p start =
     (let len_end = scan_to CHR '' '' p (start + 1)
      in if len_end = length p then (start, len_end)
         else
           (let word = take (len_end - 1 - start) (drop start p);
                mlen = (if list_all is_digit word then strtol (c_str (word @ '' '')) else 0)
            in if mlen \<noteq> 0 then (start, len_end + nat mlen) else scan_message p start (start + 1) len_end))"

definition bytes_between :: "string \<Rightarrow> nat \<Rightarrow> nat \<Rightarrow> string outcome" where
  "bytes_between p i j = (if i \<le> j then Ret (take (j - i) (drop i p)) else Abort)"

text \<open>Parses one located message: whether the grammar matched, where the next message starts, and the state.
  \<open>int\<close> values are the low 32 bits of what they are assigned.\<close>

definition process_located ::
    "('d, 'f, 's) server_lib \<Rightarrow> string \<Rightarrow> string \<Rightarrow> nat \<Rightarrow> nat \<Rightarrow> ('d, 's) syslog_server \<Rightarrow> (bool \<times> nat \<times> ('d, 's) syslog_server) outcome" where
  "process_located lib ip p start fin st =
     (case ss_grammar lib (take (fin - start) (drop start p)) of
        (False, _) \<Rightarrow> Ret (False, fin, st)
      | (True, v) \<Rightarrow>
          (let stale = deco_stale (ss_deco lib); v1 = put_str ''ip'' ip v; len = sint (word_of_nat (length p) :: u32);
               message_len = sint (ucast (GetMapVal stale v1 ''msglen'' len) :: u32);
               start1 = (if message_len \<noteq> len then start + length (show_int (sint (GetMapVal stale v1 ''msglen'' 0))) + 1 else start)
           in bind_outcome (PostParsing (ss_clock lib) stale v1) (\<lambda>v2.
              bind_outcome (StructuredSyslogPostParsing lib (bytes_between p start1 fin) v2 st) (\<lambda>(_, st').
              Ret (True, if message_len = len then fin + 1 else nat ((int start1 + message_len) mod 2 ^ 64), st')))))"

text \<open>
  The loop over a buffer, with (TCP) or without (UDP) a session buffer for an unfinished rest; the result is the
  value returned, the new session buffer and the state. A datagram whose length points behind its end is read
  past its end. The log text of a rest that is too long runs from \<open>start\<close> to byte 2048: a start behind that is an
  error of the string constructor.
\<close>

partial_function (option) process_loop ::
    "('d, 'f, 's) server_lib \<Rightarrow> string \<Rightarrow> bool \<Rightarrow> string \<Rightarrow> nat \<Rightarrow> ('d, 's) syslog_server \<Rightarrow> (bool \<times> string \<times> ('d, 's) syslog_server) outcome option" where
  "process_loop lib ip has_buf p start0 st =
     (let (start, fin) = locate_message p start0
      in if has_buf \<and> (length p < fin \<or> fin = length p \<and> p ! (fin - 1) \<noteq> CHR '']'')
         then Some (if length p - start < 5120 then Ret (True, drop start p, st) else if start > 2048 then Abort else Ret (False, '''', st))
         else if length p < fin then Some Abort
         else (case process_located lib ip p start fin st of Abort \<Rightarrow> Some Abort
               | Ret (r, next, st') \<Rightarrow> if next < length p then process_loop lib ip has_buf p next st' else Some (Ret (r, '''', st'))))"

definition ProcessStructuredSyslog ::
    "('d, 'f, 's) server_lib \<Rightarrow> string \<Rightarrow> string option \<Rightarrow> string \<Rightarrow> ('d, 's) syslog_server \<Rightarrow> (bool \<times> string \<times> ('d, 's) syslog_server) outcome option" where
  "ProcessStructuredSyslog lib ip sess_buf data st =
     (case strip_nul data of Abort \<Rightarrow> Some Abort
      | Ret d \<Rightarrow> (case sess_buf of None \<Rightarrow> process_loop lib ip False d 0 st | Some b \<Rightarrow> process_loop lib ip True (b @ d) 0 st))"

text \<open>A TCP session: the reads of a session in order, each with the rest the one before has left.\<close>

fun ReadMsgs :: "('d, 'f, 's) server_lib \<Rightarrow> string \<Rightarrow> string \<Rightarrow> string list \<Rightarrow> ('d, 's) syslog_server \<Rightarrow> (string \<times> ('d, 's) syslog_server) outcome option" where
  "ReadMsgs lib ip buf [] st = Some (Ret (buf, st))"
| "ReadMsgs lib ip buf (data # reads) st =
     (case ProcessStructuredSyslog lib ip (Some buf) data st of None \<Rightarrow> None | Some Abort \<Rightarrow> Some Abort
      | Some (Ret (_, buf', st')) \<Rightarrow> ReadMsgs lib ip buf' reads st')"

section \<open>Reassembly of a stream\<close>

text \<open>The reference: messages one by one, without buffers and positions.\<close>

definition handle_message :: "('d, 'f, 's) server_lib \<Rightarrow> string \<Rightarrow> ('d, 's) syslog_server \<Rightarrow> string \<Rightarrow> ('d, 's) syslog_server outcome" where
  "handle_message lib ip st m =
     (case ss_grammar lib (frame m) of (False, _) \<Rightarrow> Ret st
      | (True, v) \<Rightarrow>
          bind_outcome (PostParsing (ss_clock lib) (deco_stale (ss_deco lib)) (put_str ''ip'' ip v)) (\<lambda>v2.
          bind_outcome (StructuredSyslogPostParsing lib (Ret m) v2 st) (\<lambda>(_, st'). Ret st')))"

text \<open>A message a sender counts: it ends with the bracket, holds no NUL and fits the session buffer, and when the
  grammar matches the counted message it has stored the count.\<close>

definition counted_message :: "('d, 'f, 's) server_lib \<Rightarrow> string \<Rightarrow> bool" where
  "counted_message lib m \<longleftrightarrow> m \<noteq> [] \<and> last m = CHR '']'' \<and> CHR 0x00 \<notin> set m \<and> length (frame m) \<le> 5120 \<and>
     (case ss_grammar lib (frame m) of (False, _) \<Rightarrow> True
      | (True, v) \<Rightarrow> sorted_map v \<and> map_of v ''msglen'' = Some (IntHolder ''msglen'' (word_of_nat (length m))))"

lemma scan_to_found: "c \<notin> set w \<Longrightarrow> scan_to c (pre @ w @ c # rest) (Suc (length pre)) = Suc (length pre + length w)"
proof (induction w arbitrary: pre)
  case (Cons x w)
  then have "x \<noteq> c" by auto
  with Cons show ?case using Cons.IH[of "pre @ [x]"] by (subst scan_to.simps) (simp add: nth_append)
qed (subst scan_to.simps, simp add: nth_append)

lemma scan_to_end: "c \<notin> set w \<Longrightarrow> w \<noteq> [] \<Longrightarrow> scan_to c (pre @ w) (Suc (length pre)) = length pre + length w"
proof (induction w arbitrary: pre)
  case (Cons x w)
  then have "x \<noteq> c" by auto
  with Cons show ?case using Cons.IH[of "pre @ [x]"] by (subst scan_to.simps) (cases "w = []"; simp add: nth_append)
qed simp

lemma digits_no: "list_all is_digit w \<Longrightarrow> CHR '' '' \<notin> set w" "list_all is_digit w \<Longrightarrow> CHR '']'' \<notin> set w" "list_all is_digit w \<Longrightarrow> CHR 0x00 \<notin> set w"
  by (auto simp: list_all_iff is_digit_def)

lemma strtol_counted: "n < 2 ^ 63 \<Longrightarrow> strtol (c_str (show_nat n @ '' '')) = int n"
proof -
  assume n: "n < 2 ^ 63"
  let ?w = "show_nat n @ '' ''"
  have c: "c_str ?w = ?w" using digits_no(3)[OF show_nat_digits, of n] by (auto simp: c_str_def takeWhile_eq_all_conv)
  obtain d ds where d: "show_nat n = d # ds" using show_nat_Nil[of n] by (cases "show_nat n") auto
  then have "is_digit d" using show_nat_digits[of n] by simp
  then have "\<not> is_space d" "d \<noteq> CHR ''-''" "d \<noteq> CHR ''+''" using is_digit_not_space by (auto simp: is_digit_def)
  moreover have "takeWhile is_digit ?w = show_nat n" using show_nat_digits[of n] by (simp add: takeWhile_append2 list_all_iff is_digit_def)
  ultimately have "scan_int ?w = (False, show_nat n)" by (simp add: scan_int_def d)
  with n c show ?thesis by (simp add: strtol_def)
qed

lemma locate_counted:
  assumes "rest \<noteq> []" and "0 < n" and "n < 2 ^ 63"
  shows "locate_message (pre @ show_nat n @ '' '' @ rest) (length pre) = (length pre, length pre + length (show_nat n) + 1 + n)"
proof -
  have s: "scan_to CHR '' '' (pre @ show_nat n @ CHR '' '' # rest) (Suc (length pre)) = Suc (length pre + length (show_nat n))"
    using scan_to_found[OF digits_no(1)[OF show_nat_digits[of n]], of pre rest] by simp
  have l: "length rest \<noteq> 0" using assms(1) by simp
  show ?thesis using assms(2) l strtol_counted[OF assms(3)] by (simp add: locate_message_def s show_nat_digits Let_def del: length_0_conv)
qed

lemma locate_unfinished:
  assumes "w \<noteq> []" and "list_all is_digit w \<or> (\<exists>ds. w = ds @ '' '' \<and> list_all is_digit ds)"
  shows "locate_message (pre @ w) (length pre) = (length pre, length (pre @ w))" and "last w \<noteq> CHR '']''"
proof -
  have "scan_to CHR '' '' (pre @ w) (Suc (length pre)) = length (pre @ w)"
    using assms scan_to_end[OF digits_no(1), of w pre] scan_to_found[OF digits_no(1), of _ pre "[]"] by auto
  then show "locate_message (pre @ w) (length pre) = (length pre, length (pre @ w))" by (simp add: locate_message_def)
  show "last w \<noteq> CHR '']''" using assms digits_no(2)[of w] last_in_set[OF assms(1)] by fastforce
qed

text \<open>A part of a counted message waits in the session buffer.\<close>

lemma unfinished_waits:
  assumes ok: "counted_message lib m" and part: "part @ t = frame m" "part \<noteq> []" "t \<noteq> []"
  shows "process_loop lib ip True (pre @ part) (length pre) st = Some (Ret (True, part, st))"
proof -
  let ?ds = "show_nat (length m)"
  have n: "0 < length m" "length m < 2 ^ 63" using ok by (auto simp: counted_message_def frame_def)
  have "length part < length (frame m)" using part(3) by (simp flip: part(1))
  then have len: "length part < 5120" using ok by (simp add: counted_message_def)
  have eq: "part @ t = ?ds @ '' '' @ m" using part(1) by (simp add: frame_def)
  have "length (pre @ part) < snd (locate_message (pre @ part) (length pre)) \<and> fst (locate_message (pre @ part) (length pre)) = length pre \<or>
      locate_message (pre @ part) (length pre) = (length pre, length (pre @ part)) \<and> last part \<noteq> CHR '']''"
  proof (cases "length part \<le> Suc (length ?ds)")
    case True
    have "part = take (length part) ((?ds @ '' '') @ m)" using arg_cong[OF eq, of "take (length part)"] by simp
    then have "part = take (length part) (?ds @ '' '')" using True by (simp only: take_append) simp
    then have "list_all is_digit part \<or> (\<exists>ds. part = ds @ '' '' \<and> list_all is_digit ds)"
      using show_nat_digits[of "length m"] set_take_subset[of "length part" ?ds] by (cases "length part \<le> length ?ds") (auto simp: list_all_iff)
    then show ?thesis using locate_unfinished[OF part(2)] by blast
  next
    case False
    let ?k = "Suc (length ?ds)"
    from False have "take ?k part = ?ds @ '' ''" "drop ?k part @ t = m" using arg_cong[OF eq, of "take ?k"] arg_cong[OF eq, of "drop ?k"] by simp_all
    then obtain rest where rest: "part = ?ds @ '' '' @ rest" "rest @ t = m" by (metis append_take_drop_id append_assoc)
    with False have "rest \<noteq> []" by auto
    then show ?thesis using locate_counted[OF _ n, of rest pre] rest part(3) by auto
  qed
  moreover have "(pre @ part) ! (length pre + length part - Suc 0) = last part" using part(2) last_conv_nth[of "pre @ part"] by simp
  ultimately show ?thesis using len by (subst process_loop.simps) (auto split: prod.split)
qed

text \<open>A counted message in the buffer is treated as the reference treats it, and the next one starts behind it.\<close>

lemma located_message:
  assumes ok: "counted_message lib m" and len: "length (pre @ frame m @ rest) < 2 ^ 31"
  shows "\<exists>r. process_located lib ip (pre @ frame m @ rest) (length pre) (length (pre @ frame m)) st =
    bind_outcome (handle_message lib ip st m) (\<lambda>st'. Ret (r, length (pre @ frame m), st'))"
proof (cases "ss_grammar lib (frame m)")
  case (Pair b v)
  let ?p = "pre @ frame m @ rest" and ?n = "length m" and ?stale = "deco_stale (ss_deco lib)"
  show ?thesis
  proof (cases b)
    case False
    then show ?thesis using Pair by (auto simp: process_located_def handle_message_def)
  next
    case True
    then have bT: "b = True" by simp
    have v: "sorted_map v" "map_of v ''msglen'' = Some (IntHolder ''msglen'' (word_of_nat ?n))" using ok Pair True by (simp_all add: counted_message_def)
    then have g: "GetMapVal ?stale (put_str ''ip'' ip v) ''msglen'' d = word_of_nat ?n" for d by (simp add: GetMapVal_def put_str_def map_of_insert)
    have f: "length (frame m) = length (show_nat ?n) + 1 + ?n" by (simp add: frame_def)
    have n: "?n < length ?p" "?n < 2 ^ 31" using len f by simp_all
    have w: "sint (word_of_nat k :: u32) = int k" if "k < 2 ^ 31" for k using that by (simp add: signed_of_nat signed_take_bit_int_eq_self)
    have u: "sint (ucast (word_of_nat ?n :: u64) :: u32) = int ?n" using w[OF n(2)] by (simp add: unsigned_of_nat take_bit_nat_eq_self n(2) less_trans[OF n(2)])
    have s: "sint (word_of_nat ?n :: u64) = int ?n" using n(2) by (simp add: signed_of_nat signed_take_bit_int_eq_self)
    have b: "bytes_between ?p (length pre + length (show_int (int ?n)) + 1) (length (pre @ frame m)) = Ret m"
      by (simp add: bytes_between_def frame_def show_int_def)
    have e: "nat ((int (length pre + length (show_int (int ?n)) + 1) + int ?n) mod 2 ^ 64) = length (pre @ frame m)"
      using len f by (simp add: show_int_def flip: of_nat_add)
    have ne: "int ?n \<noteq> int (length ?p)" and t: "take (length (pre @ frame m) - length pre) (drop (length pre) ?p) = frame m" using n(1) by simp_all
    have "process_located lib ip ?p (length pre) (length (pre @ frame m)) st =
        bind_outcome (handle_message lib ip st m) (\<lambda>st'. Ret (True, length (pre @ frame m), st'))"
      using ne b e unfolding process_located_def handle_message_def t Pair bT prod.case bool.case Let_def g u s w[OF len]
      by (simp add: bind_outcome_assoc case_prod_unfold)
    then show ?thesis by blast
  qed
qed

lemma frame_Nil [simp]: "frame m \<noteq> []"
  by (simp add: frame_def)

lemma locate_frame:
  assumes "counted_message lib m"
  shows "locate_message (pre @ frame m @ rest) (length pre) = (length pre, length (pre @ frame m))" and "last (frame m) = CHR '']''"
  using assms locate_counted[of "m @ rest" "length m" pre] by (auto simp: counted_message_def frame_def)

lemma loop_step:
  assumes "counted_message lib m" and "length (pre @ frame m @ rest) < 2 ^ 31"
  shows "\<exists>r. process_loop lib ip True (pre @ frame m @ rest) (length pre) st =
    (case handle_message lib ip st m of Abort \<Rightarrow> Some Abort
     | Ret st' \<Rightarrow> if rest = [] then Some (Ret (r, [], st')) else process_loop lib ip True (pre @ frame m @ rest) (length (pre @ frame m)) st')"
proof -
  let ?p = "pre @ frame m @ rest"
  obtain r where r: "process_located lib ip ?p (length pre) (length (pre @ frame m)) st =
      bind_outcome (handle_message lib ip st m) (\<lambda>st'. Ret (r, length (pre @ frame m), st'))" using located_message[OF assms] by blast
  have "?p ! (length (pre @ frame m) - 1) = CHR '']''"
    using locate_frame(2)[OF assms(1)] last_conv_nth[of "pre @ frame m"] by (simp add: nth_append)
  then have "process_loop lib ip True ?p (length pre) st =
    (case bind_outcome (handle_message lib ip st m) (\<lambda>st'. Ret (r, length (pre @ frame m), st')) of Abort \<Rightarrow> Some Abort
     | Ret (r, next, st') \<Rightarrow> if next < length ?p then process_loop lib ip True ?p next st' else Some (Ret (r, '''', st')))"
    unfolding r[symmetric] by (subst process_loop.simps) (simp add: locate_frame(1)[OF assms(1)])
  then show ?thesis by (intro exI[of _ r]) (simp split: outcome.split)
qed

text \<open>
  The interface between the scanner of a buffer and the sessions: on a whole framed message the loop does what the
  handler does and goes on behind it; an unfinished one is returned as the rest. A stream of messages then has
  the effect of its messages.
\<close>

locale framed_stream =
  fixes framed :: "'m \<Rightarrow> string" and ok :: "'m \<Rightarrow> bool" and handle :: "'st \<Rightarrow> 'm \<Rightarrow> 'st outcome"
    and loop :: "string \<Rightarrow> nat \<Rightarrow> 'st \<Rightarrow> (bool \<times> string \<times> 'st) outcome option"
  assumes framed_Nil: "framed m \<noteq> []"
    and whole: "\<lbrakk>ok m; length (pre @ framed m @ rest) < 2 ^ 31\<rbrakk> \<Longrightarrow> \<exists>r. loop (pre @ framed m @ rest) (length pre) st =
      (case handle st m of Abort \<Rightarrow> Some Abort
       | Ret st' \<Rightarrow> if rest = [] then Some (Ret (r, [], st')) else loop (pre @ framed m @ rest) (length (pre @ framed m)) st')"
    and waits: "\<lbrakk>ok m; part @ t = framed m; part \<noteq> []; t \<noteq> []\<rbrakk> \<Longrightarrow> loop (pre @ part) (length pre) st = Some (Ret (True, part, st))"
begin

lemma loop_stream:
  assumes "list_all ok fs" and "part = [] \<or> (\<exists>m t. ok m \<and> part @ t = framed m \<and> t \<noteq> [])" and "fs \<noteq> [] \<or> part \<noteq> []"
    and "length (pre @ concat (map framed fs) @ part) < 2 ^ 31"
  shows "\<exists>r. loop (pre @ concat (map framed fs) @ part) (length pre) st = Some (bind_outcome (foldl_outcome handle st fs) (\<lambda>st'. Ret (r, part, st')))"
  using assms
proof (induction fs arbitrary: pre st)
  case Nil
  then obtain m t where "ok m" "part @ t = framed m" "t \<noteq> []" "part \<noteq> []" by auto
  then show ?case using waits[of m part t pre st] by auto
next
  case (Cons m fs)
  let ?rest = "concat (map framed fs) @ part"
  from whole[of m pre ?rest st] Cons.prems obtain r where r: "loop (pre @ framed m @ ?rest) (length pre) st =
    (case handle st m of Abort \<Rightarrow> Some Abort
     | Ret st' \<Rightarrow> if ?rest = [] then Some (Ret (r, [], st')) else loop (pre @ framed m @ ?rest) (length (pre @ framed m)) st')" by auto
  show ?case
  proof (cases "handle st m")
    case Abort
    then show ?thesis using r by simp
  next
    case (Ret st')
    show ?thesis
    proof (cases "?rest = []")
      case True
      then have "fs = []" "part = []" using framed_Nil by (cases fs; simp)+
      then show ?thesis using r Ret by simp
    next
      case False
      then have "fs \<noteq> [] \<or> part \<noteq> []" by auto
      moreover have "loop (pre @ framed m @ ?rest) (length pre) st = loop (pre @ framed m @ ?rest) (length (pre @ framed m)) st'"
        unfolding r Ret outcome.case if_not_P[OF False] ..
      ultimately show ?thesis using Cons.IH[of "pre @ framed m" st'] Cons.prems Ret by simp
    qed
  qed
qed

text \<open>Any prefix of a stream is a number of whole messages and a part of the next one.\<close>

lemma stream_prefix:
  assumes "s @ t = concat (map framed ms)"
  shows "\<exists>fs part ms'. ms = fs @ ms' \<and> s = concat (map framed fs) @ part \<and> part @ t = concat (map framed ms') \<and>
    (part = [] \<or> (\<exists>m ms'' u. ms' = m # ms'' \<and> part @ u = framed m \<and> u \<noteq> []))"
  using assms
proof (induction ms arbitrary: s)
  case (Cons m ms)
  show ?case
  proof (cases "length s < length (framed m)")
    case True
    then have "s @ drop (length s) (framed m) = framed m" "drop (length s) (framed m) \<noteq> []"
      using Cons.prems by (auto simp: append_eq_append_conv_if split: if_splits) (metis append_take_drop_id)
    then show ?thesis using Cons.prems by (intro exI[of _ "[]"] exI[of _ s] exI[of _ "m # ms"]) auto
  next
    case False
    then have s: "s = framed m @ drop (length (framed m)) s" "drop (length (framed m)) s @ t = concat (map framed ms)"
      using Cons.prems by (auto simp: append_eq_append_conv_if split: if_splits) (metis append_take_drop_id)+
    from Cons.IH[OF s(2)] obtain fs part ms' where "ms = fs @ ms'" "drop (length (framed m)) s = concat (map framed fs) @ part"
      "part @ t = concat (map framed ms')" "part = [] \<or> (\<exists>m ms'' u. ms' = m # ms'' \<and> part @ u = framed m \<and> u \<noteq> [])" by blast
    then show ?thesis using s(1) by (intro exI[of _ "m # fs"] exI[of _ part] exI[of _ ms']) auto
  qed
qed simp

end

interpretation stream: framed_stream frame "counted_message lib" "handle_message lib ip" "process_loop lib ip True" for lib ip
  by unfold_locales (simp_all add: loop_step unfinished_waits)

lemma strip_nul_id: "d \<noteq> [] \<Longrightarrow> last d \<noteq> CHR 0x00 \<Longrightarrow> strip_nul d = Ret d"
  by (cases d rule: rev_cases) (simp_all add: strip_nul_def)

lemma frame_no_nul: "counted_message lib m \<Longrightarrow> CHR 0x00 \<notin> set (frame m)"
  using digits_no(3)[OF show_nat_digits, of "length m"] by (auto simp: counted_message_def frame_def)

lemma stream_no_nul: "list_all (counted_message lib) ms \<Longrightarrow> CHR 0x00 \<notin> set (concat (map frame ms))"
  using frame_no_nul by (auto simp: list_all_iff)

lemma reads_reassembled:
  assumes "list_all (counted_message lib) ms" and "buf @ concat reads = concat (map frame ms)"
    and "buf = [] \<or> (\<exists>m ms'' u. ms = m # ms'' \<and> buf @ u = frame m \<and> u \<noteq> [])"
    and "list_all (\<lambda>d. d \<noteq> [] \<and> length d \<le> 2 ^ 30) reads"
  shows "ReadMsgs lib ip buf reads st = Some (bind_outcome (foldl_outcome (handle_message lib ip) st ms) (\<lambda>st'. Ret ([], st')))"
  using assms
proof (induction reads arbitrary: buf ms st)
  case Nil
  then have "ms = []" by (cases ms) (auto simp: append_eq_append_conv2 append_eq_append_conv)
  then show ?case using Nil by simp
next
  case (Cons d reads)
  have "(buf @ d) @ concat reads = concat (map frame ms)" using Cons.prems(2) by simp
  from stream.stream_prefix[OF this] obtain fs part ms' where ms: "ms = fs @ ms'" and s: "buf @ d = concat (map frame fs) @ part"
    and t: "part @ concat reads = concat (map frame ms')" and u: "part = [] \<or> (\<exists>m ms'' u. ms' = m # ms'' \<and> part @ u = frame m \<and> u \<noteq> [])" by blast
  have ok: "list_all (counted_message lib) fs" "list_all (counted_message lib) ms'" using Cons.prems(1) ms by auto
  have un: "part = [] \<or> (\<exists>m t. counted_message lib m \<and> part @ t = frame m \<and> t \<noteq> [])" using u ok(2) by auto
  have d: "d \<noteq> []" "length d \<le> 2 ^ 30" "list_all (\<lambda>d. d \<noteq> [] \<and> length d \<le> 2 ^ 30) reads" using Cons.prems(4) by auto
  have "length buf \<le> 5120"
    using Cons.prems(1,3) by (auto simp: counted_message_def dest!: arg_cong[where f = length])
  then have len: "length ([] @ concat (map frame fs) @ part) < 2 ^ 31" using d(2) by (simp flip: s)
  have "set d \<subseteq> set (concat (map frame ms))" unfolding Cons.prems(2)[symmetric] by auto
  then have "last d \<noteq> CHR 0x00" using stream_no_nul[OF Cons.prems(1)] last_in_set[OF d(1)] by (metis subsetD)
  then have strip: "strip_nul d = Ret d" by (rule strip_nul_id[OF d(1)])
  have ne: "fs \<noteq> [] \<or> part \<noteq> []" using s d(1) by auto
  obtain r where r: "process_loop lib ip True (buf @ d) 0 st = Some (bind_outcome (foldl_outcome (handle_message lib ip) st fs) (\<lambda>st'. Ret (r, part, st')))"
    using stream.loop_stream[OF ok(1) un ne len, of ip st] by (auto simp: s)
  show ?case
    using Cons.IH[OF ok(2) t u d(3)]
    by (cases "foldl_outcome (handle_message lib ip) st fs") (simp_all add: ProcessStructuredSyslog_def strip r ms foldl_outcome_append)
qed

text \<open>
  C5: A TCP stream of counted messages is reassembled: however the stream is cut into reads (in the middle of a
  count or of a message, many messages in one read), every message is handled once, whole and in order, exactly as
  if the messages were handed over one by one, and nothing is left in the session buffer. In particular the loop
  over the buffer ends. The grammar has to report the count it read in front of a message.
\<close>

theorem stream_reassembled:
  assumes "list_all (counted_message lib) ms" and "concat reads = concat (map frame ms)"
    and "list_all (\<lambda>d. d \<noteq> [] \<and> length d \<le> 2 ^ 30) reads"
  shows "ReadMsgs lib ip [] reads st = Some (bind_outcome (foldl_outcome (handle_message lib ip) st ms) (\<lambda>st'. Ret ([], st')))"
  using reads_reassembled[OF assms(1), of "[]" reads] assms(2,3) by simp

text \<open>A server that knows one message, and a stream of two messages cut inside a count and inside a text.\<close>

definition plain_tcp :: "string tcp_lib" where
  "plain_tcp = \<lparr>tcp_connect = (\<lambda>_ _. ''''), tcp_send = (\<lambda>d s. (True, length d, s @ d)), tcp_connected = (\<lambda>_. True), split_colon = (\<lambda>s. [s, ''1''])\<rparr>"

definition plain_server_lib :: "(unit, unit, string) server_lib" where
  "plain_server_lib = \<lparr>ss_grammar = (\<lambda>s. (True, [(''body'', StrHolder ''body'' ''T [h a=1]''), (''msglen'', IntHolder ''msglen'' (word_of_nat (length s - 3)))])),
     ss_clock = plain_clock, ss_deco = exact_lib, ss_regex = \<lparr>valid_regex = (\<lambda>_. False), regex_search = (\<lambda>_ _ _ _. None)\<rparr>, ss_writer = (\<lambda>_. ''''), ss_doubles = no_doubles, ss_tcp = plain_tcp\<rparr>"

definition plain_server :: "(unit, string) syslog_server" where
  "plain_server = \<lparr>sv_config = new_StructuredSyslogConfig 5, sv_forwarder = None, sv_uves = [], sv_stats = []\<rparr>"

theorem stream_reassembled_witness:
  "ReadMsgs plain_server_lib ''::1'' [] [''1'', ''3 <14>T [h'', '' a=1]13 <14>T [h a=1]''] plain_server =
     Some (bind_outcome (foldl_outcome (handle_message plain_server_lib ''::1'') plain_server [''<14>T [h a=1]'', ''<14>T [h a=1]'']) (\<lambda>st'. Ret ([], st')))"
proof (rule stream_reassembled)
  show "list_all (counted_message plain_server_lib) [''<14>T [h a=1]'', ''<14>T [h a=1]'']" by code_simp
  show "concat [''1'', ''3 <14>T [h'', '' a=1]13 <14>T [h a=1]''] = concat (map frame [''<14>T [h a=1]'', ''<14>T [h a=1]''])" by code_simp
qed simp

section \<open>The tag of a message\<close>

lemma find_tag_structured:
  assumes "CHR '' '' \<notin> set tag" and "CHR ''['' \<notin> set tag"
  shows "find_tag (tag @ '' ['' @ part @ '']'') = Some (Suc (length tag), tag)"
proof -
  let ?b = "tag @ '' ['' @ part @ '']''"
  have a: "find_char CHR ''['' ?b = Some (Suc (length tag))" using find_char_append[of "CHR ''[''" "tag @ '' ''" "part @ '']''"] assms(2) by simp
  have b: "find_char CHR '' '' ?b = Some (length tag)" using find_char_append[OF assms(1)] by simp
  have c: "find_char_from CHR '']'' ?b (Suc (length tag) + 1) \<noteq> None" by (simp add: find_char_from_def)
  have d: "message_tag ?b (Suc (length tag)) (length tag) = tag"
    by (simp add: message_tag_def sub_between_def find_last_char_None[OF assms(1)])
  show ?thesis using c by (auto simp: find_tag_def a b d simp del: append.append_Cons)
qed

lemma hardware_part_structured:
  assumes "CHR '' '' \<notin> set hw"
  shows "hardware_part (tag @ '' ['' @ hw @ '' '' @ part @ '']'') (Suc (length tag)) = Some (hw, part)"
proof -
  let ?b = "tag @ '' ['' @ hw @ '' '' @ part @ '']''"
  have a: "find_char_from CHR '' '' ?b (Suc (length tag)) = Some (length tag + length hw + 2)"
    using find_char_append[OF assms, of "part @ '']''"] by (simp add: find_char_from_def)
  have b: "find_last_char CHR '']'' ?b = Some (length tag + length hw + 3 + length part)"
    using find_last_char_snoc[of "CHR '']''" "[]" "tag @ '' ['' @ hw @ '' '' @ part"] by simp
  show ?thesis unfolding hardware_part_def a b option.case sub_between_def by (simp add: numeral_3_eq_3)
qed

text \<open>
  C40: A body with exactly one word in front of the tag loses the tag: the length of the substring is the position of
  the first blank less the position of the last one, which is 0. The message is looked up under the empty name.
\<close>

theorem one_word_hides_tag:
  assumes "CHR '' '' \<notin> set w" and "CHR ''['' \<notin> set w" and "CHR '' '' \<notin> set tag" and "CHR ''['' \<notin> set tag"
  shows "find_tag (w @ '' '' @ tag @ '' ['' @ part @ '']'') = Some (length w + length tag + 2, '''')"
proof -
  let ?b = "w @ '' '' @ tag @ '' ['' @ part @ '']''"
  have a: "find_char CHR ''['' ?b = Some (length w + length tag + 2)"
    using find_char_append[of "CHR ''[''" "w @ '' '' @ tag @ '' ''" "part @ '']''"] assms(2,4) by simp
  have b: "find_char CHR '' '' ?b = Some (length w)" using find_char_append[OF assms(1)] by simp
  have "drop (length w + length tag + 2 + 1) ?b = part @ '']''" by (simp add: numeral_3_eq_3 numeral_2_eq_2)
  then have c: "find_char_from CHR '']'' ?b (length w + length tag + 2 + 1) \<noteq> None" by (simp only: find_char_from_def) simp
  have "find_last_char CHR '' '' (w @ '' '' @ tag) = Some (length w)" using find_last_char_snoc[OF assms(3), of w] by simp
  moreover have "sub_between ?b 0 (int (length w + Suc (length tag))) = w @ '' '' @ tag" by (simp add: sub_between_def del: of_nat_add of_nat_Suc)
  moreover have "int (length w + length tag + 2) - 1 = int (length w + Suc (length tag))" by simp
  ultimately have d: "message_tag ?b (length w + length tag + 2) (length w) = ''''" unfolding message_tag_def Let_def by (simp add: sub_between_def)
  from c obtain y where y: "find_char_from CHR '']'' ?b (length w + length tag + 2 + 1) = Some y" by blast
  show ?thesis by (simp only: find_tag_def a b d y option.case)
qed

theorem one_word_hides_tag_witness: "find_tag (''- '' @ ''RT_FLOW'' @ '' ['' @ ''junos a=1'' @ '']'') = Some (10, '''')"
  using one_word_hides_tag[of "''-''" "''RT_FLOW''" "''junos a=1''"] by simp

section \<open>Forwarding a message as it came\<close>

text \<open>What forwarding does with a destination: a session that is ready gets the counted message.\<close>

lemma TcpForwarder_Send_ready:
  "snd (snd (TcpForwarder_Send tcp d f)) =
     (if ready_to_send f then f\<lparr>fw_session := snd (snd (tcp_send tcp d (fw_session f))), ready_to_send := fst (tcp_send tcp d (fw_session f))\<rparr> else f)"
  by (simp add: TcpForwarder_Send_def case_prod_beta Let_def)

lemma forward_entry_runs:
  assumes "sv_forwarder st = Some fw"
  shows "forward_entry lib v host m st = Ret (st\<lparr>sv_forwarder := Some \<lparr>
      tcpForwarder = map (\<lambda>f. snd (snd (TcpForwarder_Send (ss_tcp lib) (frame m) f))) (tcpForwarder fw),
      kafkaForwarder = map_option (\<lambda>sent. sent @ [(StructuredSyslogJsonMessage (ss_writer lib) v, host)]) (kafkaForwarder fw)\<rparr>\<rparr>)"
  using assms by (cases "kafkaForwarder fw") (simp_all add: forward_entry_def Forward_def Let_def)

text \<open>
  C23: A structured message that is configured to be forwarded only is handed on as it came, whatever is in its
  brackets: every TCP destination that can be written to is given the bytes of the message with their number in
  front (so that a collector at the other end can reassemble them), a destination that is still busy is left alone,
  Kafka gets one JSON document of the fields, and neither the configuration nor the UVEs nor the statistics change.
\<close>

theorem forwarded_as_received:
  assumes "GetMapVals (erase_fields (deco_stale (ss_deco lib)) v0) ''body'' '''' = tag @ '' ['' @ hw @ '' '' @ part @ '']''"
    and "CHR '' '' \<notin> set tag" and "CHR ''['' \<notin> set tag" and "CHR '' '' \<notin> set hw"
    and "GetMessageConfig (ss_regex lib) tag (sv_config st) = Some mc"
    and "forward mc" and "\<not> process_and_store mc" and "\<not> process_and_summarize mc" and "\<not> process_before_forward mc"
    and "ParseStructuredPart (put_str ''hardware'' hw (put_str ''tag'' tag (map_erase ''body'' (erase_fields (deco_stale (ss_deco lib)) v0)))) part (mc_ints mc) None = (True, v, x)"
    and "tag \<notin> {''APPTRACK_SESSION_CLOSE'', ''APPTRACK_SESSION_VOL_UPDATE''}" and "filter_msg v" and "sv_forwarder st = Some fw"
  shows "StructuredSyslogPostParsing lib (Ret m) v0 st = Ret (True, st\<lparr>sv_forwarder := Some \<lparr>
      tcpForwarder = map (\<lambda>f. if ready_to_send f
          then f\<lparr>fw_session := snd (snd (tcp_send (ss_tcp lib) (frame m) (fw_session f))), ready_to_send := fst (tcp_send (ss_tcp lib) (frame m) (fw_session f))\<rparr>
          else f) (tcpForwarder fw),
      kafkaForwarder = map_option (\<lambda>sent. sent @ [(StructuredSyslogJsonMessage (ss_writer lib) v, GetMapVals v ''hostname'' '''')]) (kafkaForwarder fw)\<rparr>\<rparr>)"
proof -
  have tag: "find_tag (tag @ '' ['' @ hw @ '' '' @ part @ '']'') = Some (Suc (length tag), tag)"
    using find_tag_structured[OF assms(2,3), of "hw @ '' '' @ part"] by simp
  show ?thesis
    unfolding StructuredSyslogPostParsing_def Let_def assms(1) tag option.case prod.case assms(5) hardware_part_structured[OF assms(4)] assms(10)
    using assms(6-9,11-13) by (simp add: process_fields_def forward_entry_runs TcpForwarder_Send_ready)
qed

definition forward_only :: MessageConfig where
  "forward_only = \<lparr>mc_name = ''T'', mc_tags = [], mc_ints = [''a''], process_and_store = False, forward = True, process_before_forward = False,
     process_and_summarize = False, process_and_summarize_user = False, mc_refreshed = True\<rparr>"

definition forwarding_server :: "(unit, string) syslog_server" where
  "forwarding_server = plain_server\<lparr>sv_config := (new_StructuredSyslogConfig 5)\<lparr>message_configs := [(''T'', forward_only)]\<rparr>,
     sv_forwarder := Some \<lparr>tcpForwarder = [new_TcpForwarder plain_tcp ''h'' 514, (new_TcpForwarder plain_tcp ''g'' 514)\<lparr>ready_to_send := False\<rparr>], kafkaForwarder = None\<rparr>\<rparr>"

theorem forwarded_as_received_witness:
  "\<exists>st'. StructuredSyslogPostParsing plain_server_lib (Ret ''<14>T [h a=1]'') [(''body'', StrHolder ''body'' ''T [h ]'')] forwarding_server = Ret (True, st') \<and>
     map_option (\<lambda>fw. map fw_session (tcpForwarder fw)) (sv_forwarder st') = Some [''13 <14>T [h a=1]'', '''']"
proof -
  let ?v0 = "[(''body'', StrHolder ''body'' ''T [h ]'')]" and ?lib = plain_server_lib and ?st = forwarding_server
  let ?fw = "the (sv_forwarder ?st)" and ?e = "erase_fields (deco_stale (ss_deco ?lib)) ?v0"
  let ?v = "[(''hardware'', StrHolder ''hardware'' ''h''), (''tag'', StrHolder ''tag'' ''T'')]"
  have a: "GetMapVals ?e ''body'' '''' = ''T'' @ '' ['' @ ''h'' @ '' '' @ '''' @ '']''" by code_simp
  have b: "CHR '' '' \<notin> set ''T''" "CHR ''['' \<notin> set ''T''" "CHR '' '' \<notin> set ''h''" by simp_all
  have c: "GetMessageConfig (ss_regex ?lib) ''T'' (sv_config ?st) = Some forward_only" by code_simp
  have d: "forward forward_only" "\<not> process_and_store forward_only" "\<not> process_and_summarize forward_only" "\<not> process_before_forward forward_only"
    by (simp_all add: forward_only_def)
  have e: "ParseStructuredPart (put_str ''hardware'' ''h'' (put_str ''tag'' ''T'' (map_erase ''body'' ?e))) '''' (mc_ints forward_only) None = (True, ?v, None)" by code_simp
  have f: "''T'' \<notin> {''APPTRACK_SESSION_CLOSE'', ''APPTRACK_SESSION_VOL_UPDATE''}" "filter_msg ?v" "sv_forwarder ?st = Some ?fw" by code_simp+
  have g: "map (\<lambda>f. fw_session (if ready_to_send f then f\<lparr>fw_session := snd (snd (tcp_send (ss_tcp ?lib) (frame ''<14>T [h a=1]'') (fw_session f))),
      ready_to_send := fst (tcp_send (ss_tcp ?lib) (frame ''<14>T [h a=1]'') (fw_session f))\<rparr> else f)) (tcpForwarder ?fw) = [''13 <14>T [h a=1]'', '''']" by code_simp
  show ?thesis using forwarded_as_received[OF a b c d e f, of "''<14>T [h a=1]''"] g by (simp add: comp_def)
qed

end
