(* ===== verification/Generators.thy ===== *)
theory Generators
  imports Collector "HOL-Library.List_Lexorder" "HOL-Library.Char_ord"
begin

text \<open>
  \<open>generator.cc\<close> and \<open>collector.cc\<close>: the sessions of the collector and the generators (the processes that send
  messages) behind them. A generator belongs to at most one session; back pressure of the database defers the
  queue of its session for a time that grows with repeated back pressure. Sessions with their state machines,
  timers and redis belong to libraries: a session is a number with the part of its state the collector sets, the
  answers of redis and of the timer are arguments.
\<close>

section \<open>Generators and sessions\<close>

text \<open>Source, module, instance and node type, in this order.\<close>

type_synonym GeneratorId = "string list"

record GeneratorInfoAttr =
  connects :: u32
  resets :: u32
  connect_time :: u64
  reset_time :: u64

text \<open>\<open>gen_session\<close> stands for \<open>viz_session_\<close> and \<open>state_machine_\<close>, which are set and cleared together; the timer is
  absent or running or not.\<close>

record SandeshGenerator =
  gen_session :: "nat option"
  gen_attr :: GeneratorInfoAttr
  gen_disconnected :: bool
  sm_defer_timer :: "bool option"
  sm_defer_timer_expiry_time_usec :: u64
  sm_defer_time_msec :: int
  gen_statistics :: VizMsgStatistics

text \<open>Size, level, high or low, and whether the queue is deferred or released at the mark.\<close>

type_synonym QueueWaterMarkInfo = "nat \<times> int \<times> bool \<times> bool"

record VizSession =
  vs_generator :: "GeneratorId option"
  sm_generator_key :: string
  sm_defer_dequeue :: bool
  sm_water_marks :: "QueueWaterMarkInfo list"
  vs_closing :: bool
  vs_sent :: "string list"

definition new_VizSession :: VizSession where
  "new_VizSession = \<lparr>vs_generator = None, sm_generator_key = '''', sm_defer_dequeue = False, sm_water_marks = [], vs_closing = False, vs_sent = []\<rparr>"

record CollectorStats =
  no_session_error :: u64
  no_generator_error :: u64
  session_mismatch_error :: u64
  redis_error :: u64
  sandesh_type_mismatch_error :: u64

record 'd CollectorServer =
  gen_map :: "(GeneratorId \<times> SandeshGenerator) list"
  sessions :: "nat \<Rightarrow> VizSession"
  cs_stats :: CollectorStats
  sm_queue_wm_info :: "QueueWaterMarkInfo list"
  deleted_uves :: "GeneratorId list"
  ctrl_replies :: "(nat \<times> (string \<times> int) list) list"
  cs_collector :: "'d collector"

definition kSmQueueWaterMarkInfo :: "int \<Rightarrow> QueueWaterMarkInfo list" where
  "kSmQueueWaterMarkInfo invalid_level = [(7 * 1024 * 1024, invalid_level, True, True), (3 * 1024 * 1024, invalid_level, False, True)]"

definition new_CollectorServer :: "int \<Rightarrow> 'd collector \<Rightarrow> 'd CollectorServer" where
  "new_CollectorServer invalid_level c = \<lparr>gen_map = [], sessions = (\<lambda>_. new_VizSession),
     cs_stats = \<lparr>no_session_error = 0, no_generator_error = 0, session_mismatch_error = 0, redis_error = 0, sandesh_type_mismatch_error = 0\<rparr>,
     sm_queue_wm_info = kSmQueueWaterMarkInfo invalid_level, deleted_uves = [], ctrl_replies = [], cs_collector = c\<rparr>"

definition gen_name :: "GeneratorId \<Rightarrow> string" where
  "gen_name i = i ! 0 @ '':'' @ i ! 3 @ '':'' @ i ! 1 @ '':'' @ i ! 2"

definition set_gen :: "GeneratorId \<Rightarrow> SandeshGenerator \<Rightarrow> 'd CollectorServer \<Rightarrow> 'd CollectorServer" where
  "set_gen i g st = st\<lparr>gen_map := map_assign i g (gen_map st)\<rparr>"

definition on_session :: "nat \<Rightarrow> (VizSession \<Rightarrow> VizSession) \<Rightarrow> 'd CollectorServer \<Rightarrow> 'd CollectorServer" where
  "on_session s f st = st\<lparr>sessions := (sessions st)(s := f (sessions st s))\<rparr>"

section \<open>Back pressure\<close>

definition kInitialSmDeferTimeMSec :: int where "kInitialSmDeferTimeMSec = 300"
definition kMaxSmDeferTimeMSec :: int where "kMaxSmDeferTimeMSec = 30000"

definition GetDeferTimeMSec :: "u64 \<Rightarrow> u64 \<Rightarrow> u64 \<Rightarrow> int outcome" where
  "GetDeferTimeMSec event_time_usec last_expiry_time_usec last_defer_time_usec =
     (if last_defer_time_usec = 0 \<or> last_expiry_time_usec = 0 then Ret kInitialSmDeferTimeMSec
      else if event_time_usec < last_expiry_time_usec then Abort
      else
        (let since = event_time_usec - last_expiry_time_usec
         in if since \<le> 2 * last_defer_time_usec
            then Ret (sint (ucast (min ((2 * last_defer_time_usec) div 1000) (word_of_int kMaxSmDeferTimeMSec)) :: u32))
            else if 2 * last_defer_time_usec \<le> since \<and> since \<le> 4 * last_defer_time_usec
            then Ret (sint (ucast (last_defer_time_usec div 1000) :: u32))
            else Ret kInitialSmDeferTimeMSec))"

text \<open>\<open>ProcessRulesCb\<close> with the result of a write. A timer that runs already is left alone.\<close>

definition ProcessRulesCb :: "bool \<Rightarrow> u64 \<Rightarrow> GeneratorId \<Rightarrow> 'd CollectorServer \<Rightarrow> 'd CollectorServer outcome" where
  "ProcessRulesCb back_pressure now i st =
     (case map_of (gen_map st) i of None \<Rightarrow> Abort
      | Some g \<Rightarrow>
          (case gen_session g of None \<Rightarrow> Ret st
           | Some s \<Rightarrow>
               if \<not> back_pressure \<or> sm_defer_timer g = Some True then Ret st
               else bind_outcome (GetDeferTimeMSec now (sm_defer_timer_expiry_time_usec g) (word_of_int (sm_defer_time_msec g * 1000))) (\<lambda>d.
                      if sm_defer_timer g = None then Abort
                      else Ret (set_gen i (g\<lparr>sm_defer_time_msec := d, sm_defer_timer := Some True\<rparr>)
                                 (on_session s (\<lambda>v. v\<lparr>sm_defer_dequeue := True\<rparr>) st)))))"

definition StateMachineDeferTimerExpired :: "u64 \<Rightarrow> GeneratorId \<Rightarrow> 'd CollectorServer \<Rightarrow> 'd CollectorServer outcome" where
  "StateMachineDeferTimerExpired now i st =
     (case map_of (gen_map st) i of None \<Rightarrow> Abort
      | Some g \<Rightarrow>
          (let st1 = set_gen i (g\<lparr>sm_defer_timer_expiry_time_usec := now, sm_defer_timer := Some False\<rparr>) st
           in Ret (case gen_session g of None \<Rightarrow> st1 | Some s \<Rightarrow> on_session s (\<lambda>v. v\<lparr>sm_defer_dequeue := False\<rparr>) st1)))"

section \<open>Connecting and disconnecting\<close>

definition new_SandeshGenerator :: "u64 \<Rightarrow> nat \<Rightarrow> SandeshGenerator" where
  "new_SandeshGenerator now s = \<lparr>gen_session = Some s, gen_attr = \<lparr>connects = 1, resets = 0, connect_time = now, reset_time = 0\<rparr>, gen_disconnected = False,
     sm_defer_timer = Some False, sm_defer_timer_expiry_time_usec = 0, sm_defer_time_msec = 0, gen_statistics = new_VizMsgStatistics\<rparr>"

text \<open>The assertion of \<open>CreateStateMachineDeferTimer\<close> fails when there is a timer.\<close>

definition ConnectSession :: "u64 \<Rightarrow> nat \<Rightarrow> SandeshGenerator \<Rightarrow> SandeshGenerator outcome" where
  "ConnectSession now s g =
     (if sm_defer_timer g \<noteq> None then Abort
      else Ret (g\<lparr>gen_session := Some s, gen_disconnected := False, sm_defer_timer := Some False,
             gen_attr := (gen_attr g)\<lparr>connects := connects (gen_attr g) + 1, connect_time := now\<rparr>\<rparr>))"

text \<open>\<open>cancelled\<close> is what \<open>Timer::Cancel\<close> returns. The log text of a generator without a session reads through its
  null pointer.\<close>

definition Generator_DisconnectSession :: "u64 \<Rightarrow> bool \<Rightarrow> nat \<Rightarrow> GeneratorId \<Rightarrow> 'd CollectorServer \<Rightarrow> 'd CollectorServer outcome" where
  "Generator_DisconnectSession now cancelled s i st =
     (case map_of (gen_map st) i of None \<Rightarrow> Abort
      | Some g \<Rightarrow>
          (case gen_session g of None \<Rightarrow> Abort
           | Some t \<Rightarrow>
               if t \<noteq> s then Ret st
               else if sm_defer_timer g = None \<or> \<not> cancelled then Abort
               else Ret (let st1 = set_gen i (g\<lparr>gen_session := None, gen_disconnected := True, sm_defer_timer := None,
                                 sm_defer_timer_expiry_time_usec := 0, sm_defer_time_msec := 0,
                                 gen_attr := (gen_attr g)\<lparr>resets := resets (gen_attr g) + 1, reset_time := now\<rparr>\<rparr>)
                               (on_session s (\<lambda>v. v\<lparr>vs_generator := None, sm_water_marks := []\<rparr>) st)
                         in st1\<lparr>deleted_uves := deleted_uves st1 @ [i]\<rparr>)))"

section \<open>The collector\<close>

definition count_error :: "(CollectorStats \<Rightarrow> CollectorStats) \<Rightarrow> 'd CollectorServer \<Rightarrow> 'd CollectorServer" where
  "count_error f st = st\<lparr>cs_stats := f (cs_stats st)\<rparr>"

text \<open>A control message: another kind of sandesh, or the names it carries.\<close>

datatype ctrl_msg = OtherSandesh | CtrlClientToServer string string string string

text \<open>What redis answers: whether it is ready, and the sequence numbers of the generator.\<close>

record redis_answer =
  redis_init_done :: bool
  seq_reply :: "(string \<times> int) list option"
  timer_cancelled :: bool

definition attach_generator :: "u64 \<Rightarrow> nat \<Rightarrow> GeneratorId \<Rightarrow> 'd CollectorServer \<Rightarrow> (bool \<times> 'd CollectorServer) outcome" where
  "attach_generator now s i st =
     (let attach = (\<lambda>g. Ret (True, on_session s (\<lambda>v. v\<lparr>vs_generator := Some i, sm_generator_key := gen_name i\<rparr>) (set_gen i g st)))
      in case map_of (gen_map st) i of None \<Rightarrow> attach (new_SandeshGenerator now s)
         | Some g \<Rightarrow>
             (case gen_session g of None \<Rightarrow> bind_outcome (ConnectSession now s g) attach
              | Some t \<Rightarrow> Ret (False, on_session t (\<lambda>v. v\<lparr>vs_closing := True\<rparr>)
                  (count_error (\<lambda>c. c\<lparr>session_mismatch_error := session_mismatch_error c + 1\<rparr>) st))))"

text \<open>The reply names the types with sequence number 0.\<close>

definition ReceiveSandeshCtrlMsg :: "u64 \<Rightarrow> redis_answer \<Rightarrow> nat option \<Rightarrow> ctrl_msg \<Rightarrow> 'd CollectorServer \<Rightarrow> (bool \<times> 'd CollectorServer) outcome" where
  "ReceiveSandeshCtrlMsg now redis vsession snh st =
     (case vsession of None \<Rightarrow> Ret (False, count_error (\<lambda>c. c\<lparr>no_session_error := no_session_error c + 1\<rparr>) st)
      | Some s \<Rightarrow>
          (case snh of OtherSandesh \<Rightarrow> Ret (False, count_error (\<lambda>c. c\<lparr>sandesh_type_mismatch_error := sandesh_type_mismatch_error c + 1\<rparr>) st)
           | CtrlClientToServer source module instance_id node_type \<Rightarrow>
               if instance_id = '''' \<or> node_type = '''' \<or> \<not> redis_init_done redis then Ret (False, st)
               else bind_outcome (attach_generator now s [source, module, instance_id, node_type] st) (\<lambda>(ok, st1).
                 if \<not> ok then Ret (False, st1)
                 else (case seq_reply redis of
                     None \<Rightarrow> bind_outcome (Generator_DisconnectSession now (timer_cancelled redis) s [source, module, instance_id, node_type]
                               (count_error (\<lambda>c. c\<lparr>redis_error := redis_error c + 1\<rparr>) st1)) (\<lambda>st2. Ret (False, st2))
                   | Some seqs \<Rightarrow>
                       Ret (True, on_session s (\<lambda>v. v\<lparr>sm_water_marks := sm_water_marks v @ sm_queue_wm_info st1\<rparr>)
                         (st1\<lparr>ctrl_replies := ctrl_replies st1 @ [(s, map (\<lambda>(t, _). (t, 0)) seqs)]\<rparr>))))))"

definition ReceiveResourceUpdate :: "u64 \<Rightarrow> redis_answer \<Rightarrow> nat option \<Rightarrow> bool \<Rightarrow> 'd CollectorServer \<Rightarrow> (bool \<times> 'd CollectorServer) outcome" where
  "ReceiveResourceUpdate now redis vsession rsc st =
     (case vsession of None \<Rightarrow> Ret (False, count_error (\<lambda>c. c\<lparr>no_session_error := no_session_error c + 1\<rparr>) st)
      | Some s \<Rightarrow>
          (case vs_generator (sessions st s) of
             None \<Rightarrow> Ret (False, count_error (\<lambda>c. c\<lparr>no_generator_error := no_generator_error c + 1\<rparr>) st)
           | Some i \<Rightarrow>
               if \<not> rsc then bind_outcome (Generator_DisconnectSession now (timer_cancelled redis) s i st) (\<lambda>st1. Ret (False, st1))
               else (case seq_reply redis of
                   None \<Rightarrow> bind_outcome (Generator_DisconnectSession now (timer_cancelled redis) s i
                             (count_error (\<lambda>c. c\<lparr>redis_error := redis_error c + 1\<rparr>) st)) (\<lambda>st1. Ret (False, st1))
                 | Some seqs \<Rightarrow> Ret (True, st\<lparr>ctrl_replies := ctrl_replies st @ [(s, seqs)]\<rparr>))))"

definition Collector_ReceiveSandeshMsg ::
    "'d collector_env \<Rightarrow> nat option \<Rightarrow> VizMsg \<Rightarrow> xml_node \<Rightarrow> bool \<Rightarrow> 'd CollectorServer \<Rightarrow> (bool \<times> 'd CollectorServer) outcome" where
  "Collector_ReceiveSandeshMsg env vsession vmsg node rsc st =
     (case vsession of None \<Rightarrow> Ret (False, count_error (\<lambda>c. c\<lparr>no_session_error := no_session_error c + 1\<rparr>) st)
      | Some s \<Rightarrow>
          (case vs_generator (sessions st s) of
             None \<Rightarrow> Ret (False, count_error (\<lambda>c. c\<lparr>no_generator_error := no_generator_error c + 1\<rparr>) st)
           | Some i \<Rightarrow>
               (case map_of (gen_map st) i of None \<Rightarrow> Abort
                | Some g \<Rightarrow> bind_outcome (rule_execute env vmsg node rsc True (cs_collector st)) (\<lambda>c.
                    Ret (True, (set_gen i (g\<lparr>gen_statistics := VizMsgStatistics_Update (ce_level env) vmsg (gen_statistics g)\<rparr>) st)\<lparr>cs_collector := c\<rparr>)))))"

definition Collector_DisconnectSession :: "u64 \<Rightarrow> bool \<Rightarrow> nat option \<Rightarrow> 'd CollectorServer \<Rightarrow> 'd CollectorServer outcome" where
  "Collector_DisconnectSession now cancelled vsession st =
     (case vsession of None \<Rightarrow> Ret (count_error (\<lambda>c. c\<lparr>no_session_error := no_session_error c + 1\<rparr>) st)
      | Some s \<Rightarrow> (case vs_generator (sessions st s) of None \<Rightarrow> Abort | Some i \<Rightarrow> Generator_DisconnectSession now cancelled s i st))"

definition CloseGeneratorSession :: "GeneratorId \<Rightarrow> 'd CollectorServer \<Rightarrow> 'd CollectorServer" where
  "CloseGeneratorSession i st =
     (case map_of (gen_map st) i of None \<Rightarrow> st
      | Some g \<Rightarrow> (case gen_session g of None \<Rightarrow> st | Some s \<Rightarrow> on_session s (\<lambda>v. v\<lparr>vs_closing := True\<rparr>) st))"

definition SetSmQueueWaterMarkInfo :: "QueueWaterMarkInfo \<Rightarrow> 'd CollectorServer \<Rightarrow> 'd CollectorServer" where
  "SetSmQueueWaterMarkInfo wm st =
     (let st1 = foldl (\<lambda>st (_, g). case gen_session g of None \<Rightarrow> st | Some s \<Rightarrow> on_session s (\<lambda>v. v\<lparr>sm_water_marks := sm_water_marks v @ [wm]\<rparr>) st) st (gen_map st)
      in st1\<lparr>sm_queue_wm_info := sm_queue_wm_info st1 @ [wm]\<rparr>)"

definition ResetSmQueueWaterMarkInfo :: "'d CollectorServer \<Rightarrow> 'd CollectorServer" where
  "ResetSmQueueWaterMarkInfo st =
     (let st1 = foldl (\<lambda>st (_, g). case gen_session g of None \<Rightarrow> st | Some s \<Rightarrow> on_session s (\<lambda>v. v\<lparr>sm_water_marks := []\<rparr>) st) st (gen_map st)
      in st1\<lparr>sm_queue_wm_info := []\<rparr>)"

text \<open>\<open>SendRemote\<close> with the parts \<open>boost::split\<close> found: source, node type, module and instance; \<open>*\<close> matches all.\<close>

definition remote_match :: "string list \<Rightarrow> GeneratorId \<Rightarrow> bool" where
  "remote_match dest i \<longleftrightarrow> list_all (\<lambda>(d, k). d = ''*'' \<or> i ! k = d) (zip dest [0, 3, 1, 2])"

definition SendRemote :: "string list \<Rightarrow> string \<Rightarrow> 'd CollectorServer \<Rightarrow> bool \<times> 'd CollectorServer" where
  "SendRemote dest dec_sandesh st =
     (if length dest \<noteq> 4 then (False, st)
      else (True, foldl (\<lambda>st (i, g). if \<not> remote_match dest i then st
              else case gen_session g of None \<Rightarrow> count_error (\<lambda>c. c\<lparr>no_session_error := no_session_error c + 1\<rparr>) st
                   | Some s \<Rightarrow> on_session s (\<lambda>v. v\<lparr>vs_sent := vs_sent v @ [dec_sandesh]\<rparr>) st) st (gen_map st)))"

text \<open>The identity, whether the queue is deferred and for how long.\<close>

definition GetGeneratorSummaryInfo :: "'d CollectorServer \<Rightarrow> (GeneratorId \<times> bool \<times> int) list" where
  "GetGeneratorSummaryInfo st =
     map (\<lambda>(i, g). (i, sm_defer_timer g = Some True, sm_defer_time_msec g))
       (filter (\<lambda>(_, g). connects (gen_attr g) > resets (gen_attr g)) (gen_map st))"

section \<open>Histories\<close>

datatype server_event =
    Ctrl "nat option" ctrl_msg redis_answer
  | Resource "nat option" bool redis_answer
  | Disconnect "nat option" bool
  | Written GeneratorId bool
  | TimerExpired GeneratorId
  | Received "nat option" VizMsg xml_node bool
  | CloseGenerator GeneratorId
  | Remote "string list" string
  | AddWaterMark QueueWaterMarkInfo
  | ResetWaterMarks

fun server_step :: "'d collector_env \<Rightarrow> u64 \<Rightarrow> 'd CollectorServer \<Rightarrow> server_event \<Rightarrow> 'd CollectorServer outcome" where
  "server_step env now st (Ctrl s m a) = bind_outcome (ReceiveSandeshCtrlMsg now a s m st) (\<lambda>(_, st'). Ret st')"
| "server_step env now st (Resource s rsc a) = bind_outcome (ReceiveResourceUpdate now a s rsc st) (\<lambda>(_, st'). Ret st')"
| "server_step env now st (Disconnect s cancelled) = Collector_DisconnectSession now cancelled s st"
| "server_step env now st (Written i back_pressure) = ProcessRulesCb back_pressure now i st"
| "server_step env now st (TimerExpired i) = StateMachineDeferTimerExpired now i st"
| "server_step env now st (Received s m node rsc) = bind_outcome (Collector_ReceiveSandeshMsg env s m node rsc st) (\<lambda>(_, st'). Ret st')"
| "server_step env now st (CloseGenerator i) = Ret (CloseGeneratorSession i st)"
| "server_step env now st (Remote dest m) = Ret (snd (SendRemote dest m st))"
| "server_step env now st (AddWaterMark wm) = Ret (SetSmQueueWaterMarkInfo wm st)"
| "server_step env now st ResetWaterMarks = Ret (ResetSmQueueWaterMarkInfo st)"

text \<open>
  What the libraries promise: a session delivers a control message before it has a generator and not while its
  queue is deferred; writes come back for generators that exist; a timer expires when it runs. Nothing is assumed of
  the end of a session, of what \<open>Timer::Cancel\<close> returns, or of the clock, which may be set back.
\<close>

fun enabled :: "'d CollectorServer \<Rightarrow> server_event \<Rightarrow> bool" where
  "enabled st (Ctrl (Some s) m a) \<longleftrightarrow> vs_generator (sessions st s) = None \<and> \<not> sm_defer_dequeue (sessions st s)"
| "enabled st (Written i bp) \<longleftrightarrow> map_of (gen_map st) i \<noteq> None"
| "enabled st (TimerExpired i) \<longleftrightarrow> (case map_of (gen_map st) i of None \<Rightarrow> False | Some g \<Rightarrow> sm_defer_timer g = Some True)"
| "enabled st _ \<longleftrightarrow> True"

text \<open>Reachable states; every event reads the clock.\<close>

inductive reachable :: "'d collector_env \<Rightarrow> 'd CollectorServer \<Rightarrow> bool" for env where
  start: "reachable env (new_CollectorServer invalid_level c)"
| step: "reachable env st \<Longrightarrow> enabled st e \<Longrightarrow> server_step env now st e = Ret st' \<Longrightarrow> reachable env st'"

text \<open>
  The events that fail an assertion: a generator is to be detached and its timer is not cancelled (its callback
  runs), a session ends that has no generator, and back pressure is met when the clock was set back behind the last
  expiry.
\<close>

fun asserts :: "u64 \<Rightarrow> 'd CollectorServer \<Rightarrow> server_event \<Rightarrow> bool" where
  "asserts now st (Ctrl (Some s) (CtrlClientToServer source module instance_id node_type) a) \<longleftrightarrow>
     instance_id \<noteq> '''' \<and> node_type \<noteq> '''' \<and> redis_init_done a \<and> seq_reply a = None \<and> \<not> timer_cancelled a \<and>
     (case map_of (gen_map st) [source, module, instance_id, node_type] of None \<Rightarrow> True | Some g \<Rightarrow> gen_session g = None)"
| "asserts now st (Resource (Some s) rsc a) \<longleftrightarrow> vs_generator (sessions st s) \<noteq> None \<and> (\<not> rsc \<or> seq_reply a = None) \<and> \<not> timer_cancelled a"
| "asserts now st (Disconnect (Some s) cancelled) \<longleftrightarrow> vs_generator (sessions st s) = None \<or> \<not> cancelled"
| "asserts now st (Written i True) \<longleftrightarrow>
     (case map_of (gen_map st) i of None \<Rightarrow> False
      | Some g \<Rightarrow> gen_session g \<noteq> None \<and> sm_defer_timer g \<noteq> Some True \<and> sm_defer_time_msec g \<noteq> 0 \<and> now < sm_defer_timer_expiry_time_usec g)"
| "asserts now st _ \<longleftrightarrow> False"

section \<open>The invariant\<close>

definition gen_ok :: "(nat \<Rightarrow> VizSession) \<Rightarrow> SandeshGenerator \<Rightarrow> bool" where
  "gen_ok ss g \<longleftrightarrow>
     (gen_session g = None \<longleftrightarrow> gen_disconnected g) \<and> (gen_session g = None \<longleftrightarrow> sm_defer_timer g = None) \<and>
     connects (gen_attr g) = resets (gen_attr g) + (if gen_session g = None then 0 else 1) \<and>
     (sm_defer_time_msec g = 0 \<or> 300 \<le> sm_defer_time_msec g \<and> sm_defer_time_msec g \<le> 30000) \<and>
     (case gen_session g of None \<Rightarrow> True | Some s \<Rightarrow> sm_defer_dequeue (ss s) \<longleftrightarrow> sm_defer_timer g = Some True)"

text \<open>Both directions of the link between sessions and generators.\<close>

definition linked :: "(GeneratorId \<rightharpoonup> SandeshGenerator) \<Rightarrow> (nat \<Rightarrow> VizSession) \<Rightarrow> bool" where
  "linked gm ss \<longleftrightarrow> (\<forall>s i. vs_generator (ss s) = Some i \<longleftrightarrow> (\<exists>g. gm i = Some g \<and> gen_session g = Some s))"

definition server_inv :: "'d CollectorServer \<Rightarrow> bool" where
  "server_inv st \<longleftrightarrow> sorted_map (gen_map st) \<and> linked (map_of (gen_map st)) (sessions st) \<and>
     (\<forall>i g. map_of (gen_map st) i = Some g \<longrightarrow> gen_ok (sessions st) g)"

lemma inv_same:
  assumes "server_inv st" and "gen_map st' = gen_map st"
    and "\<And>s. vs_generator (sessions st' s) = vs_generator (sessions st s) \<and> sm_defer_dequeue (sessions st' s) = sm_defer_dequeue (sessions st s)"
  shows "server_inv st'"
proof -
  have "gen_ok (sessions st') g" if "gen_ok (sessions st) g" for g
    using that assms(3) by (auto simp: gen_ok_def split: option.splits)
  with assms show ?thesis by (simp add: server_inv_def linked_def)
qed

text \<open>One generator and one session change together.\<close>

lemma inv_change:
  assumes inv: "server_inv st"
    and gm: "gen_map st' = map_assign i g' (gen_map st)" and ss: "sessions st' = (sessions st)(s := v')"
    and old: "vs_generator (sessions st s) \<in> {None, Some i}" "\<And>g. map_of (gen_map st) i = Some g \<Longrightarrow> gen_session g \<in> {None, Some s}"
    and new: "gen_session g' = Some s \<and> vs_generator v' = Some i \<or> gen_session g' = None \<and> vs_generator v' = None"
    and ok: "gen_ok ((sessions st)(s := v')) g'"
  shows "server_inv st'"
proof -
  have sorted: "sorted_map (gen_map st)" and l: "linked (map_of (gen_map st)) (sessions st)"
    and all: "\<And>j g. map_of (gen_map st) j = Some g \<Longrightarrow> gen_ok (sessions st) g" using inv by (auto simp: server_inv_def)
  have m: "map_of (gen_map st') = (map_of (gen_map st))(i \<mapsto> g')" using map_of_assign[OF sorted] gm by simp
  have other: "gen_session g \<noteq> Some s" if "map_of (gen_map st) j = Some g" "j \<noteq> i" for j g
  proof
    assume "gen_session g = Some s"
    then have "vs_generator (sessions st s) = Some j" using l that(1) unfolding linked_def by blast
    with old(1) that(2) show False by auto
  qed
  have "gen_ok (sessions st') g" if "map_of (gen_map st') j = Some g" for j g
  proof (cases "j = i")
    case False
    then have j: "map_of (gen_map st) j = Some g" using that by (simp add: m)
    show ?thesis using all[OF j] other[OF j False] by (auto simp: ss gen_ok_def split: option.splits)
  qed (use that ok in \<open>simp add: m ss\<close>)
  moreover have "linked (map_of (gen_map st')) (sessions st')"
    unfolding linked_def m ss
  proof (intro allI)
    fix s' j
    have "vs_generator (sessions st s') = Some j \<longleftrightarrow> (\<exists>g. map_of (gen_map st) j = Some g \<and> gen_session g = Some s')" using l by (auto simp: linked_def)
    then show "vs_generator (((sessions st)(s := v')) s') = Some j \<longleftrightarrow> (\<exists>g. ((map_of (gen_map st))(i \<mapsto> g')) j = Some g \<and> gen_session g = Some s')"
      using new old(2) other by (cases "s' = s"; cases "j = i") fastforce+
  qed
  moreover have "sorted_map (gen_map st')" using gm sorted_map_assign[OF sorted] by simp
  ultimately show ?thesis by (simp add: server_inv_def)
qed

text \<open>Back pressure doubles the time within twice the last one, keeps it up to four times, then starts again.\<close>

lemma uint_word_of_int_64: "0 \<le> x \<Longrightarrow> x < 2 ^ 64 \<Longrightarrow> uint (word_of_int x :: u64) = x"
  by (simp add: uint_word_of_int_eq take_bit_int_eq_self)

lemma defer_words:
  fixes k :: int
  assumes "0 \<le> k" and "k \<le> 60000"
  shows "sint (ucast ((word_of_int (1000 * k) :: u64) div 1000) :: u32) = k" and "(word_of_int (1000 * k) :: u64) div 1000 = word_of_int k"
proof -
  have u: "uint (word_of_int (1000 * k) :: u64) = 1000 * k" "uint (word_of_int k :: u64) = k" by (rule uint_word_of_int_64; use assms in simp)+
  have "uint ((word_of_int (1000 * k) :: u64) div 1000) = uint (word_of_int k :: u64)" unfolding uint_div_distrib u by simp
  then show d: "(word_of_int (1000 * k) :: u64) div 1000 = word_of_int k" by (rule word_uint_eqI)
  show "sint (ucast ((word_of_int (1000 * k) :: u64) div 1000) :: u32) = k"
    unfolding d using assms by (simp add: unsigned_of_int signed_of_int signed_take_bit_int_eq_self take_bit_int_eq_self)
qed

lemma defer_nonzero:
  assumes "300 \<le> d" and "d \<le> 30000"
  shows "(word_of_int (1000 * d) :: u64) \<noteq> 0"
proof
  assume "(word_of_int (1000 * d) :: u64) = 0"
  moreover have "uint (word_of_int (1000 * d) :: u64) = 1000 * d" by (rule uint_word_of_int_64) (use assms in simp_all)
  ultimately show False using assms by (simp del: of_int_mult)
qed

lemma defer_time_value:
  assumes d: "300 \<le> d" "d \<le> 30000" and e: "expiry \<noteq> 0" "expiry \<le> now"
  shows "GetDeferTimeMSec now expiry (word_of_int (d * 1000)) =
    Ret (if uint (now - expiry) \<le> 2000 * d then min (2 * d) 30000 else if uint (now - expiry) \<le> 4000 * d then d else 300)"
proof -
  have w: "(word_of_int (d * 1000) :: u64) = word_of_int (1000 * d)" by (simp add: mult.commute)
  have u: "uint (word_of_int (1000 * d) :: u64) = 1000 * d" by (rule uint_word_of_int_64) (use d in simp_all)
  have nz: "(word_of_int (1000 * d) :: u64) \<noteq> 0" by (rule defer_nonzero[OF d])
  have m2: "2 * (word_of_int (1000 * d) :: u64) = word_of_int (2000 * d)" and m4: "4 * (word_of_int (1000 * d) :: u64) = word_of_int (4000 * d)"
    by simp_all
  have u2: "uint (word_of_int (2000 * d) :: u64) = 2000 * d" and u4: "uint (word_of_int (4000 * d) :: u64) = 4000 * d"
    using uint_word_of_int_64[of "2000 * d"] uint_word_of_int_64[of "4000 * d"] d by (simp_all del: of_int_mult)
  have le: "(word_of_int (2 * d) :: u64) \<le> 30000 \<longleftrightarrow> 2 * d \<le> 30000" using d uint_word_of_int_64[of "2 * d"] by (simp add: word_le_def del: of_int_mult)
  have mn: "sint (ucast (min (word_of_int (2 * d) :: u64) (word_of_int kMaxSmDeferTimeMSec)) :: u32) = min (2 * d) 30000"
    using defer_words(1)[of "2 * d"] defer_words(2)[of "2 * d"] d le by (auto simp: min_def kMaxSmDeferTimeMSec_def simp del: of_int_mult)
  show ?thesis
    using nz e defer_words(1)[of d] defer_words(2)[of "2 * d"] d mn
    by (simp add: GetDeferTimeMSec_def Let_def w m2 m4 word_le_def u2 u4 kInitialSmDeferTimeMSec_def word_less_def del: of_int_mult)
qed

lemma defer_time_bounds:
  assumes "d = 0 \<or> 300 \<le> d \<and> d \<le> 30000"
  shows "case GetDeferTimeMSec now expiry (word_of_int (d * 1000)) of
    Abort \<Rightarrow> d \<noteq> 0 \<and> now < expiry | Ret r \<Rightarrow> \<not> (d \<noteq> 0 \<and> now < expiry) \<and> 300 \<le> r \<and> r \<le> 30000"
proof (cases "d = 0 \<or> expiry = 0")
  case True
  then show ?thesis by (auto simp: GetDeferTimeMSec_def kInitialSmDeferTimeMSec_def)
next
  case False
  then have d: "300 \<le> d" "d \<le> 30000" "expiry \<noteq> 0" using assms by auto
  show ?thesis
  proof (cases "expiry \<le> now")
    case True
    then show ?thesis using d defer_time_value[of d expiry now] by auto
  next
    case False
    then have "now < expiry" by simp
    then show ?thesis using d defer_nonzero[of d] by (simp add: GetDeferTimeMSec_def mult.commute del: of_int_mult)
  qed
qed

section \<open>Every event keeps the invariant\<close>

lemma count_error_same [simp]: "gen_map (count_error f st) = gen_map st" "sessions (count_error f st) = sessions st"
  by (simp_all add: count_error_def)

lemma on_session_same [simp]: "gen_map (on_session s f st) = gen_map st" "sessions (on_session s f st) = (sessions st)(s := f (sessions st s))"
  by (simp_all add: on_session_def)

lemma set_gen_same [simp]: "gen_map (set_gen i g st) = map_assign i g (gen_map st)" "sessions (set_gen i g st) = sessions st"
  by (simp_all add: set_gen_def)

lemma inv_count: "server_inv st \<Longrightarrow> server_inv (count_error f st)"
  by (erule inv_same) simp_all

lemma inv_gen:
  assumes "server_inv st" and "map_of (gen_map st) i = Some g"
  shows "gen_ok (sessions st) g" and "gen_session g = Some s \<Longrightarrow> vs_generator (sessions st s) = Some i"
  using assms unfolding server_inv_def linked_def by blast+

lemma inv_generator:
  assumes "server_inv st" and "vs_generator (sessions st s) = Some i"
  obtains g where "map_of (gen_map st) i = Some g" "gen_session g = Some s"
  using assms unfolding server_inv_def linked_def by blast

text \<open>An event fails exactly under the condition \<open>f\<close>; otherwise it keeps the invariant.\<close>

definition meets :: "bool \<Rightarrow> 'd CollectorServer outcome \<Rightarrow> bool" where
  "meets f r \<longleftrightarrow> (case r of Abort \<Rightarrow> f | Ret st' \<Rightarrow> \<not> f \<and> server_inv st')"

lemma meets_simps [simp]: "meets f Abort \<longleftrightarrow> f" "meets f (Ret st') \<longleftrightarrow> \<not> f \<and> server_inv st'"
  by (simp_all add: meets_def)

lemma disconnect_inv:
  assumes "server_inv st" and "vs_generator (sessions st s) = Some i"
  shows "meets (\<not> c) (Generator_DisconnectSession now c s i st)"
proof -
  obtain g where g: "map_of (gen_map st) i = Some g" "gen_session g = Some s" using inv_generator[OF assms] .
  have ok: "gen_ok (sessions st) g" using inv_gen(1)[OF assms(1) g(1)] .
  then have t: "sm_defer_timer g \<noteq> None" "connects (gen_attr g) = resets (gen_attr g) + 1" using g(2) by (simp_all add: gen_ok_def)
  show ?thesis
  proof (cases c)
    case True
    then obtain st' where r: "Generator_DisconnectSession now c s i st = Ret st'" using g t by (simp add: Generator_DisconnectSession_def)
    have "server_inv st'"
      by (rule inv_change[OF assms(1), where i = i and s = s])
        (use r g t assms(2) True in \<open>auto simp: Generator_DisconnectSession_def Let_def gen_ok_def\<close>)
    with r True show ?thesis by simp
  qed (use g t in \<open>simp add: Generator_DisconnectSession_def\<close>)
qed

lemma attach_inv:
  assumes inv: "server_inv st" and s: "vs_generator (sessions st s) = None" "\<not> sm_defer_dequeue (sessions st s)"
  shows "\<exists>ok st'. attach_generator now s i st = Ret (ok, st') \<and> server_inv st' \<and> (ok \<longrightarrow> vs_generator (sessions st' s) = Some i) \<and>
    (ok \<longleftrightarrow> (case map_of (gen_map st) i of None \<Rightarrow> True | Some g \<Rightarrow> gen_session g = None))"
proof (cases "map_of (gen_map st) i")
  case None
  show ?thesis
    by (intro exI conjI, simp add: attach_generator_def None, rule inv_change[OF inv, where i = i and s = s])
      (use None s in \<open>auto simp: gen_ok_def new_SandeshGenerator_def\<close>)
next
  case (Some g)
  note ok = inv_gen[OF inv Some]
  show ?thesis
  proof (cases "gen_session g")
    case None
    with ok(1) have g: "sm_defer_timer g = None" "connects (gen_attr g) = resets (gen_attr g)" by (simp_all add: gen_ok_def)
    show ?thesis
      by (intro exI conjI, simp add: attach_generator_def Some None ConnectSession_def g(1), rule inv_change[OF inv, where i = i and s = s])
        (use Some None s g ok(1) in \<open>auto simp: gen_ok_def\<close>)
  next
    case (Some u)
    let ?st = "on_session u (\<lambda>v. v\<lparr>vs_closing := True\<rparr>) (count_error (\<lambda>c. c\<lparr>session_mismatch_error := session_mismatch_error c + 1\<rparr>) st)"
    have "server_inv ?st" by (rule inv_same[OF inv]) auto
    then show ?thesis by (auto simp: attach_generator_def \<open>map_of (gen_map st) i = Some g\<close> Some)
  qed
qed

lemma ctrl_inv:
  assumes inv: "server_inv st" and e: "enabled st (Ctrl v m a)"
  shows "meets (asserts now st (Ctrl v m a)) (server_step env now st (Ctrl v m a))"
proof (cases v)
  case None
  then show ?thesis using inv_count[OF inv] by (simp add: ReceiveSandeshCtrlMsg_def)
next
  case (Some s)
  show ?thesis
  proof (cases m)
    case OtherSandesh
    then show ?thesis using inv_count[OF inv] Some by (simp add: ReceiveSandeshCtrlMsg_def)
  next
    case (CtrlClientToServer a1 a2 a3 a4)
    let ?i = "[a1, a2, a3, a4]"
    have s: "vs_generator (sessions st s) = None" "\<not> sm_defer_dequeue (sessions st s)" using e Some by simp_all
    from attach_inv[OF inv s, of now ?i] obtain ok st1 where r: "attach_generator now s ?i st = Ret (ok, st1)" "server_inv st1"
      "ok \<longrightarrow> vs_generator (sessions st1 s) = Some ?i"
      "(case map_of (gen_map st) ?i of None \<Rightarrow> True | Some g \<Rightarrow> gen_session g = None) \<longleftrightarrow> ok" by blast
    let ?e = "count_error (\<lambda>c. c\<lparr>redis_error := redis_error c + 1\<rparr>) st1"
    have inv1: "server_inv ?e" by (rule inv_count[OF r(2)])
    have q: "server_inv (on_session s (\<lambda>v. v\<lparr>sm_water_marks := sm_water_marks v @ sm_queue_wm_info st1\<rparr>) (st1\<lparr>ctrl_replies := c\<rparr>))" for c
      by (rule inv_same[OF r(2)]) auto
    have d: "ok \<Longrightarrow> meets (\<not> timer_cancelled a) (Generator_DisconnectSession now (timer_cancelled a) s ?i ?e)"
      using disconnect_inv[OF inv1, of s ?i] r(3) by simp
    show ?thesis
      using Some CtrlClientToServer r q d inv
      by (cases "seq_reply a"; cases ok; cases "Generator_DisconnectSession now (timer_cancelled a) s ?i ?e") (simp_all add: ReceiveSandeshCtrlMsg_def)
  qed
qed

lemma resource_inv:
  assumes inv: "server_inv st"
  shows "meets (asserts now st (Resource v rsc a)) (server_step env now st (Resource v rsc a))"
proof (cases v)
  case None
  then show ?thesis using inv_count[OF inv] by (simp add: ReceiveResourceUpdate_def)
next
  case (Some s)
  show ?thesis
  proof (cases "vs_generator (sessions st s)")
    case None
    then show ?thesis using inv_count[OF inv] Some by (simp add: ReceiveResourceUpdate_def)
  next
    case gen: (Some i)
    let ?e = "count_error (\<lambda>c. c\<lparr>redis_error := redis_error c + 1\<rparr>) st" and ?c = "timer_cancelled a"
    have d: "meets (\<not> ?c) (Generator_DisconnectSession now ?c s i st)" using disconnect_inv[OF inv gen] .
    have d': "meets (\<not> ?c) (Generator_DisconnectSession now ?c s i ?e)" using disconnect_inv[OF inv_count[OF inv], of _ s i] gen by simp
    have q: "server_inv (st\<lparr>ctrl_replies := c\<rparr>)" for c by (rule inv_same[OF inv]) simp_all
    show ?thesis
      using Some gen d d' q
      by (cases rsc; cases "seq_reply a"; cases "Generator_DisconnectSession now ?c s i st"; cases "Generator_DisconnectSession now ?c s i ?e")
        (simp_all add: ReceiveResourceUpdate_def)
  qed
qed

lemma disconnect_event_inv:
  assumes "server_inv st"
  shows "meets (asserts now st (Disconnect v c)) (server_step env now st (Disconnect v c))"
  using disconnect_inv[OF assms] inv_count[OF assms] by (auto simp: Collector_DisconnectSession_def split: option.split)

lemma written_inv:
  assumes inv: "server_inv st" and e: "enabled st (Written i bp)"
  shows "meets (asserts now st (Written i bp)) (server_step env now st (Written i bp))"
proof -
  obtain g where g: "map_of (gen_map st) i = Some g" using e by auto
  note ok = inv_gen[OF inv g]
  show ?thesis
  proof (cases "gen_session g = None \<or> \<not> bp \<or> sm_defer_timer g = Some True")
    case True
    then show ?thesis using g inv by (cases bp) (auto simp: ProcessRulesCb_def split: option.splits)
  next
    case False
    then obtain s where s: "gen_session g = Some s" "bp" "sm_defer_timer g \<noteq> Some True" by auto
    have r: "sm_defer_time_msec g = 0 \<or> 300 \<le> sm_defer_time_msec g \<and> sm_defer_time_msec g \<le> 30000" "sm_defer_timer g \<noteq> None"
      using ok(1) s(1) by (simp_all add: gen_ok_def)
    let ?st = "\<lambda>d. set_gen i (g\<lparr>sm_defer_time_msec := d, sm_defer_timer := Some True\<rparr>) (on_session s (\<lambda>v. v\<lparr>sm_defer_dequeue := True\<rparr>) st)"
    have "server_inv (?st d)" if "300 \<le> d" "d \<le> 30000" for d
      by (rule inv_change[OF inv, where i = i and s = s]) (use ok s g that r in \<open>auto simp: gen_ok_def\<close>)
    then show ?thesis
      using defer_time_bounds[OF r(1), of now "sm_defer_timer_expiry_time_usec g"] g s r(2)
      by (cases "GetDeferTimeMSec now (sm_defer_timer_expiry_time_usec g) (word_of_int (sm_defer_time_msec g * 1000))")
        (auto simp: ProcessRulesCb_def simp del: of_int_mult)
  qed
qed

lemma expired_inv:
  assumes inv: "server_inv st" and e: "enabled st (TimerExpired i)"
  shows "meets (asserts now st (TimerExpired i)) (server_step env now st (TimerExpired i))"
proof -
  obtain g where g: "map_of (gen_map st) i = Some g" "sm_defer_timer g = Some True" using e by (auto split: option.splits)
  note ok = inv_gen[OF inv g(1)]
  from ok(1) g(2) obtain s where s: "gen_session g = Some s" by (auto simp: gen_ok_def)
  let ?st = "on_session s (\<lambda>v. v\<lparr>sm_defer_dequeue := False\<rparr>) (set_gen i (g\<lparr>sm_defer_timer_expiry_time_usec := now, sm_defer_timer := Some False\<rparr>) st)"
  have "server_inv ?st"
    by (rule inv_change[OF inv, where i = i and s = s]) (use ok s g in \<open>auto simp: gen_ok_def\<close>)
  then show ?thesis using g s by (simp add: StateMachineDeferTimerExpired_def Let_def)
qed

lemma received_inv:
  assumes inv: "server_inv st" and r: "Collector_ReceiveSandeshMsg env v m node rsc st = Ret (ok, st')"
  shows "server_inv st'"
proof (cases v)
  case None
  then show ?thesis using r inv_count[OF inv] by (auto simp: Collector_ReceiveSandeshMsg_def)
next
  case (Some s)
  show ?thesis
  proof (cases "vs_generator (sessions st s)")
    case None
    then show ?thesis using r Some inv_count[OF inv] by (auto simp: Collector_ReceiveSandeshMsg_def)
  next
    case i: (Some i)
    obtain g where g: "map_of (gen_map st) i = Some g" "gen_session g = Some s" using inv_generator[OF inv i] .
    obtain c where st': "st' = (set_gen i (g\<lparr>gen_statistics := VizMsgStatistics_Update (ce_level env) m (gen_statistics g)\<rparr>) st)\<lparr>cs_collector := c\<rparr>"
      using r Some i g by (auto simp: Collector_ReceiveSandeshMsg_def bind_outcome_Ret_iff)
    show ?thesis
      by (rule inv_change[OF inv, where i = i and s = s and v' = "sessions st s"
            and g' = "g\<lparr>gen_statistics := VizMsgStatistics_Update (ce_level env) m (gen_statistics g)\<rparr>"])
        (use st' g i inv_gen(1)[OF inv g(1)] in \<open>auto simp: gen_ok_def\<close>)
  qed
qed

text \<open>The loops over all generators change neither the map nor the links nor the deferral.\<close>

definition same_links :: "'d CollectorServer \<Rightarrow> 'd CollectorServer \<Rightarrow> bool" where
  "same_links st st' \<longleftrightarrow> gen_map st' = gen_map st \<and>
     (\<forall>s. vs_generator (sessions st' s) = vs_generator (sessions st s) \<and> sm_defer_dequeue (sessions st' s) = sm_defer_dequeue (sessions st s))"

lemma same_links_foldl:
  assumes "\<And>st x. same_links st (f st x)"
  shows "same_links st (foldl f st xs)"
proof (induction xs arbitrary: st)
  case (Cons x xs)
  then show ?case using assms[of st x] Cons.IH[of "f st x"] by (simp add: same_links_def)
qed (simp add: same_links_def)

lemma same_links_inv: "server_inv st \<Longrightarrow> same_links st st' \<Longrightarrow> server_inv st'"
  using inv_same[of st st'] by (simp add: same_links_def)

lemma loops_same_links:
  "same_links st (SetSmQueueWaterMarkInfo wm st)" "same_links st (ResetSmQueueWaterMarkInfo st)" "same_links st (snd (SendRemote dest m st))"
  "same_links st (CloseGeneratorSession i st)"
proof -
  let ?f = "\<lambda>wms st (i :: GeneratorId, g). case gen_session g of None \<Rightarrow> st | Some s \<Rightarrow> on_session s (\<lambda>v. v\<lparr>sm_water_marks := wms v\<rparr>) st"
  have f: "same_links st (foldl (?f wms) st xs)" for wms xs by (rule same_links_foldl) (auto simp: same_links_def split: option.splits if_splits)
  show "same_links st (SetSmQueueWaterMarkInfo wm st)" "same_links st (ResetSmQueueWaterMarkInfo st)"
    using f[of "\<lambda>v. sm_water_marks v @ [wm]" "gen_map st"] f[of "\<lambda>_. []" "gen_map st"]
    by (simp_all add: SetSmQueueWaterMarkInfo_def ResetSmQueueWaterMarkInfo_def Let_def same_links_def)
  have r: "same_links st (foldl (\<lambda>st (i, g). if \<not> remote_match dest i then st
      else case gen_session g of None \<Rightarrow> count_error (\<lambda>c. c\<lparr>no_session_error := no_session_error c + 1\<rparr>) st
           | Some s \<Rightarrow> on_session s (\<lambda>v. v\<lparr>vs_sent := vs_sent v @ [m]\<rparr>) st) st xs)" for xs
    by (rule same_links_foldl) (auto simp: same_links_def split: option.splits if_splits)
  show "same_links st (snd (SendRemote dest m st))"
  proof (cases "length dest = 4")
    case True
    then show ?thesis using r[of "gen_map st"] unfolding SendRemote_def by simp
  qed (simp add: SendRemote_def same_links_def)
  show "same_links st (CloseGeneratorSession i st)" by (simp add: CloseGeneratorSession_def same_links_def split: option.split)
qed

text \<open>A message at the rule engine aside, the events fail exactly as listed and keep the invariant.\<close>

definition rule_engine_event :: "server_event \<Rightarrow> bool" where
  "rule_engine_event e \<longleftrightarrow> (case e of Received _ _ _ _ \<Rightarrow> True | _ \<Rightarrow> False)"

lemma server_step_meets:
  assumes "server_inv st" and "enabled st e" and "\<not> rule_engine_event e"
  shows "meets (asserts now st e) (server_step env now st e)"
proof (cases e)
  case (Ctrl v m a)
  then show ?thesis using ctrl_inv[OF assms(1)] assms(2) by blast
next
  case (Resource v rsc a)
  then show ?thesis using resource_inv[OF assms(1)] by blast
next
  case (Disconnect v c)
  then show ?thesis using disconnect_event_inv[OF assms(1)] by blast
next
  case (Written i bp)
  then show ?thesis using written_inv[OF assms(1)] assms(2) by blast
next
  case (TimerExpired i)
  then show ?thesis using expired_inv[OF assms(1)] assms(2) by blast
next
  case (Received v m node rsc)
  then show ?thesis using assms(3) by (simp add: rule_engine_event_def)
qed (simp_all add: same_links_inv[OF assms(1)] loops_same_links)

lemma server_step_inv:
  assumes "server_inv st" and "enabled st e" and "server_step env now st e = Ret st'"
  shows "server_inv st'"
proof (cases "rule_engine_event e")
  case True
  then obtain v m node rsc where "e = Received v m node rsc" by (auto simp: rule_engine_event_def split: server_event.splits)
  then show ?thesis using received_inv[OF assms(1), of env v m node rsc] assms(3) by (auto simp: bind_outcome_Ret_iff)
next
  case False
  then show ?thesis using server_step_meets[OF assms(1,2), of now env] assms(3) by simp
qed

lemma reachable_inv: "reachable env st \<Longrightarrow> server_inv st"
proof (induction rule: reachable.induct)
  case (start invalid_level c)
  show ?case by (simp add: server_inv_def linked_def new_CollectorServer_def new_VizSession_def)
next
  case (step st e now st')
  then show ?case by (blast intro: server_step_inv)
qed


lemma less_next: "(r :: u32) \<noteq> - 1 \<Longrightarrow> r < r + 1"
proof -
  assume "r \<noteq> - 1"
  have "uint (- 1 :: u32) = 4294967295" by (simp add: unsigned_minus_1_eq_mask mask_eq_exp_minus_1)
  with \<open>r \<noteq> - 1\<close> have "uint r \<noteq> 4294967295" by (metis word_uint_eqI)
  then have "uint r + 1 < 2 ^ 32" using uint_lt2p[of r] by simp
  then have "uint (r + 1) = uint r + 1" by (simp add: uint_plus_if_size word_size)
  then show ?thesis by (simp add: word_less_def)
qed

text \<open>The summary lists the connected generators, as long as no generator was reset \<open>2\<^sup>3\<^sup>2 - 1\<close> times.\<close>

theorem summary_lists_connected:
  assumes "reachable env st" and "list_all (\<lambda>(_, g). resets (gen_attr g) \<noteq> - 1) (gen_map st)"
  shows "map fst (GetGeneratorSummaryInfo st) = map fst (filter (\<lambda>(_, g). gen_session g \<noteq> None) (gen_map st))"
proof -
  have inv: "server_inv st" using reachable_inv[OF assms(1)] .
  then have "distinct (map fst (gen_map st))" by (simp add: server_inv_def strict_sorted_iff)
  then have "gen_ok (sessions st) g" if "(i, g) \<in> set (gen_map st)" for i g using inv that by (auto simp: server_inv_def)
  then have "(resets (gen_attr g) < connects (gen_attr g)) = (gen_session g \<noteq> None)" if "(i, g) \<in> set (gen_map st)" for i g
    using that assms(2) less_next by (fastforce simp: gen_ok_def list_all_iff)
  then have "filter (\<lambda>(_, g). resets (gen_attr g) < connects (gen_attr g)) (gen_map st) = filter (\<lambda>(_, g). gen_session g \<noteq> None) (gen_map st)"
    by (intro filter_cong) auto
  then show ?thesis by (simp add: GetGeneratorSummaryInfo_def case_prod_beta comp_def)
qed





end
