(* ===== verification/Spec2Isabelle.thy ===== *)
theory Spec2Isabelle
  imports Set_Operation Post_Parse Query_Service Written_Read Usrdef_Counters Structured_Syslog_Server Generators
begin

text \<open>
  A verification library for the analytics services of tungstenfabric: the query engine
  (\<open>src/contrail-query-engine\<close>), which answers queries over messages, flows, sessions and statistics, and
  the collector (\<open>src/contrail-collector\<close>), which receives messages, publishes and writes them.

  \<^bold>\<open>How a query runs.\<close> \<open>QEOpServerProxy\<close> takes a query id from redis, reads the query and asks the query
  engine to prepare it: the time range is clamped to the retention of the table and cut into chunks
  (\<open>Query_Time\<close>). Parallel instances claim the chunks; for each chunk they run every OR term of the WHERE
  clause (\<open>Where_Query\<close>), each term being a set of database queries (\<open>Db_Query\<close>) whose results are united or
  intersected (\<open>Set_Operation\<close>), then SELECT (\<open>Select_Query\<close>, \<open>Stats_Select\<close>) and the post-processing
  (\<open>Post_Processing\<close>, \<open>Post_Parse\<close>). The instances' rows are merged (\<open>Query_Pipeline\<close>) and written to redis
  (\<open>Query_Service\<close>).

  \<^bold>\<open>How a message is collected.\<close> A session of the collector belongs to the generator that named itself on it
  (\<open>Generators\<close>); back pressure of the database defers its queue. A sandesh message is counted (\<open>Viz_Message\<close>) and passes the rule engine
  (\<open>Collector\<close>): it is published as a UVE, dropped at a level that depends on the load of the database
  (\<open>Db_Drop\<close>), or written with one row per object it names (\<open>Rule_Engine\<close>, \<open>Db_Handler\<close>); its annotated
  attributes become statistics (\<open>Stat_Walker\<close>), session messages go to their own table (\<open>Session_Table\<close>), and
  the rules of the rule file are executed (\<open>Rule_Parser\<close>). Patterns over texts feed counters
  (\<open>Usrdef_Counters\<close>). Plain syslog becomes such a message (\<open>Syslog_Collector\<close>). Structured syslog has a path
  of its own: bytes are cut into messages (\<open>Structured_Syslog_Server\<close>), their attributes are read and completed
  from the configuration (\<open>Structured_Syslog\<close>, \<open>Syslog_Config\<close>), summarised as UVEs (\<open>Sdwan_Uve\<close>), stored as
  statistics and forwarded. \<open>Written_Read\<close> joins what is written with what a query returns.

  \<^bold>\<open>Theories and sources.\<close>
  \<^item> \<open>Prelude\<close>: machine integers, outcomes of code that may abort, strings and their numeric scans, ordered
    association lists. \<open>Std_Algorithms\<close>: \<open>std::sort\<close>, \<open>set_union\<close>, \<open>set_intersection\<close>, \<open>merge\<close> over a
    comparator, in the locales \<open>strict_weak_ordering\<close> and \<open>strict_total_ordering\<close>. \<open>Json\<close>: parsed
    documents and checked access to them.
  \<^item> \<open>Db_Values\<close>, \<open>Set_Operation\<close>: the values of the store, the unit of a WHERE result, its
    \<open>operator<\<close> and \<open>SetOperationUnit::op_and\<close>, \<open>op_or\<close> (\<open>set_operation.cc\<close>, \<open>query.cc\<close>).
  \<^item> \<open>Query_Tables\<close>, \<open>Query_Rows\<close>: kinds of tables, schemas, \<open>StatsQuery\<close>, aggregates and result rows
    (\<open>query.cc\<close>, \<open>stats_query.cc\<close>, \<open>QEOpServerProxy.h\<close>).
  \<^item> \<open>Query_Time\<close>: \<open>parse_time\<close>, the clamping of the range and its cutting into chunks (\<open>query.cc\<close>,
    \<open>utils.cc\<close>). \<open>Db_Query\<close>: row keys, the fetch pipeline and \<open>cb\<close> (\<open>db_query.cc\<close>).
  \<^item> \<open>Where_Query\<close>: \<open>where_query.cc\<close> as a whole. \<open>Select_Query\<close>, \<open>Stats_Select\<close>: \<open>select.cc\<close> without the
    branch for sessions and flows, and \<open>stats_select.cc\<close>. \<open>Post_Processing\<close>, \<open>Post_Parse\<close>:
    \<open>post_processing.cc\<close>.
  \<^item> \<open>Query_Pipeline\<close>, \<open>Query_Service\<close>: \<open>QEOpServerProxy.cc\<close>: the two stages of a query as functions and
    their interleavings as a step relation; rendering, redis commands, admission. What the pipeline needs of
    accumulating chunks is the locale \<open>chunk_accumulation\<close>, interpreted for maps and buffers, merged or not.
  \<^item> \<open>Db_Handler\<close>, \<open>Db_Drop\<close>, \<open>Session_Table\<close>: the insertions of \<open>db_handler.cc\<close> as functions on the state of
    the handler, its drop levels and water marks, and session samples.
  \<^item> \<open>Xml\<close>, \<open>Viz_Message\<close>, \<open>Stat_Walker\<close>: documents as \<open>pugixml\<close> presents them, messages and their counters
    (\<open>viz_message.cc\<close>), the stack of tags of \<open>stat_walker.cc\<close>.
  \<^item> \<open>Rule_Parser\<close>, \<open>Rule_Engine\<close>, \<open>Collector\<close>: the rules of \<open>t_ruleparser\<close>, the handlers of \<open>ruleeng.cc\<close> and
    \<open>rule_execute\<close> composed of them. \<open>Usrdef_Counters\<close>: \<open>usrdef_counters.cc\<close> and the line parser.
  \<^item> \<open>Generators\<close>: \<open>generator.cc\<close> and \<open>collector.cc\<close>: sessions and generators as a state machine with reachable
    states, driven by the events of the sandesh library, the database and timers.
  \<^item> \<open>Syslog_Collector\<close>: \<open>syslog_collector.cc\<close> behind its grammar. \<open>Syslog_Config\<close>:
    \<open>structured_syslog_config.cc\<close>: records, networks of the VPNs, message configurations, session counters.
  \<^item> \<open>Structured_Syslog\<close>, \<open>Sdwan_Uve\<close>, \<open>Structured_Syslog_Server\<close>: \<open>structured_syslog_server.cc\<close>: attributes and
    completion; the summaries; framing, the treatment of a message and the forwarder. The locale \<open>framed_stream\<close> states
    what a session needs of the scanner of its buffer.

  \<^bold>\<open>What is shown.\<close> Set operations, filters, limits, sorting and merging meet their mathematical
  specification; aggregation conserves sums and counts through every merge; the asynchronous parts
  (database fetches, completions of sub-queries, instances of a query) give the same result in every
  order of events; row keys cover the time range and chunks partition it; results read back from redis are
  the rendered rows; admission keeps its bounds as long as no query id is queued twice; and a message the collector accepts is returned, with the
  columns it was sent with, by a query over its time. On the side of the collector: every message is treated in
  exactly one of the ways above, sessions and generators stay linked one to one, a deferred queue is released and the assertions that can fail are known, statistics are recorded with their inherited tags, counters count each
  message once, configuration follows the documents; a TCP stream of structured syslog is handled as the
  messages in it, however it is cut; the bytes reported for a session add up to its final counters; lookups find
  the most specific network; completion keeps the fields of a message. Properties of kind \<open>error\<close> state
  where the code departs from what it means to do.

  \<^bold>\<open>Bounds and non-termination.\<close> Recursion is structural or has a termination proof. The loop over T2
  values does not end when the last one is the largest 32-bit number, so it is a partial function into
  \<open>option\<close>; the theorems about it bound the end of the range (2^55 - 2^23 microseconds, the year 3111) and
  prove that it returns. Two more loops may run forever and are partial functions: the search of a regular
  expression that matches the empty string (\<open>search_loop\<close>; the theorems show when it returns and when not) and
  the loop over a syslog buffer (\<open>process_loop\<close>; it returns on every stream of counted messages).
  32- and 64-bit integers are words; where a theorem needs no overflow it says so.

  \<^bold>\<open>Code outside the repository\<close> (the column store, redis, the JSON and XML parsers and writers, regular
  expressions, \<open>boost::split\<close>, \<open>iequals\<close>, the calendar, t-digests, the sandesh message builder, TCP sessions, uuid
  and random generators, arithmetic on \<open>double\<close>) is an argument, as is the \<open>boost::spirit\<close> grammar of syslog; what a
  theorem relies on is among its hypotheses; for \<open>double\<close> these are the rounding laws of IEEE 754 (\<open>double_arithmetic\<close> in
  \<open>Sdwan_Uve\<close>).

  \<^bold>\<open>Not modelled.\<close> Log and trace messages, timing statistics and introspect handlers; process start-up,
  option parsing and sockets; the Python services; generated parsers; the redis and Kafka clients that carry
  UVEs, whose updates are scripts run by redis; the sFlow data structures, whose decoder is elsewhere.
\<close>

end
